(* ===== verification/C_Prelude.thy ===== *)
theory C_Prelude
  imports Main "HOL-Library.Word" "HOL-Library.Monad_Syntax"
begin

text \<open>
  Shared vocabulary of the development: what the C sources use of the language and its
  standard library, and the generic lemmas every component relies on.

  \<^item> A C string is a HOL \<open>string\<close> (a list of bytes) without the terminating NUL; a
    character array is the list of all its bytes, and \<open>cstr\<close> reads the string it holds.
  \<^item> A value of type \<open>'a ub\<close> is the outcome of C code that may run into undefined
    behaviour (an access out of bounds, a dereferenced NULL): \<open>None\<close> is undefined
    behaviour, \<open>Some r\<close> is a normal return. The do-notation of \<open>Monad_Syntax\<close> chains such
    outcomes.
  \<^item> The C type \<open>int\<close> is \<open>int\<close>, with \<open>c_int\<close> written out where a conversion can wrap.
\<close>

named_theorems ub_elims \<open>facts that take an outcome of the undefined-behaviour monad apart\<close>
named_theorems c_string \<open>facts on C strings and character arrays\<close>
named_theorems decimal \<open>facts on decimal printing and parsing\<close>

type_synonym 'a ub = "'a option"

abbreviation NUL :: char where "NUL \<equiv> CHR 0x00"

section \<open>The monad of outcomes\<close>

lemma ub_bind_Some [ub_elims]:
  "Option.bind m f = Some r \<longleftrightarrow> (\<exists>x. m = Some x \<and> f x = Some r)"
  by (cases m) auto

lemma ub_bind_pair_Some [ub_elims]:
  "Option.bind m (\<lambda>(x, y). f x y) = Some r \<longleftrightarrow> (\<exists>x y. m = Some (x, y) \<and> f x y = Some r)"
  by (cases m) auto

lemma ub_bind_total: "(\<exists>x. m = Some x) \<Longrightarrow> (\<And>x. m = Some x \<Longrightarrow> \<exists>y. f x = Some y) \<Longrightarrow>
    \<exists>y. Option.bind m f = Some y"
  by auto

section \<open>Character arrays\<close>

definition cstr :: "char list \<Rightarrow> string" where
  "cstr buf = takeWhile (\<lambda>c. c \<noteq> NUL) buf"

text \<open>\<open>strncpy(buf, s, k)\<close> on a buffer of \<open>n\<close> zero bytes.\<close>

definition strncpy_zeroed :: "nat \<Rightarrow> nat \<Rightarrow> string \<Rightarrow> char list" where
  "strncpy_zeroed n k s = take k s @ replicate (n - length (take k s)) NUL"

text \<open>\<open>snprintf(buf, n, ...)\<close>: the string the buffer holds afterwards, for the text \<open>s\<close> the
  format expands to. The return value of the call is \<open>length s\<close>.\<close>

definition snprintf_str :: "nat \<Rightarrow> string \<Rightarrow> string" where
  "snprintf_str n s = take (n - 1) s"

lemma cstr_Nil [simp, c_string]: "cstr [] = []"
  by (simp add: cstr_def)

lemma cstr_Cons [simp, c_string]: "cstr (c # cs) = (if c = NUL then [] else c # cstr cs)"
  by (simp add: cstr_def)

lemma cstr_no_nul [simp, c_string]: "NUL \<notin> set (cstr buf)"
  by (induction buf) auto

lemma cstr_append_nul [c_string]: "NUL \<notin> set s \<Longrightarrow> cstr (s @ NUL # r) = s"
  by (induction s) auto

lemma cstr_id [c_string]: "NUL \<notin> set s \<Longrightarrow> cstr s = s"
  by (induction s) auto

lemma length_cstr [c_string]: "length (cstr buf) \<le> length buf"
  by (induction buf) auto

lemma length_cstr_less [c_string]: "NUL \<in> set buf \<Longrightarrow> length (cstr buf) < length buf"
  by (induction buf) auto

lemma cstr_padded [c_string]: "NUL \<notin> set s \<Longrightarrow> cstr (s @ replicate n NUL) = s"
  by (cases n) (auto simp: cstr_append_nul cstr_id)

lemma length_strncpy_zeroed [simp, c_string]:
  "k \<le> n \<Longrightarrow> length (strncpy_zeroed n k s) = n"
  by (simp add: strncpy_zeroed_def)

lemma cstr_strncpy_zeroed [c_string]:
  "NUL \<notin> set s \<Longrightarrow> cstr (strncpy_zeroed n k s) = take k s"
  unfolding strncpy_zeroed_def by (rule cstr_padded) (auto dest: in_set_takeD)

lemma snprintf_str_fits [c_string]: "length s < n \<Longrightarrow> snprintf_str n s = s"
  by (simp add: snprintf_str_def)

lemma length_snprintf_str [c_string]: "0 < n \<Longrightarrow> length (snprintf_str n s) < n"
  by (simp add: snprintf_str_def)

lemma snprintf_str_no_nul [c_string]: "NUL \<notin> set s \<Longrightarrow> NUL \<notin> set (snprintf_str n s)"
  by (auto simp: snprintf_str_def dest: in_set_takeD)

section \<open>Integers\<close>

text \<open>Conversion to a 32-bit \<open>int\<close>, as gcc does it: reduction modulo \<open>2 ^ 32\<close>.\<close>

definition c_int :: "int \<Rightarrow> int" where
  "c_int x = (x + 2147483648) mod 4294967296 - 2147483648"

lemma c_int_range: "- 2147483648 \<le> c_int x \<and> c_int x \<le> 2147483647"
proof -
  have "0 \<le> (x + 2147483648) mod 4294967296" by simp
  moreover have "(x + 2147483648) mod 4294967296 < 4294967296" by simp
  ultimately show ?thesis unfolding c_int_def by linarith
qed

lemma c_int_id [simp]: "- 2147483648 \<le> x \<Longrightarrow> x \<le> 2147483647 \<Longrightarrow> c_int x = x"
  by (simp add: c_int_def)

section \<open>Decimal text\<close>

fun nat_to_dec :: "nat \<Rightarrow> string" where
  "nat_to_dec n =
     (if n < 10 then [char_of (48 + n)] else nat_to_dec (n div 10) @ [char_of (48 + n mod 10)])"

declare nat_to_dec.simps [simp del]

definition int_to_dec :: "int \<Rightarrow> string" where
  "int_to_dec i = (if i < 0 then CHR ''-'' # nat_to_dec (nat (- i)) else nat_to_dec (nat i))"

definition is_digit :: "char \<Rightarrow> bool" where
  "is_digit c \<longleftrightarrow> 48 \<le> (of_char c :: nat) \<and> (of_char c :: nat) \<le> 57"

definition digit_val :: "char \<Rightarrow> nat" where
  "digit_val c = of_char c - 48"

fun dec_acc :: "nat \<Rightarrow> string \<Rightarrow> nat" where
  "dec_acc a [] = a"
| "dec_acc a (c # cs) = (if is_digit c then dec_acc (10 * a + digit_val c) cs else a)"

definition is_space :: "char \<Rightarrow> bool" where
  "is_space c \<longleftrightarrow> c \<in> {CHR 0x20, CHR 0x09, CHR 0x0A, CHR 0x0B, CHR 0x0C, CHR 0x0D}"

text \<open>The number at the beginning of a text: white space, an optional sign, the longest run of digits.\<close>

definition dec_value :: "string \<Rightarrow> int" where
  "dec_value s =
     (case dropWhile is_space s of
        [] \<Rightarrow> 0
      | c # cs \<Rightarrow>
          if c = CHR ''-'' then - int (dec_acc 0 cs)
          else if c = CHR ''+'' then int (dec_acc 0 cs)
          else int (dec_acc 0 (c # cs)))"

text \<open>\<open>atoi\<close> is \<open>strtol\<close>, which stops at the ends of \<open>long\<close>, cut to an \<open>int\<close>, as its manual page has
  it; the C standard leaves it undefined for a number that is no \<open>int\<close>.\<close>

definition atoi :: "string \<Rightarrow> int" where
  "atoi s = c_int (max (- (2 ^ 63)) (min (2 ^ 63 - 1) (dec_value s)))"

lemma of_char_digit [simp]: "n < 10 \<Longrightarrow> of_char (char_of (48 + n) :: char) = 48 + (n :: nat)"
  by (simp add: of_char_of)

lemma is_digit_char [simp]: "(n :: nat) < 10 \<Longrightarrow> is_digit (char_of (48 + n))"
  by (simp add: is_digit_def)

lemma digit_val_char [simp]: "n < 10 \<Longrightarrow> digit_val (char_of (48 + n)) = n"
  by (simp add: digit_val_def)

lemma nat_to_dec_digits [decimal]: "c \<in> set (nat_to_dec n) \<Longrightarrow> is_digit c"
proof (induction n arbitrary: c rule: nat_to_dec.induct)
  case (1 n)
  then show ?case
    by (cases "n < 10") (auto simp: nat_to_dec.simps [of n])
qed

lemma nat_to_dec_nonempty [simp, decimal]: "nat_to_dec n \<noteq> []"
  by (subst nat_to_dec.simps) simp

lemma dec_acc_append: "(\<And>c. c \<in> set s \<Longrightarrow> is_digit c) \<Longrightarrow> dec_acc a (s @ r) = dec_acc (dec_acc a s) r"
  by (induction s arbitrary: a) auto

lemma dec_acc_nat_to_dec [decimal]: "dec_acc 0 (nat_to_dec n) = n"
proof (induction n rule: nat_to_dec.induct)
  case (1 n)
  show ?case
  proof (cases "n < 10")
    case True
    then show ?thesis by (simp add: nat_to_dec.simps [of n])
  next
    case False
    with 1 show ?thesis
      by (simp add: nat_to_dec.simps [of n] dec_acc_append nat_to_dec_digits)
  qed
qed

lemma digit_not_special [decimal]:
  "is_digit c \<Longrightarrow> \<not> is_space c \<and> c \<noteq> CHR ''-'' \<and> c \<noteq> CHR ''+'' \<and> c \<noteq> NUL \<and> c \<noteq> CHR 0x27"
  by (auto simp: is_digit_def is_space_def)

lemma dec_value_nat_to_dec [decimal]: "dec_value (nat_to_dec n) = int n"
proof -
  obtain c cs where s: "nat_to_dec n = c # cs"
    by (cases "nat_to_dec n") auto
  then have "is_digit c" using nat_to_dec_digits [of c n] by simp
  then have "\<not> is_space c" "c \<noteq> CHR ''-''" "c \<noteq> CHR ''+''"
    using digit_not_special by auto
  then show ?thesis
    using dec_acc_nat_to_dec [of n] by (simp add: dec_value_def s)
qed

lemma dec_value_int_to_dec [simp, decimal]: "dec_value (int_to_dec i) = i"
proof (cases "i < 0")
  case True
  then show ?thesis
    by (simp add: int_to_dec_def dec_value_def is_space_def dec_acc_nat_to_dec)
next
  case False
  then show ?thesis by (simp add: int_to_dec_def dec_value_nat_to_dec)
qed

lemma atoi_nat_to_dec: "n < 2 ^ 31 \<Longrightarrow> atoi (nat_to_dec n) = int n"
  by (simp add: atoi_def dec_value_nat_to_dec min_def)

lemma length_nat_to_dec: "0 < k \<Longrightarrow> n < 10 ^ k \<Longrightarrow> length (nat_to_dec n) \<le> k"
proof (induction n arbitrary: k rule: nat_to_dec.induct)
  case (1 n)
  show ?case
  proof (cases "n < 10")
    case True
    then show ?thesis using 1(2) by (simp add: nat_to_dec.simps [of n])
  next
    case False
    with 1(3) have "k \<noteq> 1" by auto
    with 1(2) obtain j where k: "k = Suc j" "0 < j"
      by (cases k) auto
    then have "n div 10 < 10 ^ j" using 1(3) by simp
    with 1(1) [OF _ k(2)] False k show ?thesis by (simp add: nat_to_dec.simps [of n])
  qed
qed

lemma int_to_dec_inj [decimal]: "int_to_dec i = int_to_dec j \<longleftrightarrow> i = j"
  by (metis dec_value_int_to_dec)

end
