(* ===== verification/Path_Utils.thy ===== *)
theory Path_Utils
  imports C_Prelude "HOL-Library.Sublist"
begin

text \<open>
  Path checks and path building (\<open>include/path_utils.h\<close>, \<open>src/server/path_utils.c\<close>). The
  outcome of \<open>access(p, F_OK)\<close> is the parameter \<open>exists_path\<close>. A function that fills a
  buffer returns the code and the string the buffer holds afterwards.
\<close>

definition SERVER_BASE_DIR :: string where
  "SERVER_BASE_DIR = ''../test''"

definition get_server_base_dir :: "(string \<Rightarrow> bool) \<Rightarrow> string" where
  "get_server_base_dir exists_path =
     (if exists_path SERVER_BASE_DIR then SERVER_BASE_DIR
      else if exists_path ''./test'' then ''./test''
      else SERVER_BASE_DIR)"

fun strstr_found :: "string \<Rightarrow> string \<Rightarrow> bool" where
  "strstr_found [] needle = (needle = [])"
| "strstr_found (c # cs) needle = (prefix needle (c # cs) \<or> strstr_found cs needle)"

definition check_arg_path :: "string option \<Rightarrow> int" where
  "check_arg_path arg =
     (case arg of
        None \<Rightarrow> - 1
      | Some s \<Rightarrow>
          if s = [] then - 1
          else if strstr_found s ''..'' then - 1
          else if hd s = CHR ''/'' then - 1
          else 0)"

definition get_current_real_path :: "(string \<Rightarrow> bool) \<Rightarrow> int \<Rightarrow> string \<Rightarrow> int \<times> string" where
  "get_current_real_path exists_path sz current_path =
     (let full = get_server_base_dir exists_path @ current_path in
      (if int (length full) \<ge> sz then - 1 else 0, snprintf_str (nat sz) full))"

definition get_real_path ::
    "(string \<Rightarrow> bool) \<Rightarrow> string \<Rightarrow> int \<Rightarrow> string \<Rightarrow> string option \<Rightarrow> int \<times> string" where
  "get_real_path exists_path res sz path arg =
     (if check_arg_path arg = - 1 then (- 1, res)
      else
        let base_dir = get_server_base_dir exists_path;
            full = (if path = ''/'' then base_dir @ ''/'' @ the arg
                    else base_dir @ path @ ''/'' @ the arg)
        in (if int (length full) \<ge> sz then - 1 else 0, snprintf_str (nat sz) full))"

definition update_current_path :: "string \<Rightarrow> int \<Rightarrow> string \<Rightarrow> int \<times> string" where
  "update_current_path current_path sz arg =
     (let full = (if current_path = ''/'' then ''/'' @ arg else current_path @ ''/'' @ arg);
          new_path = snprintf_str 512 full
      in if int (length full) \<ge> sz then (- 1, current_path) else (0, new_path))"

section \<open>The components of a path\<close>

fun split_path :: "string \<Rightarrow> string \<Rightarrow> string list" where
  "split_path acc [] = [acc]"
| "split_path acc (c # cs) = (if c = CHR ''/'' then acc # split_path [] cs else split_path (acc @ [c]) cs)"

text \<open>How deep below its start a relative walk along the components ends; \<open>None\<close> when it
  leaves the start directory on the way.\<close>

fun walk_depth :: "nat \<Rightarrow> string list \<Rightarrow> nat option" where
  "walk_depth d [] = Some d"
| "walk_depth d (c # cs) =
     (if c = [] \<or> c = ''.'' then walk_depth d cs
      else if c = ''..'' then (case d of 0 \<Rightarrow> None | Suc e \<Rightarrow> walk_depth e cs)
      else walk_depth (Suc d) cs)"

lemma strstr_found_sublist: "strstr_found s needle \<longleftrightarrow> sublist needle s"
  by (induction s) (auto simp: sublist_Cons_right)

lemma sublist_dotdot_append_slash:
  "sublist ''..'' (a @ CHR ''/'' # b) \<longleftrightarrow> sublist ''..'' a \<or> sublist ''..'' b"
proof (induction a)
  case Nil
  then show ?case by (simp add: sublist_Cons_right)
next
  case (Cons c a)
  then show ?case
    by (cases a) (auto simp: sublist_Cons_right)
qed

lemma split_path_sublist: "c \<in> set (split_path acc s) \<Longrightarrow> sublist c (acc @ s)"
proof (induction acc s arbitrary: c rule: split_path.induct)
  case (1 acc)
  then show ?case by simp
next
  case (2 acc x xs)
  show ?case
  proof (cases "x = CHR ''/''")
    case True
    with 2 show ?thesis
      by (auto intro: sublist_appendI dest!: "2.IH"(1) intro: sublist_order.order.trans [OF _ suffix_imp_sublist]
          simp: suffix_def)
  next
    case False
    with 2 show ?thesis by auto
  qed
qed

lemma walk_depth_no_dotdot: "''..'' \<notin> set cs \<Longrightarrow> \<exists>e\<ge>d. walk_depth d cs = Some e"
proof (induction cs arbitrary: d)
  case Nil
  then show ?case by simp
next
  case (Cons c cs)
  from Cons.IH [of d] Cons.IH [of "Suc d"] Cons.prems show ?case
    by (auto intro: Suc_leD)
qed

lemma get_real_path_ok:
  assumes "get_real_path ex res sz path arg = (0, out)"
  shows "\<exists>a. arg = Some a \<and> a \<noteq> [] \<and> \<not> sublist ''..'' a \<and> hd a \<noteq> CHR ''/'' \<and>
    out = get_server_base_dir ex @ (if path = ''/'' then [] else path) @ CHR ''/'' # a \<and>
    int (length out) < sz"
  using assms
  by (auto simp: get_real_path_def check_arg_path_def Let_def strstr_found_sublist snprintf_str_def
      split: if_splits option.splits)

text \<open>C27: a path that \<open>get_real_path\<close> accepts lies under the server's base directory: it is the
  base directory followed by a suffix that fits the buffer unshortened, and walking the suffix
  component by component never climbs above the base, provided the virtual path of the session
  has no \<open>..\<close> in it.\<close>

theorem get_real_path_sandboxed:
  assumes "get_real_path ex res sz path arg = (0, out)" "\<not> strstr_found path ''..''"
  shows "\<exists>suffix. out = get_server_base_dir ex @ suffix \<and> int (length out) < sz \<and>
    walk_depth 0 (split_path [] suffix) \<noteq> None"
proof -
  obtain a where a: "\<not> sublist ''..'' a"
      "out = get_server_base_dir ex @ (if path = ''/'' then [] else path) @ CHR ''/'' # a"
      "int (length out) < sz"
    using get_real_path_ok [OF assms(1)] by blast
  let ?s = "(if path = ''/'' then [] else path) @ CHR ''/'' # a"
  have "\<not> sublist ''..'' ?s"
    using a(1) assms(2) by (subst sublist_dotdot_append_slash) (auto simp: strstr_found_sublist)
  then have "''..'' \<notin> set (split_path [] ?s)" using split_path_sublist [of "''..''" "[]" ?s] by auto
  from walk_depth_no_dotdot [OF this, of 0] a(2,3) show ?thesis by auto
qed

theorem get_real_path_sandboxed_witness:
  "\<exists>suffix. ''../test/docs/a.txt'' = get_server_base_dir (\<lambda>p. True) @ suffix \<and>
    walk_depth 0 (split_path [] suffix) \<noteq> None"
proof -
  have "get_real_path (\<lambda>p. True) [] 1024 ''/docs'' (Some ''a.txt'') = (0, ''../test/docs/a.txt'')"
    by code_simp
  moreover have "\<not> strstr_found ''/docs'' ''..''" by code_simp
  ultimately show ?thesis using get_real_path_sandboxed by blast
qed

text \<open>The argument check rejects exactly the missing, the empty and the absolute argument and
  every argument with two consecutive dots anywhere in it.\<close>

lemma check_arg_path_iff:
  "check_arg_path arg = 0 \<longleftrightarrow>
     (\<exists>a. arg = Some a \<and> a \<noteq> [] \<and> \<not> sublist ''..'' a \<and> hd a \<noteq> CHR ''/'')"
  by (auto simp: check_arg_path_def strstr_found_sublist split: option.splits)

end
