(* ===== verification/Fd_Queue.thy ===== *)
theory Fd_Queue
  imports C_Prelude
begin

text \<open>
  The task queue of the server (\<open>include/queue.h\<close>, \<open>src/server/queue.c\<close>): a singly linked
  list with head and tail pointers. Nodes live in an explicit heap, a map from addresses to
  nodes; \<open>None\<close> as a pointer is NULL. Dereferencing NULL or a freed node is undefined
  behaviour, the outcome \<open>None\<close>. The address \<open>calloc\<close> returns is an argument of
  \<open>enQueue\<close>: \<open>Some a\<close> for a fresh address, \<open>None\<close> for a failed allocation.

  The locale \<open>fifo\<close> is the contract the thread pool relies on; it is interpreted on the
  linked list at the end of the theory.
\<close>

section \<open>The linked list\<close>

type_synonym addr = nat

record node =
  node_fd :: int
  node_next :: "addr option"

record queue =
  q_heap :: "addr \<rightharpoonup> node"
  q_head :: "addr option"
  q_end :: "addr option"
  q_size :: int

definition empty_queue :: queue where
  "empty_queue = \<lparr>q_heap = Map.empty, q_head = None, q_end = None, q_size = 0\<rparr>"

definition enQueue :: "addr option \<Rightarrow> queue \<Rightarrow> int \<Rightarrow> (int \<times> queue) ub" where
  "enQueue pNew q fd =
     (case pNew of
        None \<Rightarrow> None
      | Some a \<Rightarrow>
          let h = (q_heap q)(a \<mapsto> \<lparr>node_fd = fd, node_next = None\<rparr>) in
          if q_size q = 0
          then Some (0, q\<lparr>q_heap := h, q_head := Some a, q_end := Some a, q_size := q_size q + 1\<rparr>)
          else (case q_end q of
                  None \<Rightarrow> None
                | Some e \<Rightarrow>
                    (case h e of
                       None \<Rightarrow> None
                     | Some n \<Rightarrow>
                         Some (0, q\<lparr>q_heap := h(e \<mapsto> n\<lparr>node_next := Some a\<rparr>), q_end := Some a,
                                    q_size := q_size q + 1\<rparr>))))"

definition deQueue :: "queue \<Rightarrow> (int \<times> queue) ub" where
  "deQueue q =
     (if q_size q = 0 then Some (- 1, q)
      else (case q_head q of
              None \<Rightarrow> None
            | Some p \<Rightarrow>
                (case q_heap q p of
                   None \<Rightarrow> None
                 | Some n \<Rightarrow>
                     Some (node_fd n,
                           q\<lparr>q_head := node_next n,
                             q_end := (if q_size q = 1 then None else q_end q),
                             q_size := q_size q - 1,
                             q_heap := (q_heap q)(p := None)\<rparr>))))"

section \<open>Representation invariant and abstraction\<close>

primrec chain :: "(addr \<rightharpoonup> node) \<Rightarrow> addr option \<Rightarrow> addr list \<Rightarrow> addr option \<Rightarrow> bool" where
  "chain h p [] r \<longleftrightarrow> p = r"
| "chain h p (a # as) r \<longleftrightarrow> p = Some a \<and> (\<exists>n. h a = Some n \<and> chain h (node_next n) as r)"

definition queue_nodes :: "queue \<Rightarrow> addr list \<Rightarrow> bool" where
  "queue_nodes q as \<longleftrightarrow>
     chain (q_heap q) (q_head q) as None \<and> distinct as \<and> q_size q = int (length as) \<and>
     q_end q = (if as = [] then None else Some (last as)) \<and> dom (q_heap q) = set as"

definition queue_inv :: "queue \<Rightarrow> bool" where
  "queue_inv q \<longleftrightarrow> (\<exists>as. queue_nodes q as)"

fun walk :: "(addr \<rightharpoonup> node) \<Rightarrow> addr option \<Rightarrow> nat \<Rightarrow> int list" where
  "walk h p 0 = []"
| "walk h None (Suc n) = []"
| "walk h (Some a) (Suc n) =
     (case h a of None \<Rightarrow> [] | Some x \<Rightarrow> node_fd x # walk h (node_next x) n)"

text \<open>The descriptors in the queue, oldest first.\<close>

definition queue_content :: "queue \<Rightarrow> int list" where
  "queue_content q = walk (q_heap q) (q_head q) (nat (q_size q))"

definition fresh_node :: "addr option \<Rightarrow> queue \<Rightarrow> bool" where
  "fresh_node pNew q \<longleftrightarrow> (\<exists>a. pNew = Some a \<and> q_heap q a = None)"

lemma chain_upd: "a \<notin> set as \<Longrightarrow> chain (h(a := v)) p as r = chain h p as r"
  by (induction as arbitrary: p) auto

lemma chain_mapped: "chain h p as r \<Longrightarrow> a \<in> set as \<Longrightarrow> h a \<noteq> None"
  by (induction as arbitrary: p) auto

lemma chain_append: "chain h p (as @ bs) r \<longleftrightarrow> (\<exists>m. chain h p as m \<and> chain h m bs r)"
  by (induction as arbitrary: p) auto

lemma walk_chain:
  "chain h p as None \<Longrightarrow> walk h p (length as) = map (\<lambda>a. node_fd (the (h a))) as"
  by (induction as arbitrary: p) auto

lemma queue_content_nodes:
  "queue_nodes q as \<Longrightarrow> queue_content q = map (\<lambda>a. node_fd (the (q_heap q a))) as"
  by (simp add: queue_nodes_def queue_content_def walk_chain)

lemma queue_nodes_empty: "queue_nodes empty_queue []"
  by (simp add: queue_nodes_def empty_queue_def)

lemma queue_inv_empty [simp]: "queue_inv empty_queue"
  using queue_nodes_empty by (auto simp: queue_inv_def)

lemma chain_snoc:
  assumes "chain h p (as @ [e]) None" "distinct (as @ [e])" "h a = None"
  shows "\<exists>n. h e = Some n \<and>
    chain (h(a \<mapsto> x, e \<mapsto> n\<lparr>node_next := Some a\<rparr>)) p (as @ [e]) (Some a)"
proof -
  from assms(1) obtain n where as: "chain h p as (Some e)" and n: "h e = Some n"
    by (auto simp: chain_append)
  have "a \<notin> set as" using chain_mapped [OF as, of a] assms(3) by auto
  moreover have "e \<notin> set as" using assms(2) by simp
  ultimately show ?thesis using as n by (auto simp: chain_append chain_upd)
qed

lemma enQueue_nodes:
  assumes "queue_nodes q as" "q_heap q a = None"
  shows "\<exists>q'. enQueue (Some a) q fd = Some (0, q') \<and> queue_nodes q' (as @ [a]) \<and>
    queue_content q' = queue_content q @ [fd]"
proof (cases as rule: rev_cases)
  case Nil
  with assms show ?thesis
    by (auto simp: enQueue_def queue_nodes_def queue_content_def numeral_eq_Suc)
next
  case (snoc bs e)
  let ?x = "\<lparr>node_fd = fd, node_next = None\<rparr>"
  have ch: "chain (q_heap q) (q_head q) (bs @ [e]) None" "distinct (bs @ [e])"
    and sz: "q_size q = int (length bs) + 1" and en: "q_end q = Some e"
    using assms(1) snoc by (auto simp: queue_nodes_def)
  from chain_snoc [OF ch assms(2), of ?x] obtain n where n: "q_heap q e = Some n"
    and ch': "chain ((q_heap q)(a \<mapsto> ?x, e \<mapsto> n\<lparr>node_next := Some a\<rparr>)) (q_head q) (bs @ [e]) (Some a)"
    by blast
  have "e \<noteq> a" using n assms(2) by auto
  have a: "a \<notin> set (bs @ [e])" using chain_mapped [OF ch(1)] assms(2) by blast
  let ?q = "q\<lparr>q_heap := (q_heap q)(a \<mapsto> ?x, e \<mapsto> n\<lparr>node_next := Some a\<rparr>), q_end := Some a,
              q_size := q_size q + 1\<rparr>"
  have eq: "enQueue (Some a) q fd = Some (0, ?q)"
    using sz en n \<open>e \<noteq> a\<close> by (simp add: enQueue_def Let_def)
  have "chain ((q_heap q)(a \<mapsto> ?x, e \<mapsto> n\<lparr>node_next := Some a\<rparr>)) (q_head q) ((bs @ [e]) @ [a]) None"
    using ch' \<open>e \<noteq> a\<close> by (subst chain_append) auto
  then have nodes: "queue_nodes ?q (as @ [a])"
    using ch(2) a sz snoc assms(1) n by (auto simp: queue_nodes_def)
  have "map (\<lambda>b. node_fd (the (q_heap ?q b))) (as @ [a]) =
      map (\<lambda>b. node_fd (the (q_heap q b))) as @ [fd]"
    using a n \<open>e \<noteq> a\<close> snoc by auto
  then have "queue_content ?q = queue_content q @ [fd]"
    using queue_content_nodes [OF nodes] queue_content_nodes [OF assms(1)] by simp
  with eq nodes show ?thesis by blast
qed

lemma deQueue_nodes:
  assumes "queue_nodes q (a # as)"
  shows "\<exists>q'. deQueue q = Some (hd (queue_content q), q') \<and> queue_nodes q' as \<and>
    queue_content q' = tl (queue_content q) \<and> q_heap q' = (q_heap q)(a := None)"
proof -
  from assms obtain n where n: "q_head q = Some a" "q_heap q a = Some n"
      "chain (q_heap q) (node_next n) as None" and d: "a \<notin> set as" "distinct as"
    and sz: "q_size q = int (length as) + 1" and en: "q_end q = Some (last (a # as))"
    by (auto simp: queue_nodes_def)
  let ?q = "q\<lparr>q_head := node_next n, q_end := (if q_size q = 1 then None else q_end q),
              q_size := q_size q - 1, q_heap := (q_heap q)(a := None)\<rparr>"
  have "deQueue q = Some (node_fd n, ?q)"
    using n sz by (simp add: deQueue_def)
  moreover have nodes: "queue_nodes ?q as"
    using n d sz en assms by (auto simp: queue_nodes_def chain_upd)
  moreover have "queue_content q = node_fd n # map (\<lambda>b. node_fd (the (q_heap q b))) as"
    using queue_content_nodes [OF assms] n by simp
  moreover have "map (\<lambda>b. node_fd (the (((q_heap q)(a := None)) b))) as =
      map (\<lambda>b. node_fd (the (q_heap q b))) as"
    using d(1) by auto
  ultimately show ?thesis using queue_content_nodes [OF nodes] by simp
qed

lemma queue_size_content: "queue_inv q \<Longrightarrow> q_size q = int (length (queue_content q))"
  by (auto simp: queue_inv_def queue_content_nodes) (simp add: queue_nodes_def)

section \<open>The FIFO contract\<close>

datatype queue_op = Op_enq int | Op_deq

fun run_ops :: "('q \<Rightarrow> int \<Rightarrow> (int \<times> 'q) ub) \<Rightarrow> ('q \<Rightarrow> (int \<times> 'q) ub) \<Rightarrow> 'q \<Rightarrow> queue_op list \<Rightarrow>
    (int list \<times> 'q) ub" where
  "run_ops enq deq q [] = Some ([], q)"
| "run_ops enq deq q (Op_enq fd # ops) =
     (case enq q fd of None \<Rightarrow> None | Some (r, q') \<Rightarrow> run_ops enq deq q' ops)"
| "run_ops enq deq q (Op_deq # ops) =
     (case deq q of None \<Rightarrow> None
      | Some (fd, q') \<Rightarrow> map_option (\<lambda>(out, q''). (fd # out, q'')) (run_ops enq deq q' ops))"

text \<open>The specification: a list, taken from the front and extended at the back.\<close>

fun fifo_spec :: "int list \<Rightarrow> queue_op list \<Rightarrow> int list \<times> int list" where
  "fifo_spec xs [] = ([], xs)"
| "fifo_spec xs (Op_enq fd # ops) = fifo_spec (xs @ [fd]) ops"
| "fifo_spec [] (Op_deq # ops) = (case fifo_spec [] ops of (out, ys) \<Rightarrow> (- 1 # out, ys))"
| "fifo_spec (x # xs) (Op_deq # ops) = (case fifo_spec xs ops of (out, ys) \<Rightarrow> (x # out, ys))"

locale fifo =
  fixes inv :: "'q \<Rightarrow> bool"
    and fresh :: "'a \<Rightarrow> 'q \<Rightarrow> bool"
    and enq :: "'a \<Rightarrow> 'q \<Rightarrow> int \<Rightarrow> (int \<times> 'q) option"
    and deq :: "'q \<Rightarrow> (int \<times> 'q) option"
    and len :: "'q \<Rightarrow> int"
    and content :: "'q \<Rightarrow> int list"
  assumes enq_law: "inv q \<Longrightarrow> fresh a q \<Longrightarrow>
      \<exists>q'. enq a q fd = Some (0, q') \<and> inv q' \<and> content q' = content q @ [fd]"
    and deq_law: "inv q \<Longrightarrow> content q \<noteq> [] \<Longrightarrow>
      \<exists>q'. deq q = Some (hd (content q), q') \<and> inv q' \<and> content q' = tl (content q)"
    and deq_empty: "inv q \<Longrightarrow> content q = [] \<Longrightarrow> deq q = Some (- 1, q)"
    and len_law: "inv q \<Longrightarrow> len q = int (length (content q))"
begin

lemma run_refines:
  assumes "\<And>q. inv q \<Longrightarrow> fresh (alloc q) q" "inv q"
  shows "\<exists>q'. run_ops (\<lambda>q. enq (alloc q) q) deq q ops = Some (fst (fifo_spec (content q) ops), q') \<and>
    inv q' \<and> content q' = snd (fifo_spec (content q) ops)"
  using assms(2)
proof (induction ops arbitrary: q)
  case Nil
  then show ?case by simp
next
  case (Cons op ops)
  show ?case
  proof (cases op)
    case (Op_enq fd)
    obtain q1 where q1: "enq (alloc q) q fd = Some (0, q1)" "inv q1" "content q1 = content q @ [fd]"
      using enq_law [OF Cons.prems assms(1) [OF Cons.prems]] by blast
    from Cons.IH [OF q1(2)] q1 Op_enq show ?thesis by simp
  next
    case Op_deq
    show ?thesis
    proof (cases "content q")
      case Nil
      with Cons.IH [OF Cons.prems] deq_empty [OF Cons.prems] Op_deq show ?thesis
        by (auto split: prod.splits)
    next
      case (Cons x xs)
      then obtain q1 where q1: "deq q = Some (x, q1)" "inv q1" "content q1 = xs"
        using deq_law [OF Cons.prems] by auto
      from Cons.IH [OF q1(2)] q1 Op_deq Cons show ?thesis by (auto split: prod.splits)
    qed
  qed
qed

lemma deq_nonempty_iff: "inv q \<Longrightarrow> 0 < len q \<longleftrightarrow> content q \<noteq> []"
  by (simp add: len_law)

lemma deq_total: "inv q \<Longrightarrow> \<exists>fd q'. deq q = Some (fd, q') \<and> inv q'"
  by (cases "content q = []") (use deq_empty deq_law in blast)+

end

interpretation lq: fifo queue_inv fresh_node enQueue deQueue q_size queue_content
proof
  fix q :: queue and a fd
  assume "queue_inv q" "fresh_node a q"
  then obtain as b where "queue_nodes q as" "a = Some b" "q_heap q b = None"
    by (auto simp: queue_inv_def fresh_node_def)
  with enQueue_nodes show "\<exists>q'. enQueue a q fd = Some (0, q') \<and> queue_inv q' \<and>
      queue_content q' = queue_content q @ [fd]"
    by (metis queue_inv_def)
next
  fix q :: queue
  assume inv: "queue_inv q" and ne: "queue_content q \<noteq> []"
  then obtain a as where "queue_nodes q (a # as)"
    by (metis list.map_disc_iff neq_Nil_conv queue_content_nodes queue_inv_def)
  with deQueue_nodes show "\<exists>q'. deQueue q = Some (hd (queue_content q), q') \<and> queue_inv q' \<and>
      queue_content q' = tl (queue_content q)"
    by (metis queue_inv_def)
next
  fix q :: queue
  assume "queue_inv q" "queue_content q = []"
  then show "deQueue q = Some (- 1, q)"
    using queue_size_content [of q] by (simp add: deQueue_def)
qed (rule queue_size_content)

text \<open>Every node of the heap is reachable from the queue: a dequeued node has been freed.\<close>

lemma queue_inv_no_leak: "queue_inv q \<Longrightarrow> card (dom (q_heap q)) = length (queue_content q) \<and> finite (dom (q_heap q))"
  by (auto simp: queue_inv_def queue_nodes_def distinct_card walk_chain queue_content_def)

definition next_free :: "queue \<Rightarrow> addr option" where
  "next_free q = Some (Suc (Max (insert 0 (dom (q_heap q)))))"

lemma fresh_next_free: "queue_inv q \<Longrightarrow> fresh_node (next_free q) q"
proof -
  assume "queue_inv q"
  then have fin: "finite (insert 0 (dom (q_heap q)))" using queue_inv_no_leak by simp
  have "Suc (Max (insert 0 (dom (q_heap q)))) \<notin> dom (q_heap q)"
    using Max_ge [OF fin] by (metis insertI2 not_less_eq_eq order_refl)
  then show ?thesis by (auto simp: fresh_node_def next_free_def)
qed

text \<open>C24: starting from the empty queue, every sequence of \<open>enQueue\<close> and \<open>deQueue\<close> calls runs
  without an invalid memory access and gives back the descriptors in FIFO order, -1 on an
  empty queue, for any allocator that hands out unused addresses; afterwards the heap holds
  exactly one node per queued descriptor, so nothing leaks.\<close>

theorem queue_fifo:
  assumes "\<And>q. queue_inv q \<Longrightarrow> fresh_node (calloc q) q"
  shows "\<exists>q'. run_ops (\<lambda>q. enQueue (calloc q) q) deQueue empty_queue ops =
      Some (fst (fifo_spec [] ops), q') \<and>
    queue_content q' = snd (fifo_spec [] ops) \<and>
    card (dom (q_heap q')) = length (queue_content q')"
proof -
  have "queue_content empty_queue = []" by (simp add: queue_content_def empty_queue_def)
  with lq.run_refines [OF assms queue_inv_empty, of ops] show ?thesis
    using queue_inv_no_leak by auto
qed

theorem queue_fifo_witness:
  "\<exists>q'. run_ops (\<lambda>q. enQueue (next_free q) q) deQueue empty_queue
      [Op_enq 7, Op_enq 9, Op_deq, Op_enq 11, Op_deq, Op_deq, Op_deq] = Some ([7, 9, 11, - 1], q')"
  using queue_fifo [OF fresh_next_free,
      of "[Op_enq 7, Op_enq 9, Op_deq, Op_enq 11, Op_deq, Op_deq, Op_deq]"] by auto

end
