(* ===== verification/Thread_Pool.thy ===== *)
theory Thread_Pool
  imports Fd_Queue
begin

text \<open>
  The thread pool of the server: \<open>include/thread_pool.h\<close>, \<open>src/server/thread_pool.c\<close>,
  \<open>thread_func\<close> of \<open>src/server/worker.c\<close> and the parts of \<open>main\<close> in \<open>src/server/server.c\<close> that
  work on the pool: the acceptance of a client and the exit handler.

  What a thread does between \<open>pthread_mutex_lock\<close> and \<open>pthread_mutex_unlock\<close> (or
  \<open>pthread_cond_wait\<close>, which gives the lock up) is one function here; \<open>None\<close> is undefined behaviour
  inside it. The system is a step relation on the pool, the program counters of the workers and of
  the main thread, and the descriptors of the clients. Serving a client, \<open>handle_request\<close>, is one
  step: it ends when the client ends or when the descriptor has been shut down.
\<close>

section \<open>The pool\<close>

record thread_pool =
  tp_num :: nat
  tp_queue :: queue
  tp_exit :: int
  tp_busy :: "int list"

text \<open>\<open>malloc\<close> and \<open>pthread_create\<close> succeed or the process exits, \<open>None\<close> in the first component.\<close>

definition init_thread_pool :: "bool \<Rightarrow> bool \<Rightarrow> nat \<Rightarrow> thread_pool option" where
  "init_thread_pool mallocs creates num =
     (if \<not> mallocs \<or> \<not> creates then None
      else Some \<lparr>tp_num = num, tp_queue = empty_queue, tp_exit = 0, tp_busy = replicate num (- 1)\<rparr>)"

text \<open>The three arrays on the heap, the set of allocated addresses: \<open>destroy_thread_pool\<close> frees them;
  \<open>free\<close> of an address that is not allocated is undefined behaviour, of \<open>NULL\<close> nothing.\<close>

record pool_arrays =
  thread_id_arr :: "addr option"
  worker_arg_arr :: "addr option"
  busy_fds_arr :: "addr option"

definition free_array :: "addr option \<Rightarrow> addr set \<Rightarrow> addr set ub" where
  "free_array a h = (case a of None \<Rightarrow> Some h | Some x \<Rightarrow> if x \<in> h then Some (h - {x}) else None)"

definition destroy_thread_pool :: "pool_arrays option \<Rightarrow> addr set \<Rightarrow> addr set ub" where
  "destroy_thread_pool pool h =
     (case pool of
        None \<Rightarrow> Some h
      | Some p \<Rightarrow>
          (case free_array (thread_id_arr p) h of
             None \<Rightarrow> None
           | Some h1 \<Rightarrow>
               (case free_array (worker_arg_arr p) h1 of None \<Rightarrow> None | Some h2 \<Rightarrow> free_array (busy_fds_arr p) h2)))"

lemma destroy_thread_pool_frees:
  assumes "distinct [a, b, c]" "a \<notin> h" "b \<notin> h" "c \<notin> h"
    "p = \<lparr>thread_id_arr = Some a, worker_arg_arr = Some b, busy_fds_arr = Some c\<rparr>"
  shows "destroy_thread_pool (Some p) (h \<union> {a, b, c}) = Some h" "destroy_thread_pool (Some p) h = None"
  using assms by (auto simp: destroy_thread_pool_def free_array_def)

datatype worker_pc = Starting | Checking | Waiting | Serving int | Closing | Exited

text \<open>The critical section of a worker looking for work.\<close>

definition worker_check :: "thread_pool \<Rightarrow> nat \<Rightarrow> (worker_pc \<times> thread_pool) ub" where
  "worker_check p i =
     (if q_size (tp_queue p) = 0 \<and> tp_exit p = 0 then Some (Waiting, p)
      else if tp_exit p \<noteq> 0 then Some (Exited, p)
      else
        (case deQueue (tp_queue p) of
           None \<Rightarrow> None
         | Some (client_fd, q) \<Rightarrow>
             if i < length (tp_busy p)
             then Some (Serving client_fd, p\<lparr>tp_queue := q, tp_busy := (tp_busy p)[i := client_fd]\<rparr>)
             else None))"

definition worker_clear :: "thread_pool \<Rightarrow> nat \<Rightarrow> thread_pool ub" where
  "worker_clear p i = (if i < length (tp_busy p) then Some (p\<lparr>tp_busy := (tp_busy p)[i := - 1]\<rparr>) else None)"

section \<open>Descriptors and the main thread\<close>

text \<open>A client's descriptor number is not in use, open, or open and shut down.\<close>

datatype fd_state = Unused | Open | Shut

type_synonym fds = "int \<Rightarrow> fd_state"

definition shut_fd :: "int \<Rightarrow> fds \<Rightarrow> fds" where
  "shut_fd fd f = (if f fd = Unused then f else f(fd := Shut))"

text \<open>The loop that empties the queue.\<close>

lemma deQueue_size: "deQueue q = Some (fd, q') \<Longrightarrow> 0 < q_size q \<Longrightarrow> q_size q' = q_size q - 1"
  by (auto simp: deQueue_def split: if_splits option.splits)

function drain_queue :: "queue \<Rightarrow> fds \<Rightarrow> (queue \<times> fds) ub" where
  "drain_queue q f =
     (if q_size q > 0
      then
        (case deQueue q of
           None \<Rightarrow> None
         | Some (client_fd, q') \<Rightarrow> drain_queue q' (if client_fd \<noteq> - 1 then shut_fd client_fd f else f))
      else Some (q, f))"
  by pat_completeness auto
termination drain_queue
  by (relation "measure (\<lambda>(q, f). nat (q_size q))") (auto dest: deQueue_size)

declare drain_queue.simps [simp del]

primrec shutdown_busy :: "int list \<Rightarrow> fds \<Rightarrow> fds" where
  "shutdown_busy [] f = f"
| "shutdown_busy (b # bs) f = shutdown_busy bs (if b \<noteq> - 1 then shut_fd b f else f)"

definition exit_handler :: "thread_pool \<Rightarrow> fds \<Rightarrow> (thread_pool \<times> fds) ub" where
  "exit_handler p f =
     (case drain_queue (tp_queue p) f of
        None \<Rightarrow> None
      | Some (q, f1) \<Rightarrow>
          if tp_num p \<le> length (tp_busy p)
          then Some (p\<lparr>tp_exit := 1, tp_queue := q\<rparr>, shutdown_busy (take (tp_num p) (tp_busy p)) f1)
          else None)"

definition accept_client :: "addr option \<Rightarrow> int \<Rightarrow> thread_pool \<Rightarrow> thread_pool ub" where
  "accept_client node conn_fd p =
     (case enQueue node (tp_queue p) conn_fd of None \<Rightarrow> None | Some (r, q) \<Rightarrow> Some (p\<lparr>tp_queue := q\<rparr>))"

section \<open>The system\<close>

datatype main_pc = Polling | Joining nat

record tp_sys =
  tp_pool :: thread_pool
  tp_pcs :: "nat \<Rightarrow> worker_pc"
  tp_main :: main_pc
  tp_fds :: fds

definition wake_up :: "worker_pc \<Rightarrow> worker_pc" where
  "wake_up pc = (if pc = Waiting then Checking else pc)"

text \<open>\<open>pthread_cond_signal\<close> wakes one waiting thread, if there is one.\<close>

definition signalled :: "nat \<Rightarrow> (nat \<Rightarrow> worker_pc) \<Rightarrow> (nat \<Rightarrow> worker_pc) \<Rightarrow> bool" where
  "signalled n pcs pcs' \<longleftrightarrow>
     (if \<exists>i<n. pcs i = Waiting then \<exists>i<n. pcs i = Waiting \<and> pcs' = pcs(i := Checking) else pcs' = pcs)"

text \<open>A waiting thread may also wake up without a signal. \<open>accept\<close> returns an unused number.\<close>

inductive tp_step :: "tp_sys \<Rightarrow> tp_sys \<Rightarrow> bool" where
  connected: "i < tp_num (tp_pool s) \<Longrightarrow> tp_pcs s i = Starting \<Longrightarrow> tp_step s (s\<lparr>tp_pcs := (tp_pcs s)(i := Checking)\<rparr>)"
| no_database: "i < tp_num (tp_pool s) \<Longrightarrow> tp_pcs s i = Starting \<Longrightarrow> tp_step s (s\<lparr>tp_pcs := (tp_pcs s)(i := Exited)\<rparr>)"
| check: "i < tp_num (tp_pool s) \<Longrightarrow> tp_pcs s i = Checking \<Longrightarrow> worker_check (tp_pool s) i = Some (pc, p) \<Longrightarrow>
    tp_step s (s\<lparr>tp_pool := p, tp_pcs := (tp_pcs s)(i := pc)\<rparr>)"
| spurious: "i < tp_num (tp_pool s) \<Longrightarrow> tp_pcs s i = Waiting \<Longrightarrow> tp_step s (s\<lparr>tp_pcs := (tp_pcs s)(i := Checking)\<rparr>)"
| hang_up: "i < tp_num (tp_pool s) \<Longrightarrow> tp_pcs s i = Serving fd \<Longrightarrow> tp_fds s fd = Open \<Longrightarrow>
    tp_step s (s\<lparr>tp_fds := (tp_fds s)(fd := Unused), tp_pcs := (tp_pcs s)(i := Closing)\<rparr>)"
| cut_off: "i < tp_num (tp_pool s) \<Longrightarrow> tp_pcs s i = Serving fd \<Longrightarrow> tp_fds s fd = Shut \<Longrightarrow>
    tp_step s (s\<lparr>tp_fds := (tp_fds s)(fd := Unused), tp_pcs := (tp_pcs s)(i := Closing)\<rparr>)"
| clear: "i < tp_num (tp_pool s) \<Longrightarrow> tp_pcs s i = Closing \<Longrightarrow> worker_clear (tp_pool s) i = Some p \<Longrightarrow>
    tp_step s (s\<lparr>tp_pool := p, tp_pcs := (tp_pcs s)(i := Checking)\<rparr>)"
| accept: "tp_main s = Polling \<Longrightarrow> 0 \<le> fd \<Longrightarrow> tp_fds s fd = Unused \<Longrightarrow> fresh_node node (tp_queue (tp_pool s)) \<Longrightarrow>
    accept_client node fd (tp_pool s) = Some p \<Longrightarrow> signalled (tp_num (tp_pool s)) (tp_pcs s) pcs \<Longrightarrow>
    tp_step s (s\<lparr>tp_pool := p, tp_fds := (tp_fds s)(fd := Open), tp_pcs := pcs\<rparr>)"
| exit: "tp_main s = Polling \<Longrightarrow> exit_handler (tp_pool s) (tp_fds s) = Some (p, f) \<Longrightarrow>
    tp_step s (s\<lparr>tp_pool := p, tp_fds := f, tp_pcs := wake_up \<circ> tp_pcs s, tp_main := Joining 0\<rparr>)"
| join: "tp_main s = Joining k \<Longrightarrow> k < tp_num (tp_pool s) \<Longrightarrow> tp_pcs s k = Exited \<Longrightarrow>
    tp_step s (s\<lparr>tp_main := Joining (Suc k)\<rparr>)"

lemma signalled_cases:
  assumes "signalled n pcs pcs'"
  obtains i where "i < n" "pcs i = Waiting" "pcs' = pcs(i := Checking)" | "\<forall>i<n. pcs i \<noteq> Waiting" "pcs' = pcs"
  using assms by (auto simp: signalled_def split: if_splits)

text \<open>After \<open>init_thread_pool\<close>, before any client.\<close>

definition tp_start :: "nat \<Rightarrow> tp_sys" where
  "tp_start num =
     \<lparr>tp_pool = the (init_thread_pool True True num), tp_pcs = (\<lambda>i. Starting), tp_main = Polling, tp_fds = (\<lambda>fd. Unused)\<rparr>"

inductive tp_reachable :: "nat \<Rightarrow> tp_sys \<Rightarrow> bool" for num where
  start: "tp_reachable num (tp_start num)"
| step: "tp_reachable num s \<Longrightarrow> tp_step s s' \<Longrightarrow> tp_reachable num s'"

section \<open>The critical sections\<close>

lemma shut_fd_simps:
  "f fd \<noteq> Unused \<Longrightarrow> shut_fd fd f fd = Shut" "g \<noteq> fd \<Longrightarrow> shut_fd fd f g = f g" "shut_fd fd f g = Unused \<longleftrightarrow> f g = Unused"
  by (auto simp: shut_fd_def)

text \<open>What shutting down a list of descriptors does to one of them.\<close>

lemma shutdown_busy_at:
  "shutdown_busy bs f g = (if g \<in> set bs \<and> g \<noteq> - 1 \<and> f g \<noteq> Unused then Shut else f g)"
  by (induction bs arbitrary: f) (auto simp: shut_fd_def)

lemma drain_queue_ok:
  "queue_inv q \<Longrightarrow> \<exists>q'. drain_queue q f = Some (q', shutdown_busy (queue_content q) f) \<and> queue_inv q' \<and> queue_content q' = []"
proof (induction "queue_content q" arbitrary: q f)
  case Nil
  then have "\<not> 0 < q_size q" using lq.deq_nonempty_iff by simp
  with Nil show ?case by (simp add: drain_queue.simps)
next
  case (Cons x xs)
  then have pos: "0 < q_size q" using lq.deq_nonempty_iff [OF Cons.prems] by (metis list.distinct(1))
  obtain q1 where q1: "deQueue q = Some (x, q1)" "queue_inv q1" "queue_content q1 = xs"
    using lq.deq_law [OF Cons.prems] Cons.hyps(2) by (metis list.distinct(1) list.sel(1,3))
  from Cons.hyps(1) [OF q1(3) [symmetric] q1(2), of "if x \<noteq> - 1 then shut_fd x f else f"]
  show ?case using pos q1(1,3) Cons.hyps(2) by (simp add: drain_queue.simps [of q f] Cons.hyps(2) [symmetric])
qed

lemma worker_check_ok:
  assumes "queue_inv (tp_queue p)" "i < length (tp_busy p)" "worker_check p i = Some (pc, p')"
  shows "queue_content (tp_queue p) = [] \<and> tp_exit p = 0 \<and> pc = Waiting \<and> p' = p \<or>
    tp_exit p \<noteq> 0 \<and> pc = Exited \<and> p' = p \<or>
    (\<exists>fd q. tp_exit p = 0 \<and> queue_content (tp_queue p) = fd # queue_content q \<and> queue_inv q \<and> pc = Serving fd \<and>
       p' = p\<lparr>tp_queue := q, tp_busy := (tp_busy p)[i := fd]\<rparr>)"
proof (cases "queue_content (tp_queue p)")
  case Nil
  then have "q_size (tp_queue p) = 0" using queue_size_content [OF assms(1)] by simp
  with assms(3) Nil show ?thesis by (auto simp: worker_check_def split: if_splits)
next
  case (Cons fd xs)
  then have "q_size (tp_queue p) \<noteq> 0" using queue_size_content [OF assms(1)] by simp
  moreover obtain q where "deQueue (tp_queue p) = Some (fd, q)" "queue_inv q" "queue_content q = xs"
    using lq.deq_law [OF assms(1)] Cons by auto
  ultimately show ?thesis using assms(2,3) Cons by (auto simp: worker_check_def split: if_splits)
qed

lemma worker_check_total:
  "queue_inv (tp_queue p) \<Longrightarrow> i < length (tp_busy p) \<Longrightarrow> \<exists>pc p'. worker_check p i = Some (pc, p')"
  using lq.deq_total [of "tp_queue p"] by (auto simp: worker_check_def)

lemma accept_client_ok:
  assumes "queue_inv (tp_queue p)" "fresh_node node (tp_queue p)"
  shows "\<exists>q. accept_client node fd p = Some (p\<lparr>tp_queue := q\<rparr>) \<and> queue_inv q \<and>
    queue_content q = queue_content (tp_queue p) @ [fd]"
  using lq.enq_law [OF assms, of fd] by (auto simp: accept_client_def)

lemma exit_handler_ok:
  assumes "queue_inv (tp_queue p)" "length (tp_busy p) = tp_num p"
  shows "\<exists>q. exit_handler p f = Some (p\<lparr>tp_exit := 1, tp_queue := q\<rparr>,
      shutdown_busy (tp_busy p) (shutdown_busy (queue_content (tp_queue p)) f)) \<and> queue_inv q \<and> queue_content q = []"
  using drain_queue_ok [OF assms(1), of f] assms(2) by (auto simp: exit_handler_def)

section \<open>The invariant\<close>

text \<open>The parts: the data structures; every client in one place; who is idle; what has become of the
  clients; the exit; the wake-ups.\<close>

definition served :: "tp_sys \<Rightarrow> int \<Rightarrow> bool" where
  "served s fd \<longleftrightarrow> (\<exists>i < tp_num (tp_pool s). tp_pcs s i = Serving fd)"

definition tp_shape :: "tp_sys \<Rightarrow> bool" where
  "tp_shape s \<longleftrightarrow>
     queue_inv (tp_queue (tp_pool s)) \<and> length (tp_busy (tp_pool s)) = tp_num (tp_pool s) \<and>
     (tp_exit (tp_pool s) = 0 \<longleftrightarrow> tp_main s = Polling)"

definition tp_places :: "tp_sys \<Rightarrow> bool" where
  "tp_places s \<longleftrightarrow>
     (let q = queue_content (tp_queue (tp_pool s)); n = tp_num (tp_pool s)
      in distinct q \<and> (\<forall>fd\<in>set q. 0 \<le> fd \<and> tp_fds s fd = Open \<and> \<not> served s fd) \<and>
         (\<forall>i<n. \<forall>j<n. \<forall>fd. tp_pcs s i = Serving fd \<and> tp_pcs s j = Serving fd \<longrightarrow> i = j) \<and>
         (\<forall>fd. served s fd \<longrightarrow> 0 \<le> fd \<and> tp_fds s fd = (if tp_main s = Polling then Open else Shut)) \<and>
         (tp_main s = Polling \<longrightarrow> (\<forall>fd. tp_fds s fd \<noteq> Unused \<longrightarrow> fd \<in> set q \<or> served s fd)))"

definition tp_table :: "tp_sys \<Rightarrow> bool" where
  "tp_table s \<longleftrightarrow>
     (\<forall>i < tp_num (tp_pool s). case tp_pcs s i of Serving fd \<Rightarrow> tp_busy (tp_pool s) ! i = fd
        | Closing \<Rightarrow> True | _ \<Rightarrow> tp_busy (tp_pool s) ! i = - 1)"

definition tp_ending :: "tp_sys \<Rightarrow> bool" where
  "tp_ending s \<longleftrightarrow> (tp_main s \<noteq> Polling \<longrightarrow>
     queue_content (tp_queue (tp_pool s)) = [] \<and> (\<forall>i < tp_num (tp_pool s). tp_pcs s i \<noteq> Waiting))"

definition awake :: "tp_sys \<Rightarrow> nat set" where
  "awake s = {i. i < tp_num (tp_pool s) \<and> tp_pcs s i = Checking}"

definition tp_wakes :: "tp_sys \<Rightarrow> bool" where
  "tp_wakes s \<longleftrightarrow> ((\<exists>i < tp_num (tp_pool s). tp_pcs s i = Waiting) \<longrightarrow>
     length (queue_content (tp_queue (tp_pool s))) \<le> card (awake s))"

lemma tp_places_parts:
  assumes "tp_places s"
  shows "distinct (queue_content (tp_queue (tp_pool s)))"
    "\<forall>fd\<in>set (queue_content (tp_queue (tp_pool s))). 0 \<le> fd \<and> tp_fds s fd = Open \<and> \<not> served s fd"
    "\<forall>i<tp_num (tp_pool s). \<forall>j<tp_num (tp_pool s). \<forall>fd. tp_pcs s i = Serving fd \<and> tp_pcs s j = Serving fd \<longrightarrow> i = j"
    "\<forall>fd. served s fd \<longrightarrow> 0 \<le> fd \<and> tp_fds s fd = (if tp_main s = Polling then Open else Shut)"
    "tp_main s = Polling \<longrightarrow> (\<forall>fd. tp_fds s fd \<noteq> Unused \<longrightarrow> fd \<in> set (queue_content (tp_queue (tp_pool s))) \<or> served s fd)"
  using assms unfolding tp_places_def Let_def by blast+

lemma shape_step: "tp_step s s' \<Longrightarrow> tp_shape s \<Longrightarrow> tp_shape s'"
proof (induction rule: tp_step.induct)
  case (check i s pc p)
  then show ?case using worker_check_ok [of "tp_pool s" i pc p] by (auto simp: tp_shape_def)
next
  case (clear i s p)
  then show ?case by (auto simp: tp_shape_def worker_clear_def split: if_splits)
next
  case (accept s fd node p pcs)
  then show ?case using accept_client_ok [of "tp_pool s" node fd] by (auto simp: tp_shape_def)
next
  case (exit s p f)
  then show ?case using exit_handler_ok [of "tp_pool s" "tp_fds s"] by (auto simp: tp_shape_def)
qed (simp_all add: tp_shape_def)

lemma num_step: "tp_step s s' \<Longrightarrow> tp_shape s \<Longrightarrow> tp_num (tp_pool s') = tp_num (tp_pool s)"
proof (induction rule: tp_step.induct)
  case (check i s pc p)
  then show ?case using worker_check_ok [of "tp_pool s" i pc p] by (auto simp: tp_shape_def)
next
  case (clear i s p)
  then show ?case by (auto simp: worker_clear_def split: if_splits)
next
  case (accept s fd node p pcs)
  then show ?case using accept_client_ok [of "tp_pool s" node fd] by (auto simp: tp_shape_def)
next
  case (exit s p f)
  then show ?case using exit_handler_ok [of "tp_pool s" "tp_fds s"] by (auto simp: tp_shape_def)
qed simp_all

text \<open>Moving a worker between states without a client changes nothing for the clients.\<close>

lemma served_idle [simp]:
  assumes "\<forall>fd. tp_pcs s i \<noteq> Serving fd" "\<forall>fd. pc \<noteq> Serving fd"
  shows "served (s\<lparr>tp_pcs := (tp_pcs s)(i := pc)\<rparr>) = served s"
proof
  fix fd
  have "((tp_pcs s)(i := pc)) j = Serving fd \<longleftrightarrow> tp_pcs s j = Serving fd" for j using assms by (cases "j = i") auto
  then show "served (s\<lparr>tp_pcs := (tp_pcs s)(i := pc)\<rparr>) fd = served s fd" by (simp add: served_def)
qed

lemma served_more [simp]:
  "served (s\<lparr>tp_fds := f\<rparr>) = served s" "served (s\<lparr>tp_main := m\<rparr>) = served s"
  "tp_num p = tp_num (tp_pool s) \<Longrightarrow> served (s\<lparr>tp_pool := p\<rparr>) = served s"
  by (auto simp: served_def fun_eq_iff)

lemma places_idle:
  assumes "\<forall>fd. tp_pcs s i \<noteq> Serving fd" "\<forall>fd. pc \<noteq> Serving fd" "tp_places s"
  shows "tp_places (s\<lparr>tp_pcs := (tp_pcs s)(i := pc)\<rparr>)"
  using assms unfolding tp_places_def Let_def by (auto simp: fun_upd_apply)

text \<open>A worker takes the oldest client; a worker ends with its client.\<close>

lemma places_take:
  assumes "tp_places s" "tp_shape s" "i < tp_num (tp_pool s)" "\<forall>fd. tp_pcs s i \<noteq> Serving fd" "tp_main s = Polling"
    "queue_content (tp_queue (tp_pool s)) = fd # queue_content q" "tp_num p = tp_num (tp_pool s)" "tp_queue p = q"
  shows "tp_places (s\<lparr>tp_pool := p, tp_pcs := (tp_pcs s)(i := Serving fd)\<rparr>)"
proof -
  have sv: "served (s\<lparr>tp_pool := p, tp_pcs := (tp_pcs s)(i := Serving fd)\<rparr>) x \<longleftrightarrow> x = fd \<or> served s x" for x
    using assms(3,4,7) by (auto simp: served_def fun_upd_apply)
  have old: "tp_pcs s j = Serving x \<Longrightarrow> j < tp_num (tp_pool s) \<Longrightarrow> x \<noteq> fd" for j x
    using assms(1,6) unfolding tp_places_def Let_def served_def by auto
  show ?thesis
    using assms old unfolding tp_places_def Let_def sv by (auto simp: fun_upd_apply split: if_splits)
qed

lemma places_drop:
  assumes "tp_places s" "i < tp_num (tp_pool s)" "tp_pcs s i = Serving fd"
  shows "tp_places (s\<lparr>tp_fds := (tp_fds s)(fd := Unused), tp_pcs := (tp_pcs s)(i := Closing)\<rparr>)"
proof -
  have uniq: "j < tp_num (tp_pool s) \<Longrightarrow> tp_pcs s j = Serving fd \<Longrightarrow> j = i" for j
    using assms unfolding tp_places_def Let_def by blast
  have sv: "served (s\<lparr>tp_fds := (tp_fds s)(fd := Unused), tp_pcs := (tp_pcs s)(i := Closing)\<rparr>) x \<longleftrightarrow> served s x \<and> x \<noteq> fd" for x
  proof -
    have "served (s\<lparr>tp_fds := (tp_fds s)(fd := Unused), tp_pcs := (tp_pcs s)(i := Closing)\<rparr>) x \<longleftrightarrow>
        (\<exists>j<tp_num (tp_pool s). j \<noteq> i \<and> tp_pcs s j = Serving x)"
      by (auto simp: served_def fun_upd_apply)
    then show ?thesis unfolding served_def by (metis assms(3) uniq worker_pc.inject)
  qed
  have fd: "served s fd" using assms(2,3) by (auto simp: served_def)
  note P = tp_places_parts [OF assms(1)]
  have q: "fd \<notin> set (queue_content (tp_queue (tp_pool s)))" using P(2) fd by blast
  let ?s = "s\<lparr>tp_fds := (tp_fds s)(fd := Unused), tp_pcs := (tp_pcs s)(i := Closing)\<rparr>"
  have "\<forall>x\<in>set (queue_content (tp_queue (tp_pool s))). 0 \<le> x \<and> tp_fds ?s x = Open \<and> \<not> served ?s x"
    using P(2) q sv by auto
  moreover have "\<forall>k<tp_num (tp_pool s). \<forall>j<tp_num (tp_pool s). \<forall>x. tp_pcs ?s k = Serving x \<and> tp_pcs ?s j = Serving x \<longrightarrow> k = j"
    using P(3) by (simp add: fun_upd_apply)
  moreover have "\<forall>x. served ?s x \<longrightarrow> 0 \<le> x \<and> tp_fds ?s x = (if tp_main s = Polling then Open else Shut)"
    using P(4) sv by simp
  moreover have "tp_main s = Polling \<longrightarrow> (\<forall>x. tp_fds ?s x \<noteq> Unused \<longrightarrow> x \<in> set (queue_content (tp_queue (tp_pool s))) \<or> served ?s x)"
    using P(5) sv by auto
  ultimately show ?thesis using P(1) by (simp add: tp_places_def)
qed

lemma places_accept:
  assumes "tp_places s" "0 \<le> fd" "tp_fds s fd = Unused" "tp_main s = Polling"
    "queue_content (tp_queue p) = queue_content (tp_queue (tp_pool s)) @ [fd]" "tp_num p = tp_num (tp_pool s)"
  shows "tp_places (s\<lparr>tp_pool := p, tp_fds := (tp_fds s)(fd := Open)\<rparr>)"
proof -
  have "\<not> served s fd" "fd \<notin> set (queue_content (tp_queue (tp_pool s)))"
    using assms(1,3,4) unfolding tp_places_def Let_def by auto
  then show ?thesis
    using assms unfolding tp_places_def Let_def by (auto simp: fun_upd_apply)
qed

text \<open>The exit handler shuts down every client that waits or is being served.\<close>

lemma served_wake: "served (s\<lparr>tp_pcs := wake_up \<circ> tp_pcs s\<rparr>) = served s"
proof
  fix fd
  have "wake_up pc = Serving fd \<longleftrightarrow> pc = Serving fd" for pc by (simp add: wake_up_def)
  then show "served (s\<lparr>tp_pcs := wake_up \<circ> tp_pcs s\<rparr>) fd = served s fd" by (simp add: served_def)
qed

lemma places_exit:
  assumes "tp_places s" "tp_shape s" "tp_table s" "tp_main s = Polling"
    "queue_content (tp_queue p) = []" "tp_num p = tp_num (tp_pool s)"
    "f = shutdown_busy (tp_busy (tp_pool s)) (shutdown_busy (queue_content (tp_queue (tp_pool s))) (tp_fds s))"
  shows "tp_places (s\<lparr>tp_pool := p, tp_fds := f, tp_pcs := wake_up \<circ> tp_pcs s, tp_main := Joining 0\<rparr>)"
proof -
  let ?s = "s\<lparr>tp_pool := p, tp_fds := f, tp_pcs := wake_up \<circ> tp_pcs s, tp_main := Joining 0\<rparr>"
  note P = tp_places_parts [OF assms(1)]
  have pc: "wake_up x = Serving fd \<longleftrightarrow> x = Serving fd" for x fd by (simp add: wake_up_def)
  have sv: "served ?s fd = served s fd" for fd using assms(6) by (simp add: served_def pc)
  have busy: "0 \<le> fd \<and> f fd = Shut" if "served s fd" for fd
  proof -
    from that obtain i where i: "i < tp_num (tp_pool s)" "tp_pcs s i = Serving fd" by (auto simp: served_def)
    then have "tp_busy (tp_pool s) ! i = fd" using assms(3) unfolding tp_table_def by fastforce
    moreover have "i < length (tp_busy (tp_pool s))" using i(1) assms(2) by (simp add: tp_shape_def)
    ultimately have "fd \<in> set (tp_busy (tp_pool s))" by auto
    moreover have "0 \<le> fd" "tp_fds s fd = Open" using P(4) that assms(4) by auto
    ultimately show ?thesis by (simp add: assms(7) shutdown_busy_at)
  qed
  show ?thesis
    using P(3) busy sv assms(5,6) by (simp add: tp_places_def pc)
qed

lemma places_step: "tp_step s s' \<Longrightarrow> tp_shape s \<Longrightarrow> tp_table s \<Longrightarrow> tp_places s \<Longrightarrow> tp_places s'"
proof (induction rule: tp_step.induct)
  case (check i s pc p)
  have len: "i < length (tp_busy (tp_pool s))" "queue_inv (tp_queue (tp_pool s))"
    using check by (simp_all add: tp_shape_def)
  from worker_check_ok [OF len(2,1) check(3)] consider "pc = Waiting \<or> pc = Exited" "p = tp_pool s"
    | (take) fd q where "tp_exit (tp_pool s) = 0" "queue_content (tp_queue (tp_pool s)) = fd # queue_content q"
      "pc = Serving fd" "p = (tp_pool s)\<lparr>tp_queue := q, tp_busy := (tp_busy (tp_pool s))[i := fd]\<rparr>" by auto
  then show ?case
  proof cases
    case 1
    then show ?thesis using places_idle [of s i pc] check by auto
  next
    case take
    then have "tp_main s = Polling" using check by (simp add: tp_shape_def)
    with take places_take [of s i fd q p] check show ?thesis by simp
  qed
next
  case (clear i s p)
  then have p: "tp_num p = tp_num (tp_pool s)" "tp_queue p = tp_queue (tp_pool s)"
    by (auto simp: worker_clear_def split: if_splits)
  have "tp_places (s\<lparr>tp_pcs := (tp_pcs s)(i := Checking)\<rparr>)" using clear by (intro places_idle) simp_all
  then show ?case using p by (simp add: tp_places_def served_def)
next
  case (hang_up i s fd)
  then show ?case using places_drop by simp
next
  case (cut_off i s fd)
  then show ?case using places_drop by simp
next
  case (accept s fd node p pcs)
  obtain q where q: "p = (tp_pool s)\<lparr>tp_queue := q\<rparr>" "queue_content q = queue_content (tp_queue (tp_pool s)) @ [fd]"
    using accept_client_ok [of "tp_pool s" node fd] accept by (auto simp: tp_shape_def)
  have new: "tp_places (s\<lparr>tp_pool := p, tp_fds := (tp_fds s)(fd := Open)\<rparr>)"
    using accept q by (intro places_accept) simp_all
  from accept(6) show ?case
  proof (cases rule: signalled_cases)
    case (1 i)
    with places_idle [OF _ _ new, of i Checking] show ?thesis by simp
  qed (use new in simp)
next
  case (exit s p f)
  obtain q where q: "p = (tp_pool s)\<lparr>tp_exit := 1, tp_queue := q\<rparr>" "queue_content q = []"
    "f = shutdown_busy (tp_busy (tp_pool s)) (shutdown_busy (queue_content (tp_queue (tp_pool s))) (tp_fds s))"
    using exit_handler_ok [of "tp_pool s" "tp_fds s"] exit by (auto simp: tp_shape_def)
  then show ?case using exit by (intro places_exit) simp_all
next
  case (join s k)
  then show ?case by (simp add: tp_places_def)
qed (simp_all add: places_idle)

lemma table_step: "tp_step s s' \<Longrightarrow> tp_shape s \<Longrightarrow> tp_table s \<Longrightarrow> tp_table s'"
proof (induction rule: tp_step.induct)
  case (check i s pc p)
  have len: "i < length (tp_busy (tp_pool s))" "queue_inv (tp_queue (tp_pool s))" "tp_busy (tp_pool s) ! i = - 1"
    using check by (auto simp: tp_shape_def tp_table_def)
  from worker_check_ok [OF len(2,1) check(3)] check(5) len(1,3) show ?case
    by (auto simp: tp_table_def nth_list_update split: worker_pc.splits)
next
  case (clear i s p)
  then show ?case by (auto simp: tp_table_def worker_clear_def nth_list_update split: if_splits worker_pc.splits)
next
  case (accept s fd node p pcs)
  from accept(6) show ?case
  proof (cases rule: signalled_cases)
    case (1 i)
    with accept show ?thesis using accept_client_ok [of "tp_pool s" node fd]
      by (auto simp: tp_table_def tp_shape_def split: worker_pc.splits)
  next
    case 2
    with accept show ?thesis using accept_client_ok [of "tp_pool s" node fd]
      by (auto simp: tp_table_def tp_shape_def cong: worker_pc.case_cong)
  qed
next
  case (exit s p f)
  then show ?case using exit_handler_ok [of "tp_pool s" "tp_fds s"]
    by (auto simp: tp_table_def tp_shape_def wake_up_def split: worker_pc.splits)
qed (auto simp: tp_table_def split: worker_pc.splits)

lemma ending_step: "tp_step s s' \<Longrightarrow> tp_shape s \<Longrightarrow> tp_ending s \<Longrightarrow> tp_ending s'"
proof (induction rule: tp_step.induct)
  case (check i s pc p)
  have len: "i < length (tp_busy (tp_pool s))" "queue_inv (tp_queue (tp_pool s))"
    using check by (simp_all add: tp_shape_def)
  from worker_check_ok [OF len(2,1) check(3)] check(4,5) show ?case
    by (auto simp: tp_ending_def tp_shape_def)
next
  case (clear i s p)
  then show ?case by (auto simp: tp_ending_def worker_clear_def split: if_splits)
next
  case (exit s p f)
  then show ?case using exit_handler_ok [of "tp_pool s" "tp_fds s"]
    by (auto simp: tp_ending_def tp_shape_def wake_up_def)
qed (auto simp: tp_ending_def)

text \<open>Counting the workers that are about to look at the queue.\<close>

lemma finite_awake [simp]: "finite (awake s)"
  by (simp add: awake_def)

lemma awake_more [simp]:
  "awake (s\<lparr>tp_fds := f\<rparr>) = awake s" "awake (s\<lparr>tp_main := m\<rparr>) = awake s"
  "tp_num p = tp_num (tp_pool s) \<Longrightarrow> awake (s\<lparr>tp_pool := p\<rparr>) = awake s"
  by (auto simp: awake_def)

lemma awake_insert: "i < tp_num (tp_pool s) \<Longrightarrow> awake (s\<lparr>tp_pcs := (tp_pcs s)(i := Checking)\<rparr>) = insert i (awake s)"
  by (auto simp: awake_def)

lemma awake_remove: "pc \<noteq> Checking \<Longrightarrow> awake (s\<lparr>tp_pcs := (tp_pcs s)(i := pc)\<rparr>) = awake s - {i}"
  by (auto simp: awake_def)

lemma awake_not: "tp_pcs s i \<noteq> Checking \<Longrightarrow> i \<notin> awake s"
  by (simp add: awake_def)

lemma wakes_more:
  assumes "tp_wakes s" "i < tp_num (tp_pool s)"
  shows "tp_wakes (s\<lparr>tp_pcs := (tp_pcs s)(i := Checking)\<rparr>)"
proof -
  have "card (awake s) \<le> card (insert i (awake s))" by (simp add: card_insert_le)
  then show ?thesis using assms unfolding tp_wakes_def awake_insert [OF assms(2)]
    by (auto simp: fun_upd_apply split: if_splits)
qed

lemma wakes_other:
  assumes "tp_wakes s" "tp_pcs s i \<noteq> Checking" "pc \<noteq> Checking" "pc \<noteq> Waiting"
  shows "tp_wakes (s\<lparr>tp_pcs := (tp_pcs s)(i := pc)\<rparr>)"
  using assms unfolding tp_wakes_def awake_remove [OF assms(3)] Diff_insert0 [OF awake_not [OF assms(2)]] Diff_empty
  by (auto simp: fun_upd_apply split: if_splits)

lemma wakes_take:
  assumes "tp_wakes s" "tp_shape s" "i < tp_num (tp_pool s)" "tp_pcs s i = Checking" "pc \<noteq> Checking" "pc \<noteq> Waiting"
    "length (queue_content (tp_queue (tp_pool s))) = Suc (length (queue_content (tp_queue p)))" "tp_num p = tp_num (tp_pool s)"
  shows "tp_wakes (s\<lparr>tp_pool := p, tp_pcs := (tp_pcs s)(i := pc)\<rparr>)"
proof -
  have "i \<in> awake s" using assms(3,4) by (simp add: awake_def)
  then have "Suc (card (awake s - {i})) = card (awake s)" by (rule card_Suc_Diff1 [OF finite_awake])
  moreover have "awake (s\<lparr>tp_pool := p, tp_pcs := (tp_pcs s)(i := pc)\<rparr>) = awake s - {i}"
    using assms(5,8) by (auto simp: awake_def)
  moreover have "\<exists>j<tp_num (tp_pool s). tp_pcs s j = Waiting"
    if "\<exists>j<tp_num p. ((tp_pcs s)(i := pc)) j = Waiting"
    using that assms(6,8) by (auto simp: fun_upd_apply split: if_splits)
  then have "length (queue_content (tp_queue (tp_pool s))) \<le> card (awake s)"
    if "\<exists>j<tp_num p. ((tp_pcs s)(i := pc)) j = Waiting"
    using that assms(1) unfolding tp_wakes_def by blast
  ultimately show ?thesis unfolding tp_wakes_def using assms(7) by fastforce
qed

lemma wakes_step: "tp_step s s' \<Longrightarrow> tp_shape s \<Longrightarrow> tp_ending s \<Longrightarrow> tp_wakes s \<Longrightarrow> tp_wakes s'"
proof (induction rule: tp_step.induct)
  case (check i s pc p)
  have len: "i < length (tp_busy (tp_pool s))" "queue_inv (tp_queue (tp_pool s))"
    using check by (simp_all add: tp_shape_def)
  from worker_check_ok [OF len(2,1) check(3)] consider "pc = Waiting" "p = tp_pool s" "queue_content (tp_queue (tp_pool s)) = []"
    | "pc = Exited" "p = tp_pool s" "tp_exit (tp_pool s) \<noteq> 0"
    | fd q where "queue_content (tp_queue (tp_pool s)) = fd # queue_content q"
      "pc = Serving fd" "p = (tp_pool s)\<lparr>tp_queue := q, tp_busy := (tp_busy (tp_pool s))[i := fd]\<rparr>" by auto
  then show ?case
  proof cases
    case 1
    then show ?thesis by (simp add: tp_wakes_def)
  next
    case 2
    then show ?thesis using check by (auto simp: tp_wakes_def tp_ending_def tp_shape_def)
  next
    case 3
    then show ?thesis using check by (intro wakes_take) simp_all
  qed
next
  case (clear i s p)
  then have p: "tp_num p = tp_num (tp_pool s)" "tp_queue p = tp_queue (tp_pool s)"
    by (auto simp: worker_clear_def split: if_splits)
  have "tp_wakes (s\<lparr>tp_pcs := (tp_pcs s)(i := Checking)\<rparr>)" using clear by (intro wakes_more) simp_all
  then show ?case using p by (simp add: tp_wakes_def awake_def)
next
  case (accept s fd node p pcs)
  obtain q where q: "p = (tp_pool s)\<lparr>tp_queue := q\<rparr>" "queue_content q = queue_content (tp_queue (tp_pool s)) @ [fd]"
    using accept_client_ok [of "tp_pool s" node fd] accept by (auto simp: tp_shape_def)
  from accept(6) show ?case
  proof (cases rule: signalled_cases)
    case (1 i)
    then have i: "i \<notin> awake s" by (simp add: awake_def)
    have "length (queue_content (tp_queue (tp_pool s))) \<le> card (awake s)" using 1 accept by (auto simp: tp_wakes_def)
    moreover have "awake (s\<lparr>tp_pool := p, tp_fds := (tp_fds s)(fd := Open), tp_pcs := pcs\<rparr>) = insert i (awake s)"
      using 1 q(1) by (auto simp: awake_def)
    ultimately show ?thesis using q i by (simp add: tp_wakes_def)
  next
    case 2
    with q(1) show ?thesis by (auto simp: tp_wakes_def)
  qed
next
  case (exit s p f)
  then show ?case by (auto simp: tp_wakes_def wake_up_def)
next
  case (hang_up i s fd)
  then have "tp_wakes (s\<lparr>tp_pcs := (tp_pcs s)(i := Closing)\<rparr>)" by (intro wakes_other) simp_all
  then show ?case by (simp add: tp_wakes_def awake_def)
next
  case (cut_off i s fd)
  then have "tp_wakes (s\<lparr>tp_pcs := (tp_pcs s)(i := Closing)\<rparr>)" by (intro wakes_other) simp_all
  then show ?case by (simp add: tp_wakes_def awake_def)
next
  case (join s k)
  then show ?case by (simp add: tp_wakes_def awake_def)
qed (simp_all add: wakes_more wakes_other)

section \<open>Reachable states\<close>

lemma tp_start_ok:
  "tp_shape (tp_start num) \<and> tp_table (tp_start num) \<and> tp_places (tp_start num) \<and> tp_ending (tp_start num) \<and> tp_wakes (tp_start num) \<and>
    tp_num (tp_pool (tp_start num)) = num"
proof -
  have "queue_content empty_queue = []" by (simp add: queue_content_def empty_queue_def)
  then show ?thesis
    by (simp add: tp_start_def init_thread_pool_def tp_shape_def tp_table_def tp_places_def tp_ending_def tp_wakes_def served_def)
qed

lemma tp_reachable_ok:
  "tp_reachable num s \<Longrightarrow> tp_shape s \<and> tp_table s \<and> tp_places s \<and> tp_ending s \<and> tp_wakes s \<and> tp_num (tp_pool s) = num"
proof (induction rule: tp_reachable.induct)
  case start
  then show ?case by (rule tp_start_ok)
next
  case (step s s')
  then show ?case using shape_step table_step places_step ending_step wakes_step num_step by metis
qed

end
