(* ===== verification/Thread_Pool_Props.thy ===== *)
theory Thread_Pool_Props
  imports Thread_Pool
begin

text \<open>
  Properties of the thread pool in every state its threads can reach, in any interleaving: where the
  clients are, that no wake-up is lost, and how the server ends.
\<close>

section \<open>Where the clients are\<close>

text \<open>C17: in every reachable state each client waits in the queue or is served by one worker, never both,
  never twice; until the exit these are exactly the open descriptors; and the table \<open>busy_fds\<close> that the
  exit handler reads holds, for every worker that serves a client, that client.\<close>

theorem clients_in_one_place:
  assumes "tp_reachable num s"
  shows "distinct (queue_content (tp_queue (tp_pool s))) \<and>
    (\<forall>i<num. \<forall>j<num. \<forall>fd. tp_pcs s i = Serving fd \<and> tp_pcs s j = Serving fd \<longrightarrow> i = j) \<and>
    (\<forall>i<num. \<forall>fd. tp_pcs s i = Serving fd \<longrightarrow>
       fd \<notin> set (queue_content (tp_queue (tp_pool s))) \<and> tp_busy (tp_pool s) ! i = fd \<and> tp_fds s fd \<noteq> Unused) \<and>
    (tp_main s = Polling \<longrightarrow>
       (\<forall>fd. tp_fds s fd \<noteq> Unused \<longleftrightarrow> fd \<in> set (queue_content (tp_queue (tp_pool s))) \<or> (\<exists>i<num. tp_pcs s i = Serving fd)))"
proof -
  have ok: "tp_table s" "tp_places s" "tp_num (tp_pool s) = num" using tp_reachable_ok [OF assms] by simp_all
  note P = tp_places_parts [OF ok(2), unfolded ok(3)]
  have sv: "served s fd \<longleftrightarrow> (\<exists>i<num. tp_pcs s i = Serving fd)" for fd by (simp add: served_def ok(3))
  have busy: "tp_busy (tp_pool s) ! i = fd" if "i < num" "tp_pcs s i = Serving fd" for i fd
    using ok(1,3) that unfolding tp_table_def by fastforce
  have one: "fd \<notin> set (queue_content (tp_queue (tp_pool s))) \<and> tp_fds s fd \<noteq> Unused" if "i < num" "tp_pcs s i = Serving fd" for i fd
    using P(2,4) sv that by (auto split: if_splits)
  have all: "tp_fds s fd \<noteq> Unused \<longleftrightarrow> fd \<in> set (queue_content (tp_queue (tp_pool s))) \<or> (\<exists>i<num. tp_pcs s i = Serving fd)"
    if "tp_main s = Polling" for fd
    using P(2,4,5) sv that by (metis fd_state.distinct(1))
  show ?thesis using P(1,3) busy one all by blast
qed

text \<open>A server with one worker that has accepted one client.\<close>

lemma demo_accepted: "\<exists>s. tp_reachable 1 s \<and> queue_content (tp_queue (tp_pool s)) = [4] \<and> tp_main s = Polling \<and> tp_fds s 4 = Open \<and>
    tp_pcs s 0 = Starting"
proof -
  let ?s = "tp_start 1"
  let ?n = "next_free (tp_queue (tp_pool ?s))"
  have q: "queue_inv (tp_queue (tp_pool ?s))" "queue_content (tp_queue (tp_pool ?s)) = []"
    by (simp_all add: tp_start_def init_thread_pool_def queue_content_def) (simp add: empty_queue_def)
  note fresh = fresh_next_free [OF q(1)]
  obtain q' where q': "accept_client ?n 4 (tp_pool ?s) = Some ((tp_pool ?s)\<lparr>tp_queue := q'\<rparr>)" "queue_content q' = [4]"
    using accept_client_ok [OF q(1) fresh, of 4] q(2) by auto
  have "tp_step ?s (?s\<lparr>tp_pool := (tp_pool ?s)\<lparr>tp_queue := q'\<rparr>, tp_fds := (tp_fds ?s)(4 := Open)\<rparr>)"
    using tp_step.accept [OF _ _ _ fresh q'(1), of "tp_pcs ?s"] by (simp add: tp_start_def signalled_def)
  then have "tp_reachable 1 (?s\<lparr>tp_pool := (tp_pool ?s)\<lparr>tp_queue := q'\<rparr>, tp_fds := (tp_fds ?s)(4 := Open)\<rparr>)"
    by (rule tp_reachable.step [OF tp_reachable.start])
  then show ?thesis using q'(2) by (intro exI conjI) (assumption, simp_all add: tp_start_def)
qed

theorem clients_in_one_place_witness:
  "\<exists>s. tp_reachable 1 s \<and> queue_content (tp_queue (tp_pool s)) = [4] \<and> (\<forall>fd. tp_fds s fd \<noteq> Unused \<longrightarrow> fd = 4 \<or> (\<exists>i<1. tp_pcs s i = Serving fd))"
proof -
  obtain s where s: "tp_reachable 1 s" "queue_content (tp_queue (tp_pool s)) = [4]" "tp_main s = Polling"
    using demo_accepted by blast
  with clients_in_one_place [OF s(1)] show ?thesis by (intro exI [of _ s]) simp
qed

section \<open>Wake-ups\<close>

text \<open>C18: no wake-up is lost: whenever a worker sleeps on the condition variable, there are at least as
  many workers awake and on their way to the queue as there are clients in it.\<close>

theorem no_lost_wakeup:
  assumes "tp_reachable num s" "i < num" "tp_pcs s i = Waiting"
  shows "length (queue_content (tp_queue (tp_pool s))) \<le> card {j. j < num \<and> tp_pcs s j = Checking}"
  using tp_reachable_ok [OF assms(1)] assms(2,3) by (auto simp: tp_wakes_def awake_def)

theorem no_lost_wakeup_witness:
  "\<exists>s. tp_reachable 1 s \<and> tp_pcs s 0 = Waiting \<and> length (queue_content (tp_queue (tp_pool s))) \<le> card {j. j < 1 \<and> tp_pcs s j = Checking}"
proof -
  let ?s = "tp_start 1"
  let ?s1 = "?s\<lparr>tp_pcs := (tp_pcs ?s)(0 := Checking)\<rparr>"
  have 1: "tp_step ?s ?s1" by (rule tp_step.connected) (simp_all add: tp_start_def init_thread_pool_def)
  have "worker_check (tp_pool ?s1) 0 = Some (Waiting, tp_pool ?s1)"
    by (simp add: worker_check_def tp_start_def init_thread_pool_def empty_queue_def)
  then have 2: "tp_step ?s1 (?s1\<lparr>tp_pool := tp_pool ?s1, tp_pcs := (tp_pcs ?s1)(0 := Waiting)\<rparr>)"
    by (intro tp_step.check) (simp_all add: tp_start_def init_thread_pool_def)
  let ?s2 = "?s1\<lparr>tp_pool := tp_pool ?s1, tp_pcs := (tp_pcs ?s1)(0 := Waiting)\<rparr>"
  have r: "tp_reachable 1 ?s2" by (rule tp_reachable.step [OF tp_reachable.step [OF tp_reachable.start 1] 2])
  have w: "tp_pcs ?s2 0 = Waiting" by simp
  show ?thesis by (rule exI [of _ ?s2], intro conjI, rule r, rule w, rule no_lost_wakeup [OF r _ w], simp)
qed

section \<open>The end of the server\<close>

primrec pc_rank :: "worker_pc \<Rightarrow> nat" where
  "pc_rank Starting = 2" | "pc_rank Checking = 1" | "pc_rank Waiting = 2"
| "pc_rank (Serving fd) = 3" | "pc_rank Closing = 2" | "pc_rank Exited = 0"

text \<open>How many steps a server that is ending can still make.\<close>

definition tp_rank :: "tp_sys \<Rightarrow> nat" where
  "tp_rank s = (\<Sum>i<tp_num (tp_pool s). pc_rank (tp_pcs s i)) +
     (case tp_main s of Polling \<Rightarrow> 0 | Joining k \<Rightarrow> tp_num (tp_pool s) - k)"

definition tp_joined :: "tp_sys \<Rightarrow> bool" where
  "tp_joined s \<longleftrightarrow> (case tp_main s of Polling \<Rightarrow> True
     | Joining k \<Rightarrow> k \<le> tp_num (tp_pool s) \<and> (\<forall>i<k. tp_pcs s i = Exited))"

lemma sum_upd_less: "i < n \<Longrightarrow> g x < g (f i) \<Longrightarrow> (\<Sum>j<n. g ((f(i := x)) j)) < (\<Sum>j<(n :: nat). g (f j) :: nat)"
  by (rule sum_strict_mono_ex1) auto

lemma joined_step: "tp_step s s' \<Longrightarrow> tp_shape s \<Longrightarrow> tp_joined s \<Longrightarrow> tp_joined s'"
proof -
  assume a: "tp_step s s'" "tp_shape s" "tp_joined s"
  note n = num_step [OF a(1,2)]
  from a(1,3) n show ?thesis
    by (induction rule: tp_step.induct) (auto simp: tp_joined_def less_Suc_eq split: main_pc.splits)
qed

lemma rank_worker:
  assumes "i < tp_num (tp_pool s)" "pc_rank pc < pc_rank (tp_pcs s i)" "tp_num p = tp_num (tp_pool s)"
  shows "tp_rank (s\<lparr>tp_pool := p, tp_pcs := (tp_pcs s)(i := pc)\<rparr>) < tp_rank s"
  using sum_upd_less [of i "tp_num (tp_pool s)" pc_rank pc "tp_pcs s"] assms by (simp add: tp_rank_def split: main_pc.split)

lemma rank_idle:
  assumes "i < tp_num (tp_pool s)" "pc_rank pc < pc_rank (tp_pcs s i)"
  shows "tp_rank (s\<lparr>tp_pcs := (tp_pcs s)(i := pc)\<rparr>) < tp_rank s"
  using rank_worker [OF assms refl] by simp

lemma rank_fds [simp]: "tp_rank (s\<lparr>tp_fds := f\<rparr>) = tp_rank s"
  by (simp add: tp_rank_def split: main_pc.split)

lemma exit_step:
  "tp_step s s' \<Longrightarrow> tp_shape s \<Longrightarrow> tp_joined s \<Longrightarrow> tp_main s \<noteq> Polling \<Longrightarrow> tp_rank s' < tp_rank s \<and> tp_main s' \<noteq> Polling"
proof (induction rule: tp_step.induct)
  case (check i s pc p)
  have len: "i < length (tp_busy (tp_pool s))" "queue_inv (tp_queue (tp_pool s))" "tp_exit (tp_pool s) \<noteq> 0"
    using check by (auto simp: tp_shape_def)
  from worker_check_ok [OF len(2,1) check(3)] len(3) have "pc = Exited" "p = tp_pool s" by auto
  then show ?case using check rank_worker [of i s pc p] by simp
next
  case (clear i s p)
  then have "tp_num p = tp_num (tp_pool s)" by (auto simp: worker_clear_def split: if_splits)
  then show ?case using clear rank_worker [of i s Checking p] by simp
next
  case (hang_up i s fd)
  then show ?case using rank_idle [of i "s\<lparr>tp_fds := (tp_fds s)(fd := Unused)\<rparr>" Closing] by simp
next
  case (cut_off i s fd)
  then show ?case using rank_idle [of i "s\<lparr>tp_fds := (tp_fds s)(fd := Unused)\<rparr>" Closing] by simp
next
  case (join s k)
  then show ?case by (simp add: tp_rank_def)
qed (simp_all add: rank_idle)

text \<open>The steps the threads of the server take by themselves, with nobody's help: no wake-up that the code
  does not send, no client that hangs up, no connection to the database that is still awaited.\<close>

inductive forced_step :: "tp_sys \<Rightarrow> tp_sys \<Rightarrow> bool" where
  looks: "i < tp_num (tp_pool s) \<Longrightarrow> tp_pcs s i = Checking \<Longrightarrow> worker_check (tp_pool s) i = Some (pc, p) \<Longrightarrow>
    forced_step s (s\<lparr>tp_pool := p, tp_pcs := (tp_pcs s)(i := pc)\<rparr>)"
| is_cut_off: "i < tp_num (tp_pool s) \<Longrightarrow> tp_pcs s i = Serving fd \<Longrightarrow> tp_fds s fd = Shut \<Longrightarrow>
    forced_step s (s\<lparr>tp_fds := (tp_fds s)(fd := Unused), tp_pcs := (tp_pcs s)(i := Closing)\<rparr>)"
| clears: "i < tp_num (tp_pool s) \<Longrightarrow> tp_pcs s i = Closing \<Longrightarrow> worker_clear (tp_pool s) i = Some p \<Longrightarrow>
    forced_step s (s\<lparr>tp_pool := p, tp_pcs := (tp_pcs s)(i := Checking)\<rparr>)"
| joins: "tp_main s = Joining k \<Longrightarrow> k < tp_num (tp_pool s) \<Longrightarrow> tp_pcs s k = Exited \<Longrightarrow>
    forced_step s (s\<lparr>tp_main := Joining (Suc k)\<rparr>)"

lemma forced_is_step: "forced_step s s' \<Longrightarrow> tp_step s s'"
  by (induction rule: forced_step.induct) (auto intro: tp_step.intros)

lemma exit_progress:
  assumes "tp_shape s" "tp_places s" "tp_main s \<noteq> Polling" "i < tp_num (tp_pool s)" "tp_pcs s i \<notin> {Starting, Waiting, Exited}"
  shows "\<exists>s'. forced_step s s'"
proof -
  have len: "i < length (tp_busy (tp_pool s))" "queue_inv (tp_queue (tp_pool s))" using assms(1,4) by (simp_all add: tp_shape_def)
  show ?thesis
  proof (cases "tp_pcs s i")
    case Checking
    obtain pc p where "worker_check (tp_pool s) i = Some (pc, p)" using worker_check_total [OF len(2,1)] by blast
    then show ?thesis using forced_step.looks assms(4) Checking by blast
  next
    case (Serving fd)
    then have "served s fd" using assms(4) by (auto simp: served_def)
    then have "tp_fds s fd = Shut" using tp_places_parts(4) [OF assms(2)] assms(3) by simp
    then show ?thesis using forced_step.is_cut_off assms(4) Serving by blast
  next
    case Closing
    have "worker_clear (tp_pool s) i = Some ((tp_pool s)\<lparr>tp_busy := (tp_busy (tp_pool s))[i := - 1]\<rparr>)"
      using len(1) by (simp add: worker_clear_def)
    then show ?thesis using forced_step.clears assms(4) Closing by blast
  qed (use assms(5) in simp_all)
qed

lemma tp_reachable_joined: "tp_reachable num s \<Longrightarrow> tp_joined s"
proof (induction rule: tp_reachable.induct)
  case start
  then show ?case by (simp add: tp_joined_def tp_start_def)
next
  case (step s s')
  then show ?case using joined_step tp_reachable_ok by metis
qed

lemma reachable_steps: "(tp_step ^^ m) s s' \<Longrightarrow> tp_reachable num s \<Longrightarrow> tp_reachable num s'"
  by (induction m arbitrary: s') (auto intro: tp_reachable.step)

lemma exit_run:
  "(tp_step ^^ m) s s' \<Longrightarrow> tp_reachable num s \<Longrightarrow> tp_main s \<noteq> Polling \<Longrightarrow> m + tp_rank s' \<le> tp_rank s \<and> tp_main s' \<noteq> Polling"
proof (induction m arbitrary: s')
  case (Suc m)
  then obtain s1 where s1: "(tp_step ^^ m) s s1" "tp_step s1 s'" by auto
  have r: "tp_reachable num s1" using reachable_steps [OF s1(1) Suc.prems(2)] .
  have "tp_shape s1" "tp_joined s1" using tp_reachable_ok [OF r] tp_reachable_joined [OF r] by simp_all
  with exit_step [OF s1(2)] Suc.IH [OF s1(1) Suc.prems(2,3)] show ?case by auto
qed simp

text \<open>C19: once the exit handler has run the server ends, whatever the clients do and however the threads
  are scheduled. From then on every run, with any hang-ups and spurious wake-ups in it, has at most as many
  steps as \<open>tp_rank\<close> counts, which is at most four per worker; the queue stays empty; and wherever the run
  is, the threads can go on by themselves, without a hang-up of a client and without a spurious wake-up,
  until every worker has left its loop and is joined. The one thing they may have to wait for is a worker
  that is still waiting for its connection to the database, before its loop.\<close>

theorem exit_always_completes:
  assumes "tp_reachable num s" "tp_main s \<noteq> Polling" "(tp_step ^^ m) s s'"
  shows "m \<le> tp_rank s \<and> tp_rank s \<le> 4 * num \<and> queue_content (tp_queue (tp_pool s')) = [] \<and>
    ((\<exists>s''. forced_step s' s'') \<or> (\<exists>i<num. tp_pcs s' i = Starting) \<or>
     tp_main s' = Joining num \<and> (\<forall>i<num. tp_pcs s' i = Exited))"
proof -
  have n: "tp_num (tp_pool s) = num" using tp_reachable_ok [OF assms(1)] by simp
  have "pc_rank pc \<le> 3" for pc by (cases pc) simp_all
  then have "(\<Sum>i<num. pc_rank (tp_pcs s i)) \<le> (\<Sum>i<num. 3)" by (intro sum_mono)
  then have bound: "tp_rank s \<le> 4 * num" using assms(2) by (cases "tp_main s") (simp_all add: tp_rank_def n)
  note run = exit_run [OF assms(3,1,2)]
  have r: "tp_reachable num s'" using reachable_steps [OF assms(3,1)] .
  note ok = tp_reachable_ok [OF r]
  obtain k where k: "tp_main s' = Joining k" using run by (cases "tp_main s'") auto
  have j: "k \<le> num" using tp_reachable_joined [OF r] k ok by (simp add: tp_joined_def)
  have q: "queue_content (tp_queue (tp_pool s')) = []" "\<forall>i<num. tp_pcs s' i \<noteq> Waiting" using ok k by (simp_all add: tp_ending_def)
  have "k = num \<and> (\<forall>i<num. tp_pcs s' i = Exited)" if "\<not> (\<exists>s''. forced_step s' s'')" "\<not> (\<exists>i<num. tp_pcs s' i = Starting)"
  proof -
    have all: "\<forall>i<num. tp_pcs s' i = Exited" using exit_progress [of s'] ok k q(2) that by auto
    have "\<not> k < num" using forced_step.joins [OF k] ok all that(1) by blast
    with j all show ?thesis by simp
  qed
  with run bound k q(1) show ?thesis by auto
qed

text \<open>The server of the instance, with a client waiting, is told to exit.\<close>

lemma demo_exit:
  "\<exists>s s1. tp_reachable 1 s \<and> tp_main s = Polling \<and> 4 \<in> set (queue_content (tp_queue (tp_pool s))) \<and> tp_step s s1 \<and> tp_main s1 = Joining 0"
proof -
  obtain s where s: "tp_reachable 1 s" "queue_content (tp_queue (tp_pool s)) = [4]" "tp_main s = Polling" "tp_fds s 4 = Open"
    using demo_accepted by blast
  have "queue_inv (tp_queue (tp_pool s))" "length (tp_busy (tp_pool s)) = tp_num (tp_pool s)"
    using tp_reachable_ok [OF s(1)] by (simp_all add: tp_shape_def)
  from exit_handler_ok [OF this, of "tp_fds s"] obtain p f where "exit_handler (tp_pool s) (tp_fds s) = Some (p, f)" by blast
  note e = tp_step.exit [OF s(3) this]
  show ?thesis by (intro exI conjI, rule s(1), rule s(3), simp add: s(2), rule e, simp)
qed

theorem exit_always_completes_witness:
  "\<exists>s. tp_reachable 1 s \<and> tp_main s = Joining 0 \<and> tp_rank s \<le> 4"
proof -
  obtain s s1 where s: "tp_reachable 1 s" "tp_step s s1" "tp_main s1 = Joining 0" using demo_exit by blast
  have r: "tp_reachable 1 s1" by (rule tp_reachable.step [OF s(1,2)])
  have "(tp_step ^^ 0) s1 s1" by simp
  from exit_always_completes [OF r _ this] r s(3) show ?thesis by (intro exI [of _ s1]) simp
qed

lemma leaked_step:
  assumes "tp_step s s'" "tp_shape s" "tp_places s" "tp_main s \<noteq> Polling" "tp_fds s fd = Shut" "\<not> served s fd"
  shows "tp_fds s' fd = Shut \<and> \<not> served s' fd"
  using assms
proof (induction rule: tp_step.induct)
  case (check i s pc p)
  have len: "i < length (tp_busy (tp_pool s))" "queue_inv (tp_queue (tp_pool s))" "tp_exit (tp_pool s) \<noteq> 0"
    using check by (auto simp: tp_shape_def)
  from worker_check_ok [OF len(2,1) check(3)] len(3) have "pc = Exited" "p = tp_pool s" by auto
  then show ?case using check by simp
next
  case (clear i s p)
  then have "tp_num p = tp_num (tp_pool s)" by (auto simp: worker_clear_def split: if_splits)
  with clear show ?case by (auto simp: served_def)
next
  case (hang_up i s g)
  then have "served s g" by (auto simp: served_def)
  with hang_up show ?case by (auto simp: served_def)
next
  case (cut_off i s g)
  then have "served s g" by (auto simp: served_def)
  with cut_off show ?case by (auto simp: served_def)
qed simp_all

lemma leaked_run:
  "(tp_step ^^ m) s s' \<Longrightarrow> tp_reachable num s \<Longrightarrow> tp_main s \<noteq> Polling \<Longrightarrow> tp_fds s fd = Shut \<Longrightarrow> \<not> served s fd \<Longrightarrow>
    tp_fds s' fd = Shut \<and> \<not> served s' fd"
proof (induction m arbitrary: s')
  case (Suc m)
  then obtain s1 where s1: "(tp_step ^^ m) s s1" "tp_step s1 s'" by auto
  have r: "tp_reachable num s1" using reachable_steps [OF s1(1) Suc.prems(2)] .
  have main: "tp_main s1 \<noteq> Polling" using exit_run [OF s1(1) Suc.prems(2,3)] by simp
  show ?case using leaked_step [OF s1(2) _ _ main] Suc.IH [OF s1(1) Suc.prems(2-5)] tp_reachable_ok [OF r] by simp
qed simp

text \<open>The step out of \<open>Polling\<close> is the exit handler.\<close>

lemma exit_effect:
  assumes "tp_step s s1" "tp_main s = Polling" "tp_main s1 \<noteq> Polling" "tp_shape s" "tp_places s" "fd \<in> set (queue_content (tp_queue (tp_pool s)))"
  shows "tp_fds s1 fd = Shut \<and> \<not> served s1 fd"
  using assms(1)
proof (cases rule: tp_step.cases)
  case (exit p f)
  obtain q where q: "p = (tp_pool s)\<lparr>tp_exit := 1, tp_queue := q\<rparr>"
    "f = shutdown_busy (tp_busy (tp_pool s)) (shutdown_busy (queue_content (tp_queue (tp_pool s))) (tp_fds s))"
    using exit_handler_ok [of "tp_pool s" "tp_fds s"] exit(3) assms(4) by (auto simp: tp_shape_def)
  have fd: "0 \<le> fd" "tp_fds s fd = Open" "\<not> served s fd" using tp_places_parts(2) [OF assms(5)] assms(6) by auto
  have "\<not> served s1 fd" using fd(3) exit(1) q(1) by (auto simp: served_def wake_up_def split: if_splits)
  with exit(1) q fd(1,2) assms(6) show ?thesis by (simp add: shutdown_busy_at)
qed (use assms(2,3) in simp_all)

text \<open>C40: a client that still waits in the queue when the server is told to exit is shut down, and its
  descriptor is never closed: in every state from then on it is in use and nobody serves it.\<close>

theorem drained_never_closed:
  assumes "tp_reachable num s" "tp_main s = Polling" "fd \<in> set (queue_content (tp_queue (tp_pool s)))"
    "tp_step s s1" "tp_main s1 \<noteq> Polling" "(tp_step ^^ m) s1 s2"
  shows "tp_fds s2 fd = Shut \<and> \<not> served s2 fd"
proof -
  have "tp_shape s" "tp_places s" using tp_reachable_ok [OF assms(1)] by simp_all
  from exit_effect [OF assms(4,2,5) this assms(3)] leaked_run [OF assms(6) tp_reachable.step [OF assms(1,4)] assms(5)]
  show ?thesis by blast
qed

theorem drained_never_closed_witness:
  "\<exists>s s1. tp_reachable 1 s \<and> 4 \<in> set (queue_content (tp_queue (tp_pool s))) \<and> tp_step s s1 \<and> tp_fds s1 4 = Shut"
proof -
  obtain s s1 where s: "tp_reachable 1 s" "tp_main s = Polling" "4 \<in> set (queue_content (tp_queue (tp_pool s)))" "tp_step s s1" "tp_main s1 = Joining 0"
    using demo_exit by blast
  have "tp_main s1 \<noteq> Polling" "(tp_step ^^ 0) s1 s1" using s(5) by simp_all
  from drained_never_closed [OF s(1-4) this] s(1,3,4) show ?thesis by blast
qed

section \<open>Waiting clients\<close>

text \<open>A run of the server that is not told to exit, in any interleaving, in which every worker that is on its
  way to the queue or done with a client gets to run some time and every client ends some time. Nothing
  is asked of a worker that sleeps: it moves when it is woken, spuriously or by the code. Between two
  states the run may stand still.\<close>

definition fair_run :: "nat \<Rightarrow> (nat \<Rightarrow> tp_sys) \<Rightarrow> bool" where
  "fair_run num r \<longleftrightarrow>
     (\<forall>k. (tp_step (r k) (r (Suc k)) \<or> r (Suc k) = r k) \<and> tp_main (r k) = Polling) \<and>
     (\<forall>k. \<forall>i<num. tp_pcs (r k) i \<in> {Checking, Closing} \<longrightarrow> (\<exists>l>k. tp_pcs (r l) i \<noteq> tp_pcs (r k) i)) \<and>
     (\<forall>k. \<forall>i<num. \<forall>fd. tp_pcs (r k) i = Serving fd \<longrightarrow> (\<exists>l>k. tp_pcs (r l) i \<noteq> Serving fd))"

lemma fair_run_parts:
  assumes "fair_run num r"
  shows "tp_step (r k) (r (Suc k)) \<or> r (Suc k) = r k" "tp_main (r k) = Polling"
    "i < num \<Longrightarrow> tp_pcs (r k) i \<noteq> Starting \<Longrightarrow> tp_pcs (r k) i \<noteq> Waiting \<Longrightarrow> tp_pcs (r k) i \<noteq> Exited \<Longrightarrow>
      \<exists>l>k. tp_pcs (r l) i \<noteq> tp_pcs (r k) i"
  using assms by (cases "tp_pcs (r k) i"; fastforce simp: fair_run_def)+

lemma fair_run_reachable:
  assumes "fair_run num r" "tp_reachable num (r 0)"
  shows "tp_reachable num (r k)"
proof (induction k)
  case (Suc k)
  with fair_run_parts(1) [OF assms(1), of k] show ?case by (auto intro: tp_reachable.step)
qed (rule assms(2))

text \<open>The first time a run leaves a set of states it leaves it in one step.\<close>

lemma first_change:
  assumes "P (f k)" "\<not> P (f l)" "k < (l :: nat)"
  shows "\<exists>j\<ge>k. P (f j) \<and> \<not> P (f (Suc j))"
  using assms(2,3)
proof (induction l)
  case (Suc l)
  show ?case
  proof (cases "k < l \<and> \<not> P (f l)")
    case False
    then have "P (f l)" using assms(1) Suc.prems(2) by (cases "k = l") auto
    then show ?thesis using Suc.prems by (intro exI [of _ l]) auto
  qed (use Suc.IH in blast)
qed simp

text \<open>What one step does to the queue and to a worker while the server runs.\<close>

lemma polling_queue:
  assumes "tp_step s s'" "tp_shape s" "tp_main s' = Polling"
  shows "(\<exists>zs. queue_content (tp_queue (tp_pool s')) = queue_content (tp_queue (tp_pool s)) @ zs) \<or>
    (\<exists>i<tp_num (tp_pool s). \<exists>fd. queue_content (tp_queue (tp_pool s)) = fd # queue_content (tp_queue (tp_pool s')) \<and>
       tp_pcs s' i = Serving fd)"
  using assms
proof (cases rule: tp_step.cases)
  case (check i pc p)
  then show ?thesis using worker_check_ok [of "tp_pool s" i pc p] assms(2) by (auto simp: tp_shape_def)
next
  case (clear i p)
  then show ?thesis by (auto simp: worker_clear_def split: if_splits)
next
  case (accept fd node p pcs)
  then show ?thesis using accept_client_ok [of "tp_pool s" node fd] assms(2) by (auto simp: tp_shape_def)
qed (use assms(3) in auto)

lemma polling_worker:
  assumes "tp_step s s'" "tp_shape s" "tp_main s' = Polling"
  shows "tp_pcs s' i = tp_pcs s i \<or> (\<exists>fd. tp_pcs s i = Serving fd \<and> tp_pcs s' i = Closing) \<or>
    tp_pcs s i = Closing \<and> tp_pcs s' i = Checking \<or> tp_pcs s i = Waiting \<and> tp_pcs s' i = Checking \<or> tp_pcs s i = Starting \<or>
    tp_pcs s i = Checking \<and> (queue_content (tp_queue (tp_pool s)) = [] \<or>
      (\<exists>fd. queue_content (tp_queue (tp_pool s)) = fd # queue_content (tp_queue (tp_pool s'))))"
  using assms
proof (cases rule: tp_step.cases)
  case (check j pc p)
  then have "tp_exit (tp_pool s) = 0" using assms(2,3) by (simp add: tp_shape_def)
  then show ?thesis using check worker_check_ok [of "tp_pool s" j pc p] assms(2) by (auto simp: tp_shape_def)
next
  case (accept fd node p pcs)
  from accept(7) accept(1) show ?thesis by (cases rule: signalled_cases) auto
qed (use assms(3) in auto)

text \<open>A worker that is done with its client, or still busy with it, comes back to the queue.\<close>

lemma returns_to_queue:
  assumes "fair_run num r" "tp_reachable num (r 0)" "i < num" "tp_pcs (r k) i \<notin> {Starting, Exited, Waiting}"
  shows "\<exists>l\<ge>k. tp_pcs (r l) i = Checking"
proof -
  have sh: "tp_shape (r j)" for j using tp_reachable_ok [OF fair_run_reachable [OF assms(1,2)]] by blast
  have next_pc: "\<exists>j\<ge>k. tp_pcs (r (Suc j)) i = pc'" if h: "tp_pcs (r k) i = pc" "pc = Closing \<and> pc' = Checking \<or> (\<exists>fd. pc = Serving fd) \<and> pc' = Closing" for k pc pc'
  proof -
    obtain l where "tp_pcs (r l) i \<noteq> pc" "k < l" using fair_run_parts(3) [OF assms(1,3), of k] h by auto
    from first_change [of "\<lambda>s. tp_pcs s i = pc" r k l, OF h(1) this]
    obtain j where j: "j \<ge> k" "tp_pcs (r j) i = pc" "tp_pcs (r (Suc j)) i \<noteq> pc" by auto
    then have "tp_step (r j) (r (Suc j))" using fair_run_parts(1) [OF assms(1), of j] by auto
    from polling_worker [OF this sh fair_run_parts(2) [OF assms(1)], of i] j h(2) show ?thesis by auto
  qed
  show ?thesis
  proof (cases "tp_pcs (r k) i")
    case (Serving fd)
    then obtain j where j: "j \<ge> k" "tp_pcs (r (Suc j)) i = Closing" using next_pc [OF Serving] by blast
    from next_pc [OF j(2)] obtain m where "m \<ge> Suc j" "tp_pcs (r (Suc m)) i = Checking" by blast
    with j(1) show ?thesis by (intro exI [of _ "Suc m"]) simp
  next
    case Closing
    from next_pc [OF this] show ?thesis by (metis le_Suc_eq)
  qed (use assms(4) in auto)
qed

text \<open>The oldest client is taken, as long as a worker is there.\<close>

lemma head_taken:
  assumes "fair_run num r" "tp_reachable num (r 0)" "i < num" "tp_pcs (r k) i \<notin> {Starting, Exited}"
    "queue_content (tp_queue (tp_pool (r k))) = x # xs"
  shows "\<exists>l>k. \<exists>zs. (\<exists>j<num. tp_pcs (r l) j = Serving x) \<and> queue_content (tp_queue (tp_pool (r l))) = xs @ zs"
proof -
  note fair = fair_run_parts [OF assms(1)]
  let ?q = "\<lambda>s. queue_content (tp_queue (tp_pool s))"
  let ?P = "\<lambda>s. \<exists>zs. ?q s = x # xs @ zs"
  note ok = tp_reachable_ok [OF fair_run_reachable [OF assms(1,2)]]
  have stays: "tp_pcs (r (Suc l)) i = Checking" if "tp_pcs (r l) i = Checking" "?P (r l)" "?P (r (Suc l))" for l i
  proof -
    have "distinct (?q (r l))" using ok tp_places_parts(1) by blast
    moreover have "x \<in> set (?q (r (Suc l)))" using that(3) by auto
    ultimately have "?q (r l) \<noteq> y # ?q (r (Suc l))" for y using that(2) by (metis distinct.simps(2) list.inject)
    then show ?thesis using fair(1) [of l] polling_worker [of "r l" "r (Suc l)" i] ok [of l] fair(2) [of "Suc l"] that(1,2) by auto
  qed
  have "\<exists>l>k. \<not> ?P (r l)"
  proof (rule ccontr)
    assume "\<not> ?thesis"
    then have P: "?P (r l)" if "k \<le> l" for l using that assms(5) by (metis append_Nil2 le_neq_implies_less)
    obtain j l where c: "j < num" "k \<le> l" "tp_pcs (r l) j = Checking"
    proof (cases "tp_pcs (r k) i = Waiting")
      case True
      have "0 < card (awake (r k))" using ok [of k] True assms(3,5) unfolding tp_wakes_def by (metis length_Cons less_le_trans zero_less_Suc)
      then obtain j where "j \<in> awake (r k)" by (metis card.empty ex_in_conv less_irrefl)
      then show thesis using that [of j k] ok [of k] by (simp add: awake_def)
    next
      case False
      then obtain l where "k \<le> l" "tp_pcs (r l) i = Checking" using returns_to_queue [OF assms(1-3), of k] assms(4) by auto
      then show thesis using that [of i l] assms(3) by blast
    qed
    obtain m where "l < m" "tp_pcs (r m) j \<noteq> Checking" using fair(3) [OF c(1), of l] c(3) by auto
    then obtain n where "l \<le> n" "tp_pcs (r n) j = Checking" "tp_pcs (r (Suc n)) j \<noteq> Checking"
      using first_change [of "\<lambda>s. tp_pcs s j = Checking" r l m] c(3) by blast
    then show False using stays [of n j] P c(2) by simp
  qed
  then obtain l where "\<not> ?P (r l)" "k < l" by blast
  from first_change [of ?P r k l, OF _ this] assms(5)
  obtain n where n: "k \<le> n" "?P (r n)" "\<not> ?P (r (Suc n))" by auto
  then obtain zs where zs: "?q (r n) = x # xs @ zs" by blast
  have "tp_step (r n) (r (Suc n))" using n(2,3) fair(1) [of n] by auto
  from polling_queue [OF this] ok [of n] fair(2) n(3) zs have "(\<exists>j<num. tp_pcs (r (Suc n)) j = Serving x) \<and> ?q (r (Suc n)) = xs @ zs" by auto
  with n(1) show ?thesis by (intro exI [of _ "Suc n"]) auto
qed

lemma queue_moves:
  assumes "fair_run num r" "tp_reachable num (r 0)" "\<exists>i<num. tp_pcs (r k) i \<notin> {Starting, Exited}"
    "queue_content (tp_queue (tp_pool (r k))) = xs @ fd # ys"
  shows "\<exists>l\<ge>k. \<exists>i<num. tp_pcs (r l) i = Serving fd"
  using assms(3,4)
proof (induction xs arbitrary: k ys)
  case Nil
  then obtain i where i: "i < num" "tp_pcs (r k) i \<notin> {Starting, Exited}" by blast
  have q: "queue_content (tp_queue (tp_pool (r k))) = fd # ys" using Nil(2) by simp
  obtain l zs where l: "k < l" "\<exists>j<num. tp_pcs (r l) j = Serving fd" using head_taken [OF assms(1,2) i q] by blast
  show ?case by (rule exI [of _ l], rule conjI [OF less_imp_le [OF l(1)] l(2)])
next
  case (Cons x xs)
  obtain i where i: "i < num" "tp_pcs (r k) i \<notin> {Starting, Exited}" using Cons.prems(1) by blast
  have q: "queue_content (tp_queue (tp_pool (r k))) = x # xs @ fd # ys" using Cons.prems(2) by simp
  obtain l zs j where l: "k < l" "j < num" "tp_pcs (r l) j = Serving x" "queue_content (tp_queue (tp_pool (r l))) = (xs @ fd # ys) @ zs"
    using head_taken [OF assms(1,2) i q] by blast
  have "\<exists>m\<ge>l. \<exists>i<num. tp_pcs (r m) i = Serving fd" using l(2-4) by (intro Cons.IH [of l "ys @ zs"]) auto
  with l(1) show ?case by (meson le_trans less_imp_le)
qed

text \<open>When every worker has left, nobody is served any more.\<close>

lemma all_exited_run:
  assumes "fair_run num r" "tp_reachable num (r 0)" "i < num" "tp_pcs (r 0) i = Exited"
  shows "tp_pcs (r k) i = Exited"
proof (induction k)
  case (Suc k)
  then show ?case
    using fair_run_parts(1,2) [OF assms(1)] polling_worker [of "r k" "r (Suc k)" i] tp_reachable_ok [OF fair_run_reachable [OF assms(1,2)], of k]
    by (metis worker_pc.distinct(9,17,23,27,29))
qed (rule assms(4))

text \<open>C20: a client in the queue is served. In every run of the server in which the workers that are awake
  get to run and clients end, and which need not contain one spurious wake-up, each client that
  waits in the queue is taken by a worker some time, however many clients are before it and however many
  arrive after it, if one worker has got its connection to the database. If every worker has left, which
  each does at its start when it gets no connection, clients are accepted and never answered.\<close>

theorem queued_client_served:
  assumes "tp_reachable num (r 0)" "fair_run num r" "fd \<in> set (queue_content (tp_queue (tp_pool (r 0))))"
  shows "((\<exists>i<num. tp_pcs (r 0) i \<notin> {Starting, Exited}) \<longrightarrow> (\<exists>k. \<exists>i<num. tp_pcs (r k) i = Serving fd)) \<and>
    ((\<forall>i<num. tp_pcs (r 0) i = Exited) \<longrightarrow> (\<forall>k. \<forall>i<num. tp_pcs (r k) i \<noteq> Serving fd))"
proof -
  obtain xs ys where "queue_content (tp_queue (tp_pool (r 0))) = xs @ fd # ys" using split_list [OF assms(3)] by blast
  note moves = queue_moves [OF assms(2,1) _ this]
  have "tp_pcs (r k) i \<noteq> Serving fd" if "\<forall>i<num. tp_pcs (r 0) i = Exited" "i < num" for k i
    using all_exited_run [OF assms(2,1) that(2), of k] that by simp
  with moves show ?thesis by blast
qed

text \<open>The one worker gets its connection, takes the client, the client hangs up, and the worker goes to sleep.\<close>

lemma demo_check:
  assumes "tp_reachable 1 s" "tp_main s = Polling" "tp_pcs s 0 = Checking"
  shows "\<exists>s'. tp_step s s' \<and> tp_reachable 1 s' \<and> tp_main s' = Polling \<and>
    queue_content (tp_queue (tp_pool s')) = tl (queue_content (tp_queue (tp_pool s))) \<and>
    tp_pcs s' 0 = (if queue_content (tp_queue (tp_pool s)) = [] then Waiting else Serving (hd (queue_content (tp_queue (tp_pool s)))))"
proof -
  note ok = tp_reachable_ok [OF assms(1)]
  have len: "0 < length (tp_busy (tp_pool s))" "queue_inv (tp_queue (tp_pool s))" "tp_exit (tp_pool s) = 0"
    using ok assms(2) by (simp_all add: tp_shape_def)
  obtain pc p where w: "worker_check (tp_pool s) 0 = Some (pc, p)" using worker_check_total [OF len(2,1)] by blast
  have "tp_step s (s\<lparr>tp_pool := p, tp_pcs := (tp_pcs s)(0 := pc)\<rparr>)" by (rule tp_step.check [OF _ assms(3) w]) (simp add: ok)
  with tp_reachable.step [OF assms(1) this] worker_check_ok [OF len(2,1) w] assms(2) len(3) show ?thesis
    by (intro exI [of _ "s\<lparr>tp_pool := p, tp_pcs := (tp_pcs s)(0 := pc)\<rparr>"]) auto
qed

lemma demo_run: "\<exists>r. tp_reachable 1 (r 0) \<and> fair_run 1 r \<and> 4 \<in> set (queue_content (tp_queue (tp_pool (r 0)))) \<and> tp_pcs (r 0) 0 = Checking"
proof -
  obtain s where s: "tp_reachable 1 s" "queue_content (tp_queue (tp_pool s)) = [4]" "tp_main s = Polling" "tp_pcs s 0 = Starting"
    using demo_accepted by blast
  note n = tp_reachable_ok [OF s(1)]
  let ?s1 = "s\<lparr>tp_pcs := (tp_pcs s)(0 := Checking)\<rparr>"
  have s1: "tp_reachable 1 ?s1" by (rule tp_reachable.step [OF s(1)], rule tp_step.connected) (simp_all add: n s(4))
  obtain s2 where s2: "tp_step ?s1 s2" "tp_reachable 1 s2" "tp_main s2 = Polling" "tp_pcs s2 0 = Serving 4" "queue_content (tp_queue (tp_pool s2)) = []"
    using demo_check [OF s1] s(2,3) by auto
  note ok2 = tp_reachable_ok [OF s2(2)]
  have "served s2 4" using s2(4) ok2 by (auto simp: served_def)
  then have "tp_fds s2 4 = Open" using ok2 tp_places_parts(4) s2(3) by metis
  let ?s3 = "s2\<lparr>tp_fds := (tp_fds s2)(4 := Unused), tp_pcs := (tp_pcs s2)(0 := Closing)\<rparr>"
  have s3: "tp_step s2 ?s3" by (rule tp_step.hang_up [OF _ s2(4)]) (simp_all add: ok2 \<open>tp_fds s2 4 = Open\<close>)
  have r3: "tp_reachable 1 ?s3" by (rule tp_reachable.step [OF s2(2) s3])
  let ?p = "(tp_pool s2)\<lparr>tp_busy := (tp_busy (tp_pool s2))[0 := - 1]\<rparr>"
  let ?s4 = "?s3\<lparr>tp_pool := ?p, tp_pcs := (tp_pcs ?s3)(0 := Checking)\<rparr>"
  have s4: "tp_step ?s3 ?s4" by (rule tp_step.clear) (use ok2 in \<open>simp_all add: worker_clear_def tp_shape_def\<close>)
  have r4: "tp_reachable 1 ?s4" by (rule tp_reachable.step [OF r3 s4])
  obtain s5 where s5: "tp_step ?s4 s5" "tp_main s5 = Polling" "tp_pcs s5 0 = Waiting"
    using demo_check [OF r4] s2(3,5) by auto
  define r where "r = (\<lambda>k :: nat. if k = 0 then ?s1 else if k = 1 then s2 else if k = 2 then ?s3 else if k = 3 then ?s4 else s5)"
  have r_at: "r 0 = ?s1" "r (Suc 0) = s2" "r (Suc (Suc 0)) = ?s3" "r (Suc (Suc (Suc 0))) = ?s4" "r (Suc (Suc (Suc (Suc k)))) = s5" for k
    by (simp_all add: r_def)
  have five: "k = 0 \<or> k = Suc 0 \<or> k = Suc (Suc 0) \<or> k = Suc (Suc (Suc 0)) \<or> (\<exists>j. k = Suc (Suc (Suc (Suc j))))" for k :: nat
    by (metis not0_implies_Suc)
  have step: "(tp_step (r k) (r (Suc k)) \<or> r (Suc k) = r k) \<and> tp_main (r k) = Polling" for k
    using five [of k] s2(1,3) s3 s4 s5(1,2) s(3) by (elim disjE exE) (simp_all add: r_at)
  have at: "tp_pcs (r 0) 0 = Checking" "tp_pcs (r (Suc 0)) 0 = Serving 4" "tp_pcs (r (Suc (Suc 0))) 0 = Closing"
    "tp_pcs (r (Suc (Suc (Suc 0)))) 0 = Checking" "tp_pcs (r (Suc (Suc (Suc (Suc k))))) 0 = Waiting" for k
    using s2(4) s5(3) by (simp_all add: r_at)
  have leaves: "tp_pcs (r k) 0 = Waiting \<or> (\<exists>l>k. tp_pcs (r l) 0 \<noteq> tp_pcs (r k) 0)" for k
    using five [of k] at
  proof (elim disjE exE)
    assume "k = Suc (Suc (Suc 0))"
    with at(4) at(5) [of 0] show ?thesis by (intro disjI2 exI [of _ "Suc (Suc (Suc (Suc 0)))"]) simp
  qed (auto intro: exI [of _ "Suc k"])
  have "fair_run 1 r"
    unfolding fair_run_def
  proof (intro conjI allI impI)
    fix k i assume "i < (1 :: nat)" "tp_pcs (r k) i \<in> {Checking, Closing}"
    with leaves [of k] show "\<exists>l>k. tp_pcs (r l) i \<noteq> tp_pcs (r k) i" by auto
  next
    fix k i fd assume "i < (1 :: nat)" "tp_pcs (r k) i = Serving fd"
    with leaves [of k] show "\<exists>l>k. tp_pcs (r l) i \<noteq> Serving fd" by auto
  qed (use step in blast)+
  moreover have "tp_reachable 1 (r 0)" "4 \<in> set (queue_content (tp_queue (tp_pool (r 0))))" using s1 s(2) by (simp_all add: r_at)
  ultimately show ?thesis using at(1) by blast
qed

theorem queued_client_served_witness:
  "\<exists>r. tp_reachable 1 (r 0) \<and> fair_run 1 r \<and> 4 \<in> set (queue_content (tp_queue (tp_pool (r 0)))) \<and>
    (\<exists>k. \<exists>i<1. tp_pcs (r k) i = Serving 4)"
proof -
  obtain r where r: "tp_reachable 1 (r 0)" "fair_run 1 r" "4 \<in> set (queue_content (tp_queue (tp_pool (r 0))))" "tp_pcs (r 0) 0 = Checking"
    using demo_run by blast
  from queued_client_served [OF r(1-3)] r(4) have "\<exists>k. \<exists>i<1. tp_pcs (r k) i = Serving 4" by auto
  with r(1-3) show ?thesis by blast
qed

end
