(* ===== verification/Db_Pool.thy ===== *)
theory Db_Pool
  imports C_Prelude
begin

text \<open>
  The connection pool (\<open>include/db_pool.h\<close>, \<open>src/server/db_pool.c\<close>). The MySQL client
  library, \<open>malloc\<close> and \<open>time\<close> are the parameter \<open>env\<close>, a record of functions over an
  environment state \<open>'e\<close>; a \<open>MYSQL *\<close> is a number, NULL is \<open>None\<close>. The array
  \<open>connections\<close> is a list of exactly the allocated length, and an access past its end is
  undefined behaviour.

  \<open>db_pool_get_connection\<close> is split where the code gives up the lock: \<open>get_pass\<close> is one
  round of its endless loop, up to the wait on the condition variable. The theory
  \<open>Db_Pool_Steps\<close> runs these rounds of any number of threads against each other.
\<close>

section \<open>State\<close>

record db_pool_config =
  cfg_host :: string
  cfg_user :: string
  cfg_password :: string
  cfg_db_name :: string
  min_connections :: int
  max_connections :: int
  max_idle_time :: int
  connection_timeout :: int

record db_connection =
  dc_conn :: nat
  last_used_time :: int
  in_use :: bool

record db_pool =
  connections :: "db_connection option list"
  pool_size :: int
  max_size :: int
  min_size :: int
  in_use_count :: int
  pool_config :: db_pool_config

record 'e pool_env =
  mysql_init :: "'e \<Rightarrow> nat option \<times> 'e"
  mysql_real_connect :: "nat \<Rightarrow> db_pool_config \<Rightarrow> 'e \<Rightarrow> bool \<times> 'e"
  mysql_set_character_set :: "nat \<Rightarrow> string \<Rightarrow> 'e \<Rightarrow> 'e"
  mysql_options_timeout :: "nat \<Rightarrow> int \<Rightarrow> 'e \<Rightarrow> 'e"
  mysql_ping :: "nat \<Rightarrow> 'e \<Rightarrow> bool \<times> 'e"
  mysql_close :: "nat \<Rightarrow> 'e \<Rightarrow> 'e"
  os_malloc :: "'e \<Rightarrow> bool \<times> 'e"
  os_time :: "'e \<Rightarrow> int \<times> 'e"

section \<open>Operations\<close>

definition create_db_connection ::
    "'e pool_env \<Rightarrow> db_pool_config \<Rightarrow> 'e \<Rightarrow> nat option \<times> 'e" where
  "create_db_connection env config e =
     (case mysql_init env e of
        (None, e1) \<Rightarrow> (None, e1)
      | (Some conn, e1) \<Rightarrow>
          (case mysql_real_connect env conn config e1 of
             (False, e2) \<Rightarrow> (None, mysql_close env conn e2)
           | (True, e2) \<Rightarrow>
               (let e3 = mysql_set_character_set env conn ''utf8mb4'' e2;
                    timeout = (if connection_timeout config > 0 then connection_timeout config else 30)
                in (Some conn, mysql_options_timeout env conn timeout e3))))"

definition is_connection_valid :: "'e pool_env \<Rightarrow> nat \<Rightarrow> 'e \<Rightarrow> bool \<times> 'e" where
  "is_connection_valid env conn e = mysql_ping env conn e"

definition close_db_connection :: "'e pool_env \<Rightarrow> nat \<Rightarrow> 'e \<Rightarrow> 'e" where
  "close_db_connection env conn e = mysql_close env conn e"

text \<open>Array accesses; an index outside the allocated array is undefined behaviour.\<close>

definition slot_get :: "db_pool \<Rightarrow> int \<Rightarrow> db_connection option ub" where
  "slot_get p i =
     (if 0 \<le> i \<and> i < int (length (connections p)) then Some (connections p ! nat i) else None)"

definition slot_set :: "db_pool \<Rightarrow> int \<Rightarrow> db_connection option \<Rightarrow> db_pool ub" where
  "slot_set p i v =
     (if 0 \<le> i \<and> i < int (length (connections p))
      then Some (p\<lparr>connections := (connections p)[nat i := v]\<rparr>) else None)"

text \<open>The loop that opens the minimal connections; the first argument counts the rounds left.\<close>

fun init_loop :: "nat \<Rightarrow> 'e pool_env \<Rightarrow> db_pool_config \<Rightarrow> db_pool \<Rightarrow> 'e \<Rightarrow> (db_pool \<times> 'e) ub" where
  "init_loop 0 env config p e = Some (p, e)"
| "init_loop (Suc n) env config p e =
     (case create_db_connection env config e of
        (None, e1) \<Rightarrow> Some (p, e1)
      | (Some conn, e1) \<Rightarrow>
          (case os_malloc env e1 of
             (False, e2) \<Rightarrow> Some (p, close_db_connection env conn e2)
           | (True, e2) \<Rightarrow>
               (case os_time env e2 of
                  (now, e3) \<Rightarrow>
                    (case slot_set p (pool_size p)
                            (Some \<lparr>dc_conn = conn, last_used_time = now, in_use = False\<rparr>) of
                       None \<Rightarrow> None
                     | Some p1 \<Rightarrow>
                         init_loop n env config (p1\<lparr>pool_size := pool_size p1 + 1\<rparr>) e3))))"

text \<open>The global \<open>g_pool\<close> is passed and returned.\<close>

definition db_pool_init ::
    "'e pool_env \<Rightarrow> db_pool_config option \<Rightarrow> db_pool option \<Rightarrow> 'e \<Rightarrow> (int \<times> db_pool option \<times> 'e) ub" where
  "db_pool_init env config g_pool e =
     (case config of
        None \<Rightarrow> Some (- 1, g_pool, e)
      | Some cfg \<Rightarrow>
          if g_pool \<noteq> None then Some (0, g_pool, e)
          else
            (case os_malloc env e of
               (False, e1) \<Rightarrow> Some (- 1, None, e1)
             | (True, e1) \<Rightarrow>
                 (case os_malloc env e1 of
                    (False, e2) \<Rightarrow> Some (- 1, None, e2)
                  | (True, e2) \<Rightarrow>
                      (let p = \<lparr>connections = replicate (nat (max_connections cfg)) None,
                                pool_size = 0, max_size = max_connections cfg,
                                min_size = min_connections cfg, in_use_count = 0,
                                pool_config = cfg\<rparr>
                       in case init_loop (nat (min_size p)) env cfg p e2 of
                            None \<Rightarrow> None
                          | Some (p', e3) \<Rightarrow> Some (0, Some p', e3)))))"

datatype pass_result = Got nat | Must_wait

text \<open>The search for a free connection, from slot \<open>i\<close> for \<open>n\<close> more slots.\<close>

fun scan_free :: "nat \<Rightarrow> int \<Rightarrow> 'e pool_env \<Rightarrow> db_pool \<Rightarrow> 'e \<Rightarrow> (nat option \<times> db_pool \<times> 'e) ub" where
  "scan_free 0 i env p e = Some (None, p, e)"
| "scan_free (Suc n) i env p e =
     (case slot_get p i of
        None \<Rightarrow> None
      | Some None \<Rightarrow> scan_free n (i + 1) env p e
      | Some (Some d) \<Rightarrow>
          if in_use d then scan_free n (i + 1) env p e
          else
            (case is_connection_valid env (dc_conn d) e of
               (True, e1) \<Rightarrow>
                 (case os_time env e1 of
                    (now, e2) \<Rightarrow>
                      (case slot_set p i (Some (d\<lparr>in_use := True, last_used_time := now\<rparr>)) of
                         None \<Rightarrow> None
                       | Some p1 \<Rightarrow>
                           Some (Some (dc_conn d), p1\<lparr>in_use_count := in_use_count p1 + 1\<rparr>, e2)))
             | (False, e1) \<Rightarrow>
                 (let e2 = close_db_connection env (dc_conn d) e1 in
                  case slot_set p i None of
                    None \<Rightarrow> None
                  | Some p1 \<Rightarrow> scan_free n (i + 1) env p1 e2)))"

definition get_pass :: "'e pool_env \<Rightarrow> db_pool \<Rightarrow> 'e \<Rightarrow> (pass_result \<times> db_pool \<times> 'e) ub" where
  "get_pass env p e =
     (case scan_free (nat (pool_size p)) 0 env p e of
        None \<Rightarrow> None
      | Some (Some conn, p1, e1) \<Rightarrow> Some (Got conn, p1, e1)
      | Some (None, p1, e1) \<Rightarrow>
          if pool_size p1 < max_size p1
          then
            (case create_db_connection env (pool_config p1) e1 of
               (None, e2) \<Rightarrow> Some (Must_wait, p1, e2)
             | (Some new_conn, e2) \<Rightarrow>
                 (case os_malloc env e2 of
                    (False, e3) \<Rightarrow> Some (Must_wait, p1, close_db_connection env new_conn e3)
                  | (True, e3) \<Rightarrow>
                      (case os_time env e3 of
                         (now, e4) \<Rightarrow>
                           (case slot_set p1 (pool_size p1)
                                  (Some \<lparr>dc_conn = new_conn, last_used_time = now, in_use = True\<rparr>) of
                              None \<Rightarrow> None
                            | Some p2 \<Rightarrow>
                                Some (Got new_conn,
                                      p2\<lparr>pool_size := pool_size p2 + 1,
                                         in_use_count := in_use_count p2 + 1\<rparr>, e4)))))
          else Some (Must_wait, p1, e1))"

fun release_scan :: "nat \<Rightarrow> int \<Rightarrow> 'e pool_env \<Rightarrow> nat \<Rightarrow> db_pool \<Rightarrow> 'e \<Rightarrow> (int \<times> db_pool \<times> 'e) ub" where
  "release_scan 0 i env conn p e = Some (- 1, p, e)"
| "release_scan (Suc n) i env conn p e =
     (case slot_get p i of
        None \<Rightarrow> None
      | Some None \<Rightarrow> release_scan n (i + 1) env conn p e
      | Some (Some d) \<Rightarrow>
          if dc_conn d = conn
          then
            (case os_time env e of
               (now, e1) \<Rightarrow>
                 (case slot_set p i (Some (d\<lparr>in_use := False, last_used_time := now\<rparr>)) of
                    None \<Rightarrow> None
                  | Some p1 \<Rightarrow> Some (0, p1\<lparr>in_use_count := in_use_count p1 - 1\<rparr>, e1)))
          else release_scan n (i + 1) env conn p e)"

definition db_pool_release_connection ::
    "'e pool_env \<Rightarrow> db_pool option \<Rightarrow> nat option \<Rightarrow> 'e \<Rightarrow> (int \<times> db_pool option \<times> 'e) ub" where
  "db_pool_release_connection env g_pool conn e =
     (case (g_pool, conn) of
        (Some p, Some c) \<Rightarrow>
          map_option (\<lambda>(r, p', e'). (r, Some p', e')) (release_scan (nat (pool_size p)) 0 env c p e)
      | _ \<Rightarrow> Some (- 1, g_pool, e))"

definition db_pool_get_stats :: "db_pool option \<Rightarrow> int \<times> int" where
  "db_pool_get_stats g_pool =
     (case g_pool of None \<Rightarrow> (0, 0) | Some p \<Rightarrow> (pool_size p, in_use_count p))"

fun destroy_scan :: "nat \<Rightarrow> int \<Rightarrow> 'e pool_env \<Rightarrow> db_pool \<Rightarrow> 'e \<Rightarrow> 'e ub" where
  "destroy_scan 0 i env p e = Some e"
| "destroy_scan (Suc n) i env p e =
     (case slot_get p i of
        None \<Rightarrow> None
      | Some None \<Rightarrow> destroy_scan n (i + 1) env p e
      | Some (Some d) \<Rightarrow>
          (case slot_set p i None of
             None \<Rightarrow> None
           | Some p1 \<Rightarrow> destroy_scan n (i + 1) env p1 (close_db_connection env (dc_conn d) e)))"

definition db_pool_destroy :: "'e pool_env \<Rightarrow> db_pool option \<Rightarrow> 'e \<Rightarrow> (db_pool option \<times> 'e) ub" where
  "db_pool_destroy env g_pool e =
     (case g_pool of
        None \<Rightarrow> Some (None, e)
      | Some p \<Rightarrow> map_option (\<lambda>e'. (None, e')) (destroy_scan (nat (pool_size p)) 0 env p e))"

section \<open>Well-formed pools\<close>

definition present :: "db_connection option list \<Rightarrow> db_connection list" where
  "present cs = map the (filter (\<lambda>s. s \<noteq> None) cs)"

text \<open>The handles of all connections in the pool, and of those handed out.\<close>

definition handles :: "db_pool \<Rightarrow> nat set" where
  "handles p = dc_conn ` set (present (connections p))"

definition held :: "db_pool \<Rightarrow> nat set" where
  "held p = dc_conn ` set (filter in_use (present (connections p)))"

definition pool_inv :: "nat set \<Rightarrow> db_pool \<Rightarrow> bool" where
  "pool_inv live p \<longleftrightarrow>
     0 \<le> pool_size p \<and> pool_size p \<le> max_size p \<and> max_size p = int (length (connections p)) \<and>
     list_all (\<lambda>s. s = None) (drop (nat (pool_size p)) (connections p)) \<and>
     in_use_count p = int (length (filter in_use (present (connections p)))) \<and>
     distinct (map dc_conn (present (connections p))) \<and> handles p \<subseteq> live"

lemma present_simps [simp]:
  "present [] = []" "present (None # cs) = present cs" "present (Some d # cs) = d # present cs"
  "present (cs @ ds) = present cs @ present ds" "present (replicate n None) = []"
  by (simp_all add: present_def)

lemma slot_split:
  assumes "slot_get p i = Some s"
  obtains xs ys where "connections p = xs @ s # ys" "int (length xs) = i"
    "\<And>v. slot_set p i v = Some (p\<lparr>connections := xs @ v # ys\<rparr>)"
proof
  from assms have i: "0 \<le> i" "nat i < length (connections p)" "s = connections p ! nat i"
    by (auto simp: slot_get_def split: if_splits)
  then show "connections p = take (nat i) (connections p) @ s # drop (Suc (nat i)) (connections p)"
    by (simp add: id_take_nth_drop)
  show "int (length (take (nat i) (connections p))) = i" using i by simp
  fix v
  show "slot_set p i v =
      Some (p\<lparr>connections := take (nat i) (connections p) @ v # drop (Suc (nat i)) (connections p)\<rparr>)"
    using i by (simp add: slot_set_def upd_conv_take_nth_drop)
qed

lemma slot_get_in_range:
  "pool_inv L p \<Longrightarrow> 0 \<le> i \<Longrightarrow> i < max_size p \<Longrightarrow> \<exists>s. slot_get p i = Some s"
  by (auto simp: slot_get_def pool_inv_def)

lemma pool_inv_mono: "pool_inv L p \<Longrightarrow> L \<subseteq> M \<Longrightarrow> pool_inv M p"
  by (auto simp: pool_inv_def)

lemma held_handles: "held p \<subseteq> handles p"
  by (auto simp: held_def handles_def)

lemma pool_inv_take:
  assumes "pool_inv L p" "connections p = xs @ Some d # ys" "\<not> in_use d" "int (length xs) < pool_size p"
  shows "pool_inv L (p\<lparr>connections := xs @ Some (d\<lparr>in_use := True, last_used_time := now\<rparr>) # ys,
                      in_use_count := in_use_count p + 1\<rparr>)"
  using assms by (auto simp: pool_inv_def handles_def drop_Cons' Let_def split: if_splits)

lemma held_take:
  "connections p = xs @ Some d # ys \<Longrightarrow>
   held (p\<lparr>connections := xs @ Some (d\<lparr>in_use := True, last_used_time := now\<rparr>) # ys,
           in_use_count := c\<rparr>) = insert (dc_conn d) (held p)"
  by (auto simp: held_def)

lemma handle_distinct:
  assumes "pool_inv L p" "connections p = xs @ Some d # ys" "x \<in> set (present xs) \<union> set (present ys)"
  shows "dc_conn x \<noteq> dc_conn d"
proof -
  have "distinct (map dc_conn (present xs @ d # present ys))"
    using assms(1,2) by (simp add: pool_inv_def)
  with assms(3) show ?thesis by (metis Un_iff distinct_append distinct.simps(2) list.simps(9)
        map_append disjoint_iff image_eqI list.set_map list.set_intros(1))
qed

lemma not_held:
  assumes "pool_inv L p" "connections p = xs @ Some d # ys" "\<not> in_use d"
  shows "dc_conn d \<notin> held p"
  using handle_distinct [OF assms(1,2)] assms(2,3) by (force simp: held_def)

lemma pool_inv_drop:
  assumes "pool_inv L p" "connections p = xs @ Some d # ys" "\<not> in_use d" "int (length xs) < pool_size p"
  shows "pool_inv (L - {dc_conn d}) (p\<lparr>connections := xs @ None # ys\<rparr>)"
    "held (p\<lparr>connections := xs @ None # ys\<rparr>) = held p"
  using assms handle_distinct [OF assms(1,2)]
  by (auto simp: pool_inv_def handles_def held_def drop_Cons' split: if_splits)

lemma pool_inv_new:
  assumes "pool_inv L p" "connections p = xs @ None # ys" "int (length xs) = pool_size p" "c \<notin> L"
    "pool_size p < max_size p"
  shows "pool_inv (insert c L)
     (p\<lparr>connections := xs @ Some \<lparr>dc_conn = c, last_used_time = now, in_use = b\<rparr> # ys,
        pool_size := pool_size p + 1, in_use_count := in_use_count p + (if b then 1 else 0)\<rparr>)"
proof -
  have "nat (pool_size p + 1) = Suc (length xs)" using assms(3) by simp
  then show ?thesis using assms
    by (auto simp: pool_inv_def handles_def nat_add_distrib)
qed

lemma held_new:
  "connections p = xs @ None # ys \<Longrightarrow>
   held (p\<lparr>connections := xs @ Some \<lparr>dc_conn = c, last_used_time = now, in_use = b\<rparr> # ys,
           pool_size := n, in_use_count := m\<rparr>) = (if b then insert c (held p) else held p)"
  by (auto simp: held_def)

lemma pool_inv_release:
  assumes "pool_inv L p" "connections p = xs @ Some d # ys" "in_use d" "int (length xs) < pool_size p"
  shows "pool_inv L (p\<lparr>connections := xs @ Some (d\<lparr>in_use := False, last_used_time := now\<rparr>) # ys,
                      in_use_count := in_use_count p - 1\<rparr>)"
    "held (p\<lparr>connections := xs @ Some (d\<lparr>in_use := False, last_used_time := now\<rparr>) # ys,
             in_use_count := in_use_count p - 1\<rparr>) = held p - {dc_conn d}"
proof -
  show "held (p\<lparr>connections := xs @ Some (d\<lparr>in_use := False, last_used_time := now\<rparr>) # ys,
             in_use_count := in_use_count p - 1\<rparr>) = held p - {dc_conn d}"
    using handle_distinct [OF assms(1,2)] assms(2,3) by (auto simp: held_def)
  show "pool_inv L (p\<lparr>connections := xs @ Some (d\<lparr>in_use := False, last_used_time := now\<rparr>) # ys,
                      in_use_count := in_use_count p - 1\<rparr>)"
    using assms by (auto simp: pool_inv_def handles_def drop_Cons' split: if_splits)
qed

section \<open>The client library's contract\<close>

text \<open>
  What the pool needs of the MySQL client library: \<open>live\<close> is the set of handles allocated and
  not yet closed; \<open>mysql_init\<close> returns a new one, \<open>mysql_close\<close> frees one, no other call
  changes the set.
\<close>

locale mysql_client =
  fixes env :: "'e pool_env" and live :: "'e \<Rightarrow> nat set"
  assumes init_law: "mysql_init env e = (r, e') \<Longrightarrow>
      (case r of None \<Rightarrow> live e' = live e | Some c \<Rightarrow> c \<notin> live e \<and> live e' = insert c (live e))"
    and connect_law: "mysql_real_connect env c cfg e = (b, e') \<Longrightarrow> live e' = live e"
    and charset_law: "live (mysql_set_character_set env c s e) = live e"
    and options_law: "live (mysql_options_timeout env c n e) = live e"
    and ping_law: "mysql_ping env c e = (b, e') \<Longrightarrow> live e' = live e"
    and close_law: "live (mysql_close env c e) = live e - {c}"
    and malloc_law: "os_malloc env e = (b, e') \<Longrightarrow> live e' = live e"
    and time_law: "os_time env e = (n, e') \<Longrightarrow> live e' = live e"
begin

lemma create_live:
  "create_db_connection env cfg e = (r, e') \<Longrightarrow>
     (case r of None \<Rightarrow> live e' = live e | Some c \<Rightarrow> c \<notin> live e \<and> live e' = insert c (live e))"
  by (auto simp: create_db_connection_def Let_def charset_law options_law close_law
      split: prod.splits option.splits bool.splits if_splits dest!: init_law connect_law)

lemma scan_free_ok:
  assumes "pool_inv (live e) p" "0 \<le> i" "i + int n \<le> pool_size p"
  shows "\<exists>r p' e'. scan_free n i env p e = Some (r, p', e') \<and> pool_inv (live e') p' \<and>
    pool_size p' = pool_size p \<and> max_size p' = max_size p \<and> pool_config p' = pool_config p \<and>
    (case r of None \<Rightarrow> held p' = held p | Some c \<Rightarrow> c \<notin> held p \<and> held p' = insert c (held p))"
  using assms
proof (induction n arbitrary: i p e)
  case 0
  then show ?case by simp
next
  case (Suc n)
  have "i < max_size p" using Suc.prems by (simp add: pool_inv_def)
  then obtain s where s: "slot_get p i = Some s"
    using slot_get_in_range [OF Suc.prems(1,2)] by blast
  then obtain xs ys where xs: "connections p = xs @ s # ys" "int (length xs) = i"
    and set: "\<And>v. slot_set p i v = Some (p\<lparr>connections := xs @ v # ys\<rparr>)"
    by (rule slot_split) blast
  have rest: "\<exists>r p' e'. scan_free n (i + 1) env p e = Some (r, p', e') \<and> pool_inv (live e') p' \<and>
    pool_size p' = pool_size p \<and> max_size p' = max_size p \<and> pool_config p' = pool_config p \<and>
    (case r of None \<Rightarrow> held p' = held p | Some c \<Rightarrow> c \<notin> held p \<and> held p' = insert c (held p))"
    using Suc.IH [of e p "i + 1"] Suc.prems by simp
  show ?case
  proof (cases s)
    case None
    with s rest show ?thesis by simp
  next
    case (Some d)
    show ?thesis
    proof (cases "in_use d")
      case True
      with s Some rest show ?thesis by simp
    next
      case False
      note [simp] = s Some set
      have lt: "int (length xs) < pool_size p" using xs(2) Suc.prems(3) by simp
      have cs: "connections p = xs @ Some d # ys" using xs(1) Some by simp
      obtain b e1 where b: "mysql_ping env (dc_conn d) e = (b, e1)" by force
      obtain now e2 where now: "os_time env e1 = (now, e2)" by force
      show ?thesis
      proof (cases b)
        case True
        with b now False pool_inv_take [OF Suc.prems(1) cs False lt, where now = now]
          held_take [OF cs, where now = now] not_held [OF Suc.prems(1) cs False] show ?thesis
          by (simp add: is_connection_valid_def ping_law [OF b] time_law [OF now])
      next
        case False
        let ?p = "p\<lparr>connections := xs @ None # ys\<rparr>" and ?e = "mysql_close env (dc_conn d) e1"
        note dr = pool_inv_drop [OF Suc.prems(1) cs \<open>\<not> in_use d\<close> lt]
        have "pool_inv (live ?e) ?p" using dr(1) by (simp add: close_law ping_law [OF b])
        from Suc.IH [OF this, of "i + 1", unfolded dr(2)] Suc.prems b False \<open>\<not> in_use d\<close> show ?thesis
          by (simp add: is_connection_valid_def close_db_connection_def Let_def)
      qed
    qed
  qed
qed

lemma get_pass_ok:
  assumes "pool_inv (live e) p"
  shows "\<exists>r p' e'. get_pass env p e = Some (r, p', e') \<and> pool_inv (live e') p' \<and>
    max_size p' = max_size p \<and>
    (case r of Must_wait \<Rightarrow> held p' = held p | Got c \<Rightarrow> c \<notin> held p \<and> held p' = insert c (held p))"
proof -
  have "0 \<le> pool_size p" using assms by (simp add: pool_inv_def)
  then obtain r p1 e1 where sc: "scan_free (nat (pool_size p)) 0 env p e = Some (r, p1, e1)"
    and inv1: "pool_inv (live e1) p1" and sz: "max_size p1 = max_size p"
    and h1: "case r of None \<Rightarrow> held p1 = held p | Some c \<Rightarrow> c \<notin> held p \<and> held p1 = insert c (held p)"
    using scan_free_ok [OF assms, of 0 "nat (pool_size p)"] by auto
  show ?thesis
  proof (cases r)
    case (Some c)
    with sc inv1 h1 sz show ?thesis by (simp add: get_pass_def)
  next
    case None
    show ?thesis
    proof (cases "pool_size p1 < max_size p1")
      case False
      with sc None inv1 h1 sz show ?thesis by (simp add: get_pass_def)
    next
      case True
      obtain c e2 where c: "create_db_connection env (pool_config p1) e1 = (c, e2)" by force
      note live_c = create_live [OF c]
      show ?thesis
      proof (cases c)
        case None
        with sc \<open>r = None\<close> inv1 h1 sz c live_c True show ?thesis by (simp add: get_pass_def)
      next
        case (Some k)
        obtain b e3 where b: "os_malloc env e2 = (b, e3)" by force
        obtain now e4 where now: "os_time env e3 = (now, e4)" by force
        have k: "k \<notin> live e1" "live e3 = insert k (live e1)" "live e4 = insert k (live e1)"
          using live_c Some malloc_law [OF b] time_law [OF now] by auto
        have kh: "k \<notin> held p1" using k(1) inv1 held_handles by (auto simp: pool_inv_def)
        show ?thesis
        proof (cases b)
          case False
          have "live e3 - {k} = live e1" using k by auto
          with sc \<open>r = None\<close> inv1 h1 sz c Some b False True show ?thesis
            by (simp add: get_pass_def close_db_connection_def close_law)
        next
          case bT: True
          have "0 \<le> pool_size p1" using inv1 by (simp add: pool_inv_def)
          then obtain s where s: "slot_get p1 (pool_size p1) = Some s"
            using slot_get_in_range [OF inv1] True by blast
          then obtain xs ys where xs: "connections p1 = xs @ s # ys" "int (length xs) = pool_size p1"
            and set: "\<And>v. slot_set p1 (pool_size p1) v = Some (p1\<lparr>connections := xs @ v # ys\<rparr>)"
            by (rule slot_split) blast
          have "s = None"
            using inv1 xs True by (auto simp: pool_inv_def)
          then have cs: "connections p1 = xs @ None # ys" using xs by simp
          from pool_inv_new [OF inv1 cs xs(2) k(1) True, where now = now and b = True]
            held_new [OF cs, where c = k and now = now and b = True]
          show ?thesis
            using sc \<open>r = None\<close> h1 sz c Some b bT True now k kh set
            by (simp add: get_pass_def)
        qed
      qed
    qed
  qed
qed

lemma release_scan_ok:
  assumes "pool_inv (live e) p" "0 \<le> i" "i + int n = pool_size p" "c \<in> held p"
    and "c \<in> dc_conn ` set (present (drop (nat i) (connections p)))"
  shows "\<exists>p' e'. release_scan n i env c p e = Some (0, p', e') \<and> pool_inv (live e') p' \<and>
    held p' = held p - {c} \<and> max_size p' = max_size p"
  using assms
proof (induction n arbitrary: i)
  case 0
  then have "present (drop (nat i) (connections p)) = []"
    by (auto simp: pool_inv_def present_def filter_empty_conv list_all_iff)
  with 0 show ?case by simp
next
  case (Suc n)
  have "i < max_size p" using Suc.prems by (simp add: pool_inv_def)
  then obtain s where s: "slot_get p i = Some s"
    using slot_get_in_range [OF Suc.prems(1,2)] by blast
  then obtain xs ys where xs: "connections p = xs @ s # ys" "int (length xs) = i"
    and set: "\<And>v. slot_set p i v = Some (p\<lparr>connections := xs @ v # ys\<rparr>)"
    by (rule slot_split) blast
  have i: "nat i = length xs" "nat (i + 1) = Suc (length xs)" using xs(2) by auto
  show ?case
  proof (cases "\<exists>d. s = Some d \<and> dc_conn d = c")
    case False
    have "c \<in> dc_conn ` set (present (drop (nat (i + 1)) (connections p)))"
      using Suc.prems(5) xs(1) i False by (cases s) auto
    from Suc.IH [OF Suc.prems(1) _ _ Suc.prems(4) this] Suc.prems s False show ?thesis
      by (cases s) auto
  next
    case True
    then obtain d where d: "s = Some d" "dc_conn d = c" by blast
    then have cs: "connections p = xs @ Some d # ys" using xs(1) by simp
    have use: "in_use d" using not_held [OF Suc.prems(1) cs] Suc.prems(4) d(2) by blast
    obtain now e1 where now: "os_time env e = (now, e1)" by force
    have "int (length xs) < pool_size p" using Suc.prems(3) xs(2) by simp
    from pool_inv_release [OF Suc.prems(1) cs use this, of now] s d now set show ?thesis
      by (simp add: time_law [OF now])
  qed
qed

lemma release_ok:
  assumes "pool_inv (live e) p" "c \<in> held p"
  shows "\<exists>p' e'. db_pool_release_connection env (Some p) (Some c) e = Some (0, Some p', e') \<and>
    pool_inv (live e') p' \<and> held p' = held p - {c} \<and> max_size p' = max_size p"
proof -
  have "0 \<le> pool_size p" "c \<in> dc_conn ` set (present (drop (nat 0) (connections p)))"
    using assms held_handles by (auto simp: pool_inv_def handles_def)
  then obtain p' e' where "release_scan (nat (pool_size p)) 0 env c p e = Some (0, p', e')"
      "pool_inv (live e') p'" "held p' = held p - {c}" "max_size p' = max_size p"
    using release_scan_ok [OF assms(1), of 0 "nat (pool_size p)" c] assms(2) by auto
  then show ?thesis by (simp add: db_pool_release_connection_def)
qed

text \<open>The loop that fills the pool runs past the array only when there is no room for its rounds.\<close>

lemma init_loop_cases:
  assumes "pool_inv (live e) p" "held p = {}"
  shows "case init_loop n env cfg p e of None \<Rightarrow> max_size p < pool_size p + int n
    | Some (p', e') \<Rightarrow> pool_inv (live e') p' \<and> held p' = {} \<and> max_size p' = max_size p \<and> pool_size p' \<le> pool_size p + int n"
  using assms
proof (induction n arbitrary: p e)
  case 0
  then show ?case by simp
next
  case (Suc n)
  obtain c e1 where c: "create_db_connection env cfg e = (c, e1)" by force
  note live_c = create_live [OF c]
  show ?case
  proof (cases c)
    case None
    with c live_c Suc.prems show ?thesis by simp
  next
    case (Some k)
    obtain b e2 where b: "os_malloc env e1 = (b, e2)" by force
    have k: "k \<notin> live e" "live e2 = insert k (live e)" using live_c Some malloc_law [OF b] by auto
    show ?thesis
    proof (cases b)
      case False
      have "live e2 - {k} = live e" using k by auto
      with c b Some False Suc.prems show ?thesis by (simp add: close_db_connection_def close_law)
    next
      case True
      obtain now e3 where now: "os_time env e2 = (now, e3)" by force
      show ?thesis
      proof (cases "pool_size p < max_size p")
        case False
        then have "slot_set p (pool_size p) v = None" for v using Suc.prems(1) by (simp add: slot_set_def pool_inv_def)
        with c b Some True now False show ?thesis by simp
      next
        case lt: True
        have "0 \<le> pool_size p" using Suc.prems by (simp add: pool_inv_def)
        then obtain s where s: "slot_get p (pool_size p) = Some s"
          using slot_get_in_range [OF Suc.prems(1)] lt by blast
        then obtain xs ys where xs: "connections p = xs @ s # ys" "int (length xs) = pool_size p"
          and set: "\<And>v. slot_set p (pool_size p) v = Some (p\<lparr>connections := xs @ v # ys\<rparr>)"
          by (rule slot_split) blast
        have "s = None" using Suc.prems(1) xs lt by (auto simp: pool_inv_def)
        then have cs: "connections p = xs @ None # ys" using xs by simp
        let ?p = "p\<lparr>connections := xs @ Some \<lparr>dc_conn = k, last_used_time = now, in_use = False\<rparr> # ys,
                   pool_size := pool_size p + 1, in_use_count := in_use_count p + 0\<rparr>"
        have inv: "pool_inv (live e3) ?p"
          using pool_inv_new [OF Suc.prems(1) cs xs(2) k(1) lt, where now = now and b = False]
            time_law [OF now] k(2) by simp
        have "held ?p = {}" using Suc.prems(2) cs by (simp add: held_def)
        from Suc.IH [OF inv this] c b Some True now set show ?thesis by (auto split: option.splits)
      qed
    qed
  qed
qed

lemma init_loop_ok:
  assumes "pool_inv (live e) p" "pool_size p + int n \<le> max_size p" "held p = {}"
  shows "\<exists>p' e'. init_loop n env cfg p e = Some (p', e') \<and> pool_inv (live e') p' \<and> held p' = {} \<and>
    max_size p' = max_size p \<and> pool_size p' \<le> pool_size p + int n"
  using init_loop_cases [OF assms(1,3), of n cfg] assms(2) by (auto split: option.splits)

text \<open>A pool that has come into being is in order, even when its minimum exceeds its maximum.\<close>

lemma db_pool_init_inv:
  assumes "0 \<le> max_connections cfg" "db_pool_init env (Some cfg) None e = Some (r, g, e')"
  shows "case g of None \<Rightarrow> r = - 1 | Some p \<Rightarrow> r = 0 \<and> pool_inv (live e') p \<and> held p = {} \<and> max_size p = max_connections cfg"
proof -
  obtain b e1 where b: "os_malloc env e = (b, e1)" by force
  obtain b' e2 where b': "os_malloc env e1 = (b', e2)" by force
  let ?p = "\<lparr>connections = replicate (nat (max_connections cfg)) None, pool_size = 0,
              max_size = max_connections cfg, min_size = min_connections cfg, in_use_count = 0,
              pool_config = cfg\<rparr>"
  have "pool_inv (live e2) ?p" "held ?p = {}"
    using assms(1) by (auto simp: pool_inv_def handles_def held_def list_all_iff)
  from init_loop_cases [OF this, of "nat (min_connections cfg)" cfg] b b' assms(2) show ?thesis
    by (auto simp: db_pool_init_def Let_def split: bool.splits option.splits)
qed

lemma db_pool_init_ok:
  assumes "min_connections cfg \<le> max_connections cfg" "0 \<le> max_connections cfg"
  shows "\<exists>r g e'. db_pool_init env (Some cfg) None e = Some (r, g, e') \<and>
    (case g of None \<Rightarrow> r = - 1
     | Some p \<Rightarrow> r = 0 \<and> pool_inv (live e') p \<and> held p = {} \<and> max_size p = max_connections cfg \<and>
         pool_size p \<le> int (nat (min_connections cfg)))"
proof -
  obtain b e1 where b: "os_malloc env e = (b, e1)" by force
  obtain b' e2 where b': "os_malloc env e1 = (b', e2)" by force
  let ?p = "\<lparr>connections = replicate (nat (max_connections cfg)) None, pool_size = 0,
              max_size = max_connections cfg, min_size = min_connections cfg, in_use_count = 0,
              pool_config = cfg\<rparr>"
  have "pool_inv (live e2) ?p" "held ?p = {}"
    using assms by (auto simp: pool_inv_def handles_def held_def list_all_iff)
  moreover have "pool_size ?p + int (nat (min_connections cfg)) \<le> max_size ?p" using assms by simp
  ultimately obtain p' e3 where loop: "init_loop (nat (min_connections cfg)) env cfg ?p e2 = Some (p', e3)"
    and p': "pool_inv (live e3) p'" "held p' = {}" "max_size p' = max_connections cfg"
      "pool_size p' \<le> int (nat (min_connections cfg))"
    using init_loop_ok [of e2 ?p "nat (min_connections cfg)" cfg]
    by (auto simp del: int_nat_eq)
  show ?thesis
  proof (cases "b \<and> b'")
    case True
    with b b' loop p' show ?thesis by (simp add: db_pool_init_def Let_def)
  next
    case False
    with b b' show ?thesis by (cases b) (simp_all add: db_pool_init_def)
  qed
qed

lemma destroy_scan_ok:
  assumes "0 \<le> i" "i + int n \<le> int (length (connections p))"
  shows "\<exists>e'. destroy_scan n i env p e = Some e' \<and>
    live e' = live e - dc_conn ` set (present (take n (drop (nat i) (connections p))))"
  using assms
proof (induction n arbitrary: i p e)
  case 0
  then show ?case by simp
next
  case (Suc n)
  then obtain s where s: "slot_get p i = Some s" by (auto simp: slot_get_def)
  then obtain xs ys where xs: "connections p = xs @ s # ys" "int (length xs) = i"
    and set: "\<And>v. slot_set p i v = Some (p\<lparr>connections := xs @ v # ys\<rparr>)"
    by (rule slot_split) blast
  have i: "nat i = length xs" "nat (i + 1) = Suc (length xs)" using xs(2) by auto
  have tk: "take (Suc n) (drop (nat i) (connections p)) = s # take n ys" using xs i by simp
  show ?case
  proof (cases s)
    case None
    from Suc.IH [of "i + 1" p e] Suc.prems s None tk i xs(1) show ?thesis by auto
  next
    case (Some d)
    have "\<exists>e'. destroy_scan n (i + 1) env (p\<lparr>connections := xs @ None # ys\<rparr>)
              (close_db_connection env (dc_conn d) e) = Some e' \<and>
        live e' = live (close_db_connection env (dc_conn d) e) - dc_conn ` set (present (take n ys))"
      using Suc.IH [of "i + 1" "p\<lparr>connections := xs @ None # ys\<rparr>"
          "close_db_connection env (dc_conn d) e"] Suc.prems i xs(1) by simp
    with s Some set tk show ?thesis
      by (auto simp: close_db_connection_def close_law)
  qed
qed

lemma destroy_ok:
  assumes "pool_inv (live e) p"
  shows "\<exists>e'. db_pool_destroy env (Some p) e = Some (None, e') \<and> live e' = live e - handles p"
proof -
  have inv: "0 \<le> pool_size p" "pool_size p \<le> int (length (connections p))"
    and free: "list_all (\<lambda>s. s = None) (drop (nat (pool_size p)) (connections p))"
    using assms by (auto simp: pool_inv_def)
  have "present (drop (nat (pool_size p)) (connections p)) = []"
    using free by (auto simp: present_def filter_empty_conv list_all_iff)
  then have "present (take (nat (pool_size p)) (connections p)) = present (connections p)"
    by (metis append_Nil2 append_take_drop_id present_simps(4))
  with destroy_scan_ok [of 0 "nat (pool_size p)" p e] inv show ?thesis
    by (auto simp: db_pool_destroy_def handles_def)
qed

end

end
