(* ===== verification/Db_Pool_Steps.thy ===== *)
theory Db_Pool_Steps
  imports Db_Pool
begin

text \<open>
  Many threads on one connection pool. Every function of \<open>src/server/db_pool.c\<close> runs between
  \<open>pthread_mutex_lock\<close> and \<open>pthread_mutex_unlock\<close>, and \<open>pthread_cond_timedwait\<close> gives the lock
  up, so a step of the system is one critical section of one thread: a round of
  \<open>db_pool_get_connection\<close> up to the wait, a wake-up, a time-out, a release. The theory holds the
  instance of the client library the witnesses run on, the reachable states and the properties of
  the pool, among them what becomes of the pool sizes \<open>src/server/server.c\<close> asks for.
\<close>

section \<open>A concrete client library\<close>

text \<open>
  Handles are numbers not in use; the lists say which of the coming \<open>mysql_real_connect\<close> and
  \<open>mysql_ping\<close> calls succeed (an exhausted list succeeds); memory never runs out.
\<close>

record demo_client =
  demo_live :: "nat list"
  demo_connects :: "bool list"
  demo_pings :: "bool list"
  demo_clock :: int

definition demo_fresh :: "nat list \<Rightarrow> nat" where
  "demo_fresh ns = Suc (foldr max ns 0)"

definition demo_env :: "demo_client pool_env" where
  "demo_env =
     \<lparr>mysql_init = (\<lambda>e. (Some (demo_fresh (demo_live e)),
                          e\<lparr>demo_live := demo_fresh (demo_live e) # demo_live e\<rparr>)),
      mysql_real_connect = (\<lambda>c cfg e. case demo_connects e of
          [] \<Rightarrow> (True, e) | b # bs \<Rightarrow> (b, e\<lparr>demo_connects := bs\<rparr>)),
      mysql_set_character_set = (\<lambda>c s e. e),
      mysql_options_timeout = (\<lambda>c n e. e),
      mysql_ping = (\<lambda>c e. case demo_pings e of
          [] \<Rightarrow> (True, e) | b # bs \<Rightarrow> (b, e\<lparr>demo_pings := bs\<rparr>)),
      mysql_close = (\<lambda>c e. e\<lparr>demo_live := removeAll c (demo_live e)\<rparr>),
      os_malloc = (\<lambda>e. (True, e)),
      os_time = (\<lambda>e. (demo_clock e, e\<lparr>demo_clock := demo_clock e + 1\<rparr>))\<rparr>"

definition demo_start :: demo_client where
  "demo_start = \<lparr>demo_live = [], demo_connects = [], demo_pings = [], demo_clock = 0\<rparr>"

lemma demo_fresh_notin: "demo_fresh ns \<notin> set ns"
proof -
  have "n \<in> set ns \<Longrightarrow> n \<le> foldr max ns 0" for n by (induction ns) auto
  then show ?thesis unfolding demo_fresh_def by (metis Suc_n_not_le_n)
qed

interpretation demo: mysql_client demo_env "\<lambda>e. set (demo_live e)"
  by unfold_locales
    (auto simp: demo_env_def demo_fresh_notin split: list.splits)

section \<open>The steps\<close>

datatype client_pc = Idle | Trying | Waiting | Holding nat

record 'e pool_sys =
  sys_pool :: db_pool
  sys_env :: 'e
  sys_pcs :: "nat \<Rightarrow> client_pc"

inductive pool_step :: "'e pool_env \<Rightarrow> 'e pool_sys \<Rightarrow> 'e pool_sys \<Rightarrow> bool" for env where
  request: "sys_pcs s t = Idle \<Longrightarrow> pool_step env s (s\<lparr>sys_pcs := (sys_pcs s)(t := Trying)\<rparr>)"
| got: "sys_pcs s t = Trying \<Longrightarrow> get_pass env (sys_pool s) (sys_env s) = Some (Got c, p, e) \<Longrightarrow>
    pool_step env s (s\<lparr>sys_pool := p, sys_env := e, sys_pcs := (sys_pcs s)(t := Holding c)\<rparr>)"
| block: "sys_pcs s t = Trying \<Longrightarrow> get_pass env (sys_pool s) (sys_env s) = Some (Must_wait, p, e) \<Longrightarrow>
    pool_step env s (s\<lparr>sys_pool := p, sys_env := e, sys_pcs := (sys_pcs s)(t := Waiting)\<rparr>)"
| wake: "sys_pcs s t = Waiting \<Longrightarrow> pool_step env s (s\<lparr>sys_pcs := (sys_pcs s)(t := Trying)\<rparr>)"
| timeout: "sys_pcs s t = Waiting \<Longrightarrow> pool_step env s (s\<lparr>sys_pcs := (sys_pcs s)(t := Idle)\<rparr>)"
| release: "sys_pcs s t = Holding c \<Longrightarrow>
    db_pool_release_connection env (Some (sys_pool s)) (Some c) (sys_env s) = Some (r, Some p, e) \<Longrightarrow>
    pool_step env s (s\<lparr>sys_pool := p, sys_env := e, sys_pcs := (sys_pcs s)(t := Idle)\<rparr>)"

text \<open>The states a pool can reach from its initialisation with a configuration.\<close>

inductive pool_reachable :: "'e pool_env \<Rightarrow> db_pool_config \<Rightarrow> 'e \<Rightarrow> 'e pool_sys \<Rightarrow> bool"
  for env cfg e0 where
  start: "db_pool_init env (Some cfg) None e0 = Some (0, Some p, e) \<Longrightarrow>
    pool_reachable env cfg e0 \<lparr>sys_pool = p, sys_env = e, sys_pcs = (\<lambda>t. Idle)\<rparr>"
| step: "pool_reachable env cfg e0 s \<Longrightarrow> pool_step env s s' \<Longrightarrow> pool_reachable env cfg e0 s'"

definition sys_inv :: "('e \<Rightarrow> nat set) \<Rightarrow> int \<Rightarrow> 'e pool_sys \<Rightarrow> bool" where
  "sys_inv live mx s \<longleftrightarrow>
     pool_inv (live (sys_env s)) (sys_pool s) \<and> max_size (sys_pool s) = mx \<and>
     (\<forall>c. c \<in> held (sys_pool s) \<longleftrightarrow> (\<exists>t. sys_pcs s t = Holding c)) \<and>
     (\<forall>t u c. sys_pcs s t = Holding c \<longrightarrow> sys_pcs s u = Holding c \<longrightarrow> t = u)"

lemma ex_upd: "(\<exists>u. (f(t := x)) u = y) \<longleftrightarrow> x = y \<or> (\<exists>u. u \<noteq> t \<and> f u = y)"
  by (auto split: if_splits)

lemma sys_invI:
  assumes "pool_inv (live (sys_env s)) (sys_pool s)" "max_size (sys_pool s) = mx"
    "\<And>c. c \<in> held (sys_pool s) \<longleftrightarrow> (\<exists>t. sys_pcs s t = Holding c)"
    "\<And>t u c. sys_pcs s t = Holding c \<Longrightarrow> sys_pcs s u = Holding c \<Longrightarrow> t = u"
  shows "sys_inv live mx s"
  using assms by (simp only: sys_inv_def) blast

lemma sys_invD:
  assumes "sys_inv live mx s"
  shows "pool_inv (live (sys_env s)) (sys_pool s)" "max_size (sys_pool s) = mx"
    "c \<in> held (sys_pool s) \<longleftrightarrow> (\<exists>t. sys_pcs s t = Holding c)"
    "sys_pcs s t = Holding c \<Longrightarrow> sys_pcs s u = Holding c \<Longrightarrow> t = u"
  using assms unfolding sys_inv_def by blast+

lemma sys_inv_idle:
  assumes "sys_inv live mx s" "\<And>c. sys_pcs s t \<noteq> Holding c" "\<And>c. pc \<noteq> Holding c"
    "pool_inv (live e) p" "max_size p = mx" "held p = held (sys_pool s)"
  shows "sys_inv live mx (s\<lparr>sys_pool := p, sys_env := e, sys_pcs := (sys_pcs s)(t := pc)\<rparr>)"
proof -
  have "(((sys_pcs s)(t := pc)) u = Holding c) = (sys_pcs s u = Holding c)" for u c
    using assms(2,3) by simp
  with assms show ?thesis by (simp add: sys_inv_def)
qed

lemma sys_inv_pc:
  assumes "sys_inv live mx s" "\<And>c. sys_pcs s t \<noteq> Holding c" "\<And>c. pc \<noteq> Holding c"
  shows "sys_inv live mx (s\<lparr>sys_pcs := (sys_pcs s)(t := pc)\<rparr>)"
  using sys_inv_idle [OF assms sys_invD(1,2) [OF assms(1)] refl] by simp

lemma sys_inv_got:
  assumes inv: "sys_inv live mx s" and t: "sys_pcs s t = Trying"
    and p: "pool_inv (live e) p" "max_size p = mx"
    and c: "c \<notin> held (sys_pool s)" "held p = insert c (held (sys_pool s))"
  shows "sys_inv live mx (s\<lparr>sys_pool := p, sys_env := e, sys_pcs := (sys_pcs s)(t := Holding c)\<rparr>)"
proof (rule sys_invI)
  let ?pcs = "(sys_pcs s)(t := Holding c)"
  have nc: "sys_pcs s u \<noteq> Holding c" for u using sys_invD(3) [OF inv] c(1) by blast
  have upd: "(\<exists>u. ?pcs u = Holding d) \<longleftrightarrow> d = c \<or> (\<exists>u. sys_pcs s u = Holding d)" for d
  proof -
    have "sys_pcs s u = Holding d \<Longrightarrow> u \<noteq> t" for u using t by auto
    then show ?thesis unfolding ex_upd by auto
  qed
  show "d \<in> held (sys_pool (s\<lparr>sys_pool := p, sys_env := e, sys_pcs := ?pcs\<rparr>)) \<longleftrightarrow>
      (\<exists>u. sys_pcs (s\<lparr>sys_pool := p, sys_env := e, sys_pcs := ?pcs\<rparr>) u = Holding d)" for d
    using upd [of d] sys_invD(3) [OF inv, of d] c(2) by simp
  show "u = v" if "sys_pcs (s\<lparr>sys_pool := p, sys_env := e, sys_pcs := ?pcs\<rparr>) u = Holding d"
      "sys_pcs (s\<lparr>sys_pool := p, sys_env := e, sys_pcs := ?pcs\<rparr>) v = Holding d" for u v d
  proof -
    have "u = t \<and> v = t \<or> sys_pcs s u = Holding d \<and> sys_pcs s v = Holding d"
      using that nc by (auto split: if_splits)
    then show ?thesis using sys_invD(4) [OF inv] by blast
  qed
qed (use p in simp_all)

lemma sys_inv_release:
  assumes inv: "sys_inv live mx s" and t: "sys_pcs s t = Holding c"
    and p: "pool_inv (live e) p" "max_size p = mx" "held p = held (sys_pool s) - {c}"
  shows "sys_inv live mx (s\<lparr>sys_pool := p, sys_env := e, sys_pcs := (sys_pcs s)(t := Idle)\<rparr>)"
proof (rule sys_invI)
  let ?pcs = "(sys_pcs s)(t := Idle)"
  have one: "sys_pcs s u = Holding c \<Longrightarrow> u = t" for u by (rule sys_invD(4) [OF inv _ t])
  have upd: "(\<exists>u. ?pcs u = Holding d) \<longleftrightarrow> d \<noteq> c \<and> (\<exists>u. sys_pcs s u = Holding d)" for d
  proof -
    have "u \<noteq> t \<and> sys_pcs s u = Holding d \<longleftrightarrow> d \<noteq> c \<and> sys_pcs s u = Holding d" for u
      using t one by (metis client_pc.inject)
    then show ?thesis unfolding ex_upd by simp
  qed
  show "d \<in> held (sys_pool (s\<lparr>sys_pool := p, sys_env := e, sys_pcs := ?pcs\<rparr>)) \<longleftrightarrow>
      (\<exists>u. sys_pcs (s\<lparr>sys_pool := p, sys_env := e, sys_pcs := ?pcs\<rparr>) u = Holding d)" for d
    using upd [of d] sys_invD(3) [OF inv, of d] p(3) by auto
  show "u = v" if "sys_pcs (s\<lparr>sys_pool := p, sys_env := e, sys_pcs := ?pcs\<rparr>) u = Holding d"
      "sys_pcs (s\<lparr>sys_pool := p, sys_env := e, sys_pcs := ?pcs\<rparr>) v = Holding d" for u v d
  proof -
    have "sys_pcs s u = Holding d \<and> sys_pcs s v = Holding d"
      using that by (auto split: if_splits)
    then show ?thesis using sys_invD(4) [OF inv] by blast
  qed
qed (use p in simp_all)

context mysql_client
begin

lemma pool_step_inv:
  assumes "pool_step env s s'" "sys_inv live mx s"
  shows "sys_inv live mx s'"
  using assms(1)
proof (cases rule: pool_step.cases)
  case (request t)
  then show ?thesis using sys_inv_pc [OF assms(2)] by simp
next
  case (got t c p e)
  obtain "pool_inv (live e) p" "max_size p = mx" "c \<notin> held (sys_pool s)"
      "held p = insert c (held (sys_pool s))"
    using get_pass_ok [OF sys_invD(1) [OF assms(2)]] got(3) sys_invD(2) [OF assms(2)] by auto
  with got show ?thesis using sys_inv_got [OF assms(2)] by simp
next
  case (block t p e)
  obtain "pool_inv (live e) p" "max_size p = mx" "held p = held (sys_pool s)"
    using get_pass_ok [OF sys_invD(1) [OF assms(2)]] block(3) sys_invD(2) [OF assms(2)] by auto
  with block show ?thesis using sys_inv_idle [OF assms(2)] by simp
next
  case (wake t)
  then show ?thesis using sys_inv_pc [OF assms(2)] by simp
next
  case (timeout t)
  then show ?thesis using sys_inv_pc [OF assms(2)] by simp
next
  case (release t c r p e)
  then have "c \<in> held (sys_pool s)" using sys_invD(3) [OF assms(2)] by blast
  from release_ok [OF sys_invD(1) [OF assms(2)] this] release(3) sys_invD(2) [OF assms(2)]
  obtain "pool_inv (live e) p" "max_size p = mx" "held p = held (sys_pool s) - {c}" by auto
  with release show ?thesis using sys_inv_release [OF assms(2)] by simp
qed

lemma reachable_inv:
  assumes "pool_reachable env cfg e0 s" "0 \<le> max_connections cfg"
  shows "sys_inv live (max_connections cfg) s"
  using assms(1)
proof (induction rule: pool_reachable.induct)
  case (start p e)
  with db_pool_init_inv [OF assms(2)] show ?case by (fastforce simp: sys_inv_def)
next
  case (step s s')
  then show ?case using pool_step_inv by blast
qed

lemma no_ub_in_get:
  assumes "sys_inv live mx s"
  shows "get_pass env (sys_pool s) (sys_env s) \<noteq> None"
  using get_pass_ok [OF sys_invD(1) [OF assms]] by auto

lemma no_ub_in_release:
  assumes "sys_inv live mx s" "sys_pcs s t = Holding c"
  shows "\<exists>p e. db_pool_release_connection env (Some (sys_pool s)) (Some c) (sys_env s) = Some (0, Some p, e)"
  using release_ok [OF sys_invD(1) [OF assms(1)], of c] sys_invD(3) [OF assms(1), of c] assms(2) by auto

lemma held_card: "pool_inv L p \<Longrightarrow> int (card (held p)) = in_use_count p"
proof -
  assume inv: "pool_inv L p"
  then have "distinct (map dc_conn (filter in_use (present (connections p))))"
    unfolding pool_inv_def by (metis distinct_map_filter)
  then have "card (held p) = length (filter in_use (present (connections p)))"
    using distinct_card by (fastforce simp: held_def)
  with inv show ?thesis by (simp add: pool_inv_def)
qed

lemma in_use_bound: "pool_inv L p \<Longrightarrow> in_use_count p \<le> max_size p"
proof -
  assume inv: "pool_inv L p"
  have "length (filter in_use (present (connections p))) \<le> length (present (connections p))"
    by (rule length_filter_le)
  also have "\<dots> \<le> length (connections p)"
    by (simp add: present_def length_filter_le)
  finally show ?thesis using inv by (simp add: pool_inv_def)
qed

lemma handles_card: "pool_inv L p \<Longrightarrow> int (card (handles p)) \<le> pool_size p"
proof -
  assume inv: "pool_inv L p"
  have "present (drop (nat (pool_size p)) (connections p)) = []"
    using inv by (auto simp: pool_inv_def present_def filter_empty_conv list_all_iff)
  then have "present (take (nat (pool_size p)) (connections p)) = present (connections p)"
    by (metis append_Nil2 append_take_drop_id present_simps(4))
  then have "length (present (connections p)) \<le> length (take (nat (pool_size p)) (connections p))"
    by (metis length_filter_le length_map present_def)
  moreover have "card (handles p) \<le> length (present (connections p))"
    unfolding handles_def by (metis card_image_le card_length finite_set le_trans)
  ultimately have "card (handles p) \<le> nat (pool_size p)" by simp
  moreover have "0 \<le> pool_size p" using inv by (simp add: pool_inv_def)
  ultimately show ?thesis by linarith
qed

lemma reachable_exclusive:
  assumes "pool_reachable env cfg e0 s" "0 \<le> max_connections cfg"
  shows "(\<forall>t u c. sys_pcs s t = Holding c \<longrightarrow> sys_pcs s u = Holding c \<longrightarrow> t = u) \<and>
    {c. \<exists>t. sys_pcs s t = Holding c} \<subseteq> handles (sys_pool s) \<and> handles (sys_pool s) \<subseteq> live (sys_env s) \<and>
    (\<exists>total. db_pool_get_stats (Some (sys_pool s)) = (total, int (card {c. \<exists>t. sys_pcs s t = Holding c})) \<and>
       int (card (handles (sys_pool s))) \<le> total \<and> total \<le> max_connections cfg)"
proof -
  note inv = reachable_inv [OF assms]
  note pinv = sys_invD(1) [OF inv]
  have held: "{c. \<exists>t. sys_pcs s t = Holding c} = held (sys_pool s)"
    using sys_invD(3) [OF inv] by auto
  have "handles (sys_pool s) \<subseteq> live (sys_env s)" "pool_size (sys_pool s) \<le> max_connections cfg"
    using pinv sys_invD(2) [OF inv] unfolding pool_inv_def by auto
  then show ?thesis
    using sys_invD(4) [OF inv] held held_handles held_card [OF pinv] handles_card [OF pinv]
    by (auto simp: db_pool_get_stats_def)
qed

lemma calls_safe:
  assumes "pool_reachable env cfg e0 s" "0 \<le> max_connections cfg"
  shows "(\<exists>r p e. get_pass env (sys_pool s) (sys_env s) = Some (r, p, e)) \<and>
    (\<forall>t c. sys_pcs s t = Holding c \<longrightarrow>
      (\<exists>p e. db_pool_release_connection env (Some (sys_pool s)) (Some c) (sys_env s) = Some (0, Some p, e) \<and>
         held p = held (sys_pool s) - {c})) \<and>
    (\<exists>e. db_pool_destroy env (Some (sys_pool s)) (sys_env s) = Some (None, e) \<and>
       live e = live (sys_env s) - handles (sys_pool s)) \<and>
    (min_connections cfg \<le> max_connections cfg \<longrightarrow> (\<forall>e. db_pool_init env (Some cfg) None e \<noteq> None))"
proof (intro conjI allI impI)
  note inv = reachable_inv [OF assms]
  show "db_pool_init env (Some cfg) None e \<noteq> None" if "min_connections cfg \<le> max_connections cfg" for e
    using db_pool_init_ok [OF that assms(2), of e] by auto
  show "\<exists>r p e. get_pass env (sys_pool s) (sys_env s) = Some (r, p, e)" using no_ub_in_get [OF inv] by auto
  show "\<exists>e. db_pool_destroy env (Some (sys_pool s)) (sys_env s) = Some (None, e) \<and>
       live e = live (sys_env s) - handles (sys_pool s)" by (rule destroy_ok [OF sys_invD(1) [OF inv]])
  fix t c assume "sys_pcs s t = Holding c"
  then have "c \<in> held (sys_pool s)" using sys_invD(3) [OF inv] by blast
  from release_ok [OF sys_invD(1) [OF inv] this]
  show "\<exists>p e. db_pool_release_connection env (Some (sys_pool s)) (Some c) (sys_env s) = Some (0, Some p, e) \<and>
         held p = held (sys_pool s) - {c}" by blast
qed

end

text \<open>A full pool whose connections have all been dropped: no slot is free, none is reused.\<close>

lemma scan_free_all_gone:
  assumes "0 \<le> i" "i + int n \<le> int (length (connections p))" "list_all (\<lambda>s. s = None) (connections p)"
  shows "scan_free n i env p e = Some (None, p, e)"
  using assms
proof (induction n arbitrary: i)
  case 0
  then show ?case by simp
next
  case (Suc n)
  then have "slot_get p i = Some None" by (simp add: slot_get_def list_all_length)
  with Suc show ?case by simp
qed

lemma get_pass_exhausted:
  assumes "pool_inv L p" "pool_size p = max_size p" "handles p = {}"
  shows "get_pass env p e = Some (Must_wait, p, e)"
proof -
  have "present (connections p) = []" using assms(3) by (simp add: handles_def)
  then have "list_all (\<lambda>s. s = None) (connections p)"
    by (auto simp: present_def filter_empty_conv list_all_iff)
  then have "scan_free (nat (pool_size p)) 0 env p e = Some (None, p, e)"
    using assms(1) by (intro scan_free_all_gone) (auto simp: pool_inv_def)
  with assms(2) show ?thesis by (simp add: get_pass_def)
qed

lemma scan_free_handles:
  "scan_free n i env p e = Some (r, p', e') \<Longrightarrow>
     handles p' \<subseteq> handles p \<and> pool_size p' = pool_size p \<and> max_size p' = max_size p"
proof (induction n arbitrary: i p e)
  case 0
  then show ?case by simp
next
  case (Suc n)
  then obtain s where s: "slot_get p i = Some s" by (auto split: option.splits)
  then obtain xs ys where xs: "connections p = xs @ s # ys"
    and set: "\<And>v. slot_set p i v = Some (p\<lparr>connections := xs @ v # ys\<rparr>)"
    by (rule slot_split) blast
  show ?case
  proof (cases "\<exists>d. s = Some d \<and> \<not> in_use d")
    case False
    with Suc s show ?thesis by (cases s) auto
  next
    case True
    then obtain d where d: "s = Some d" "\<not> in_use d" by blast
    obtain b e1 where b: "is_connection_valid env (dc_conn d) e = (b, e1)" by force
    have drop: "handles (p\<lparr>connections := xs @ None # ys\<rparr>) \<subseteq> handles p"
      using xs d by (auto simp: handles_def)
    show ?thesis
    proof (cases b)
      case True
      with Suc.prems s d b set xs show ?thesis
        by (auto simp: handles_def split: prod.splits)
    next
      case False
      with Suc.prems s d b set have "scan_free n (i + 1) env (p\<lparr>connections := xs @ None # ys\<rparr>)
          (close_db_connection env (dc_conn d) e1) = Some (r, p', e')" by (simp add: Let_def)
      from Suc.IH [OF this] drop show ?thesis by auto
    qed
  qed
qed

lemma get_pass_full:
  assumes "get_pass env p e = Some (r, p', e')" "pool_size p = max_size p"
  shows "handles p' \<subseteq> handles p \<and> pool_size p' = pool_size p \<and> max_size p' = max_size p"
proof -
  obtain o1 p1 e1 where sc: "scan_free (nat (pool_size p)) 0 env p e = Some (o1, p1, e1)"
    using assms(1) by (auto simp: get_pass_def split: option.splits)
  from scan_free_handles [OF sc] assms sc show ?thesis
    by (auto simp: get_pass_def split: option.splits)
qed

lemma init_loop_overflow:
  assumes "\<And>e. \<exists>c e1. create_db_connection env cfg e = (Some c, e1)"
    "\<And>e. \<exists>e1. os_malloc env e = (True, e1)"
    "0 \<le> pool_size p" "pool_size p \<le> int (length (connections p))"
    "int (length (connections p)) < pool_size p + int n"
  shows "init_loop n env cfg p e = None"
  using assms(3-5)
proof (induction n arbitrary: p e)
  case 0
  then show ?case by simp
next
  case (Suc n)
  obtain c e1 where c: "create_db_connection env cfg e = (Some c, e1)" using assms(1) by blast
  obtain e2 where m: "os_malloc env e1 = (True, e2)" using assms(2) by blast
  obtain now e3 where now: "os_time env e2 = (now, e3)" by force
  show ?case
  proof (cases "pool_size p < int (length (connections p))")
    case False
    with c m now show ?thesis by (simp add: slot_set_def)
  next
    case True
    with c m now Suc show ?thesis by (simp add: slot_set_def)
  qed
qed

section \<open>Properties of the pool\<close>

text \<open>C16: in every state the pool can reach from a \<open>db_pool_init\<close> that has returned, whatever its minimum
  is, whatever the client library answers and however the threads interleave: no connection is held
  by two threads; the connections held are connections of the pool, and these are open; of the two
  numbers \<open>db_pool_get_stats\<close> reports the second, the connections in use, is exact, and the first, the
  size, is only a bound: at least the number of connections in the pool and at most the maximum (it
  is not lowered when a connection that fails its ping is dropped).\<close>

theorem pool_exclusive:
  assumes "mysql_client env live" "0 \<le> max_connections cfg" "pool_reachable env cfg e0 s"
  shows "(\<forall>t u c. sys_pcs s t = Holding c \<longrightarrow> sys_pcs s u = Holding c \<longrightarrow> t = u) \<and>
    {c. \<exists>t. sys_pcs s t = Holding c} \<subseteq> handles (sys_pool s) \<and> handles (sys_pool s) \<subseteq> live (sys_env s) \<and>
    (\<exists>total. db_pool_get_stats (Some (sys_pool s)) = (total, int (card {c. \<exists>t. sys_pcs s t = Holding c})) \<and>
       int (card (handles (sys_pool s))) \<le> total \<and> total \<le> max_connections cfg)"
  by (rule mysql_client.reachable_exclusive [OF assms(1,3,2)])

text \<open>A run of two threads on a pool of at most two connections.\<close>

definition demo_cfg :: "int \<Rightarrow> int \<Rightarrow> db_pool_config" where
  "demo_cfg mn mx = \<lparr>cfg_host = ''h'', cfg_user = ''u'', cfg_password = ''p'', cfg_db_name = ''d'',
     min_connections = mn, max_connections = mx, max_idle_time = 3600, connection_timeout = 30\<rparr>"

lemma demo_create: "\<exists>c e1. create_db_connection demo_env cfg (e\<lparr>demo_connects := []\<rparr>) = (Some c, e1)"
  by (simp add: create_db_connection_def demo_env_def Let_def)

lemma demo_reach_one:
  "\<exists>s. pool_reachable demo_env (demo_cfg 1 2) demo_start s \<and> sys_pcs s 0 = Holding 1 \<and> sys_pcs s 1 = Trying"
proof -
  obtain p e where init: "db_pool_init demo_env (Some (demo_cfg 1 2)) None demo_start = Some (0, Some p, e)"
    and p: "p = \<lparr>connections = [Some \<lparr>dc_conn = 1, last_used_time = 0, in_use = False\<rparr>, None],
       pool_size = 1, max_size = 2, min_size = 1, in_use_count = 0, pool_config = demo_cfg 1 2\<rparr>"
    and e: "e = \<lparr>demo_live = [1], demo_connects = [], demo_pings = [], demo_clock = 1\<rparr>"
    by (simp add: db_pool_init_def demo_env_def demo_cfg_def demo_start_def create_db_connection_def
        demo_fresh_def slot_set_def Let_def numeral_2_eq_2)
  let ?s0 = "\<lparr>sys_pool = p, sys_env = e, sys_pcs = (\<lambda>t. Idle)\<rparr>"
  let ?s1 = "?s0\<lparr>sys_pcs := (sys_pcs ?s0)(0 := Trying)\<rparr>"
  let ?s2 = "?s1\<lparr>sys_pcs := (sys_pcs ?s1)(1 := Trying)\<rparr>"
  have r0: "pool_reachable demo_env (demo_cfg 1 2) demo_start ?s0"
    by (rule pool_reachable.start [OF init])
  have r1: "pool_reachable demo_env (demo_cfg 1 2) demo_start ?s1"
    by (rule pool_reachable.step [OF r0 pool_step.request]) simp
  have r2: "pool_reachable demo_env (demo_cfg 1 2) demo_start ?s2"
    by (rule pool_reachable.step [OF r1 pool_step.request]) simp
  obtain q f where "get_pass demo_env (sys_pool ?s2) (sys_env ?s2) = Some (Got 1, q, f)"
    by (simp add: p e get_pass_def slot_get_def slot_set_def demo_env_def is_connection_valid_def)
  from pool_reachable.step [OF r2 pool_step.got [OF _ this, of 0]] show ?thesis by force
qed

theorem pool_exclusive_witness:
  "\<exists>s. pool_reachable demo_env (demo_cfg 1 2) demo_start s \<and> sys_pcs s 0 = Holding 1 \<and> sys_pcs s 1 \<noteq> Holding 1 \<and>
    snd (db_pool_get_stats (Some (sys_pool s))) = int (card {c. \<exists>t. sys_pcs s t = Holding c})"
proof -
  obtain s where s: "pool_reachable demo_env (demo_cfg 1 2) demo_start s" "sys_pcs s 0 = Holding 1"
      "sys_pcs s 1 = Trying" using demo_reach_one by blast
  from pool_exclusive [OF demo.mysql_client_axioms _ s(1)] s show ?thesis
    by (intro exI [of _ s]) (auto simp: demo_cfg_def)
qed

text \<open>C35: in every such state, the first and those without a connection left included, a round of
  \<open>db_pool_get_connection\<close> stays inside the connection array; giving back a connection that a
  thread holds succeeds with code 0 and leaves exactly the other connections handed out; and
  \<open>db_pool_destroy\<close> stays inside the array and closes every connection of the pool. \<open>db_pool_init\<close>
  itself stays inside the array when the minimum is not above the maximum, which the sizes of the
  server are not.\<close>

theorem pool_calls_safe:
  assumes "mysql_client env live" "0 \<le> max_connections cfg" "pool_reachable env cfg e0 s"
  shows "(\<exists>r p e. get_pass env (sys_pool s) (sys_env s) = Some (r, p, e)) \<and>
    (\<forall>t c. sys_pcs s t = Holding c \<longrightarrow>
      (\<exists>p e. db_pool_release_connection env (Some (sys_pool s)) (Some c) (sys_env s) = Some (0, Some p, e) \<and>
         held p = held (sys_pool s) - {c})) \<and>
    (\<exists>e. db_pool_destroy env (Some (sys_pool s)) (sys_env s) = Some (None, e) \<and>
       live e = live (sys_env s) - handles (sys_pool s)) \<and>
    (min_connections cfg \<le> max_connections cfg \<longrightarrow> (\<forall>e. db_pool_init env (Some cfg) None e \<noteq> None))"
  by (rule mysql_client.calls_safe [OF assms(1,3,2)])

theorem pool_calls_safe_witness:
  "\<exists>s p e. pool_reachable demo_env (demo_cfg 1 2) demo_start s \<and> sys_pcs s 0 = Holding 1 \<and>
    get_pass demo_env (sys_pool s) (sys_env s) \<noteq> None \<and>
    db_pool_release_connection demo_env (Some (sys_pool s)) (Some 1) (sys_env s) = Some (0, Some p, e) \<and>
    held p = held (sys_pool s) - {1}"
proof -
  obtain s where s: "pool_reachable demo_env (demo_cfg 1 2) demo_start s" "sys_pcs s 0 = Holding 1"
    using demo_reach_one by blast
  have "0 \<le> max_connections (demo_cfg 1 2)" by (simp add: demo_cfg_def)
  from pool_calls_safe [OF demo.mysql_client_axioms this s(1)] s show ?thesis by fastforce
qed

text \<open>\<open>db_pool_init\<close> checks its two sizes nowhere: with a minimum above a nonnegative maximum
  and connections that keep succeeding it writes past the end of the connection array.\<close>

lemma db_pool_init_overflows:
  assumes "\<And>e. \<exists>c e1. create_db_connection env cfg e = (Some c, e1)"
    and "\<And>e. \<exists>e1. os_malloc env e = (True, e1)"
    and "0 \<le> max_connections cfg" "max_connections cfg < min_connections cfg"
  shows "db_pool_init env (Some cfg) None e = None"
proof -
  obtain e1 where e1: "os_malloc env e = (True, e1)" using assms(2) by blast
  obtain e2 where e2: "os_malloc env e1 = (True, e2)" using assms(2) by blast
  let ?p = "\<lparr>connections = replicate (nat (max_connections cfg)) None, pool_size = 0,
              max_size = max_connections cfg, min_size = min_connections cfg, in_use_count = 0,
              pool_config = cfg\<rparr>"
  have "init_loop (nat (min_connections cfg)) env cfg ?p e2 = None"
    by (rule init_loop_overflow [OF assms(1,2)]) (use assms(3,4) in auto)
  with e1 e2 show ?thesis by (simp add: db_pool_init_def Let_def)
qed

text \<open>C38: a pool that has grown to its maximal size only ever loses connections. A round of
  \<open>db_pool_get_connection\<close> on it opens no connection, keeps its size, and drops every idle
  connection whose ping fails; once all are gone, every round ends in the wait, changes nothing,
  and so does every later one.\<close>

theorem pool_capacity_shrinks:
  assumes "pool_inv L p" "pool_size p = max_size p"
    and "get_pass env p e = Some (r, p', e')"
  shows "handles p' \<subseteq> handles p \<and> pool_size p' = pool_size p \<and> max_size p' = max_size p \<and>
    (handles p = {} \<longrightarrow> r = Must_wait \<and> p' = p \<and> e' = e)"
  using get_pass_full [OF assms(3,2)] get_pass_exhausted [OF assms(1,2), of env e] assms(3) by auto

theorem pool_capacity_shrinks_witness:
  "\<exists>e'. get_pass demo_env
      \<lparr>connections = [Some \<lparr>dc_conn = 1, last_used_time = 0, in_use = False\<rparr>], pool_size = 1,
       max_size = 1, min_size = 1, in_use_count = 0, pool_config = demo_cfg 1 1\<rparr>
      (demo_start\<lparr>demo_live := [1], demo_pings := [False]\<rparr>) =
    Some (Must_wait, \<lparr>connections = [None], pool_size = 1, max_size = 1, min_size = 1,
       in_use_count = 0, pool_config = demo_cfg 1 1\<rparr>, e') \<and>
    get_pass demo_env \<lparr>connections = [None], pool_size = 1, max_size = 1, min_size = 1,
       in_use_count = 0, pool_config = demo_cfg 1 1\<rparr> e' =
    Some (Must_wait, \<lparr>connections = [None], pool_size = 1, max_size = 1, min_size = 1,
       in_use_count = 0, pool_config = demo_cfg 1 1\<rparr>, e')"
proof -
  let ?q = "\<lparr>connections = [None], pool_size = 1, max_size = 1, min_size = 1,
       in_use_count = 0, pool_config = demo_cfg 1 1\<rparr>"
  have inv: "pool_inv {} ?q" "handles ?q = {}" by (simp_all add: pool_inv_def handles_def)
  have "\<exists>r p' f. get_pass demo_env ?q e = Some (r, p', f)" for e
    using get_pass_exhausted [OF inv(1) _ inv(2), of demo_env] by simp
  then have "get_pass demo_env ?q e = Some (Must_wait, ?q, e)" for e
    using pool_capacity_shrinks [OF inv(1), of demo_env e] inv(2) by (metis db_pool.select_convs(2,3))
  moreover have "\<exists>e'. get_pass demo_env
      \<lparr>connections = [Some \<lparr>dc_conn = 1, last_used_time = 0, in_use = False\<rparr>], pool_size = 1,
       max_size = 1, min_size = 1, in_use_count = 0, pool_config = demo_cfg 1 1\<rparr>
      (demo_start\<lparr>demo_live := [1], demo_pings := [False]\<rparr>) = Some (Must_wait, ?q, e')"
    by (simp add: get_pass_def slot_get_def slot_set_def demo_env_def is_connection_valid_def
        close_db_connection_def demo_start_def Let_def)
  ultimately show ?thesis by blast
qed

end
