(* ===== verification/Config_Ini.thy ===== *)
theory Config_Ini
  imports C_Prelude
begin

text \<open>
  Reading \<open>config.ini\<close> (\<open>include/config.h\<close>, \<open>src/common/config.c\<close>) and the defaulting
  wrapper both programs use (\<open>load_value_or_default\<close> of \<open>src/server/server.c\<close> and
  \<open>src/client/client.c\<close>). The file system is the parameter \<open>fs\<close>: the content of the
  file \<open>fopen\<close> opens, \<open>None\<close> where it fails. A value found is \<open>Some\<close>, the return
  code -1 is \<open>None\<close>.
\<close>

section \<open>What the reader uses of stdio and strtok\<close>

text \<open>\<open>fgets(line, n, f)\<close>: the bytes read, up to \<open>n - 1\<close> or through a newline, and the rest.\<close>

fun fgets_chunk :: "nat \<Rightarrow> string \<Rightarrow> string \<times> string" where
  "fgets_chunk 0 s = ([], s)"
| "fgets_chunk (Suc n) [] = ([], [])"
| "fgets_chunk (Suc n) (c # cs) =
     (if c = CHR 0x0A then ([c], cs)
      else (case fgets_chunk n cs of (l, r) \<Rightarrow> (c # l, r)))"

lemma fgets_chunk_split: "fgets_chunk n s = (l, r) \<Longrightarrow> s = l @ r"
  by (induction n s arbitrary: l r rule: fgets_chunk.induct) (auto split: if_splits prod.splits)

lemma fgets_chunk_progress: "fgets_chunk (Suc n) (c # cs) = (l, r) \<Longrightarrow> length r < Suc (length cs)"
  by (auto dest!: fgets_chunk_split split: if_splits prod.splits)

definition strip_eol :: "string \<Rightarrow> string" where
  "strip_eol line = takeWhile (\<lambda>c. c \<noteq> CHR 0x0D \<and> c \<noteq> CHR 0x0A) (cstr line)"

text \<open>\<open>strtok\<close> with the delimiter \<open>=\<close>: the token and what is left for the next call.\<close>

definition strtok_eq :: "string \<Rightarrow> (string \<times> string) option" where
  "strtok_eq s =
     (let t = dropWhile (\<lambda>c. c = CHR ''='') s in
      if t = [] then None
      else Some (takeWhile (\<lambda>c. c \<noteq> CHR ''='') t, drop 1 (dropWhile (\<lambda>c. c \<noteq> CHR ''='') t)))"

section \<open>Looking a key up\<close>

definition line_value :: "string \<Rightarrow> string \<Rightarrow> string option" where
  "line_value key raw =
     (let line = strip_eol raw in
      if line = [] then None
      else if hd line = CHR ''#'' \<or> hd line = CHR '';'' then None
      else (case strtok_eq line of
              None \<Rightarrow> None
            | Some (line_key, rest) \<Rightarrow>
                if key = line_key then map_option fst (strtok_eq rest) else None))"

function scan_lines :: "string \<Rightarrow> string \<Rightarrow> string option" where
  "scan_lines key s =
     (if s = [] then None
      else (case fgets_chunk 99 s of
              (line, rest) \<Rightarrow>
                (case line_value key line of Some v \<Rightarrow> Some v | None \<Rightarrow> scan_lines key rest)))"
  by pat_completeness auto

lemma fgets_99_shorter: "fgets_chunk 99 s = (l, r) \<Longrightarrow> s \<noteq> [] \<Longrightarrow> length r < length s"
  using fgets_chunk_progress [of 98] by (cases s) auto

termination scan_lines
  by (relation "measure (\<lambda>(key, s). length s)") (auto dest!: fgets_99_shorter [OF sym])

declare scan_lines.simps [simp del]

definition config_paths :: "string list" where
  "config_paths = [''../config/config.ini'', ''./config/config.ini'']"

definition get_target :: "(string \<Rightarrow> string option) \<Rightarrow> string \<Rightarrow> string option" where
  "get_target fs key =
     (case List.find (\<lambda>p. fs p \<noteq> None) config_paths of
        None \<Rightarrow> None
      | Some p \<Rightarrow> scan_lines key (the (fs p)))"

definition load_value_or_default ::
    "(string \<Rightarrow> string option) \<Rightarrow> string \<Rightarrow> nat \<Rightarrow> string \<Rightarrow> string" where
  "load_value_or_default fs key value_sz default_value =
     (case get_target fs key of
        Some tmp \<Rightarrow> snprintf_str value_sz tmp
      | None \<Rightarrow> snprintf_str value_sz default_value)"

section \<open>Entries written one per line are read back\<close>

definition kv_line :: "string \<times> string \<Rightarrow> string" where
  "kv_line kv = fst kv @ CHR ''='' # snd kv @ [CHR 0x0A]"

definition plain_text :: "string \<Rightarrow> bool" where
  "plain_text s \<longleftrightarrow> s \<noteq> [] \<and>
     CHR ''='' \<notin> set s \<and> CHR 0x0A \<notin> set s \<and> CHR 0x0D \<notin> set s \<and> NUL \<notin> set s"

definition wf_entry :: "string \<times> string \<Rightarrow> bool" where
  "wf_entry kv \<longleftrightarrow> plain_text (fst kv) \<and> plain_text (snd kv) \<and>
     hd (fst kv) \<noteq> CHR ''#'' \<and> hd (fst kv) \<noteq> CHR '';'' \<and>
     length (fst kv) + length (snd kv) \<le> 97"

lemma fgets_chunk_line:
  "CHR 0x0A \<notin> set l \<Longrightarrow> length l < n \<Longrightarrow>
     fgets_chunk n (l @ CHR 0x0A # rest) = (l @ [CHR 0x0A], rest)"
proof (induction l arbitrary: n)
  case Nil
  then show ?case by (cases n) auto
next
  case (Cons c l)
  then show ?case by (cases n) auto
qed

lemma strip_eol_line: "CHR 0x0A \<notin> set l \<Longrightarrow> CHR 0x0D \<notin> set l \<Longrightarrow> NUL \<notin> set l \<Longrightarrow>
    strip_eol (l @ [CHR 0x0A]) = l"
proof -
  assume a: "CHR 0x0A \<notin> set l" "CHR 0x0D \<notin> set l" "NUL \<notin> set l"
  then have "cstr (l @ [CHR 0x0A]) = l @ [CHR 0x0A]" by (intro cstr_id) auto
  moreover have "takeWhile (\<lambda>c. c \<noteq> CHR 0x0D \<and> c \<noteq> CHR 0x0A) l = l"
    using a by (auto intro: takeWhile_eq_all_conv [THEN iffD2])
  ultimately show ?thesis using a by (simp add: strip_eol_def takeWhile_append)
qed

lemma strtok_eq_token:
  assumes "s \<noteq> []" "CHR ''='' \<notin> set s"
  shows "strtok_eq (s @ CHR ''='' # r) = Some (s, r)" "strtok_eq s = Some (s, [])"
proof -
  have dw: "dropWhile (\<lambda>c. c = CHR ''='') (s @ x) = s @ x" for x
    using assms by (cases s) auto
  have tw: "takeWhile (\<lambda>c. c \<noteq> CHR ''='') s = s" "dropWhile (\<lambda>c. c \<noteq> CHR ''='') s = []"
    using assms(2) by (auto intro: takeWhile_eq_all_conv [THEN iffD2] simp: dropWhile_eq_Nil_conv)
  have "takeWhile (\<lambda>c. c \<noteq> CHR ''='') (s @ CHR ''='' # r) = s"
    "dropWhile (\<lambda>c. c \<noteq> CHR ''='') (s @ CHR ''='' # r) = CHR ''='' # r"
    using assms(2) by (auto simp: takeWhile_append dropWhile_append dropWhile_eq_Nil_conv
        intro: takeWhile_eq_all_conv [THEN iffD2])
  with dw dw [of "[]"] tw assms(1)
  show "strtok_eq (s @ CHR ''='' # r) = Some (s, r)" "strtok_eq s = Some (s, [])"
    by (simp_all add: strtok_eq_def del: dropWhile_eq_Nil_conv)
qed

lemma line_value_entry:
  "wf_entry (k, v) \<Longrightarrow> line_value key (kv_line (k, v)) = (if key = k then Some v else None)"
  using strip_eol_line [of "k @ CHR ''='' # v"] strtok_eq_token(1) [of k v] strtok_eq_token(2) [of v]
  by (auto simp: line_value_def kv_line_def wf_entry_def plain_text_def Let_def)

lemma scan_lines_entries:
  "(\<And>kv. kv \<in> set kvs \<Longrightarrow> wf_entry kv) \<Longrightarrow>
     scan_lines key (concat (map kv_line kvs)) = map_of kvs key"
proof (induction kvs)
  case Nil
  then show ?case by (simp add: scan_lines.simps)
next
  case (Cons kv kvs)
  obtain k v where kv: "kv = (k, v)" by force
  have wf: "wf_entry (k, v)" using Cons.prems kv by simp
  have chunk: "fgets_chunk 99 (concat (map kv_line (kv # kvs))) =
      (kv_line (k, v), concat (map kv_line kvs))"
    using wf fgets_chunk_line [of "k @ CHR ''='' # v" 99 "concat (map kv_line kvs)"]
    by (simp add: kv_line_def kv wf_entry_def plain_text_def)
  have "concat (map kv_line (kv # kvs)) \<noteq> []" by (simp add: kv_line_def)
  with chunk line_value_entry [OF wf, of key] Cons kv show ?case
    by (subst scan_lines.simps) auto
qed

text \<open>A configuration file that holds one \<open>key=value\<close> line per entry, with plain keys and
  values that fit the 100-byte line buffer, is read back faithfully: \<open>get_target\<close> returns the
  value of the first entry with that key and fails exactly for a key that has none.\<close>

lemma get_target_roundtrip:
  assumes "\<And>kv. kv \<in> set kvs \<Longrightarrow> wf_entry kv"
    and "fs ''../config/config.ini'' = Some (concat (map kv_line kvs))"
  shows "get_target fs key = map_of kvs key"
  using scan_lines_entries [OF assms(1), of kvs key] assms(2)
  by (simp add: get_target_def config_paths_def)

end
