(* ===== verification/Dao_Conn.thy ===== *)
theory Dao_Conn
  imports Db_Pool_Steps Config_Ini
begin

text \<open>
  The connection management of \<open>src/server/dao_vfs.c\<close> on top of the pool, and the set-up \<open>main\<close> in
  \<open>src/server/server.c\<close> makes of it. The globals of both files are one record; the thread-local
  \<open>g_thread_db_conn\<close> is a function of the thread. The parameters are those of the pool and the
  outcome of \<open>mysql_library_init\<close>. Getting a connection from the pool is one round of its loop;
  \<open>Waits\<close> says that the round ended in the wait.
\<close>

record dao_globals =
  g_db_host :: "char list"
  g_db_user :: "char list"
  g_db_password :: "char list"
  g_db_name :: "char list"
  g_use_pool :: int
  g_pool :: "db_pool option"
  g_thread_db_conn :: "nat \<Rightarrow> nat option"

definition zero_padded :: "nat \<Rightarrow> string \<Rightarrow> char list" where
  "zero_padded n s = s @ replicate (n - length s) NUL"

definition initial_globals :: dao_globals where
  "initial_globals =
     \<lparr>g_db_host = zero_padded 64 ''127.0.0.1'', g_db_user = zero_padded 64 ''root'',
      g_db_password = zero_padded 128 ''123456'', g_db_name = zero_padded 64 ''windcloud'',
      g_use_pool = 0, g_pool = None, g_thread_db_conn = (\<lambda>t. None)\<rparr>"

text \<open>\<open>strncpy(buf, s, k)\<close> into an array that holds something: padding up to \<open>k\<close>, the rest stays.\<close>

definition strncpy_over :: "nat \<Rightarrow> char list \<Rightarrow> string \<Rightarrow> char list" where
  "strncpy_over k buf s = zero_padded k (take k s) @ drop k buf"

definition copy_param :: "string option \<Rightarrow> char list \<Rightarrow> char list" where
  "copy_param s buf = (case s of None \<Rightarrow> buf | Some x \<Rightarrow> strncpy_over (length buf - 1) buf x)"

definition dao_set_connection_params ::
    "string option \<Rightarrow> string option \<Rightarrow> string option \<Rightarrow> string option \<Rightarrow> dao_globals \<Rightarrow> dao_globals" where
  "dao_set_connection_params host user password name g =
     g\<lparr>g_db_host := copy_param host (g_db_host g), g_db_user := copy_param user (g_db_user g),
       g_db_password := copy_param password (g_db_password g), g_db_name := copy_param name (g_db_name g)\<rparr>"

definition dao_init :: "('e \<Rightarrow> int \<times> 'e) \<Rightarrow> 'e \<Rightarrow> int \<times> 'e" where
  "dao_init library_init e = (case library_init e of (r, e1) \<Rightarrow> (if r \<noteq> 0 then - 1 else 0, e1))"

definition dao_pool_config :: "dao_globals \<Rightarrow> int \<Rightarrow> int \<Rightarrow> db_pool_config" where
  "dao_pool_config g mn mx =
     \<lparr>cfg_host = cstr (g_db_host g), cfg_user = cstr (g_db_user g), cfg_password = cstr (g_db_password g),
      cfg_db_name = cstr (g_db_name g), min_connections = (if mn > 0 then mn else 5),
      max_connections = (if mx > 0 then mx else 20), max_idle_time = 3600, connection_timeout = 30\<rparr>"

definition dao_init_with_pool ::
    "('e \<Rightarrow> int \<times> 'e) \<Rightarrow> 'e pool_env \<Rightarrow> int \<Rightarrow> int \<Rightarrow> dao_globals \<Rightarrow> 'e \<Rightarrow> (int \<times> dao_globals \<times> 'e) ub" where
  "dao_init_with_pool library_init env min_conns max_conns g e =
     (case dao_init library_init e of
        (r, e1) \<Rightarrow>
          if r \<noteq> 0 then Some (- 1, g, e1)
          else
            (case db_pool_init env (Some (dao_pool_config g min_conns max_conns)) (g_pool g) e1 of
               None \<Rightarrow> None
             | Some (pr, p, e2) \<Rightarrow>
                 if pr \<noteq> 0 then Some (- 1, g\<lparr>g_pool := p\<rparr>, e2)
                 else Some (0, g\<lparr>g_pool := p, g_use_pool := 1\<rparr>, e2)))"

datatype conn_result = Waits | Returns "nat option"

definition dao_get_connection ::
    "'e pool_env \<Rightarrow> nat \<Rightarrow> dao_globals \<Rightarrow> 'e \<Rightarrow> (conn_result \<times> dao_globals \<times> 'e) ub" where
  "dao_get_connection env t g e =
     (if g_use_pool g \<noteq> 0
      then
        (case g_pool g of
           None \<Rightarrow> Some (Returns None, g, e)
         | Some p \<Rightarrow>
             (case get_pass env p e of
                None \<Rightarrow> None
              | Some (Must_wait, p1, e1) \<Rightarrow> Some (Waits, g\<lparr>g_pool := Some p1\<rparr>, e1)
              | Some (Got conn, p1, e1) \<Rightarrow>
                  Some (Returns (Some conn),
                    g\<lparr>g_pool := Some p1, g_thread_db_conn := (g_thread_db_conn g)(t \<mapsto> conn)\<rparr>, e1)))
      else
        (case mysql_init env e of
           (None, e1) \<Rightarrow> Some (Returns None, g, e1)
         | (Some conn, e1) \<Rightarrow>
             (case mysql_real_connect env conn (dao_pool_config g 0 0) e1 of
                (False, e2) \<Rightarrow> Some (Returns None, g, mysql_close env conn e2)
              | (True, e2) \<Rightarrow>
                  Some (Returns (Some conn), g\<lparr>g_thread_db_conn := (g_thread_db_conn g)(t \<mapsto> conn)\<rparr>,
                    mysql_set_character_set env conn ''utf8mb4'' e2))))"

definition dao_close_connection ::
    "'e pool_env \<Rightarrow> nat \<Rightarrow> nat option \<Rightarrow> dao_globals \<Rightarrow> 'e \<Rightarrow> (dao_globals \<times> 'e) ub" where
  "dao_close_connection env t conn g e =
     (case conn of
        None \<Rightarrow> Some (g, e)
      | Some c \<Rightarrow>
          if g_use_pool g \<noteq> 0
          then
            (case db_pool_release_connection env (g_pool g) (Some c) e of
               None \<Rightarrow> None
             | Some (r, p, e1) \<Rightarrow>
                 Some (g\<lparr>g_pool := p, g_thread_db_conn := (g_thread_db_conn g)(t := None)\<rparr>, e1))
          else Some (g\<lparr>g_thread_db_conn := (g_thread_db_conn g)(t := None)\<rparr>, mysql_close env c e))"

section \<open>The set-up of the programs\<close>

record settings =
  set_ip :: string
  set_port :: string
  set_log_level :: string
  set_log_file :: string

definition server_settings :: "(string \<Rightarrow> string option) \<Rightarrow> settings" where
  "server_settings fs =
     \<lparr>set_ip = load_value_or_default fs ''ip'' 64 ''127.0.0.1'',
      set_port = load_value_or_default fs ''port'' 64 ''9091'',
      set_log_level = load_value_or_default fs ''log'' 32 ''INFO'',
      set_log_file = load_value_or_default fs ''server_log'' 256 ''../log/server.log''\<rparr>"

definition client_settings :: "(string \<Rightarrow> string option) \<Rightarrow> settings" where
  "client_settings fs =
     \<lparr>set_ip = load_value_or_default fs ''ip'' 64 ''127.0.0.1'',
      set_port = load_value_or_default fs ''port'' 64 ''9090'',
      set_log_level = load_value_or_default fs ''log'' 32 ''INFO'',
      set_log_file = load_value_or_default fs ''client_log'' 256 ''../log/client.log''\<rparr>"

definition server_connection_params :: "(string \<Rightarrow> string option) \<Rightarrow> dao_globals \<Rightarrow> dao_globals" where
  "server_connection_params fs g =
     dao_set_connection_params
       (Some (load_value_or_default fs ''db_host'' 64 ''127.0.0.1''))
       (Some (load_value_or_default fs ''db_user'' 64 ''root''))
       (Some (load_value_or_default fs ''db_password'' 128 ''root''))
       (Some (load_value_or_default fs ''db_name'' 64 ''windcloud'')) g"

definition server_pool_sizes :: "int \<times> int" where
  "server_pool_sizes = (let min_pool_size = 5 + 2 in (min_pool_size, min_pool_size div 2))"

definition server_database ::
    "('e \<Rightarrow> int \<times> 'e) \<Rightarrow> 'e pool_env \<Rightarrow> (string \<Rightarrow> string option) \<Rightarrow> dao_globals \<Rightarrow> 'e \<Rightarrow> (int \<times> dao_globals \<times> 'e) ub" where
  "server_database library_init env fs g e =
     dao_init_with_pool library_init env (fst server_pool_sizes) (snd server_pool_sizes) (server_connection_params fs g) e"

section \<open>Lemmas\<close>

lemma cstr_copy_param:
  assumes "NUL \<notin> set x" "length x < length buf" "last buf = NUL"
  shows "cstr (copy_param (Some x) buf) = x" "length (copy_param (Some x) buf) = length buf" "last (copy_param (Some x) buf) = NUL"
proof -
  let ?k = "length buf - 1"
  have b: "buf \<noteq> []" "take ?k x = x" using assms(2) by auto
  have d: "drop ?k buf = [NUL]" using b(1) assms(3) by (metis append_butlast_last_id append_eq_conv_conj length_butlast)
  have e: "copy_param (Some x) buf = x @ replicate (?k - length x) NUL @ [NUL]"
    unfolding copy_param_def strncpy_over_def option.case b(2) d zero_padded_def by simp
  show "length (copy_param (Some x) buf) = length buf" "last (copy_param (Some x) buf) = NUL"
    unfolding e using assms(2) by simp_all
  have "x @ replicate (?k - length x) NUL @ [NUL] = x @ replicate (Suc (?k - length x)) NUL" by (simp add: replicate_append_same)
  then show "cstr (copy_param (Some x) buf) = x" unfolding e using cstr_padded [OF assms(1), of "Suc (?k - length x)"] by (simp only:)
qed




lemma default_ports_differ: "set_port (server_settings (\<lambda>p. None)) = ''9091'' \<and> set_port (client_settings (\<lambda>p. None)) = ''9090''"
  by (simp add: server_settings_def client_settings_def load_value_or_default_def get_target_def config_paths_def snprintf_str_def)

context mysql_client begin

lemma get_close:
  assumes "g_use_pool g = 1" "g_pool g = Some p" "pool_inv (live e) p" "dao_get_connection env t g e = Some (Returns (Some c), g1, e1)"
  shows "\<exists>g2 e2 p2. g_thread_db_conn g1 t = Some c \<and> c \<notin> held p \<and> dao_close_connection env t (Some c) g1 e1 = Some (g2, e2) \<and>
    g_thread_db_conn g2 t = None \<and> g_pool g2 = Some p2 \<and> pool_inv (live e2) p2 \<and> held p2 = held p \<and> in_use_count p2 = in_use_count p"
proof -
  obtain r p1 e1' where gp: "get_pass env p e = Some (r, p1, e1')" "pool_inv (live e1') p1"
    "case r of Must_wait \<Rightarrow> held p1 = held p | Got c \<Rightarrow> c \<notin> held p \<and> held p1 = insert c (held p)"
    using get_pass_ok [OF assms(3)] by blast
  with assms(1,2,4) have r: "r = Got c" "e1' = e1" "g1 = g\<lparr>g_pool := Some p1, g_thread_db_conn := (g_thread_db_conn g)(t \<mapsto> c)\<rparr>"
    by (auto simp: dao_get_connection_def split: pass_result.splits)
  then have h: "c \<notin> held p" "held p1 = insert c (held p)" using gp(3) by simp_all
  obtain p2 e2 where rel: "db_pool_release_connection env (Some p1) (Some c) e1 = Some (0, Some p2, e2)"
    "pool_inv (live e2) p2" "held p2 = held p1 - {c}"
    using release_ok [of e1 p1 c] gp(2) h r(2) by auto
  have "held p2 = held p" using rel(3) h by simp
  moreover have "in_use_count p2 = in_use_count p" using held_card [OF rel(2)] held_card [OF assms(3)] \<open>held p2 = held p\<close> by simp
  ultimately show ?thesis using rel(1,2) h(1) r(3) assms(1) by (simp add: dao_close_connection_def)
qed

end

section \<open>Properties\<close>

text \<open>A thread that gets a connection from the pool and closes it leaves the pool as it found it: the
  connection was in nobody's hands, it is the thread's own between the two calls, and afterwards the
  same connections are handed out as before, their number is the same and the thread has none.\<close>

lemma connection_get_close:
  assumes "mysql_client env live" "g_use_pool g = 1" "g_pool g = Some p" "pool_inv (live e) p"
    "dao_get_connection env t g e = Some (Returns (Some c), g1, e1)"
  shows "\<exists>g2 e2 p2. g_thread_db_conn g1 t = Some c \<and> c \<notin> held p \<and> dao_close_connection env t (Some c) g1 e1 = Some (g2, e2) \<and>
    g_thread_db_conn g2 t = None \<and> g_pool g2 = Some p2 \<and> pool_inv (live e2) p2 \<and> held p2 = held p \<and> in_use_count p2 = in_use_count p"
  by (rule mysql_client.get_close [OF assms])

text \<open>C29: the server as it is written cannot start up correctly: whatever its configuration file says, when
  the library starts, memory is there and the database accepts the connections, opening the seven
  connections of its minimum writes past the end of the array of its maximum, three.\<close>

theorem server_start_overruns:
  assumes "\<And>e. \<exists>e1. library_init e = (0, e1)" "\<And>cfg e. \<exists>c e1. create_db_connection env cfg e = (Some c, e1)"
    "\<And>e. \<exists>e1. os_malloc env e = (True, e1)" "g_pool g = None"
  shows "server_database library_init env fs g e = None"
proof -
  obtain e1 where "library_init e = (0, e1)" using assms(1) by blast
  moreover have "db_pool_init env (Some (dao_pool_config (server_connection_params fs g) 7 3)) None e1 = None"
    by (rule db_pool_init_overflows [OF assms(2,3)]) (simp_all add: dao_pool_config_def)
  moreover have "g_pool (server_connection_params fs g) = None"
    using assms(4) by (simp add: server_connection_params_def dao_set_connection_params_def)
  ultimately show ?thesis by (simp add: server_database_def dao_init_with_pool_def dao_init_def server_pool_sizes_def)
qed

theorem server_start_overruns_witness:
  "server_database (\<lambda>e. (0, e)) (demo_env\<lparr>mysql_real_connect := \<lambda>c cfg e. (True, e)\<rparr>) (\<lambda>p. None) initial_globals demo_start = None"
  by (rule server_start_overruns) (auto simp: create_db_connection_def demo_env_def initial_globals_def Let_def)



end
