(* ===== verification/Sockets.thy ===== *)
theory Sockets
  imports Dao_Conn
begin

text \<open>
  The socket set-up of both programs (\<open>src/server/server_socket.c\<close>, \<open>src/client/client_socket.c\<close>), the
  two helpers of \<open>src/server/epoll.c\<close> and the macro \<open>ERROR_CHECK\<close> of \<open>include/error_check.h\<close>. The
  operating system is the list of what the next calls return, 0 when it is used up, and the calls
  made so far. \<open>exit\<close> is a left value, the status. \<open>inet_addr\<close> is a parameter; a port is the number
  that is given to \<open>htons\<close>. Lines logged and \<open>errno\<close> are not modelled.
\<close>

datatype sys_call =
    Socket
  | Setsockopt_reuseaddr int
  | Bind int "32 word" "16 word"
  | Listen int int
  | Connect int "32 word" "16 word"
  | Epoll_create int
  | Epoll_ctl_add int int
  | Epoll_ctl_del int int
  | Pipe
  | Fork
  | Setpgid
  | Ignore_sigpipe
  | Handle_sigint
  | Wait
  | Write int string
  | Close int

record os =
  os_answers :: "int list"
  os_calls :: "sys_call list"

definition sys :: "sys_call \<Rightarrow> os \<Rightarrow> int \<times> os" where
  "sys c s = (case os_answers s of [] \<Rightarrow> 0 | r # rs \<Rightarrow> r, s\<lparr>os_answers := tl (os_answers s), os_calls := os_calls s @ [c]\<rparr>)"

definition error_check :: "int \<Rightarrow> int \<Rightarrow> int + int" where
  "error_check ret error_flag = (if ret = error_flag then Inl 1 else Inr ret)"

section \<open>The functions\<close>

definition htons_port :: "string \<Rightarrow> 16 word" where
  "htons_port port = word_of_int (atoi port)"

text \<open>\<open>init_socket\<close> of the server.\<close>

definition server_init_socket :: "(string \<Rightarrow> 32 word) \<Rightarrow> string \<Rightarrow> string \<Rightarrow> os \<Rightarrow> (int + int) \<times> os" where
  "server_init_socket inet_addr ip port s =
     (case sys Socket s of
        (fd, s1) \<Rightarrow>
          (case error_check fd (- 1) of
             Inl x \<Rightarrow> (Inl x, s1)
           | Inr _ \<Rightarrow>
               (case sys (Setsockopt_reuseaddr fd) s1 of
                  (_, s2) \<Rightarrow>
                    (case sys (Bind fd (inet_addr ip) (htons_port port)) s2 of
                       (ret, s3) \<Rightarrow>
                         (case error_check ret (- 1) of
                            Inl x \<Rightarrow> (Inl x, s3)
                          | Inr _ \<Rightarrow>
                              (case sys (Listen fd 10) s3 of
                                 (ret, s4) \<Rightarrow>
                                   (case error_check ret (- 1) of Inl x \<Rightarrow> (Inl x, s4) | Inr _ \<Rightarrow> (Inr fd, s4))))))))"

text \<open>\<open>init_socket\<close> of the client.\<close>

definition client_init_socket :: "(string \<Rightarrow> 32 word) \<Rightarrow> string \<Rightarrow> string \<Rightarrow> os \<Rightarrow> (int + int) \<times> os" where
  "client_init_socket inet_addr ip port s =
     (case sys Socket s of
        (fd, s1) \<Rightarrow>
          (case error_check fd (- 1) of
             Inl x \<Rightarrow> (Inl x, s1)
           | Inr _ \<Rightarrow>
               (case sys (Connect fd (inet_addr ip) (htons_port port)) s1 of
                  (ret, s2) \<Rightarrow> (case error_check ret (- 1) of Inl x \<Rightarrow> (Inl x, s2) | Inr _ \<Rightarrow> (Inr fd, s2)))))"

definition add_epoll_fd :: "int \<Rightarrow> int \<Rightarrow> os \<Rightarrow> (int + unit) \<times> os" where
  "add_epoll_fd epfd fd s =
     (case sys (Epoll_ctl_add epfd fd) s of
        (ret, s1) \<Rightarrow> (case error_check ret (- 1) of Inl x \<Rightarrow> (Inl x, s1) | Inr _ \<Rightarrow> (Inr (), s1)))"

definition del_epoll_fd :: "int \<Rightarrow> int \<Rightarrow> os \<Rightarrow> (int + unit) \<times> os" where
  "del_epoll_fd epfd fd s =
     (case sys (Epoll_ctl_del epfd fd) s of
        (ret, s1) \<Rightarrow> (case error_check ret (- 1) of Inl x \<Rightarrow> (Inl x, s1) | Inr _ \<Rightarrow> (Inr (), s1)))"

section \<open>Lemmas\<close>

text \<open>An answer of the list, 0 past its end.\<close>

definition answer :: "int list \<Rightarrow> nat \<Rightarrow> int" where
  "answer a i = (if i < length a then a ! i else 0)"

lemma answer_tl [simp]: "answer (tl a) i = answer a (Suc i)"
  by (auto simp: answer_def nth_tl)

lemma sys_eq: "sys c s = (answer (os_answers s) 0, s\<lparr>os_answers := tl (os_answers s), os_calls := os_calls s @ [c]\<rparr>)"
  by (cases "os_answers s") (simp_all add: sys_def answer_def)

text \<open>The outcome and the calls of the two functions, whatever is answered.\<close>

lemma server_init_socket_eq:
  "\<exists>s'. server_init_socket inet_addr ip port s = (if answer (os_answers s) 0 = - 1 \<or> answer (os_answers s) 2 = - 1 \<or> answer (os_answers s) 3 = - 1 then Inl 1 else Inr (answer (os_answers s) 0), s') \<and>
    os_answers s' = drop (if answer (os_answers s) 0 = - 1 then 1 else if answer (os_answers s) 2 = - 1 then 3 else 4) (os_answers s) \<and>
    os_calls s' = os_calls s @ take (if answer (os_answers s) 0 = - 1 then 1 else if answer (os_answers s) 2 = - 1 then 3 else 4)
      [Socket, Setsockopt_reuseaddr (answer (os_answers s) 0), Bind (answer (os_answers s) 0) (inet_addr ip) (htons_port port), Listen (answer (os_answers s) 0) 10]"
  by (simp add: server_init_socket_def sys_eq error_check_def numeral_eq_Suc drop_Suc)

lemma client_init_socket_eq:
  "\<exists>s'. client_init_socket inet_addr ip port s = (if answer (os_answers s) 0 = - 1 \<or> answer (os_answers s) 1 = - 1 then Inl 1 else Inr (answer (os_answers s) 0), s') \<and>
    os_calls s' = os_calls s @ take (if answer (os_answers s) 0 = - 1 then 1 else 2)
      [Socket, Connect (answer (os_answers s) 0) (inet_addr ip) (htons_port port)]"
  by (simp add: client_init_socket_def sys_eq error_check_def numeral_eq_Suc)

lemma loaded_value:
  assumes "\<And>kv. kv \<in> set kvs \<Longrightarrow> wf_entry kv" "fs ''../config/config.ini'' = Some (concat (map kv_line kvs))"
    "map_of kvs key = Some v" "length v < n"
  shows "load_value_or_default fs key n dflt = v"
  using get_target_roundtrip [of kvs fs key, OF assms(1,2)] assms(3,4) by (simp add: load_value_or_default_def snprintf_str_def)

section \<open>Properties\<close>

text \<open>C23: the client calls where the server listens: with the same well-formed configuration file, which names
  an address and a port, and system calls that succeed, the server binds its listening socket to that
  address and port, the client connects to the same, and a port above 65535 that is still an \<open>int\<close> is
  taken modulo 65536 by both. Without a configuration file the two ports differ.\<close>

theorem client_reaches_server:
  assumes "\<And>kv. kv \<in> set kvs \<Longrightarrow> wf_entry kv" "fs ''../config/config.ini'' = Some (concat (map kv_line kvs))"
    "map_of kvs ''ip'' = Some ip" "length ip \<le> 63" "map_of kvs ''port'' = Some (nat_to_dec p)" "p < 2 ^ 31"
    "\<And>i. answer (os_answers s) i \<noteq> - 1" "\<And>i. answer (os_answers c) i \<noteq> - 1"
  shows "\<exists>fd s' cfd c'.
    server_init_socket inet_addr (set_ip (server_settings fs)) (set_port (server_settings fs)) s = (Inr fd, s') \<and>
    os_calls s' = os_calls s @ [Socket, Setsockopt_reuseaddr fd, Bind fd (inet_addr ip) (word_of_nat p), Listen fd 10] \<and>
    client_init_socket inet_addr (set_ip (client_settings fs)) (set_port (client_settings fs)) c = (Inr cfd, c') \<and>
    os_calls c' = os_calls c @ [Socket, Connect cfd (inet_addr ip) (word_of_nat p)] \<and>
    htons_port (set_port (server_settings (\<lambda>f. None))) \<noteq> htons_port (set_port (client_settings (\<lambda>f. None)))"
proof -
  note v = loaded_value [of kvs fs, OF assms(1,2)]
  have "p < 10 ^ 10" using assms(6) by simp
  then have "length (nat_to_dec p) \<le> 10" by (intro length_nat_to_dec) simp_all
  with assms(4) have n: "length ip < 64" "length (nat_to_dec p) < 64" by simp_all
  have st: "set_ip (server_settings fs) = ip" "set_ip (client_settings fs) = ip"
    "set_port (server_settings fs) = nat_to_dec p" "set_port (client_settings fs) = nat_to_dec p"
    using v [OF _ assms(3) n(1)] v [OF _ assms(5) n(2)] by (simp_all add: server_settings_def client_settings_def)
  have port: "htons_port (nat_to_dec k) = word_of_nat k" if "k < 2 ^ 31" for k
    using that by (simp add: htons_port_def atoi_nat_to_dec)
  note h = port [OF assms(6)]
  have d: "''9091'' = nat_to_dec 9091" "''9090'' = nat_to_dec 9090" by (simp_all add: nat_to_dec.simps char_of_def bit_0)
  have "htons_port ''9091'' = 9091" "htons_port ''9090'' = 9090"
    unfolding d by (simp_all add: port)
  then have "htons_port (set_port (server_settings (\<lambda>f. None))) \<noteq> htons_port (set_port (client_settings (\<lambda>f. None)))"
    using default_ports_differ by simp
  then show ?thesis
    using server_init_socket_eq [of inet_addr ip "nat_to_dec p" s] client_init_socket_eq [of inet_addr ip "nat_to_dec p" c] assms(7,8)
    unfolding st h by auto
qed

theorem client_reaches_server_witness:
  "\<exists>kvs fs. map_of kvs ''port'' = Some ''9000'' \<and> fs ''../config/config.ini'' = Some (concat (map kv_line kvs)) \<and>
    (\<exists>s' c'. server_init_socket (\<lambda>t. 5) (set_ip (server_settings fs)) (set_port (server_settings fs)) \<lparr>os_answers = [3], os_calls = []\<rparr> = (Inr 3, s') \<and>
      Bind 3 5 9000 \<in> set (os_calls s') \<and>
      client_init_socket (\<lambda>t. 5) (set_ip (client_settings fs)) (set_port (client_settings fs)) \<lparr>os_answers = [3], os_calls = []\<rparr> = (Inr 3, c') \<and>
      Connect 3 5 9000 \<in> set (os_calls c'))"
proof -
  let ?kvs = "[(''ip'', ''10.0.0.1''), (''port'', ''9000'')]"
  let ?fs = "(\<lambda>f. Some (concat (map kv_line ?kvs)))"
  let ?s = "\<lparr>os_answers = [3], os_calls = []\<rparr>"
  have p: "nat_to_dec 9000 = ''9000''" by (simp add: nat_to_dec.simps char_of_def bit_0)
  have w: "wf_entry kv" if "kv \<in> set ?kvs" for kv using that by (auto simp: wf_entry_def plain_text_def)
  have m: "map_of ?kvs ''ip'' = Some ''10.0.0.1''" "map_of ?kvs ''port'' = Some (nat_to_dec 9000)" "length ''10.0.0.1'' \<le> 63" "(9000 :: nat) < 2 ^ 31"
    by (simp_all add: p)
  have a: "answer (os_answers ?s) i \<noteq> - 1" for i by (simp add: answer_def nth_Cons split: nat.splits)
  obtain fd s' cfd c' where r:
    "server_init_socket (\<lambda>t. 5) (set_ip (server_settings ?fs)) (set_port (server_settings ?fs)) ?s = (Inr fd, s')"
    "os_calls s' = [Socket, Setsockopt_reuseaddr fd, Bind fd 5 9000, Listen fd 10]"
    "client_init_socket (\<lambda>t. 5) (set_ip (client_settings ?fs)) (set_port (client_settings ?fs)) ?s = (Inr cfd, c')"
    "os_calls c' = [Socket, Connect cfd 5 9000]"
    using client_reaches_server [of ?kvs ?fs, OF w refl m(1,3,2,4) a a, of "\<lambda>t. 5"] by auto
  have "fd = 3" "cfd = 3"
    using server_init_socket_eq [of "\<lambda>t. 5" "set_ip (server_settings ?fs)" "set_port (server_settings ?fs)" ?s]
      client_init_socket_eq [of "\<lambda>t. 5" "set_ip (client_settings ?fs)" "set_port (client_settings ?fs)" ?s] unfolding r(1,3)
    by (auto simp: answer_def split: if_splits)
  with r show ?thesis by (intro exI [of _ ?kvs] exI [of _ ?fs] conjI exI [of _ s'] exI [of _ c']) simp_all
qed

end
