(* ===== verification/Logging.thy ===== *)
theory Logging
  imports C_Prelude "HOL-Library.Sublist"
begin

text \<open>
  The logging module (\<open>include/log.h\<close>, \<open>src/common/log.c\<close>) and the start-up wrapper
  \<open>init_log_with_fallback\<close> of both programs. The state is the globals \<open>g_log_level\<close>, \<open>g_log_fp\<close>
  and \<open>g_log_mutex\<close>, of which it says whether the mutex is initialised, as it is from the start by
  its static initialiser; whether \<open>fopen\<close> and \<open>access\<close> succeed is a parameter. A write returns the
  stream and the text written to it, if any. Locking or destroying a mutex that \<open>close_log\<close> has
  destroyed, and writing to or closing a stream that it has closed, are undefined behaviour, \<open>None\<close>. A
  write is one step, since the mutex serialises the writers; the rendering of the clock is the
  parameter \<open>time_str\<close>.
\<close>

definition LOG_LEVEL_DEBUG :: int where "LOG_LEVEL_DEBUG = 0"
definition LOG_LEVEL_INFO :: int where "LOG_LEVEL_INFO = 1"
definition LOG_LEVEL_WARN :: int where "LOG_LEVEL_WARN = 2"
definition LOG_LEVEL_ERROR :: int where "LOG_LEVEL_ERROR = 3"

lemmas log_levels = LOG_LEVEL_DEBUG_def LOG_LEVEL_INFO_def LOG_LEVEL_WARN_def LOG_LEVEL_ERROR_def

datatype log_fp = Fp_null | Fp_stdout | Fp_file string | Fp_closed

record log_state =
  g_log_level :: int
  g_log_fp :: log_fp
  g_log_mutex :: bool

definition log_initial :: log_state where
  "log_initial = \<lparr>g_log_level = LOG_LEVEL_INFO, g_log_fp = Fp_null, g_log_mutex = True\<rparr>"

definition to_lower :: "char \<Rightarrow> char" where
  "to_lower c = (let n = (of_char c :: nat) in if 65 \<le> n \<and> n \<le> 90 then char_of (n + 32) else c)"

definition strcasecmp_eq :: "string \<Rightarrow> string \<Rightarrow> bool" where
  "strcasecmp_eq a b \<longleftrightarrow> map to_lower a = map to_lower b"

definition level_to_int :: "string \<Rightarrow> int" where
  "level_to_int level_str =
     (if strcasecmp_eq level_str ''DEBUG'' then LOG_LEVEL_DEBUG
      else if strcasecmp_eq level_str ''INFO'' then LOG_LEVEL_INFO
      else if strcasecmp_eq level_str ''WARN'' then LOG_LEVEL_WARN
      else if strcasecmp_eq level_str ''ERROR'' then LOG_LEVEL_ERROR
      else LOG_LEVEL_INFO)"

definition level_to_name :: "int \<Rightarrow> string" where
  "level_to_name level =
     (if level = LOG_LEVEL_DEBUG then ''DEBUG''
      else if level = LOG_LEVEL_INFO then ''INFO''
      else if level = LOG_LEVEL_WARN then ''WARN''
      else if level = LOG_LEVEL_ERROR then ''ERROR''
      else ''UNKNOWN'')"

definition init_log ::
    "(string \<Rightarrow> bool) \<Rightarrow> string option \<Rightarrow> string option \<Rightarrow> log_state \<Rightarrow> int \<times> log_state" where
  "init_log can_open level_str log_file st =
     (let st1 = (case level_str of None \<Rightarrow> st | Some l \<Rightarrow> st\<lparr>g_log_level := level_to_int l\<rparr>) in
      case log_file of
        Some f \<Rightarrow> if can_open f then (0, st1\<lparr>g_log_fp := Fp_file f\<rparr>)
                  else (- 1, st1\<lparr>g_log_fp := Fp_null\<rparr>)
      | None \<Rightarrow> (0, st1\<lparr>g_log_fp := Fp_stdout\<rparr>))"

definition close_log :: "log_state \<Rightarrow> log_state ub" where
  "close_log st =
     (case (case g_log_fp st of Fp_closed \<Rightarrow> None | Fp_file f \<Rightarrow> Some (st\<lparr>g_log_fp := Fp_closed\<rparr>) | _ \<Rightarrow> Some st) of
        None \<Rightarrow> None
      | Some st1 \<Rightarrow> if g_log_mutex st1 then Some (st1\<lparr>g_log_mutex := False\<rparr>) else None)"

definition log_line :: "string \<Rightarrow> int \<Rightarrow> string \<Rightarrow> int \<Rightarrow> string \<Rightarrow> string \<Rightarrow> string" where
  "log_line time_str level file line fn msg =
     ''['' @ time_str @ ''] ['' @ level_to_name level @ ''] ['' @ file @ '':'' @ int_to_dec line @
     '' '' @ fn @ ''] '' @ snprintf_str 1024 msg @ [CHR 0x0A]"

definition log_write ::
    "string \<Rightarrow> int \<Rightarrow> string \<Rightarrow> int \<Rightarrow> string \<Rightarrow> string \<Rightarrow> log_state \<Rightarrow>
     ((log_fp \<times> string) option \<times> log_state) ub" where
  "log_write time_str level file line fn msg st =
     (if level < g_log_level st then Some (None, st)
      else
        let st1 = (if g_log_fp st = Fp_null then st\<lparr>g_log_fp := Fp_stdout\<rparr> else st) in
        if \<not> g_log_mutex st1 \<or> g_log_fp st1 = Fp_closed then None
        else Some (Some (g_log_fp st1, log_line time_str level file line fn msg), st1))"

definition init_log_with_fallback ::
    "(string \<Rightarrow> bool) \<Rightarrow> (string \<Rightarrow> bool) \<Rightarrow> string option \<Rightarrow> string option \<Rightarrow> log_state \<Rightarrow> log_state" where
  "init_log_with_fallback exists_path can_open level_str log_file st =
     (let real_log_file =
        (case log_file of
           None \<Rightarrow> None
         | Some f \<Rightarrow>
             if prefix ''../'' f
             then (if exists_path ''../log'' then Some f
                   else if exists_path ''./log'' then Some (drop 3 f)
                   else Some f)
             else Some f)
      in case init_log can_open level_str real_log_file st of
           (r, st1) \<Rightarrow> if r = 0 then st1 else snd (init_log can_open level_str None st1))"

text \<open>A log call writes a line exactly when its level reaches the configured one; the line
  goes to the configured stream, or to the standard output before any initialisation, carries
  the first 1023 bytes of the message, and leaves the level unchanged.\<close>

lemma log_write_filter:
  assumes "g_log_mutex st" "g_log_fp st \<noteq> Fp_closed"
  shows "\<exists>out st'. log_write time_str level file line fn msg st = Some (out, st') \<and>
    g_log_level st' = g_log_level st \<and>
    out = (if g_log_level st \<le> level
           then Some (if g_log_fp st = Fp_null then Fp_stdout else g_log_fp st,
                      log_line time_str level file line fn (take 1023 msg))
           else None)"
  using assms by (auto simp: log_write_def log_line_def snprintf_str_def Let_def)

text \<open>After \<open>init_log_with_fallback\<close> the log has a usable stream whatever the file system
  looks like: the file that was opened, or the standard output; and the level is the one
  named, regardless of letter case, or INFO for an unknown name. The mutex stays as it was.\<close>

lemma init_log_with_fallback_usable:
  "(\<exists>f. can_open f \<and> g_log_fp (init_log_with_fallback ex can_open (Some l) log_file st) = Fp_file f \<or>
      g_log_fp (init_log_with_fallback ex can_open (Some l) log_file st) = Fp_stdout) \<and>
   g_log_level (init_log_with_fallback ex can_open (Some l) log_file st) = level_to_int l \<and>
   g_log_mutex (init_log_with_fallback ex can_open (Some l) log_file st) = g_log_mutex st"
  by (auto simp: init_log_with_fallback_def init_log_def Let_def split: option.splits)

lemma level_roundtrip:
  "0 \<le> l \<Longrightarrow> l \<le> 3 \<Longrightarrow> level_to_int (level_to_name l) = l"
proof -
  assume "0 \<le> l" "l \<le> 3"
  then consider "l = 0" | "l = 1" | "l = 2" | "l = 3" by linarith
  then show ?thesis
    by cases (simp_all add: level_to_name_def level_to_int_def log_levels strcasecmp_eq_def to_lower_def)
qed

section \<open>A run of the program\<close>

text \<open>The calls of \<open>LOG_DEBUG\<close>, \<open>LOG_INFO\<close>, \<open>LOG_WARN\<close> and \<open>LOG_ERROR\<close> a program makes, one after the
  other, each with the time it is made at and the place in the source.\<close>

record log_call =
  lc_time :: string
  lc_level :: int
  lc_file :: string
  lc_line :: int
  lc_fn :: string
  lc_msg :: string

definition call_line :: "log_call \<Rightarrow> string" where
  "call_line c = log_line (lc_time c) (lc_level c) (lc_file c) (lc_line c) (lc_fn c) (lc_msg c)"

fun log_run :: "log_call list \<Rightarrow> log_state \<Rightarrow> ((log_fp \<times> string) list \<times> log_state) ub" where
  "log_run [] st = Some ([], st)"
| "log_run (c # cs) st =
     (case log_write (lc_time c) (lc_level c) (lc_file c) (lc_line c) (lc_fn c) (lc_msg c) st of
        None \<Rightarrow> None
      | Some (out, st1) \<Rightarrow>
          (case log_run cs st1 of None \<Rightarrow> None | Some (outs, st2) \<Rightarrow> Some (case out of None \<Rightarrow> outs | Some x \<Rightarrow> x # outs, st2)))"

lemma log_run_open:
  "g_log_fp st = fp \<Longrightarrow> fp \<noteq> Fp_null \<Longrightarrow> fp \<noteq> Fp_closed \<Longrightarrow> g_log_mutex st \<Longrightarrow>
    log_run cs st = Some (map (\<lambda>c. (fp, call_line c)) (filter (\<lambda>c. g_log_level st \<le> lc_level c) cs), st)"
  by (induction cs) (auto simp: log_write_def call_line_def Let_def)

lemma log_run_destroyed:
  "\<not> g_log_mutex st \<Longrightarrow> log_run cs st = (if \<exists>c\<in>set cs. g_log_level st \<le> lc_level c then None else Some ([], st))"
  by (induction cs) (auto simp: log_write_def Let_def)

text \<open>C34: the life of the log. However the earlier initialisation went, \<open>init_log_with_fallback\<close> leaves a
  stream, the file that could be opened or the standard output. As long as the mutex is there, every
  run of log calls writes its lines to that stream, in order, those at or above the configured
  level and no others, and \<open>close_log\<close> succeeds. After it the mutex is gone: a second \<open>close_log\<close> is
  undefined, and so is the first further call that reaches the level, whatever the stream, even
  the standard output; initialising the log again does not help, since it does not bring the mutex back.\<close>

theorem log_life:
  "\<exists>fp. (fp = Fp_stdout \<or> (\<exists>f. can_open f \<and> fp = Fp_file f)) \<and>
    (let st = init_log_with_fallback ex can_open (Some l) log_file st0; lv = level_to_int l;
         written = filter (\<lambda>c. lv \<le> lc_level c) cs
     in log_run cs st = (if g_log_mutex st0 \<or> written = [] then Some (map (\<lambda>c. (fp, call_line c)) written, st) else None) \<and>
        (case close_log st of
           None \<Rightarrow> \<not> g_log_mutex st0
         | Some st1 \<Rightarrow> g_log_mutex st0 \<and> \<not> g_log_mutex st1 \<and> close_log st1 = None \<and>
             (log_run ds st1 = None \<longleftrightarrow> (\<exists>c\<in>set ds. lv \<le> lc_level c))))"
proof -
  let ?st = "init_log_with_fallback ex can_open (Some l) log_file st0"
  have u: "(\<exists>f. can_open f \<and> g_log_fp ?st = Fp_file f) \<or> g_log_fp ?st = Fp_stdout" "g_log_level ?st = level_to_int l"
    "g_log_mutex ?st = g_log_mutex st0"
    using init_log_with_fallback_usable by blast+
  then have n: "g_log_fp ?st \<noteq> Fp_null" "g_log_fp ?st \<noteq> Fp_closed" by auto
  let ?w = "filter (\<lambda>c. level_to_int l \<le> lc_level c) cs"
  have run: "log_run cs ?st = (if g_log_mutex st0 \<or> ?w = [] then Some (map (\<lambda>c. (g_log_fp ?st, call_line c)) ?w, ?st) else None)"
    using log_run_open [OF refl n, of cs] log_run_destroyed [of ?st cs] u(2,3) by (auto simp: filter_empty_conv)
  have close: "case close_log ?st of
      None \<Rightarrow> \<not> g_log_mutex st0
    | Some st1 \<Rightarrow> g_log_mutex st0 \<and> \<not> g_log_mutex st1 \<and> close_log st1 = None \<and>
        (log_run ds st1 = None \<longleftrightarrow> (\<exists>c\<in>set ds. level_to_int l \<le> lc_level c))"
    using u log_run_destroyed [of "?st\<lparr>g_log_fp := Fp_closed, g_log_mutex := False\<rparr>" ds]
      log_run_destroyed [of "?st\<lparr>g_log_mutex := False\<rparr>" ds] by (auto simp: close_log_def)
  show ?thesis by (rule exI [of _ "g_log_fp ?st"]) (use u run close in \<open>simp add: Let_def disj_commute\<close>)
qed

end
