(* ===== verification/Server_Main.thy ===== *)
theory Server_Main
  imports Sockets Logging Thread_Pool
begin

text \<open>
  \<open>main\<close> of \<open>src/server/server.c\<close> as a whole: the start-up of the two processes up to the event loop, the
  signal handler of the parent, and the event loop of the child over the system of \<open>Thread_Pool\<close>. The
  outside is a record of parameters: the files, the outcome of opening and finding them, the database
  library, memory, threads and the two descriptors \<open>pipe\<close> makes.
\<close>

section \<open>Start-up\<close>

record 'e server_env =
  se_files :: "string \<Rightarrow> string option"
  se_exists :: "string \<Rightarrow> bool"
  se_can_open :: "string \<Rightarrow> bool"
  se_inet_addr :: "string \<Rightarrow> 32 word"
  se_library_init :: "'e \<Rightarrow> int \<times> 'e"
  se_database :: "'e pool_env"
  se_mallocs :: bool
  se_creates :: bool
  se_pipe_fd :: "int \<times> int"

record server_state =
  ss_listen_fd :: int
  ss_epfd :: int
  ss_dao :: dao_globals
  ss_pool :: thread_pool
  ss_log :: log_state

datatype server_run = Ends int | Serves server_state

definition server_log :: "'e server_env \<Rightarrow> log_state" where
  "server_log env =
     (let st = server_settings (se_files env);
          log1 = init_log_with_fallback (se_exists env) (se_can_open env) (Some ''INFO'') (Some ''../log/server.log'') log_initial
      in init_log_with_fallback (se_exists env) (se_can_open env) (Some (set_log_level st)) (Some (set_log_file st)) log1)"

definition func :: "'e server_env \<Rightarrow> os \<Rightarrow> os" where
  "func env s = snd (sys (Write (snd (se_pipe_fd env)) ''1'') s)"

text \<open>The child, from \<open>setpgid\<close> to the event loop.\<close>

definition server_child :: "'e server_env \<Rightarrow> os \<Rightarrow> 'e \<Rightarrow> (server_run \<times> os \<times> 'e) ub" where
  "server_child env s e =
     (let st = server_settings (se_files env) in
      case sys Setpgid s of
        (_, s1) \<Rightarrow>
          (case server_init_socket (se_inet_addr env) (set_ip st) (set_port st) s1 of
             (Inl x, s2) \<Rightarrow> Some (Ends x, s2, e)
           | (Inr listen_fd, s2) \<Rightarrow>
               (case server_database (se_library_init env) (se_database env) (se_files env) initial_globals e of
                  None \<Rightarrow> None
                | Some (r, g, e1) \<Rightarrow>
                    if r \<noteq> 0 then Some (Ends 1, s2, e1)
                    else
                      (case init_thread_pool (se_mallocs env) (se_creates env) 5 of
                         None \<Rightarrow> Some (Ends 1, s2, e1)
                       | Some pool \<Rightarrow>
                           (case sys (Epoll_create 1) s2 of
                              (epfd, s3) \<Rightarrow>
                                (case error_check epfd (- 1) of
                                   Inl x \<Rightarrow> Some (Ends x, s3, e1)
                                 | Inr _ \<Rightarrow>
                                     (case add_epoll_fd epfd listen_fd s3 of
                                        (Inl x, s4) \<Rightarrow> Some (Ends x, s4, e1)
                                      | (Inr _, s4) \<Rightarrow>
                                          (case add_epoll_fd epfd (fst (se_pipe_fd env)) s4 of
                                             (Inl x, s5) \<Rightarrow> Some (Ends x, s5, e1)
                                           | (Inr _, s5) \<Rightarrow>
                                               Some (Serves \<lparr>ss_listen_fd = listen_fd, ss_epfd = epfd, ss_dao = g,
                                                 ss_pool = pool, ss_log = server_log env\<rparr>, s5, e1)))))))))"

definition server_main :: "'e server_env \<Rightarrow> os \<Rightarrow> 'e \<Rightarrow> (server_run \<times> os \<times> 'e) ub" where
  "server_main env s e =
     (case sys Ignore_sigpipe s of
        (_, s0) \<Rightarrow>
          (case sys Pipe s0 of
             (r, s1) \<Rightarrow>
               if r \<noteq> 0 then Some (Ends 1, s1, e)
               else
                 (case sys Fork s1 of
                    (pid, s2) \<Rightarrow>
                      if pid < 0
                      then Some (Ends 1, snd (sys (Close (snd (se_pipe_fd env))) (snd (sys (Close (fst (se_pipe_fd env))) s2))), e)
                      else if pid \<noteq> 0 then Some (Ends 0, snd (sys Wait (snd (sys Handle_sigint s2))), e)
                      else server_child env s2 e)))"

section \<open>The event loop\<close>

text \<open>What \<open>epoll_wait\<close> reports and, for the listening socket, what \<open>accept\<close> returns; the descriptor, the
  address of the new node of the queue and the worker woken by the signal are chosen in the state they
  are needed in.\<close>

datatype ready = On_pipe | On_listen

datatype wait_result = Interrupted | Failed | Ready "ready list"

type_synonym acceptor = "tp_sys \<Rightarrow> (int \<times> addr option \<times> nat option) option"

fun serve_events :: "acceptor \<Rightarrow> ready list \<Rightarrow> tp_sys \<Rightarrow> tp_sys ub" where
  "serve_events acc [] s = Some s"
| "serve_events acc (On_pipe # es) s =
     (case exit_handler (tp_pool s) (tp_fds s) of
        None \<Rightarrow> None
      | Some (p, f) \<Rightarrow> Some (s\<lparr>tp_pool := p, tp_fds := f, tp_pcs := wake_up \<circ> tp_pcs s, tp_main := Joining 0\<rparr>))"
| "serve_events acc (On_listen # es) s =
     (case acc s of
        None \<Rightarrow> serve_events acc es s
      | Some (conn_fd, node, woken) \<Rightarrow>
          (case accept_client node conn_fd (tp_pool s) of
             None \<Rightarrow> None
           | Some p \<Rightarrow>
               serve_events acc es
                 (s\<lparr>tp_pool := p, tp_fds := (tp_fds s)(conn_fd := Open),
                    tp_pcs := (case woken of None \<Rightarrow> tp_pcs s | Some i \<Rightarrow> (tp_pcs s)(i := Checking))\<rparr>)))"

fun main_loop :: "acceptor \<Rightarrow> wait_result list \<Rightarrow> tp_sys \<Rightarrow> (int + tp_sys) ub" where
  "main_loop acc [] s = Some (Inr s)"
| "main_loop acc (Interrupted # ws) s = main_loop acc ws s"
| "main_loop acc (Failed # ws) s = Some (Inl 1)"
| "main_loop acc (Ready es # ws) s =
     (case serve_events acc es s of
        None \<Rightarrow> None
      | Some s1 \<Rightarrow> if tp_main s1 \<noteq> Polling then Some (Inr s1) else main_loop acc ws s1)"

text \<open>What the kernel and the allocator promise: a new descriptor, a node not in use, and a signal that wakes
  a waiting worker if there is one.\<close>

definition acceptor_ok :: "acceptor \<Rightarrow> bool" where
  "acceptor_ok acc \<longleftrightarrow>
     (\<forall>s fd node w. acc s = Some (fd, node, w) \<longrightarrow>
        0 \<le> fd \<and> tp_fds s fd = Unused \<and> fresh_node node (tp_queue (tp_pool s)) \<and>
        (case w of None \<Rightarrow> \<forall>i<tp_num (tp_pool s). tp_pcs s i \<noteq> Waiting
         | Some i \<Rightarrow> i < tp_num (tp_pool s) \<and> tp_pcs s i = Waiting))"

section \<open>Lemmas\<close>

lemma accept_step:
  assumes "acceptor_ok acc" "acc s = Some (fd, node, w)" "tp_shape s" "tp_main s = Polling"
  shows "\<exists>p s1. accept_client node fd (tp_pool s) = Some p \<and> tp_step s s1 \<and> tp_main s1 = Polling \<and>
    s1 = s\<lparr>tp_pool := p, tp_fds := (tp_fds s)(fd := Open),
      tp_pcs := (case w of None \<Rightarrow> tp_pcs s | Some i \<Rightarrow> (tp_pcs s)(i := Checking))\<rparr>"
proof -
  have a: "0 \<le> fd" "tp_fds s fd = Unused" "fresh_node node (tp_queue (tp_pool s))"
    "case w of None \<Rightarrow> \<forall>i<tp_num (tp_pool s). tp_pcs s i \<noteq> Waiting | Some i \<Rightarrow> i < tp_num (tp_pool s) \<and> tp_pcs s i = Waiting"
    using assms(1,2) unfolding acceptor_ok_def by blast+
  obtain q where p: "accept_client node fd (tp_pool s) = Some ((tp_pool s)\<lparr>tp_queue := q\<rparr>)"
    using accept_client_ok [of "tp_pool s" node fd] a(3) assms(3) by (auto simp: tp_shape_def)
  show ?thesis
  proof (cases w)
    case None
    then have "signalled (tp_num (tp_pool s)) (tp_pcs s) (tp_pcs s)" using a(4) by (auto simp: signalled_def)
    from None tp_step.accept [OF assms(4) a(1-3) p this] p assms(4) show ?thesis by simp
  next
    case (Some i)
    then have "signalled (tp_num (tp_pool s)) (tp_pcs s) ((tp_pcs s)(i := Checking))" using a(4) by (auto simp: signalled_def)
    from Some tp_step.accept [OF assms(4) a(1-3) p this] p assms(4) show ?thesis by simp
  qed
qed

lemma exit_step_possible:
  assumes "tp_shape s" "tp_main s = Polling"
  shows "\<exists>p f. exit_handler (tp_pool s) (tp_fds s) = Some (p, f) \<and>
    tp_step s (s\<lparr>tp_pool := p, tp_fds := f, tp_pcs := wake_up \<circ> tp_pcs s, tp_main := Joining 0\<rparr>)"
proof -
  have "queue_inv (tp_queue (tp_pool s))" "length (tp_busy (tp_pool s)) = tp_num (tp_pool s)" using assms(1) by (simp_all add: tp_shape_def)
  from exit_handler_ok [OF this, of "tp_fds s"] obtain p f where "exit_handler (tp_pool s) (tp_fds s) = Some (p, f)" by blast
  with tp_step.exit [OF assms(2) this] show ?thesis by blast
qed

lemma serve_events_steps:
  assumes "acceptor_ok acc" "tp_shape s" "tp_main s = Polling"
  shows "\<exists>s'. serve_events acc es s = Some s' \<and> tp_step\<^sup>*\<^sup>* s s' \<and> tp_shape s' \<and>
    tp_main s' = (if On_pipe \<in> set es then Joining 0 else Polling)"
  using assms(2,3)
proof (induction es arbitrary: s)
  case Nil
  then show ?case by simp
next
  case (Cons ev es s)
  show ?case
  proof (cases ev)
    case On_pipe
    obtain p f where p: "exit_handler (tp_pool s) (tp_fds s) = Some (p, f)"
      "tp_step s (s\<lparr>tp_pool := p, tp_fds := f, tp_pcs := wake_up \<circ> tp_pcs s, tp_main := Joining 0\<rparr>)"
      using exit_step_possible [OF Cons.prems] by blast
    with shape_step [OF p(2) Cons.prems(1)] On_pipe show ?thesis by auto
  next
    case On_listen
    show ?thesis
    proof (cases "acc s")
      case None
      with On_listen Cons show ?thesis by simp
    next
      case (Some a)
      obtain fd node w where a: "acc s = Some (fd, node, w)" using Some by (cases a) auto
      obtain p s1 where s1: "accept_client node fd (tp_pool s) = Some p" "tp_step s s1" "tp_main s1 = Polling"
        "s1 = s\<lparr>tp_pool := p, tp_fds := (tp_fds s)(fd := Open),
          tp_pcs := (case w of None \<Rightarrow> tp_pcs s | Some i \<Rightarrow> (tp_pcs s)(i := Checking))\<rparr>"
        using accept_step [OF assms(1) a Cons.prems] by blast
      obtain s' where "serve_events acc es s1 = Some s'" "tp_step\<^sup>*\<^sup>* s1 s'" "tp_shape s'" "tp_main s' = (if On_pipe \<in> set es then Joining 0 else Polling)"
        using Cons.IH [OF shape_step [OF s1(2) Cons.prems(1)] s1(3)] by blast
      with s1(1,2) a On_listen show ?thesis unfolding s1(4) by (auto intro: converse_rtranclp_into_rtranclp)
    qed
  qed
qed

lemma main_loop_run:
  assumes "acceptor_ok acc" "tp_reachable num s" "tp_main s = Polling"
  shows "case main_loop acc ws s of None \<Rightarrow> False | Some (Inl x) \<Rightarrow> x = 1 \<and> Failed \<in> set ws
    | Some (Inr s') \<Rightarrow> tp_step\<^sup>*\<^sup>* s s' \<and> tp_main s' = (if \<exists>es. Ready es \<in> set ws \<and> On_pipe \<in> set es then Joining 0 else Polling)"
  using assms(2,3)
proof (induction ws arbitrary: s)
  case (Cons w ws s)
  show ?case
  proof (cases w)
    case Interrupted
    with Cons.IH [OF Cons.prems] show ?thesis by (auto split: option.splits sum.splits)
  next
    case (Ready es)
    have "tp_shape s" using tp_reachable_ok [OF Cons.prems(1)] by simp
    from serve_events_steps [OF assms(1) this Cons.prems(2), of es] obtain s1 where
      s1: "serve_events acc es s = Some s1" "tp_step\<^sup>*\<^sup>* s s1" "tp_main s1 = (if On_pipe \<in> set es then Joining 0 else Polling)" by blast
    have "tp_reachable num s1" using s1(2) Cons.prems(1) by (induction rule: rtranclp_induct) (auto intro: tp_reachable.step)
    with Cons.IH [of s1] s1 Ready show ?thesis
      by (auto split: option.splits sum.splits if_splits intro: rtranclp_trans)
  qed simp
qed simp

lemma server_database_pool:
  assumes "mysql_client env live" "server_database library_init env fs initial_globals e = Some (0, g, e')"
  shows "\<exists>p. g_pool g = Some p \<and> pool_inv (live e') p \<and> held p = {} \<and> max_size p = 3"
proof -
  let ?g = "server_connection_params fs initial_globals"
  have n: "g_pool ?g = None" by (simp add: server_connection_params_def dao_set_connection_params_def initial_globals_def)
  obtain e1 q where q: "db_pool_init env (Some (dao_pool_config ?g 7 3)) None e1 = Some (0, q, e')" "g_pool g = q"
    using assms(2) n unfolding server_database_def dao_init_with_pool_def
    by (auto simp: server_pool_sizes_def split: prod.splits option.splits if_splits)
  have m: "max_connections (dao_pool_config ?g 7 3) = 3" by (simp add: dao_pool_config_def)
  from mysql_client.db_pool_init_inv [OF assms(1) _ q(1)] m q(2) show ?thesis by (auto split: option.splits)
qed

lemma held_at_most: "pool_inv L p \<Longrightarrow> int (card (held p)) \<le> max_size p"
proof -
  assume i: "pool_inv L p"
  have "length (present xs) \<le> length xs" for xs
  proof (induction xs)
    case (Cons x xs)
    then show ?case by (cases x) auto
  qed simp
  then have "length (filter in_use (present (connections p))) \<le> length (connections p)"
    using length_filter_le le_trans by blast
  then show ?thesis using demo.held_card [OF i] i by (simp add: pool_inv_def)
qed

section \<open>Properties\<close>

text \<open>C21: the event loop of the server is a run of the system of the thread pool: from every reachable state,
  whatever \<open>epoll_wait\<close> reports, the loop never has undefined behaviour, every event it serves is a step
  of the system, an interruption changes nothing, and the loop is left exactly when the pipe has been
  ready, after the exit handler has run, whatever other events were reported with it; only a failure of
  \<open>epoll_wait\<close> ends the process early, with status 1.\<close>

theorem main_loop_refines:
  assumes "acceptor_ok acc" "tp_reachable num s" "tp_main s = Polling"
  shows "\<exists>r. main_loop acc ws s = Some r \<and> (\<forall>x. r = Inl x \<longrightarrow> x = 1 \<and> Failed \<in> set ws) \<and>
    (\<forall>s'. r = Inr s' \<longrightarrow> tp_step\<^sup>*\<^sup>* s s' \<and>
      tp_main s' = (if \<exists>es. Ready es \<in> set ws \<and> On_pipe \<in> set es then Joining 0 else Polling))"
  using main_loop_run [OF assms, of ws] by (auto split: option.splits sum.splits)

text \<open>An acceptor: the descriptor 4 when it is free, the next free node, the first worker that waits.\<close>

definition demo_acceptor :: acceptor where
  "demo_acceptor s =
     (if tp_fds s 4 = Unused \<and> queue_inv (tp_queue (tp_pool s))
      then Some (4, next_free (tp_queue (tp_pool s)), List.find (\<lambda>i. tp_pcs s i = Waiting) [0..<tp_num (tp_pool s)]) else None)"

lemma demo_acceptor_ok: "acceptor_ok demo_acceptor"
proof -
  have "0 \<le> fd \<and> tp_fds s fd = Unused \<and> fresh_node node (tp_queue (tp_pool s)) \<and>
        (case w of None \<Rightarrow> \<forall>i<tp_num (tp_pool s). tp_pcs s i \<noteq> Waiting | Some i \<Rightarrow> i < tp_num (tp_pool s) \<and> tp_pcs s i = Waiting)"
    if "demo_acceptor s = Some (fd, node, w)" for s fd node w
    using that fresh_next_free [of "tp_queue (tp_pool s)"]
    by (auto simp: demo_acceptor_def find_None_iff find_Some_iff split: if_splits option.splits)
  then show ?thesis unfolding acceptor_ok_def by blast
qed

theorem main_loop_refines_witness:
  "\<exists>r. main_loop demo_acceptor [Interrupted, Ready [On_listen, On_pipe, On_listen]] (tp_start 2) = Some (Inr r) \<and> tp_main r = Joining 0"
proof -
  have p: "tp_main (tp_start 2) = Polling" by (simp add: tp_start_def)
  let ?ws = "[Interrupted, Ready [On_listen, On_pipe, On_listen]]"
  obtain r where r: "main_loop demo_acceptor ?ws (tp_start 2) = Some r" "\<forall>x. r = Inl x \<longrightarrow> x = 1 \<and> Failed \<in> set ?ws"
    "\<forall>s'. r = Inr s' \<longrightarrow> tp_main s' = (if \<exists>es. Ready es \<in> set ?ws \<and> On_pipe \<in> set es then Joining 0 else Polling)"
    using main_loop_refines [OF demo_acceptor_ok tp_reachable.start p, of ?ws] by blast
  then obtain s' where "r = Inr s'" by (cases r) auto
  with r show ?thesis by auto
qed

text \<open>C22: what a server that has reached its event loop looks like: it is the child, it has made exactly the
  system calls below, in this order, its log can be written to, its pool of connections is in order and
  its five workers are waiting to be started; but the pool holds at most three connections, so that in
  every later state of it fewer threads have a connection than there are workers.\<close>

theorem server_start:
  assumes "mysql_client (se_database env) live" "server_main env s e = Some (Serves st, s', e')"
  shows "os_calls s' = os_calls s @ [Ignore_sigpipe, Pipe, Fork, Setpgid, Socket, Setsockopt_reuseaddr (ss_listen_fd st),
      Bind (ss_listen_fd st) (se_inet_addr env (set_ip (server_settings (se_files env)))) (htons_port (set_port (server_settings (se_files env)))),
      Listen (ss_listen_fd st) 10, Epoll_create 1, Epoll_ctl_add (ss_epfd st) (ss_listen_fd st), Epoll_ctl_add (ss_epfd st) (fst (se_pipe_fd env))] \<and>
    g_log_fp (ss_log st) \<noteq> Fp_null \<and> g_log_fp (ss_log st) \<noteq> Fp_closed \<and> ss_pool st = tp_pool (tp_start 5) \<and>
    (\<exists>p. g_pool (ss_dao st) = Some p \<and> pool_inv (live e') p \<and> held p = {} \<and>
      (\<forall>L q. pool_inv L q \<and> max_size q = max_size p \<longrightarrow> card (held q) < tp_num (ss_pool st)))"
proof -
  let ?st = "server_settings (se_files env)"
  obtain s2 where c: "server_child env s2 e = Some (Serves st, s', e')" "os_calls s2 = os_calls s @ [Ignore_sigpipe, Pipe, Fork]"
    using assms(2) by (auto simp: server_main_def sys_eq split: if_splits)
  obtain s3 where s3: "sys Setpgid s2 = (answer (os_answers s2) 0, s3)" "os_calls s3 = os_calls s2 @ [Setpgid]" by (simp add: sys_eq)
  obtain r s4 where i: "server_init_socket (se_inet_addr env) (set_ip ?st) (set_port ?st) s3 = (r, s4)" by force
  then obtain fd where fd: "r = Inr fd" using c(1) s3(1) by (cases r) (simp_all add: server_child_def Let_def)
  obtain k g e1 where d: "server_database (se_library_init env) (se_database env) (se_files env) initial_globals e = Some (k, g, e1)"
    using c(1) s3(1) i fd by (auto simp: server_child_def Let_def split: option.splits)
  then have k: "k = 0" using c(1) s3(1) i fd by (simp add: server_child_def Let_def split: if_splits)
  obtain pool where pool: "init_thread_pool (se_mallocs env) (se_creates env) 5 = Some pool"
    using c(1) s3(1) i fd d k by (auto simp: server_child_def Let_def split: option.splits)
  note child = c(1) [unfolded server_child_def Let_def s3(1) prod.case i fd sum.case d option.case k pool]
  have rest: "fd = ss_listen_fd st" "ss_dao st = g" "e1 = e'" "ss_pool st = pool" "ss_log st = server_log env"
    "os_calls s' = os_calls s4 @ [Epoll_create 1, Epoll_ctl_add (ss_epfd st) fd, Epoll_ctl_add (ss_epfd st) (fst (se_pipe_fd env))]"
    using child by (auto simp: sys_eq add_epoll_fd_def error_check_def split: if_splits)
  have "os_calls s4 = os_calls s3 @ [Socket, Setsockopt_reuseaddr fd,
      Bind fd (se_inet_addr env (set_ip ?st)) (htons_port (set_port ?st)), Listen fd 10]"
    using server_init_socket_eq [of "se_inet_addr env" "set_ip ?st" "set_port ?st" s3] unfolding i fd by (auto split: if_splits)
  moreover have "g_log_fp (ss_log st) \<noteq> Fp_null \<and> g_log_fp (ss_log st) \<noteq> Fp_closed"
  proof -
    have "(\<exists>f. g_log_fp (ss_log st) = Fp_file f) \<or> g_log_fp (ss_log st) = Fp_stdout"
      unfolding rest(5) server_log_def Let_def using init_log_with_fallback_usable by blast
    then show ?thesis by auto
  qed
  moreover have ss: "ss_pool st = tp_pool (tp_start 5)" using rest(4) pool by (auto simp: tp_start_def init_thread_pool_def split: if_splits)
  moreover obtain p where p: "g_pool g = Some p" "pool_inv (live e') p" "held p = {}" "max_size p = 3"
    using server_database_pool [OF assms(1) d [unfolded k]] rest(3) by blast
  moreover have "card (held q) < tp_num (ss_pool st)" if "pool_inv L q" "max_size q = 3" for L q
    using held_at_most [OF that(1)] that(2) unfolding ss by (simp add: tp_start_def init_thread_pool_def)
  ultimately show ?thesis using rest(1,2,6) c(2) s3(2) by auto
qed

text \<open>A server whose database refuses the first connection.\<close>

definition demo_server :: "demo_client server_env" where
  "demo_server = \<lparr>se_files = (\<lambda>f. None), se_exists = (\<lambda>f. False), se_can_open = (\<lambda>f. False), se_inet_addr = (\<lambda>t. 0),
     se_library_init = (\<lambda>e. (0, e)), se_database = demo_env, se_mallocs = True, se_creates = True, se_pipe_fd = (3, 4)\<rparr>"

theorem server_start_witness:
  "\<exists>st s' e'. server_main demo_server \<lparr>os_answers = [], os_calls = []\<rparr> (demo_start\<lparr>demo_connects := [False]\<rparr>) = Some (Serves st, s', e') \<and>
    length (os_calls s') = 11 \<and> tp_num (ss_pool st) = 5"
proof -
  let ?e = "demo_start\<lparr>demo_connects := [False]\<rparr>"
  let ?s = "\<lparr>os_answers = [], os_calls = []\<rparr>"
  have m: "mysql_client (se_database demo_server) (\<lambda>e. set (demo_live e))" using demo.mysql_client_axioms by (simp add: demo_server_def)
  have "\<exists>g e'. server_database (\<lambda>e. (0, e)) demo_env (\<lambda>f. None) initial_globals ?e = Some (0, g, e')"
    by (simp add: server_database_def dao_init_with_pool_def dao_init_def server_pool_sizes_def server_connection_params_def
        dao_set_connection_params_def initial_globals_def db_pool_init_def demo_env_def demo_start_def create_db_connection_def
        dao_pool_config_def numeral_eq_Suc Let_def)
  then obtain g e' where "server_database (\<lambda>e. (0, e)) demo_env (\<lambda>f. None) initial_globals ?e = Some (0, g, e')" by blast
  then obtain st s' where "server_main demo_server ?s ?e = Some (Serves st, s', e')"
    by (simp add: server_main_def server_child_def server_init_socket_def sys_def error_check_def add_epoll_fd_def demo_server_def
        init_thread_pool_def Let_def)
  with server_start [OF m this] show ?thesis by (intro exI conjI) (assumption, auto simp: tp_start_def init_thread_pool_def)
qed

end
