(* ===== verification/Protocol.thy ===== *)
theory Protocol
  imports C_Prelude
begin

text \<open>
  The wire protocol shared by client and server (\<open>include/protocol.h\<close>,
  \<open>src/common/protocol.c\<close>): command codes, the packet structures with their memory layout
  on x86-64 Linux (little endian, padding included, as the code sends the structures raw),
  and the loops that send and receive a whole structure over a stream socket.

  A socket is modelled by what the kernel will do with it: \<open>rx_segs\<close> is the input still to
  arrive, cut into the segments that successive \<open>recv\<close> calls see, \<open>rx_fail\<close> tells whether
  \<open>recv\<close> then reports an error or an orderly end of stream, \<open>tx_caps\<close> lists what the coming
  \<open>send\<close> calls accept at most (0 or less is a failure; an exhausted list accepts
  everything), and \<open>tx_out\<close> collects the bytes sent.
\<close>

section \<open>Command codes\<close>

datatype cmd_type =
    CMD_TYPE_INVALID | CMD_TYPE_PWD | CMD_TYPE_CD | CMD_TYPE_LS | CMD_TYPE_GETS
  | CMD_TYPE_PUTS | CMD_TYPE_RM | CMD_TYPE_MKDIR | CMD_TYPE_REPLY | CMD_TYPE_LOGIN
  | CMD_TYPE_REGISTER | CMD_TYPE_LOGOUT

fun cmd_code :: "cmd_type \<Rightarrow> 32 word" where
  "cmd_code CMD_TYPE_INVALID = 0"
| "cmd_code CMD_TYPE_PWD = 1"
| "cmd_code CMD_TYPE_CD = 2"
| "cmd_code CMD_TYPE_LS = 3"
| "cmd_code CMD_TYPE_GETS = 4"
| "cmd_code CMD_TYPE_PUTS = 5"
| "cmd_code CMD_TYPE_RM = 6"
| "cmd_code CMD_TYPE_MKDIR = 7"
| "cmd_code CMD_TYPE_REPLY = 8"
| "cmd_code CMD_TYPE_LOGIN = 9"
| "cmd_code CMD_TYPE_REGISTER = 10"
| "cmd_code CMD_TYPE_LOGOUT = 11"

definition get_cmd_type :: "string option \<Rightarrow> cmd_type" where
  "get_cmd_type cmd_str =
     (case cmd_str of
        None \<Rightarrow> CMD_TYPE_INVALID
      | Some s \<Rightarrow>
          if s = ''pwd'' then CMD_TYPE_PWD
          else if s = ''cd'' then CMD_TYPE_CD
          else if s = ''ls'' then CMD_TYPE_LS
          else if s = ''gets'' then CMD_TYPE_GETS
          else if s = ''puts'' then CMD_TYPE_PUTS
          else if s = ''rm'' then CMD_TYPE_RM
          else if s = ''mkdir'' then CMD_TYPE_MKDIR
          else if s = ''login'' then CMD_TYPE_LOGIN
          else if s = ''register'' then CMD_TYPE_REGISTER
          else if s = ''logout'' then CMD_TYPE_LOGOUT
          else CMD_TYPE_INVALID)"

lemma cmd_code_inj: "cmd_code a = cmd_code b \<longleftrightarrow> a = b"
  by (cases a; cases b) simp_all

section \<open>Sockets\<close>

record sock =
  rx_segs :: "string list"
  rx_fail :: bool
  tx_caps :: "int list"
  tx_out :: string

definition stream :: "sock \<Rightarrow> string" where
  "stream k = concat (rx_segs k)"

definition os_recv :: "sock \<Rightarrow> nat \<Rightarrow> int \<times> string \<times> sock" where
  "os_recv k n =
     (case dropWhile (\<lambda>s. s = []) (rx_segs k) of
        [] \<Rightarrow> (if rx_fail k then - 1 else 0, [], k\<lparr>rx_segs := []\<rparr>)
      | s # ss \<Rightarrow> (int (length (take n s)), take n s, k\<lparr>rx_segs := drop n s # ss\<rparr>))"

definition os_send :: "sock \<Rightarrow> string \<Rightarrow> int \<times> sock" where
  "os_send k s =
     (case tx_caps k of
        [] \<Rightarrow> (int (length s), k\<lparr>tx_out := tx_out k @ s\<rparr>)
      | c # cs \<Rightarrow>
          if c \<le> 0 then (c, k\<lparr>tx_caps := cs\<rparr>)
          else (let n = min (nat c) (length s)
                in (int n, k\<lparr>tx_caps := cs, tx_out := tx_out k @ take n s\<rparr>)))"

lemma concat_dropWhile_Nil: "concat (dropWhile (\<lambda>s. s = []) ss) = concat ss"
  by (induction ss) auto

lemma os_recv_ret: "os_recv k n = (r, d, k') \<Longrightarrow> 0 < r \<Longrightarrow> r = int (length d) \<and> d \<noteq> []"
  by (auto simp: os_recv_def split: list.splits if_splits)

lemma os_recv_data:
  assumes "os_recv k n = (r, d, k')" "0 < n" "stream k \<noteq> []"
  shows "0 < r" "r = int (length d)" "d = take (length d) (stream k)" "0 < length d"
    "length d \<le> n" "stream k = d @ stream k'" "k' = k\<lparr>rx_segs := rx_segs k'\<rparr>"
proof -
  obtain s ss where ss: "dropWhile (\<lambda>s. s = []) (rx_segs k) = s # ss"
    using assms(3) concat_dropWhile_Nil [of "rx_segs k"]
    by (cases "dropWhile (\<lambda>s. s = []) (rx_segs k)") (auto simp: stream_def)
  then have "s \<noteq> []" by (auto dest: hd_dropWhile [of _ "rx_segs k"] simp: dropWhile_eq_Cons_conv)
  have st: "stream k = s @ concat ss"
    using ss concat_dropWhile_Nil [of "rx_segs k"] by (simp add: stream_def)
  from assms(1) ss have r: "r = int (length (take n s))" "d = take n s"
      "k' = k\<lparr>rx_segs := drop n s # ss\<rparr>"
    by (auto simp: os_recv_def)
  then show "stream k = d @ stream k'" using st by (simp add: stream_def)
  then show "d = take (length d) (stream k)" by simp
  show "0 < r" "0 < length d" using r assms(2) \<open>s \<noteq> []\<close> by auto
  show "r = int (length d)" "length d \<le> n" "k' = k\<lparr>rx_segs := rx_segs k'\<rparr>"
    using r by auto
qed

lemma os_recv_end:
  assumes "stream k = []"
  shows "os_recv k n = (if rx_fail k then - 1 else 0, [], k\<lparr>rx_segs := []\<rparr>)"
proof -
  have "dropWhile (\<lambda>s. s = []) (rx_segs k) = []"
    using assms by (auto simp: stream_def)
  then show ?thesis unfolding os_recv_def by (simp only: list.case)
qed

lemma os_send_ret: "os_send k s = (r, k') \<Longrightarrow> 0 < r \<Longrightarrow> s \<noteq> [] \<Longrightarrow>
    nat r \<le> length s \<and> tx_out k' = tx_out k @ take (nat r) s \<and>
    rx_segs k' = rx_segs k \<and> rx_fail k' = rx_fail k"
  by (auto simp: os_send_def Let_def split: list.splits if_splits)

lemma os_send_fail: "os_send k s = (r, k') \<Longrightarrow> r \<le> 0 \<Longrightarrow> s \<noteq> [] \<Longrightarrow>
    tx_out k' = tx_out k \<and> rx_segs k' = rx_segs k \<and> rx_fail k' = rx_fail k"
  by (auto simp: os_send_def Let_def split: list.splits if_splits)

section \<open>Sending and receiving whole structures\<close>

function send_loop :: "string \<Rightarrow> nat \<Rightarrow> sock \<Rightarrow> int \<times> sock" where
  "send_loop buf sent k =
     (if sent < length buf
      then (case os_send k (drop sent buf) of
              (ret, k') \<Rightarrow> if ret \<le> 0 then (- 1, k') else send_loop buf (sent + nat ret) k')
      else (0, k))"
  by pat_completeness auto
termination
  by (relation "measure (\<lambda>(buf, sent, k). length buf - sent)") auto

definition send_full :: "sock \<Rightarrow> string \<Rightarrow> int \<times> sock" where
  "send_full k buf = send_loop buf 0 k"

function recv_loop :: "nat \<Rightarrow> string \<Rightarrow> sock \<Rightarrow> int \<times> string \<times> sock" where
  "recv_loop len buf k =
     (if length buf < len
      then (case os_recv k (len - length buf) of
              (ret, d, k') \<Rightarrow> if ret \<le> 0 then (ret, buf, k') else recv_loop len (buf @ d) k')
      else (int (length buf), buf, k))"
  by pat_completeness auto
termination
  by (relation "measure (\<lambda>(len, buf, k). len - length buf)") (auto dest!: os_recv_ret [OF sym] intro!: diff_less_mono2)

definition recv_full :: "sock \<Rightarrow> nat \<Rightarrow> int \<times> string \<times> sock" where
  "recv_full k len = recv_loop len [] k"

declare send_loop.simps [simp del] recv_loop.simps [simp del]

lemma send_loop_spec:
  assumes "send_loop buf sent k = (r, k')" "sent \<le> length buf"
  shows "(r = 0 \<and> tx_out k' = tx_out k @ drop sent buf \<or>
          r = - 1 \<and> (\<exists>n < length buf - sent. tx_out k' = tx_out k @ take n (drop sent buf))) \<and>
         rx_segs k' = rx_segs k \<and> rx_fail k' = rx_fail k"
  using assms
proof (induction buf sent k arbitrary: r k' rule: send_loop.induct)
  case (1 buf sent k)
  show ?case
  proof (cases "sent < length buf")
    case False
    with 1 show ?thesis by (simp add: send_loop.simps [of buf sent k])
  next
    case True
    obtain s k1 where s: "os_send k (drop sent buf) = (s, k1)" by force
    show ?thesis
    proof (cases "s \<le> 0")
      case True
      with s \<open>sent < length buf\<close> 1 os_send_fail [OF s True] show ?thesis
        by (auto simp: send_loop.simps [of buf sent k] intro!: exI [of _ 0])
    next
      case False
      with s \<open>sent < length buf\<close> os_send_ret [OF s]
      have s1: "nat s \<le> length buf - sent" "tx_out k1 = tx_out k @ take (nat s) (drop sent buf)"
        "rx_segs k1 = rx_segs k" "rx_fail k1 = rx_fail k" by auto
      have rec: "send_loop buf (sent + nat s) k1 = (r, k')"
        using 1(2) s False \<open>sent < length buf\<close> by (simp add: send_loop.simps [of buf sent k])
      have split: "drop sent buf = take (nat s) (drop sent buf) @ drop (sent + nat s) buf"
        by (metis append_take_drop_id drop_drop add.commute)
      from "1.IH" [OF True s [symmetric] False rec] s1(1) \<open>sent < length buf\<close>
      have IH: "(r = 0 \<and> tx_out k' = tx_out k1 @ drop (sent + nat s) buf \<or>
          r = - 1 \<and> (\<exists>n < length buf - (sent + nat s).
             tx_out k' = tx_out k1 @ take n (drop (sent + nat s) buf))) \<and>
          rx_segs k' = rx_segs k1 \<and> rx_fail k' = rx_fail k1"
        by simp
      then show ?thesis
      proof (elim conjE disjE exE)
        assume "r = 0" "tx_out k' = tx_out k1 @ drop (sent + nat s) buf"
        then show ?thesis using IH s1 split by (metis append.assoc)
      next
        fix n assume r: "r = - 1" "n < length buf - (sent + nat s)"
          "tx_out k' = tx_out k1 @ take n (drop (sent + nat s) buf)"
        have "take (nat s + n) (drop sent buf) =
            take (nat s) (drop sent buf) @ take n (drop (sent + nat s) buf)"
          by (simp only: take_add drop_drop add.commute [of "nat s" sent])
        with r s1 IH show ?thesis by (auto intro!: exI [of _ "nat s + n"])
      qed
    qed
  qed
qed

lemma recv_loop_enough:
  assumes "length buf \<le> len" "len - length buf \<le> length (stream k)"
  shows "\<exists>segs. recv_loop len buf k =
           (int len, buf @ take (len - length buf) (stream k), k\<lparr>rx_segs := segs\<rparr>) \<and>
           concat segs = drop (len - length buf) (stream k)"
  using assms
proof (induction len buf k rule: recv_loop.induct)
  case (1 len buf k)
  show ?case
  proof (cases "length buf < len")
    case False
    with "1.prems" show ?thesis
      by (intro exI [of _ "rx_segs k"]) (simp add: recv_loop.simps [of len buf k] stream_def)
  next
    case True
    obtain r d k1 where rd: "os_recv k (len - length buf) = (r, d, k1)" using prod_cases3 by blast
    have ne: "stream k \<noteq> []" using True "1.prems" by auto
    note rx = os_recv_data [OF rd _ ne]
    have pos: "\<not> r \<le> 0" and st: "stream k = d @ stream k1" and k1: "k1 = k\<lparr>rx_segs := rx_segs k1\<rparr>"
      and len: "length d \<le> len - length buf" using rx True by auto
    have "\<exists>segs. recv_loop len (buf @ d) k1 =
           (int len, (buf @ d) @ take (len - length (buf @ d)) (stream k1), k1\<lparr>rx_segs := segs\<rparr>) \<and>
           concat segs = drop (len - length (buf @ d)) (stream k1)"
      by (rule "1.IH" [OF True rd [symmetric] refl pos]) (use len True "1.prems" st in auto)
    then obtain segs where segs: "recv_loop len (buf @ d) k1 =
           (int len, (buf @ d) @ take (len - length (buf @ d)) (stream k1), k1\<lparr>rx_segs := segs\<rparr>)"
        "concat segs = drop (len - length (buf @ d)) (stream k1)" by blast
    have "recv_loop len buf k = recv_loop len (buf @ d) k1"
      using True rd pos by (simp add: recv_loop.simps [of len buf k])
    moreover have "k1\<lparr>rx_segs := segs\<rparr> = k\<lparr>rx_segs := segs\<rparr>" by (subst k1) simp
    ultimately show ?thesis using segs st len by (intro exI [of _ segs]) auto
  qed
qed

lemma recv_loop_short:
  assumes "length buf \<le> len" "length (stream k) < len - length buf"
  shows "recv_loop len buf k =
           (if rx_fail k then - 1 else 0, buf @ stream k, k\<lparr>rx_segs := []\<rparr>)"
  using assms
proof (induction len buf k rule: recv_loop.induct)
  case (1 len buf k)
  then have lt: "length buf < len" by auto
  obtain r d k1 where rd: "os_recv k (len - length buf) = (r, d, k1)" using prod_cases3 by blast
  show ?case
  proof (cases "stream k = []")
    case True
    with lt show ?thesis
      by (simp add: recv_loop.simps [of len buf k] os_recv_end)
  next
    case False
    note rx = os_recv_data [OF rd _ False]
    have pos: "\<not> r \<le> 0" and st: "stream k = d @ stream k1" and k1: "k1 = k\<lparr>rx_segs := rx_segs k1\<rparr>"
      and "length d \<le> len - length buf" using rx lt by auto
    have "recv_loop len (buf @ d) k1 =
           (if rx_fail k1 then - 1 else 0, (buf @ d) @ stream k1, k1\<lparr>rx_segs := []\<rparr>)"
      by (rule "1.IH" [OF lt rd [symmetric] refl pos]) (use "1.prems" st in auto)
    moreover have "recv_loop len buf k = recv_loop len (buf @ d) k1"
      using lt rd pos by (simp add: recv_loop.simps [of len buf k])
    moreover have "k1\<lparr>rx_segs := []\<rparr> = k\<lparr>rx_segs := []\<rparr>" "rx_fail k1 = rx_fail k"
      by (subst k1, simp)+
    ultimately show ?thesis using st by simp
  qed
qed

section \<open>Packets and their memory layout\<close>

fun le_bytes :: "nat \<Rightarrow> nat \<Rightarrow> string" where
  "le_bytes 0 x = []"
| "le_bytes (Suc n) x = char_of (x mod 256) # le_bytes n (x div 256)"

fun le_value :: "string \<Rightarrow> nat" where
  "le_value [] = 0"
| "le_value (c # cs) = of_char c + 256 * le_value cs"

lemma length_le_bytes [simp]: "length (le_bytes n x) = n"
  by (induction n arbitrary: x) auto

lemma le_value_le_bytes: "le_value (le_bytes n x) = x mod 256 ^ n"
proof (induction n arbitrary: x)
  case 0
  then show ?case by simp
next
  case (Suc n)
  have "le_value (le_bytes (Suc n) x) = x mod 256 + 256 * (x div 256 mod 256 ^ n)"
    using Suc by (simp add: of_char_of)
  also have "\<dots> = x mod (256 * 256 ^ n)" by (simp add: mod_mult2_eq add.commute)
  finally show ?case by simp
qed

definition CMD_DATA_LEN :: nat where [simp]: "CMD_DATA_LEN = 256"
definition FILE_NAME_LEN :: nat where [simp]: "FILE_NAME_LEN = 256"
definition HASH_LEN :: nat where [simp]: "HASH_LEN = 65"
definition BLOCK_SIZE :: nat where "BLOCK_SIZE = 10485760"
definition MAX_BLOCK_DATA :: nat where "MAX_BLOCK_DATA = 10485760"

record command_packet =
  cp_cmd_type :: "32 word"
  cp_data_len :: "32 word"
  cp_data :: "char list"

record file_packet =
  fp_cmd_type :: "32 word"
  fp_data_len :: "32 word"
  fp_file_size :: "64 word"
  fp_offset :: "64 word"
  fp_file_name :: "char list"
  fp_hash :: "char list"

record block_packet =
  bp_cmd_type :: "32 word"
  bp_block_index :: "32 word"
  bp_block_size :: "32 word"
  bp_block_offset :: "64 word"
  bp_hash :: "char list"
  bp_block_data :: "char list"

definition sizeof_command_packet :: nat where "sizeof_command_packet = 264"
definition sizeof_file_packet :: nat where "sizeof_file_packet = 352"
definition sizeof_block_packet :: nat where "sizeof_block_packet = 10485856"

definition bytes_of_command :: "command_packet \<Rightarrow> string" where
  "bytes_of_command p =
     le_bytes 4 (unat (cp_cmd_type p)) @ le_bytes 4 (unat (cp_data_len p)) @ cp_data p"

definition command_of_bytes :: "string \<Rightarrow> command_packet" where
  "command_of_bytes b =
     \<lparr>cp_cmd_type = word_of_nat (le_value (take 4 b)),
      cp_data_len = word_of_nat (le_value (take 4 (drop 4 b))),
      cp_data = drop 8 b\<rparr>"

definition bytes_of_file :: "file_packet \<Rightarrow> string" where
  "bytes_of_file p =
     le_bytes 4 (unat (fp_cmd_type p)) @ le_bytes 4 (unat (fp_data_len p)) @
     le_bytes 8 (unat (fp_file_size p)) @ le_bytes 8 (unat (fp_offset p)) @
     fp_file_name p @ fp_hash p @ replicate 7 NUL"

definition file_of_bytes :: "string \<Rightarrow> file_packet" where
  "file_of_bytes b =
     \<lparr>fp_cmd_type = word_of_nat (le_value (take 4 b)),
      fp_data_len = word_of_nat (le_value (take 4 (drop 4 b))),
      fp_file_size = word_of_nat (le_value (take 8 (drop 8 b))),
      fp_offset = word_of_nat (le_value (take 8 (drop 16 b))),
      fp_file_name = take FILE_NAME_LEN (drop 24 b),
      fp_hash = take HASH_LEN (drop (24 + FILE_NAME_LEN) b)\<rparr>"

definition bytes_of_block :: "block_packet \<Rightarrow> string" where
  "bytes_of_block p =
     le_bytes 4 (unat (bp_cmd_type p)) @ le_bytes 4 (unat (bp_block_index p)) @
     le_bytes 4 (unat (bp_block_size p)) @ replicate 4 NUL @
     le_bytes 8 (unat (bp_block_offset p)) @ bp_hash p @ bp_block_data p @ replicate 7 NUL"

definition wf_command :: "command_packet \<Rightarrow> bool" where
  "wf_command p \<longleftrightarrow> length (cp_data p) = CMD_DATA_LEN"

definition wf_file :: "file_packet \<Rightarrow> bool" where
  "wf_file p \<longleftrightarrow> length (fp_file_name p) = FILE_NAME_LEN \<and> length (fp_hash p) = HASH_LEN"

definition wf_block :: "block_packet \<Rightarrow> bool" where
  "wf_block p \<longleftrightarrow> length (bp_hash p) = HASH_LEN \<and> length (bp_block_data p) = MAX_BLOCK_DATA"

lemma length_bytes_of_command:
  "wf_command p \<Longrightarrow> length (bytes_of_command p) = sizeof_command_packet"
  by (simp add: bytes_of_command_def wf_command_def sizeof_command_packet_def)

lemma length_bytes_of_file: "wf_file p \<Longrightarrow> length (bytes_of_file p) = sizeof_file_packet"
  by (simp add: bytes_of_file_def wf_file_def sizeof_file_packet_def)

lemma length_bytes_of_block: "wf_block p \<Longrightarrow> length (bytes_of_block p) = sizeof_block_packet"
  by (simp add: bytes_of_block_def wf_block_def sizeof_block_packet_def MAX_BLOCK_DATA_def)

lemma word32_le [simp]: "word_of_nat (le_value (le_bytes 4 (unat (w :: 32 word)))) = w"
proof -
  have "unat w < 256 ^ 4" by (rule order.strict_trans2 [OF unsigned_less]) simp
  then show ?thesis by (simp add: le_value_le_bytes)
qed

lemma word64_le [simp]: "word_of_nat (le_value (le_bytes 8 (unat (w :: 64 word)))) = w"
proof -
  have "unat w < 256 ^ 8" by (rule order.strict_trans2 [OF unsigned_less]) simp
  then show ?thesis by (simp add: le_value_le_bytes)
qed

lemma command_of_bytes_of: "command_of_bytes (bytes_of_command p) = p"
  by (simp add: command_of_bytes_def bytes_of_command_def)

lemma file_of_bytes_of: "wf_file p \<Longrightarrow> file_of_bytes (bytes_of_file p) = p"
  by (simp add: file_of_bytes_def bytes_of_file_def wf_file_def)

section \<open>Building, sending and receiving packets\<close>

definition init_command_packet :: "32 word \<Rightarrow> string option \<Rightarrow> command_packet" where
  "init_command_packet type data =
     (case data of
        None \<Rightarrow> \<lparr>cp_cmd_type = type, cp_data_len = 0, cp_data = replicate CMD_DATA_LEN NUL\<rparr>
      | Some s \<Rightarrow>
          (let buf = strncpy_zeroed CMD_DATA_LEN (CMD_DATA_LEN - 1) s
           in \<lparr>cp_cmd_type = type, cp_data_len = word_of_nat (length (cstr buf)), cp_data = buf\<rparr>))"

definition init_file_packet ::
    "32 word \<Rightarrow> string option \<Rightarrow> 64 word \<Rightarrow> 64 word \<Rightarrow> file_packet" where
  "init_file_packet type file_name file_size offset =
     (let buf = (case file_name of
                   None \<Rightarrow> replicate FILE_NAME_LEN NUL
                 | Some s \<Rightarrow> strncpy_zeroed FILE_NAME_LEN (FILE_NAME_LEN - 1) s)
      in \<lparr>fp_cmd_type = type,
          fp_data_len = (case file_name of None \<Rightarrow> 0 | Some s \<Rightarrow> word_of_nat (length (cstr buf))),
          fp_file_size = file_size, fp_offset = offset, fp_file_name = buf,
          fp_hash = replicate HASH_LEN NUL\<rparr>)"

definition send_command_packet :: "sock \<Rightarrow> command_packet \<Rightarrow> int \<times> sock" where
  "send_command_packet k packet = send_full k (bytes_of_command packet)"

definition send_file_packet :: "sock \<Rightarrow> file_packet \<Rightarrow> int \<times> sock" where
  "send_file_packet k packet = send_full k (bytes_of_file packet)"

text \<open>The receivers hand the packet out only where all of its bytes have arrived.\<close>

definition recv_command_packet :: "sock \<Rightarrow> int \<times> command_packet option \<times> sock" where
  "recv_command_packet k =
     (case recv_full k sizeof_command_packet of
        (ret, b, k') \<Rightarrow>
          if ret \<le> 0 then (ret, None, k')
          else (let packet = command_of_bytes b in
            if sint (cp_data_len packet) < 0 \<or> sint (cp_data_len packet) \<ge> int CMD_DATA_LEN
            then (- 1, Some packet, k')
            else (ret, Some (packet\<lparr>cp_data := (cp_data packet)[CMD_DATA_LEN - 1 := NUL]\<rparr>), k')))"

definition recv_file_packet :: "sock \<Rightarrow> int \<times> file_packet option \<times> sock" where
  "recv_file_packet k =
     (case recv_full k sizeof_file_packet of
        (ret, b, k') \<Rightarrow>
          if ret \<le> 0 then (ret, None, k')
          else (let packet = file_of_bytes b in
            if sint (fp_data_len packet) < 0 \<or> sint (fp_data_len packet) \<ge> int FILE_NAME_LEN
            then (- 1, Some packet, k')
            else (ret, Some (packet\<lparr>fp_file_name := (fp_file_name packet)[FILE_NAME_LEN - 1 := NUL]\<rparr>), k')))"

section \<open>Framing: the receivers see a byte stream, not segments\<close>

lemma recv_full_stream:
  "\<exists>segs. recv_full k len =
     (if len \<le> length (stream k) then int len else if rx_fail k then - 1 else 0,
      take len (stream k), k\<lparr>rx_segs := segs\<rparr>) \<and> concat segs = drop len (stream k)"
proof (cases "len \<le> length (stream k)")
  case True
  then show ?thesis
    using recv_loop_enough [of "[]" len k] by (simp add: recv_full_def)
next
  case False
  then show ?thesis
    using recv_loop_short [of "[]" len k] by (auto simp: recv_full_def intro!: exI [of _ "[]"])
qed

lemma send_full_prefix:
  "send_full k buf = (r, k') \<Longrightarrow>
     (r = 0 \<and> tx_out k' = tx_out k @ buf \<or>
      r = - 1 \<and> (\<exists>n < length buf. tx_out k' = tx_out k @ take n buf)) \<and>
     rx_segs k' = rx_segs k \<and> rx_fail k' = rx_fail k"
  using send_loop_spec [of buf 0 k r k'] by (simp add: send_full_def)

lemma send_full_total: "\<exists>r k'. send_full k buf = (r, k') \<and> (r = 0 \<or> r = - 1)"
  using send_full_prefix [of k buf] by (metis surj_pair)

lemma recv_full_ok:
  assumes "stream k = b @ rest" "0 < length b"
  shows "\<exists>segs. recv_full k (length b) = (int (length b), b, k\<lparr>rx_segs := segs\<rparr>) \<and> concat segs = rest"
  using recv_full_stream [of k "length b"] assms by simp

lemma wf_init_command [simp]: "wf_command (init_command_packet t d)"
  by (cases d) (simp_all add: wf_command_def init_command_packet_def Let_def)

lemma wf_init_file [simp]: "wf_file (init_file_packet t f s off)"
  by (cases f) (simp_all add: wf_file_def init_file_packet_def Let_def)

lemma sint_small_nat: "n < 256 \<Longrightarrow> sint (word_of_nat n :: 32 word) = int n"
  by transfer (simp add: signed_take_bit_int_eq_self)

lemma recv_command_framed:
  assumes "stream k = bytes_of_command p @ rest" "wf_command p"
  shows "\<exists>segs. concat segs = rest \<and> recv_command_packet k =
    (if sint (cp_data_len p) < 0 \<or> sint (cp_data_len p) \<ge> int CMD_DATA_LEN
     then (- 1, Some p, k\<lparr>rx_segs := segs\<rparr>)
     else (264, Some (p\<lparr>cp_data := (cp_data p)[CMD_DATA_LEN - 1 := NUL]\<rparr>), k\<lparr>rx_segs := segs\<rparr>))"
proof -
  have len: "length (bytes_of_command p) = sizeof_command_packet"
    using assms(2) by (rule length_bytes_of_command)
  then obtain segs where "recv_full k sizeof_command_packet =
      (int sizeof_command_packet, bytes_of_command p, k\<lparr>rx_segs := segs\<rparr>)" "concat segs = rest"
    using recv_full_ok [OF assms(1)] by (auto simp: sizeof_command_packet_def)
  then show ?thesis
    by (intro exI [of _ segs])
      (simp add: recv_command_packet_def command_of_bytes_of sizeof_command_packet_def Let_def)
qed

lemma recv_file_framed:
  assumes "stream k = bytes_of_file p @ rest" "wf_file p"
  shows "\<exists>segs. concat segs = rest \<and> recv_file_packet k =
    (if sint (fp_data_len p) < 0 \<or> sint (fp_data_len p) \<ge> int FILE_NAME_LEN
     then (- 1, Some p, k\<lparr>rx_segs := segs\<rparr>)
     else (352, Some (p\<lparr>fp_file_name := (fp_file_name p)[FILE_NAME_LEN - 1 := NUL]\<rparr>), k\<lparr>rx_segs := segs\<rparr>))"
proof -
  have len: "length (bytes_of_file p) = sizeof_file_packet"
    using assms(2) by (rule length_bytes_of_file)
  then obtain segs where "recv_full k sizeof_file_packet =
      (int sizeof_file_packet, bytes_of_file p, k\<lparr>rx_segs := segs\<rparr>)" "concat segs = rest"
    using recv_full_ok [OF assms(1)] by (auto simp: sizeof_file_packet_def)
  then show ?thesis using assms(2)
    by (intro exI [of _ segs])
      (simp add: recv_file_packet_def file_of_bytes_of sizeof_file_packet_def Let_def)
qed

lemma strncpy_last_nul:
  "strncpy_zeroed 256 255 s = (strncpy_zeroed 256 255 s)[255 := NUL]"
proof -
  have "strncpy_zeroed 256 255 s ! 255 = NUL"
    by (auto simp: strncpy_zeroed_def nth_append min_def)
  then show ?thesis by (metis list_update_id)
qed

lemma init_command_Some:
  assumes "NUL \<notin> set s"
  shows "cstr (cp_data (init_command_packet t (Some s))) = take 255 s"
    "sint (cp_data_len (init_command_packet t (Some s))) = int (length (take 255 s))"
    "cp_cmd_type (init_command_packet t (Some s)) = t"
  using assms by (simp_all add: init_command_packet_def Let_def cstr_strncpy_zeroed sint_small_nat)

lemma init_file_Some:
  assumes "NUL \<notin> set s"
  shows "cstr (fp_file_name (init_file_packet t (Some s) n off)) = take 255 s"
    "sint (fp_data_len (init_file_packet t (Some s) n off)) = int (length (take 255 s))"
  using assms by (simp_all add: init_file_packet_def Let_def cstr_strncpy_zeroed sint_small_nat)

section \<open>Properties of the protocol\<close>

text \<open>\<open>send_full\<close> either reports success, and then exactly the whole buffer has gone out
  after what was sent before, or it reports -1, and then only a proper prefix has; whatever
  portions the kernel accepts per \<open>send\<close>, and the input side is untouched.\<close>

lemma send_full_all_or_prefix:
  "\<exists>r k'. send_full k buf = (r, k') \<and>
     (r = 0 \<and> tx_out k' = tx_out k @ buf \<or>
      r = - 1 \<and> (\<exists>n < length buf. tx_out k' = tx_out k @ take n buf)) \<and>
     rx_segs k' = rx_segs k \<and> rx_fail k' = rx_fail k"
  using send_full_prefix [of k buf] by (metis surj_pair)

text \<open>C1: what \<open>recv_full\<close> returns and leaves behind depends only on the byte stream, never
  on how it was cut into segments: with \<open>len\<close> bytes to come it returns exactly the next
  \<open>len\<close> bytes and leaves the rest in order, otherwise it returns 0 or -1 at the end of the
  stream, having consumed all of it.\<close>

theorem recv_full_framing:
  "\<exists>segs. recv_full k len =
     (if len \<le> length (stream k) then int len else if rx_fail k then - 1 else 0,
      take len (stream k), k\<lparr>rx_segs := segs\<rparr>) \<and>
   concat segs = drop len (stream k)"
  by (rule recv_full_stream)

text \<open>C2: a command packet built from a NUL-free text and sent over any socket is received
  unchanged, however the network cuts the bytes, with nothing of the following stream
  consumed; the text the receiver reads is the first 255 bytes of what the sender gave.\<close>

theorem command_packet_roundtrip:
  assumes "NUL \<notin> set s"
    and "send_command_packet a (init_command_packet t (Some s)) = (0, a')" "tx_out a = []"
    and "stream b = tx_out a' @ rest"
  shows "\<exists>p segs. recv_command_packet b = (264, Some p, b\<lparr>rx_segs := segs\<rparr>) \<and>
    concat segs = rest \<and> p = init_command_packet t (Some s) \<and> cstr (cp_data p) = take 255 s"
proof -
  let ?p = "init_command_packet t (Some s)"
  have "tx_out a' = bytes_of_command ?p"
    using assms(2,3) send_full_prefix [of a "bytes_of_command ?p" 0 a']
    by (auto simp: send_command_packet_def)
  then have st: "stream b = bytes_of_command ?p @ rest" using assms(4) by simp
  have "(cp_data ?p)[CMD_DATA_LEN - 1 := NUL] = cp_data ?p"
    using strncpy_last_nul [of s] by (simp add: init_command_packet_def Let_def)
  then have "?p\<lparr>cp_data := (cp_data ?p)[CMD_DATA_LEN - 1 := NUL]\<rparr> = ?p" by simp
  with recv_command_framed [OF st] init_command_Some [OF assms(1)] show ?thesis by force
qed

theorem command_packet_roundtrip_witness:
  "\<exists>p segs. recv_command_packet
      \<lparr>rx_segs = [take 5 (bytes_of_command (init_command_packet 3 (Some ''docs''))),
                  drop 5 (bytes_of_command (init_command_packet 3 (Some ''docs''))), ''next''],
       rx_fail = False, tx_caps = [], tx_out = []\<rparr>
    = (264, Some p, \<lparr>rx_segs = segs, rx_fail = False, tx_caps = [], tx_out = []\<rparr>) \<and>
    concat segs = ''next'' \<and> cstr (cp_data p) = ''docs''"
proof -
  let ?P = "init_command_packet 3 (Some ''docs'')"
  let ?a = "\<lparr>rx_segs = [], rx_fail = False, tx_caps = [], tx_out = []\<rparr>"
  let ?b = "\<lparr>rx_segs = [take 5 (bytes_of_command ?P), drop 5 (bytes_of_command ?P), ''next''],
       rx_fail = False, tx_caps = [], tx_out = []\<rparr>"
  have ne: "0 < length (bytes_of_command ?P)"
    using length_bytes_of_command [OF wf_init_command [of 3 "Some ''docs''"]]
    by (simp add: sizeof_command_packet_def)
  have "send_command_packet ?a ?P = (0, ?a\<lparr>tx_out := bytes_of_command ?P\<rparr>)"
    using ne by (simp add: send_command_packet_def send_full_def send_loop.simps os_send_def)
  from command_packet_roundtrip [OF _ this, of ?b "''next''"] show ?thesis
    by (auto simp: stream_def)
qed

text \<open>A file packet with any hash of 65 bytes, built from a NUL-free name and sent raw, is
  received unchanged from the stream, sizes and offsets at their 64-bit width included, and the
  name read is the first 255 bytes of the name given.\<close>

lemma file_packet_roundtrip:
  assumes "NUL \<notin> set s" "length h = HASH_LEN"
    and "stream b = bytes_of_file ((init_file_packet t (Some s) n off)\<lparr>fp_hash := h\<rparr>) @ rest"
  shows "\<exists>p segs. recv_file_packet b = (352, Some p, b\<lparr>rx_segs := segs\<rparr>) \<and> concat segs = rest \<and>
    p = (init_file_packet t (Some s) n off)\<lparr>fp_hash := h\<rparr> \<and>
    cstr (fp_file_name p) = take 255 s \<and> fp_file_size p = n \<and> fp_offset p = off \<and> fp_hash p = h"
proof -
  let ?p = "(init_file_packet t (Some s) n off)\<lparr>fp_hash := h\<rparr>"
  have wf: "wf_file ?p"
    using assms(2) wf_init_file [of t "Some s" n off] by (simp add: wf_file_def)
  have "(fp_file_name ?p)[FILE_NAME_LEN - 1 := NUL] = fp_file_name ?p"
    using strncpy_last_nul [of s] by (simp add: init_file_packet_def Let_def)
  then have same: "?p\<lparr>fp_file_name := (fp_file_name ?p)[FILE_NAME_LEN - 1 := NUL]\<rparr> = ?p"
    by (simp del: FILE_NAME_LEN_def)
  have "fp_file_size ?p = n \<and> fp_offset ?p = off \<and> fp_hash ?p = h"
    by (simp add: init_file_packet_def Let_def)
  moreover have "sint (fp_data_len ?p) < 256" "0 \<le> sint (fp_data_len ?p)"
    using init_file_Some(2) [OF assms(1), of t n off] by simp_all
  ultimately show ?thesis
    using recv_file_framed [OF assms(3) wf] init_file_Some(1) [OF assms(1), of t n off] same
    by force
qed

text \<open>C3: whatever bytes a peer sends, a command packet that \<open>recv_command_packet\<close> accepts is
  exactly 264 bytes long, its length field lies between 0 and 255, and its data array holds a
  NUL, so that reading it as a string stays inside the array.\<close>

theorem recv_command_packet_safe:
  assumes "recv_command_packet k = (r, Some p, k')" "0 < r"
  shows "r = 264 \<and> wf_command p \<and> 0 \<le> sint (cp_data_len p) \<and> sint (cp_data_len p) < 256 \<and>
    NUL \<in> set (cp_data p) \<and> length (cstr (cp_data p)) \<le> 255"
proof -
  obtain segs where rf: "recv_full k sizeof_command_packet =
     (if sizeof_command_packet \<le> length (stream k) then int sizeof_command_packet
      else if rx_fail k then - 1 else 0,
      take sizeof_command_packet (stream k), k\<lparr>rx_segs := segs\<rparr>)"
    using recv_full_stream by blast
  then have len: "sizeof_command_packet \<le> length (stream k)" and "r = 264"
    using assms by (auto simp: recv_command_packet_def Let_def sizeof_command_packet_def split: if_splits)
  let ?d = "drop 8 (take sizeof_command_packet (stream k))"
  have p: "cp_data p = ?d[255 := NUL]" "0 \<le> sint (cp_data_len p)" "sint (cp_data_len p) < 256"
    using assms rf len
    by (auto simp: recv_command_packet_def Let_def sizeof_command_packet_def command_of_bytes_def
        split: if_splits)
  have l: "length ?d = 256" using len by (simp add: sizeof_command_packet_def)
  then have nul: "NUL \<in> set (cp_data p)" using p(1) by (simp add: set_update_memI)
  moreover have "length (cstr (cp_data p)) < 256"
    using length_cstr_less [OF nul] p(1) l by simp
  ultimately show ?thesis using p l \<open>r = 264\<close> by (simp add: wf_command_def)
qed

theorem recv_command_packet_safe_witness:
  "\<exists>p k'. recv_command_packet \<lparr>rx_segs = [le_bytes 4 77 @ le_bytes 4 9 @ replicate 256 (CHR ''x'')],
      rx_fail = False, tx_caps = [], tx_out = []\<rparr> = (264, Some p, k') \<and>
    NUL \<in> set (cp_data p)"
proof -
  let ?p = "\<lparr>cp_cmd_type = 77, cp_data_len = 9, cp_data = replicate 256 (CHR ''x'')\<rparr>"
  let ?k = "\<lparr>rx_segs = [le_bytes 4 77 @ le_bytes 4 9 @ replicate 256 (CHR ''x'')],
      rx_fail = False, tx_caps = [], tx_out = []\<rparr>"
  have "stream ?k = bytes_of_command ?p @ []" by (simp add: stream_def bytes_of_command_def)
  from recv_command_framed [OF this] obtain p k' where
    "recv_command_packet ?k = (264, Some p, k')" by (auto simp: wf_command_def)
  moreover from recv_command_packet_safe [OF this] have "NUL \<in> set (cp_data p)" by simp
  ultimately show ?thesis by blast
qed

end
