(* ===== verification/Sha256_Utils.thy ===== *)
theory Sha256_Utils
  imports C_Prelude
begin

text \<open>
  Hashing by running the external program \<open>sha256sum\<close> (\<open>include/sha256_utils.h\<close>,
  \<open>src/common/sha256_utils.c\<close>). What the operating system answers is the parameter
  \<open>sha_env\<close>: the path \<open>mkstemp\<close> creates (\<open>None\<close>: it fails), the return value of
  \<open>write\<close>, and for a command line and the content of the file it names, the first line
  \<open>fgets\<close> reads from \<open>popen\<close> (outer \<open>None\<close>: \<open>popen\<close> fails, inner \<open>None\<close>: no output).

  A call returns its code, the string left in \<open>sha256_out\<close> if it was written, and the
  temporary files still present.
\<close>

record sha_env =
  env_mkstemp :: "string option"
  env_write :: "string \<Rightarrow> int"
  env_popen :: "string \<Rightarrow> string \<Rightarrow> string option option"

definition sha_command :: "string \<Rightarrow> string" where
  "sha_command path = snprintf_str 512 (''sha256sum '' @ path)"

definition get_file_sha256 :: "sha_env \<Rightarrow> string \<Rightarrow> string \<Rightarrow> int \<times> string option" where
  "get_file_sha256 env file_path file_content =
     (case env_popen env (sha_command file_path) file_content of
        None \<Rightarrow> (- 1, None)
      | Some None \<Rightarrow> (- 1, None)
      | Some (Some buf) \<Rightarrow> (0, Some (take 64 (cstr buf))))"

definition sha256_hash :: "sha_env \<Rightarrow> string \<Rightarrow> int \<times> string option \<times> string list" where
  "sha256_hash env input =
     (case env_mkstemp env of
        None \<Rightarrow> (- 1, None, [])
      | Some tmp_path \<Rightarrow>
          if env_write env input \<noteq> int (length input)
          then (- 1, None, remove1 tmp_path [tmp_path])
          else
            (case env_popen env (sha_command tmp_path) input of
               None \<Rightarrow> (- 1, None, remove1 tmp_path [tmp_path])
             | Some None \<Rightarrow> (- 1, None, remove1 tmp_path [tmp_path])
             | Some (Some buf) \<Rightarrow>
                 (0, Some (take 64 (cstr buf)), remove1 tmp_path [tmp_path])))"

text \<open>The documented behaviour of \<open>sha256sum\<close>: the digest in 64 hexadecimal digits, two
  characters, the file name.\<close>

definition hex_digit :: "char \<Rightarrow> bool" where
  "hex_digit c \<longleftrightarrow> c \<in> set ''0123456789abcdef''"

definition sha_tool_ok :: "sha_env \<Rightarrow> (string \<Rightarrow> string) \<Rightarrow> bool" where
  "sha_tool_ok env digest \<longleftrightarrow>
     (\<exists>p. env_mkstemp env = Some p \<and> length p < 500 \<and>
       (\<forall>s. env_write env s = int (length s)) \<and>
       (\<forall>s. length (digest s) = 64 \<and> list_all hex_digit (digest s)) \<and>
       (\<forall>s. env_popen env (''sha256sum '' @ p) s = Some (Some (digest s @ ''  '' @ p @ [CHR 0x0A]))))"

lemma hex_digit_char: "hex_digit c \<Longrightarrow> c \<noteq> NUL \<and> c \<noteq> CHR 0x27 \<and> c \<noteq> CHR 0x5C \<and> c \<noteq> CHR ''/''"
  by (auto simp: hex_digit_def)

lemma hex_digit_plain:
  "list_all hex_digit s \<Longrightarrow> c \<in> set s \<Longrightarrow> c \<noteq> NUL \<and> c \<noteq> CHR 0x27 \<and> c \<noteq> CHR 0x5C \<and> c \<noteq> CHR ''/''"
  using hex_digit_char by (simp add: list_all_iff)

lemma hex_digit_no_nul: "list_all hex_digit s \<Longrightarrow> NUL \<notin> set s"
  using hex_digit_plain by blast

lemma cstr_take_prefix: "NUL \<notin> set s \<Longrightarrow> length s = n \<Longrightarrow> take n (cstr (s @ r)) = s"
  by (induction s arbitrary: n) auto

lemma sha256_hash_code: "fst (sha256_hash env s) = 0 \<longleftrightarrow> fst (snd (sha256_hash env s)) \<noteq> None"
  by (auto simp: sha256_hash_def split: option.splits)

lemma sha256_hash_ok:
  assumes "sha_tool_ok env digest"
  shows "sha256_hash env s = (0, Some (digest s), [])"
proof -
  from assms obtain p where p: "env_mkstemp env = Some p" "length p < 500"
    "env_write env s = int (length s)" "length (digest s) = 64" "list_all hex_digit (digest s)"
    "env_popen env (''sha256sum '' @ p) s = Some (Some (digest s @ ''  '' @ p @ [CHR 0x0A]))"
    unfolding sha_tool_ok_def by blast
  have cmd: "sha_command p = ''sha256sum '' @ p"
    using p(2) by (simp add: sha_command_def snprintf_str_def)
  have "take 64 (cstr (digest s @ ''  '' @ p @ [CHR 0x0A])) = digest s"
    by (rule cstr_take_prefix [OF hex_digit_no_nul [OF p(5)] p(4)])
  with p cmd show ?thesis by (simp add: sha256_hash_def)
qed

text \<open>\<open>sha256_hash\<close> never leaves its temporary file behind, on any path through the
  operating system's answers; it reports 0 exactly when it has written a digest, which is then
  at most 64 bytes long and holds no NUL, so that the 65-byte buffer is never overrun.\<close>

lemma sha256_hash_clean:
  "\<exists>r out. sha256_hash env s = (r, out, []) \<and> (r = 0 \<or> r = - 1) \<and> (r = 0 \<longleftrightarrow> out \<noteq> None) \<and>
     pred_option (\<lambda>h. length h \<le> 64 \<and> NUL \<notin> set h) out"
proof -
  have "NUL \<notin> set (take 64 (cstr buf))" for buf by (meson cstr_no_nul in_set_takeD)
  then show ?thesis by (auto simp: sha256_hash_def split: option.splits)
qed

end
