(* ===== verification/Client_Texts.thy ===== *)
theory Client_Texts
  imports C_Prelude
begin

text \<open>
  The texts the client prints, byte by byte as the UTF-8 sources have them: the string literals of
  \<open>src/client/client_command_handle.c\<close> and \<open>client.c\<close>. Texts beginning with \<open>err\<close> are the prefixes
  given to \<open>perror\<close>.
\<close>

text \<open>usage of gets\<close>

definition txt_usage_gets :: string where
  "txt_usage_gets =
     [CHR 0xE7, CHR 0x94, CHR 0xA8, CHR 0xE6, CHR 0xB3, CHR 0x95, CHR 0x3A, CHR 0x20, CHR 0x67,
      CHR 0x65, CHR 0x74, CHR 0x73, CHR 0x20, CHR 0x3C, CHR 0xE6, CHR 0x96, CHR 0x87, CHR 0xE4,
      CHR 0xBB, CHR 0xB6, CHR 0xE5, CHR 0x90, CHR 0x8D, CHR 0x3E, CHR 0x0A]"

text \<open>usage of puts\<close>

definition txt_usage_puts :: string where
  "txt_usage_puts =
     [CHR 0xE7, CHR 0x94, CHR 0xA8, CHR 0xE6, CHR 0xB3, CHR 0x95, CHR 0x3A, CHR 0x20, CHR 0x70,
      CHR 0x75, CHR 0x74, CHR 0x73, CHR 0x20, CHR 0x3C, CHR 0xE6, CHR 0x96, CHR 0x87, CHR 0xE4,
      CHR 0xBB, CHR 0xB6, CHR 0xE5, CHR 0x90, CHR 0x8D, CHR 0x3E, CHR 0x0A]"

text \<open>the command needs an argument\<close>

definition txt_need_arg :: string where
  "txt_need_arg =
     [CHR 0xE8, CHR 0xAF, CHR 0xA5, CHR 0xE5, CHR 0x91, CHR 0xBD, CHR 0xE4, CHR 0xBB, CHR 0xA4,
      CHR 0xE9, CHR 0x9C, CHR 0x80, CHR 0xE8, CHR 0xA6, CHR 0x81, CHR 0xE5, CHR 0x8F, CHR 0x82,
      CHR 0xE6, CHR 0x95, CHR 0xB0, CHR 0x0A]"

text \<open>invalid command\<close>

definition txt_invalid :: string where
  "txt_invalid =
     [CHR 0xE6, CHR 0x97, CHR 0xA0, CHR 0xE6, CHR 0x95, CHR 0x88, CHR 0xE5, CHR 0x91, CHR 0xBD,
      CHR 0xE4, CHR 0xBB, CHR 0xA4, CHR 0x0A]"

text \<open>command not sent\<close>

definition txt_send_failed :: string where
  "txt_send_failed =
     [CHR 0xE5, CHR 0x8F, CHR 0x91, CHR 0xE9, CHR 0x80, CHR 0x81, CHR 0xE5, CHR 0x91, CHR 0xBD,
      CHR 0xE4, CHR 0xBB, CHR 0xA4, CHR 0xE5, CHR 0xA4, CHR 0xB1, CHR 0xE8, CHR 0xB4, CHR 0xA5,
      CHR 0x0A]"

text \<open>file information not received\<close>

definition txt_info_failed :: string where
  "txt_info_failed =
     [CHR 0xE6, CHR 0x8E, CHR 0xA5, CHR 0xE6, CHR 0x94, CHR 0xB6, CHR 0xE6, CHR 0x96, CHR 0x87,
      CHR 0xE4, CHR 0xBB, CHR 0xB6, CHR 0xE4, CHR 0xBF, CHR 0xA1, CHR 0xE6, CHR 0x81, CHR 0xAF,
      CHR 0xE5, CHR 0xA4, CHR 0xB1, CHR 0xE8, CHR 0xB4, CHR 0xA5, CHR 0x0A]"

text \<open>no such file on the server\<close>

definition txt_no_file :: string where
  "txt_no_file =
     [CHR 0xE6, CHR 0x9C, CHR 0x8D, CHR 0xE5, CHR 0x8A, CHR 0xA1, CHR 0xE5, CHR 0x99, CHR 0xA8,
      CHR 0xE6, CHR 0x96, CHR 0x87, CHR 0xE4, CHR 0xBB, CHR 0xB6, CHR 0xE4, CHR 0xB8, CHR 0x8D,
      CHR 0xE5, CHR 0xAD, CHR 0x98, CHR 0xE5, CHR 0x9C, CHR 0xA8, CHR 0x0A]"

text \<open>position not sent\<close>

definition txt_offset_failed :: string where
  "txt_offset_failed =
     [CHR 0xE5, CHR 0x8F, CHR 0x91, CHR 0xE9, CHR 0x80, CHR 0x81, CHR 0xE7, CHR 0xBB, CHR 0xAD,
      CHR 0xE4, CHR 0xBC, CHR 0xA0, CHR 0xE4, CHR 0xBD, CHR 0x8D, CHR 0xE7, CHR 0xBD, CHR 0xAE,
      CHR 0xE5, CHR 0xA4, CHR 0xB1, CHR 0xE8, CHR 0xB4, CHR 0xA5, CHR 0x0A]"

text \<open>file already complete\<close>

definition txt_complete :: string where
  "txt_complete =
     [CHR 0xE6, CHR 0x96, CHR 0x87, CHR 0xE4, CHR 0xBB, CHR 0xB6, CHR 0xE5, CHR 0xB7, CHR 0xB2,
      CHR 0xE5, CHR 0xAD, CHR 0x98, CHR 0xE5, CHR 0x9C, CHR 0xA8, CHR 0xE4, CHR 0xB8, CHR 0x94,
      CHR 0xE5, CHR 0xAE, CHR 0x8C, CHR 0xE6, CHR 0x95, CHR 0xB4, CHR 0xEF, CHR 0xBC, CHR 0x8C,
      CHR 0xE6, CHR 0x97, CHR 0xA0, CHR 0xE9, CHR 0x9C, CHR 0x80, CHR 0xE4, CHR 0xB8, CHR 0x8B,
      CHR 0xE8, CHR 0xBD, CHR 0xBD, CHR 0xE3, CHR 0x80, CHR 0x82, CHR 0x0A]"

text \<open>download interrupted\<close>

definition txt_gets_broken :: string where
  "txt_gets_broken =
     [CHR 0xE4, CHR 0xB8, CHR 0x8B, CHR 0xE8, CHR 0xBD, CHR 0xBD, CHR 0xE4, CHR 0xB8, CHR 0xAD,
      CHR 0xE6, CHR 0x96, CHR 0xAD, CHR 0xEF, CHR 0xBC, CHR 0x8C, CHR 0xE5, CHR 0xB7, CHR 0xB2,
      CHR 0xE7, CHR 0xBB, CHR 0x8F, CHR 0xE4, CHR 0xBF, CHR 0x9D, CHR 0xE7, CHR 0x95, CHR 0x99,
      CHR 0xE5, CHR 0xBD, CHR 0x93, CHR 0xE5, CHR 0x89, CHR 0x8D, CHR 0xE8, CHR 0xBF, CHR 0x9B,
      CHR 0xE5, CHR 0xBA, CHR 0xA6, CHR 0xE3, CHR 0x80, CHR 0x82, CHR 0x0A]"

text \<open>downloaded\<close>

definition txt_gets_done :: string where
  "txt_gets_done =
     [CHR 0xE4, CHR 0xB8, CHR 0x8B, CHR 0xE8, CHR 0xBD, CHR 0xBD, CHR 0xE6, CHR 0x88, CHR 0x90,
      CHR 0xE5, CHR 0x8A, CHR 0x9F, CHR 0x3A, CHR 0x20]"

text \<open>bytes\<close>

definition txt_bytes :: string where
  "txt_bytes =
     [CHR 0x20, CHR 0xE5, CHR 0xAD, CHR 0x97, CHR 0xE8, CHR 0x8A, CHR 0x82, CHR 0x29, CHR 0x0A]"

text \<open>digest not computed\<close>

definition txt_sha_failed :: string where
  "txt_sha_failed =
     [CHR 0xE8, CHR 0xAE, CHR 0xA1, CHR 0xE7, CHR 0xAE, CHR 0x97, CHR 0xE6, CHR 0x96, CHR 0x87,
      CHR 0xE4, CHR 0xBB, CHR 0xB6, CHR 0x20, CHR 0x53, CHR 0x48, CHR 0x41, CHR 0x32, CHR 0x35,
      CHR 0x36, CHR 0x20, CHR 0xE5, CHR 0xA4, CHR 0xB1, CHR 0xE8, CHR 0xB4, CHR 0xA5, CHR 0x0A]"

text \<open>file information not sent\<close>

definition txt_puts_info :: string where
  "txt_puts_info =
     [CHR 0xE5, CHR 0x8F, CHR 0x91, CHR 0xE9, CHR 0x80, CHR 0x81, CHR 0xE6, CHR 0x96, CHR 0x87,
      CHR 0xE4, CHR 0xBB, CHR 0xB6, CHR 0xE4, CHR 0xBF, CHR 0xA1, CHR 0xE6, CHR 0x81, CHR 0xAF,
      CHR 0xE5, CHR 0xA4, CHR 0xB1, CHR 0xE8, CHR 0xB4, CHR 0xA5, CHR 0x0A]"

text \<open>position not received\<close>

definition txt_no_offset :: string where
  "txt_no_offset =
     [CHR 0xE6, CHR 0x8E, CHR 0xA5, CHR 0xE6, CHR 0x94, CHR 0xB6, CHR 0xE6, CHR 0x9C, CHR 0x8D,
      CHR 0xE5, CHR 0x8A, CHR 0xA1, CHR 0xE7, CHR 0xAB, CHR 0xAF, CHR 0xE6, CHR 0x96, CHR 0xAD,
      CHR 0xE7, CHR 0x82, CHR 0xB9, CHR 0xE4, CHR 0xBF, CHR 0xA1, CHR 0xE6, CHR 0x81, CHR 0xAF,
      CHR 0xE5, CHR 0xA4, CHR 0xB1, CHR 0xE8, CHR 0xB4, CHR 0xA5, CHR 0x0A]"

text \<open>upload interrupted\<close>

definition txt_puts_broken :: string where
  "txt_puts_broken =
     [CHR 0xE4, CHR 0xB8, CHR 0x8A, CHR 0xE4, CHR 0xBC, CHR 0xA0, CHR 0xE4, CHR 0xB8, CHR 0xAD,
      CHR 0xE6, CHR 0x96, CHR 0xAD, CHR 0xEF, CHR 0xBC, CHR 0x8C, CHR 0xE5, CHR 0xB7, CHR 0xB2,
      CHR 0xE7, CHR 0xBB, CHR 0x8F, CHR 0xE5, CHR 0x8F, CHR 0x91, CHR 0xE9, CHR 0x80, CHR 0x81,
      CHR 0xE7, CHR 0x9A, CHR 0x84, CHR 0xE5, CHR 0x86, CHR 0x85, CHR 0xE5, CHR 0xAE, CHR 0xB9,
      CHR 0xE7, CHR 0x94, CHR 0xB1, CHR 0xE6, CHR 0x9C, CHR 0x8D, CHR 0xE5, CHR 0x8A, CHR 0xA1,
      CHR 0xE7, CHR 0xAB, CHR 0xAF, CHR 0xE8, CHR 0x87, CHR 0xAA, CHR 0xE5, CHR 0xB7, CHR 0xB1,
      CHR 0xE4, CHR 0xBF, CHR 0x9D, CHR 0xE7, CHR 0x95, CHR 0x99, CHR 0xE3, CHR 0x80, CHR 0x82,
      CHR 0x0A]"

text \<open>no reply\<close>

definition txt_no_reply :: string where
  "txt_no_reply =
     [CHR 0xE6, CHR 0x8E, CHR 0xA5, CHR 0xE6, CHR 0x94, CHR 0xB6, CHR 0xE6, CHR 0x9C, CHR 0x8D,
      CHR 0xE5, CHR 0x8A, CHR 0xA1, CHR 0xE7, CHR 0xAB, CHR 0xAF, CHR 0xE5, CHR 0x93, CHR 0x8D,
      CHR 0xE5, CHR 0xBA, CHR 0x94, CHR 0xE5, CHR 0xA4, CHR 0xB1, CHR 0xE8, CHR 0xB4, CHR 0xA5,
      CHR 0x0A]"

text \<open>file not created\<close>

definition err_create :: string where
  "err_create =
     [CHR 0xE5, CHR 0x88, CHR 0x9B, CHR 0xE5, CHR 0xBB, CHR 0xBA, CHR 0xE6, CHR 0x96, CHR 0x87,
      CHR 0xE4, CHR 0xBB, CHR 0xB6, CHR 0xE5, CHR 0xA4, CHR 0xB1, CHR 0xE8, CHR 0xB4, CHR 0xA5]"

text \<open>old file not truncated\<close>

definition err_truncate :: string where
  "err_truncate =
     [CHR 0xE6, CHR 0xB8, CHR 0x85, CHR 0xE7, CHR 0xA9, CHR 0xBA, CHR 0xE6, CHR 0x97, CHR 0xA7,
      CHR 0xE6, CHR 0x96, CHR 0x87, CHR 0xE4, CHR 0xBB, CHR 0xB6, CHR 0xE5, CHR 0xA4, CHR 0xB1,
      CHR 0xE8, CHR 0xB4, CHR 0xA5]"

text \<open>position not set\<close>

definition err_seek :: string where
  "err_seek =
     [CHR 0xE7, CHR 0xA7, CHR 0xBB, CHR 0xE5, CHR 0x8A, CHR 0xA8, CHR 0xE6, CHR 0x96, CHR 0x87,
      CHR 0xE4, CHR 0xBB, CHR 0xB6, CHR 0xE6, CHR 0x8C, CHR 0x87, CHR 0xE9, CHR 0x92, CHR 0x88,
      CHR 0xE5, CHR 0xA4, CHR 0xB1, CHR 0xE8, CHR 0xB4, CHR 0xA5]"

text \<open>file not written\<close>

definition err_write :: string where
  "err_write =
     [CHR 0xE5, CHR 0x86, CHR 0x99, CHR 0xE5, CHR 0x85, CHR 0xA5, CHR 0xE6, CHR 0x9C, CHR 0xAC,
      CHR 0xE5, CHR 0x9C, CHR 0xB0, CHR 0xE6, CHR 0x96, CHR 0x87, CHR 0xE4, CHR 0xBB, CHR 0xB6,
      CHR 0xE5, CHR 0xA4, CHR 0xB1, CHR 0xE8, CHR 0xB4, CHR 0xA5]"

text \<open>file not opened\<close>

definition err_open :: string where
  "err_open =
     [CHR 0xE6, CHR 0x89, CHR 0x93, CHR 0xE5, CHR 0xBC, CHR 0x80, CHR 0xE6, CHR 0x96, CHR 0x87,
      CHR 0xE4, CHR 0xBB, CHR 0xB6, CHR 0xE5, CHR 0xA4, CHR 0xB1, CHR 0xE8, CHR 0xB4, CHR 0xA5]"

text \<open>size not read\<close>

definition err_size :: string where
  "err_size =
     [CHR 0xE8, CHR 0x8E, CHR 0xB7, CHR 0xE5, CHR 0x8F, CHR 0x96, CHR 0xE6, CHR 0x96, CHR 0x87,
      CHR 0xE4, CHR 0xBB, CHR 0xB6, CHR 0xE5, CHR 0xA4, CHR 0xA7, CHR 0xE5, CHR 0xB0, CHR 0x8F,
      CHR 0xE5, CHR 0xA4, CHR 0xB1, CHR 0xE8, CHR 0xB4, CHR 0xA5]"

text \<open>good-bye\<close>

definition txt_bye :: string where
  "txt_bye =
     [CHR 0xE5, CHR 0x86, CHR 0x8D, CHR 0xE8, CHR 0xA7, CHR 0x81, CHR 0xEF, CHR 0xBC, CHR 0x81,
      CHR 0x0A]"

end
