(* ===== verification/C_Format.thy ===== *)
theory C_Format
  imports C_Prelude "HOL-Library.Sublist"
begin

text \<open>
  The part of \<open>printf\<close> formatting the sources use: \<open>%s\<close>, \<open>%d\<close> and \<open>%lu\<close> in an otherwise
  literal text, so that the format strings of the queries can stand in the model as they stand in
  the C code. \<open>c_scan\<close> is the inverse reading of a text against a format; a string conversion
  reads up to the next single quote. The round trip at the end holds for formats in which every
  conversion is delimited (\<open>delimited\<close>) and for string arguments without single quotes.
\<close>

datatype fmt_arg = Fs string | Fd int | Fu nat

fun show_arg :: "fmt_arg \<Rightarrow> string" where
  "show_arg (Fs s) = s"
| "show_arg (Fd i) = int_to_dec i"
| "show_arg (Fu n) = nat_to_dec n"

text \<open>A format cut into literal characters and conversions.\<close>

datatype piece = Lit char | Conv_s | Conv_d | Conv_u

fun pieces :: "string \<Rightarrow> piece list" where
  "pieces [] = []"
| "pieces [c] = [Lit c]"
| "pieces (c # t # cs) =
     (if c = CHR ''%'' then
        (if t = CHR ''s'' then Conv_s # pieces cs
         else if t = CHR ''d'' then Conv_d # pieces cs
         else if t = CHR ''l'' then Conv_u # pieces (drop 1 cs)
         else Lit c # pieces (t # cs))
      else Lit c # pieces (t # cs))"

fun fill :: "piece list \<Rightarrow> fmt_arg list \<Rightarrow> string" where
  "fill [] as = []"
| "fill (Lit c # ps) as = c # fill ps as"
| "fill (p # ps) (a # as) = show_arg a @ fill ps as"
| "fill (p # ps) [] = []"

definition c_format :: "string \<Rightarrow> fmt_arg list \<Rightarrow> string" where
  "c_format fmt as = fill (pieces fmt) as"

definition sq :: char where "sq = CHR 0x27"

definition int_char :: "char \<Rightarrow> bool" where
  "int_char c \<longleftrightarrow> is_digit c \<or> c = CHR ''-''"

fun scan_pieces :: "piece list \<Rightarrow> string \<Rightarrow> fmt_arg list option" where
  "scan_pieces [] s = (if s = [] then Some [] else None)"
| "scan_pieces (Lit c # ps) s =
     (case s of [] \<Rightarrow> None | x # xs \<Rightarrow> if x = c then scan_pieces ps xs else None)"
| "scan_pieces (Conv_s # ps) s =
     map_option ((#) (Fs (takeWhile (\<lambda>c. c \<noteq> sq) s))) (scan_pieces ps (dropWhile (\<lambda>c. c \<noteq> sq) s))"
| "scan_pieces (Conv_d # ps) s =
     (if takeWhile int_char s = [] then None
      else map_option ((#) (Fd (dec_value (takeWhile int_char s)))) (scan_pieces ps (dropWhile int_char s)))"
| "scan_pieces (Conv_u # ps) s =
     (if takeWhile int_char s = [] then None
      else map_option ((#) (Fu (nat (dec_value (takeWhile int_char s))))) (scan_pieces ps (dropWhile int_char s)))"

definition c_scan :: "string \<Rightarrow> string \<Rightarrow> fmt_arg list option" where
  "c_scan fmt s = scan_pieces (pieces fmt) s"

fun delimited :: "piece list \<Rightarrow> bool" where
  "delimited [] = True"
| "delimited (Lit c # ps) = delimited ps"
| "delimited (Conv_s # ps) = (case ps of Lit c # qs \<Rightarrow> c = sq \<and> delimited ps | _ \<Rightarrow> False)"
| "delimited (p # ps) = (case ps of [] \<Rightarrow> True | Lit c # qs \<Rightarrow> \<not> int_char c \<and> delimited ps | _ \<Rightarrow> False)"

fun args_fit :: "piece list \<Rightarrow> fmt_arg list \<Rightarrow> bool" where
  "args_fit [] as = (as = [])"
| "args_fit (Lit c # ps) as = args_fit ps as"
| "args_fit (Conv_s # ps) as = (case as of Fs s # bs \<Rightarrow> sq \<notin> set s \<and> args_fit ps bs | _ \<Rightarrow> False)"
| "args_fit (Conv_d # ps) as = (case as of Fd i # bs \<Rightarrow> args_fit ps bs | _ \<Rightarrow> False)"
| "args_fit (Conv_u # ps) as = (case as of Fu n # bs \<Rightarrow> args_fit ps bs | _ \<Rightarrow> False)"

lemma int_to_dec_int_char: "c \<in> set (int_to_dec i) \<Longrightarrow> int_char c"
  using nat_to_dec_digits by (auto simp: int_to_dec_def int_char_def split: if_splits)

lemma nat_to_dec_int_char: "c \<in> set (nat_to_dec n) \<Longrightarrow> int_char c"
  using nat_to_dec_digits by (auto simp: int_char_def)

lemma int_to_dec_nonempty: "int_to_dec i \<noteq> []"
  by (simp add: int_to_dec_def)

lemma span_until:
  assumes "\<And>c. c \<in> set a \<Longrightarrow> P c" "s = [] \<or> \<not> P (hd s)"
  shows "takeWhile P (a @ s) = a" "dropWhile P (a @ s) = s"
  using assms by (induction a) (auto simp: takeWhile_eq_Nil_iff dropWhile_eq_self_iff)

lemma fill_hd:
  "delimited (Conv_s # ps) \<Longrightarrow> fill ps as \<noteq> [] \<and> hd (fill ps as) = sq"
  by (cases ps) (auto split: piece.splits)

lemma fill_hd_num:
  "delimited (Conv_d # ps) \<Longrightarrow> fill ps as = [] \<or> \<not> int_char (hd (fill ps as))"
  by (cases ps) (auto split: piece.splits)

lemma scan_fill: "delimited ps \<Longrightarrow> args_fit ps as \<Longrightarrow> scan_pieces ps (fill ps as) = Some as"
proof (induction ps arbitrary: as)
  case Nil
  then show ?case by simp
next
  case (Cons p ps)
  have dl: "delimited ps" using Cons.prems(1) by (cases p) (auto split: list.splits piece.splits)
  show ?case
  proof (cases p)
    case (Lit c)
    with Cons dl show ?thesis by simp
  next
    case Conv_s
    then obtain s bs where as: "as = Fs s # bs" "sq \<notin> set s" "args_fit ps bs"
      using Cons.prems(2) by (auto split: list.splits fmt_arg.splits)
    have hd: "fill ps bs = [] \<or> \<not> hd (fill ps bs) \<noteq> sq"
      using fill_hd Cons.prems(1) Conv_s by blast
    have ns: "c \<in> set s \<Longrightarrow> c \<noteq> sq" for c using as(2) by auto
    from Conv_s as Cons.IH [OF dl as(3)] span_until [of s "\<lambda>c. c \<noteq> sq", OF ns hd]
    show ?thesis by simp
  next
    case Conv_d
    then obtain i bs where as: "as = Fd i # bs" "args_fit ps bs"
      using Cons.prems(2) by (auto split: list.splits fmt_arg.splits)
    have hd: "fill ps bs = [] \<or> \<not> int_char (hd (fill ps bs))"
      using fill_hd_num Cons.prems(1) Conv_d by blast
    from Conv_d as Cons.IH [OF dl as(2)] span_until [of "int_to_dec i" int_char, OF int_to_dec_int_char hd]
    show ?thesis by (simp add: int_to_dec_nonempty)
  next
    case Conv_u
    then obtain n bs where as: "as = Fu n # bs" "args_fit ps bs"
      using Cons.prems(2) by (auto split: list.splits fmt_arg.splits)
    have "delimited (Conv_d # ps)" using Cons.prems(1) Conv_u by simp
    then have hd: "fill ps bs = [] \<or> \<not> int_char (hd (fill ps bs))"
      using fill_hd_num by blast
    from Conv_u as Cons.IH [OF dl as(2)] span_until [of "nat_to_dec n" int_char, OF nat_to_dec_int_char hd]
    show ?thesis by (simp add: dec_value_nat_to_dec)
  qed
qed

lemma c_scan_format: "delimited (pieces fmt) \<Longrightarrow> args_fit (pieces fmt) as \<Longrightarrow> c_scan fmt (c_format fmt as) = Some as"
  by (simp add: c_scan_def c_format_def scan_fill)

section \<open>Formats that never produce the same text\<close>

text \<open>\<open>apart ps qs\<close> finds a place where the texts of two formats differ for all arguments.\<close>

fun apart :: "piece list \<Rightarrow> piece list \<Rightarrow> bool" where
  "apart (Lit c # ps) (Lit d # qs) = (c \<noteq> d \<or> apart ps qs)"
| "apart (Conv_s # ps) (Conv_s # qs) = apart ps qs"
| "apart (Conv_d # ps) (Conv_d # qs) = apart ps qs"
| "apart (Conv_d # ps) (Lit c # qs) = (\<not> int_char c)"
| "apart (Lit c # ps) (Conv_d # qs) = (\<not> int_char c)"
| "apart [] (Lit c # qs) = True"
| "apart (Lit c # ps) [] = True"
| "apart _ _ = False"

lemma apart_sym: "apart ps qs \<Longrightarrow> apart qs ps"
  by (induction ps qs rule: apart.induct) auto

lemma int_to_dec_hd: "hd (int_to_dec i @ s) = hd (int_to_dec i) \<and> int_char (hd (int_to_dec i))"
  using int_to_dec_int_char [of "hd (int_to_dec i)" i] int_to_dec_nonempty [of i] by simp

lemma scan_apart:
  "apart ps qs \<Longrightarrow> delimited ps \<Longrightarrow> delimited qs \<Longrightarrow> args_fit qs as \<Longrightarrow> scan_pieces ps (fill qs as) = None"
proof (induction ps qs arbitrary: as rule: apart.induct)
  case (2 ps qs)
  then obtain s bs where as: "as = Fs s # bs" "sq \<notin> set s" "args_fit qs bs"
    by (auto split: list.splits fmt_arg.splits)
  have hd: "fill qs bs = [] \<or> \<not> hd (fill qs bs) \<noteq> sq"
    using fill_hd 2 by blast
  have ns: "c \<in> set s \<Longrightarrow> c \<noteq> sq" for c using as(2) by auto
  have "scan_pieces ps (fill qs bs) = None"
    using 2 as by (auto split: list.splits piece.splits)
  with as span_until [of s "\<lambda>c. c \<noteq> sq", OF ns hd] show ?case by simp
next
  case (3 ps qs)
  then obtain i bs where as: "as = Fd i # bs" "args_fit qs bs"
    by (auto split: list.splits fmt_arg.splits)
  have hd: "fill qs bs = [] \<or> \<not> int_char (hd (fill qs bs))"
    using fill_hd_num 3 by blast
  have "scan_pieces ps (fill qs bs) = None"
    using 3 as by (cases ps; cases qs) (auto split: list.splits piece.splits)
  with as span_until [of "int_to_dec i" int_char, OF int_to_dec_int_char hd] show ?case by simp
next
  case (5 c ps qs)
  then obtain i bs where as: "as = Fd i # bs" by (auto split: list.splits fmt_arg.splits)
  have "int_to_dec i @ fill qs bs \<noteq> []" by (simp add: int_to_dec_nonempty)
  moreover have "hd (int_to_dec i @ fill qs bs) \<noteq> c" using 5 int_to_dec_hd [of i] by auto
  ultimately show ?case using as by (auto split: list.splits)
qed (auto split: list.splits piece.splits)

lemma c_scan_apart:
  "apart (pieces f) (pieces g) \<Longrightarrow> delimited (pieces f) \<Longrightarrow> delimited (pieces g) \<Longrightarrow>
    args_fit (pieces g) as \<Longrightarrow> c_scan f (c_format g as) = None"
  by (simp add: c_scan_def c_format_def scan_apart)

end
