(* ===== verification/Sql_Text.thy ===== *)
theory Sql_Text
  imports C_Format
begin

text \<open>
  The SQL texts of the DAO layer (\<open>src/server/dao_vfs.c\<close>). Each format string is the one of the
  C code, character for character; where it ends in a single quote the quote is appended as
  \<open>sq\<close>. The datatype \<open>stmt\<close> names the statements they are meant to denote, \<open>render\<close> is the text
  the code produces for one, and \<open>decode\<close> reads a text back. For arguments without quotes
  \<open>decode\<close> inverts \<open>render\<close>; with quotes it cannot, because \<open>render\<close> is not injective.
\<close>

section \<open>The format strings\<close>

definition fmt_login :: string where
  "fmt_login = ''SELECT id, password_hash, salt FROM users WHERE username='%s'' @ [sq]"
definition fmt_user :: string where
  "fmt_user = ''SELECT id FROM users WHERE username='%s'' @ [sq]"
definition fmt_ins_user :: string where
  "fmt_ins_user = ''INSERT INTO users (username, password_hash, salt) VALUES ('%s', '%s', '%s')''"
definition fmt_root :: string where
  "fmt_root = ''SELECT id FROM paths WHERE user_id=%d AND parent_id IS NULL AND type='d'' @ [sq]"
definition fmt_parent :: string where
  "fmt_parent = ''SELECT parent_id FROM paths WHERE id=%d AND tomb=0''"
definition fmt_ins_root :: string where
  "fmt_ins_root = ''INSERT INTO paths (user_id, parent_id, name, path, type) VALUES (%d, NULL, '/', '/', 'd')''"
definition fmt_find_any :: string where
  "fmt_find_any = ''SELECT id FROM paths WHERE parent_id=%d AND name='%s' AND tomb=0''"
definition fmt_find_dir :: string where
  "fmt_find_dir = ''SELECT id FROM paths WHERE parent_id=%d AND name='%s' AND type='d' AND tomb=0''"
definition fmt_find_file :: string where
  "fmt_find_file = ''SELECT id FROM paths WHERE parent_id=%d AND name='%s' AND type='f' AND tomb=0''"
definition fmt_list :: string where
  "fmt_list = ''SELECT name FROM paths WHERE user_id=%d AND parent_id=%d AND tomb=0 ORDER BY type DESC, name''"
definition fmt_ins_dir :: string where
  "fmt_ins_dir = ''INSERT INTO paths (user_id, parent_id, name, path, type) VALUES (%d, %d, '%s', '%s', 'd')''"
definition fmt_tomb :: string where
  "fmt_tomb = ''UPDATE paths SET tomb=1 WHERE id=%d AND user_id=%d''"
definition fmt_file_info :: string where
  "fmt_file_info = ''SELECT f.sha256sum, f.size FROM files f '' @
     ''JOIN paths p ON f.id = p.file_id '' @ ''WHERE p.id=%d AND p.user_id=%d AND p.type='f'' @ [sq]"
definition fmt_file :: string where
  "fmt_file = ''SELECT id FROM files WHERE sha256sum='%s'' @ [sq]"
definition fmt_ins_file :: string where
  "fmt_ins_file = ''INSERT INTO files (sha256sum, size) VALUES ('%s', %lu)''"
definition fmt_ins_path :: string where
  "fmt_ins_path = ''INSERT INTO paths (user_id, parent_id, name, path, type, file_id) VALUES (%d, %d, '%s', '%s', 'f', %d)''"
definition fmt_ins_xfer :: string where
  "fmt_ins_xfer = ''INSERT INTO path_to_file (path_id, file_id, sequence, total_blocks, transfer_status) '' @
     ''VALUES (%d, %d, 0, %d, '%s') '' @
     ''ON DUPLICATE KEY UPDATE sequence=0, total_blocks=%d, transfer_status='%s', updated_at=CURRENT_TIMESTAMP''"
definition fmt_sel_seq :: string where
  "fmt_sel_seq = ''SELECT sequence FROM path_to_file WHERE path_id=%d''"
definition fmt_upd_seq :: string where
  "fmt_upd_seq = ''UPDATE path_to_file SET sequence=%d, updated_at=CURRENT_TIMESTAMP WHERE path_id=%d''"
definition fmt_complete :: string where
  "fmt_complete = ''UPDATE path_to_file SET transfer_status='completed', updated_at=CURRENT_TIMESTAMP WHERE path_id=%d''"
definition fmt_cancel :: string where
  "fmt_cancel = ''UPDATE path_to_file SET transfer_status='cancelled', updated_at=CURRENT_TIMESTAMP WHERE path_id=%d''"

lemmas fmt_defs = fmt_login_def fmt_user_def fmt_ins_user_def fmt_root_def fmt_parent_def
  fmt_ins_root_def fmt_find_any_def fmt_find_dir_def fmt_find_file_def fmt_list_def fmt_ins_dir_def
  fmt_tomb_def fmt_file_info_def fmt_file_def fmt_ins_file_def fmt_ins_path_def fmt_ins_xfer_def
  fmt_sel_seq_def fmt_upd_seq_def fmt_complete_def fmt_cancel_def

section \<open>Statements\<close>

datatype stmt =
    Sel_login string
  | Sel_user string
  | Ins_user string string string
  | Sel_root int
  | Sel_parent int
  | Ins_root int
  | Find_any int string
  | Find_dir int string
  | Find_file int string
  | List_dir int int
  | Ins_dir int int string string
  | Set_tomb int int
  | File_info int int
  | Sel_file string
  | Ins_file string nat
  | Ins_path int int string string int
  | Ins_xfer int int int string
  | Sel_seq int
  | Upd_seq int int
  | Complete_xfer int
  | Cancel_xfer int

fun stmt_fmt :: "stmt \<Rightarrow> string" where
  "stmt_fmt (Sel_login u) = fmt_login"
| "stmt_fmt (Sel_user u) = fmt_user"
| "stmt_fmt (Ins_user u h s) = fmt_ins_user"
| "stmt_fmt (Sel_root i) = fmt_root"
| "stmt_fmt (Sel_parent i) = fmt_parent"
| "stmt_fmt (Ins_root i) = fmt_ins_root"
| "stmt_fmt (Find_any i n) = fmt_find_any"
| "stmt_fmt (Find_dir i n) = fmt_find_dir"
| "stmt_fmt (Find_file i n) = fmt_find_file"
| "stmt_fmt (List_dir i j) = fmt_list"
| "stmt_fmt (Ins_dir i j n p) = fmt_ins_dir"
| "stmt_fmt (Set_tomb i j) = fmt_tomb"
| "stmt_fmt (File_info i j) = fmt_file_info"
| "stmt_fmt (Sel_file h) = fmt_file"
| "stmt_fmt (Ins_file h n) = fmt_ins_file"
| "stmt_fmt (Ins_path i j n p f) = fmt_ins_path"
| "stmt_fmt (Ins_xfer p f t s) = fmt_ins_xfer"
| "stmt_fmt (Sel_seq i) = fmt_sel_seq"
| "stmt_fmt (Upd_seq s i) = fmt_upd_seq"
| "stmt_fmt (Complete_xfer i) = fmt_complete"
| "stmt_fmt (Cancel_xfer i) = fmt_cancel"

fun stmt_args :: "stmt \<Rightarrow> fmt_arg list" where
  "stmt_args (Sel_login u) = [Fs u]"
| "stmt_args (Sel_user u) = [Fs u]"
| "stmt_args (Ins_user u h s) = [Fs u, Fs h, Fs s]"
| "stmt_args (Sel_root i) = [Fd i]"
| "stmt_args (Sel_parent i) = [Fd i]"
| "stmt_args (Ins_root i) = [Fd i]"
| "stmt_args (Find_any i n) = [Fd i, Fs n]"
| "stmt_args (Find_dir i n) = [Fd i, Fs n]"
| "stmt_args (Find_file i n) = [Fd i, Fs n]"
| "stmt_args (List_dir i j) = [Fd i, Fd j]"
| "stmt_args (Ins_dir i j n p) = [Fd i, Fd j, Fs n, Fs p]"
| "stmt_args (Set_tomb i j) = [Fd i, Fd j]"
| "stmt_args (File_info i j) = [Fd i, Fd j]"
| "stmt_args (Sel_file h) = [Fs h]"
| "stmt_args (Ins_file h n) = [Fs h, Fu n]"
| "stmt_args (Ins_path i j n p f) = [Fd i, Fd j, Fs n, Fs p, Fd f]"
| "stmt_args (Ins_xfer p f t s) = [Fd p, Fd f, Fd t, Fs s, Fd t, Fs s]"
| "stmt_args (Sel_seq i) = [Fd i]"
| "stmt_args (Upd_seq s i) = [Fd s, Fd i]"
| "stmt_args (Complete_xfer i) = [Fd i]"
| "stmt_args (Cancel_xfer i) = [Fd i]"

definition render :: "stmt \<Rightarrow> string" where
  "render st = c_format (stmt_fmt st) (stmt_args st)"

text \<open>What an argument must not contain for the text to mean the statement: a single quote or a
  backslash, which end or change a quoted literal, or a NUL.\<close>

definition clean_text :: "string \<Rightarrow> bool" where
  "clean_text s \<longleftrightarrow> sq \<notin> set s \<and> CHR 0x5C \<notin> set s \<and> NUL \<notin> set s"

fun clean_arg :: "fmt_arg \<Rightarrow> bool" where
  "clean_arg (Fs s) = clean_text s"
| "clean_arg a = True"

definition clean_stmt :: "stmt \<Rightarrow> bool" where
  "clean_stmt st = list_all clean_arg (stmt_args st)"

section \<open>Reading a text back\<close>

fun build :: "stmt \<Rightarrow> fmt_arg list \<Rightarrow> stmt option" where
  "build (Sel_login _) as = (case as of [Fs u] \<Rightarrow> Some (Sel_login u) | _ \<Rightarrow> None)"
| "build (Sel_user _) as = (case as of [Fs u] \<Rightarrow> Some (Sel_user u) | _ \<Rightarrow> None)"
| "build (Ins_user _ _ _) as = (case as of [Fs u, Fs h, Fs s] \<Rightarrow> Some (Ins_user u h s) | _ \<Rightarrow> None)"
| "build (Sel_root _) as = (case as of [Fd i] \<Rightarrow> Some (Sel_root i) | _ \<Rightarrow> None)"
| "build (Sel_parent _) as = (case as of [Fd i] \<Rightarrow> Some (Sel_parent i) | _ \<Rightarrow> None)"
| "build (Ins_root _) as = (case as of [Fd i] \<Rightarrow> Some (Ins_root i) | _ \<Rightarrow> None)"
| "build (Find_any _ _) as = (case as of [Fd i, Fs n] \<Rightarrow> Some (Find_any i n) | _ \<Rightarrow> None)"
| "build (Find_dir _ _) as = (case as of [Fd i, Fs n] \<Rightarrow> Some (Find_dir i n) | _ \<Rightarrow> None)"
| "build (Find_file _ _) as = (case as of [Fd i, Fs n] \<Rightarrow> Some (Find_file i n) | _ \<Rightarrow> None)"
| "build (List_dir _ _) as = (case as of [Fd i, Fd j] \<Rightarrow> Some (List_dir i j) | _ \<Rightarrow> None)"
| "build (Ins_dir _ _ _ _) as = (case as of [Fd i, Fd j, Fs n, Fs p] \<Rightarrow> Some (Ins_dir i j n p) | _ \<Rightarrow> None)"
| "build (Set_tomb _ _) as = (case as of [Fd i, Fd j] \<Rightarrow> Some (Set_tomb i j) | _ \<Rightarrow> None)"
| "build (File_info _ _) as = (case as of [Fd i, Fd j] \<Rightarrow> Some (File_info i j) | _ \<Rightarrow> None)"
| "build (Sel_file _) as = (case as of [Fs h] \<Rightarrow> Some (Sel_file h) | _ \<Rightarrow> None)"
| "build (Ins_file _ _) as = (case as of [Fs h, Fu n] \<Rightarrow> Some (Ins_file h n) | _ \<Rightarrow> None)"
| "build (Ins_path _ _ _ _ _) as = (case as of [Fd i, Fd j, Fs n, Fs p, Fd f] \<Rightarrow> Some (Ins_path i j n p f) | _ \<Rightarrow> None)"
| "build (Ins_xfer _ _ _ _) as = (case as of [Fd p, Fd f, Fd t, Fs s, Fd t', Fs s'] \<Rightarrow> (if t = t' \<and> s = s' then Some (Ins_xfer p f t s) else None) | _ \<Rightarrow> None)"
| "build (Sel_seq _) as = (case as of [Fd i] \<Rightarrow> Some (Sel_seq i) | _ \<Rightarrow> None)"
| "build (Upd_seq _ _) as = (case as of [Fd s, Fd i] \<Rightarrow> Some (Upd_seq s i) | _ \<Rightarrow> None)"
| "build (Complete_xfer _) as = (case as of [Fd i] \<Rightarrow> Some (Complete_xfer i) | _ \<Rightarrow> None)"
| "build (Cancel_xfer _) as = (case as of [Fd i] \<Rightarrow> Some (Cancel_xfer i) | _ \<Rightarrow> None)"

text \<open>One statement of each kind, as a template.\<close>

definition templates :: "stmt list" where
  "templates =
     [Sel_login [], Sel_user [], Ins_user [] [] [], Sel_root 0, Sel_parent 0, Ins_root 0,
      Find_any 0 [], Find_dir 0 [], Find_file 0 [], List_dir 0 0, Ins_dir 0 0 [] [], Set_tomb 0 0,
      File_info 0 0, Sel_file [], Ins_file [] 0, Ins_path 0 0 [] [] 0, Ins_xfer 0 0 0 [], Sel_seq 0,
      Upd_seq 0 0, Complete_xfer 0, Cancel_xfer 0]"

fun first_some :: "('a \<Rightarrow> 'b option) \<Rightarrow> 'a list \<Rightarrow> 'b option" where
  "first_some f [] = None"
| "first_some f (x # xs) = (case f x of None \<Rightarrow> first_some f xs | Some y \<Rightarrow> Some y)"

definition decode :: "string \<Rightarrow> stmt option" where
  "decode s = first_some (\<lambda>t. Option.bind (c_scan (stmt_fmt t) s) (build t)) templates"

lemma formats_delimited: "list_all (\<lambda>t. delimited (pieces (stmt_fmt t))) templates"
  by code_simp

lemma formats_apart: "sorted_wrt apart (map (\<lambda>t. pieces (stmt_fmt t)) templates)"
  by code_simp

lemma sorted_wrt_pair:
  "sorted_wrt R (map f xs) \<Longrightarrow> (\<And>a b. R a b \<Longrightarrow> R b a) \<Longrightarrow> x \<in> set xs \<Longrightarrow> y \<in> set xs \<Longrightarrow> x \<noteq> y \<Longrightarrow> R (f x) (f y)"
  by (induction xs) auto

lemma templates_apart:
  "t \<in> set templates \<Longrightarrow> u \<in> set templates \<Longrightarrow> t \<noteq> u \<Longrightarrow> apart (pieces (stmt_fmt t)) (pieces (stmt_fmt u))"
  using sorted_wrt_pair [OF formats_apart] apart_sym by blast

lemma template_for:
  "\<exists>t. t \<in> set templates \<and> stmt_fmt t = stmt_fmt st \<and> build t (stmt_args st) = Some st"
proof -
  have "\<exists>t \<in> set templates. stmt_fmt t = stmt_fmt st \<and> build t (stmt_args st) = Some st"
    by (cases st) (simp_all add: templates_def)
  then show ?thesis by blast
qed

lemma first_some_only:
  "t \<in> set xs \<Longrightarrow> f t = Some y \<Longrightarrow> (\<And>u. u \<in> set xs \<Longrightarrow> u \<noteq> t \<Longrightarrow> f u = None) \<Longrightarrow> first_some f xs = Some y"
proof (induction xs)
  case (Cons a xs)
  show ?case
  proof (cases "a = t")
    case False
    then have "f a = None" using Cons.prems(3) [of a] by simp
    then show ?thesis using Cons False by simp
  qed (simp add: Cons.prems(2))
qed simp

lemma args_fit_stmt: "clean_stmt st \<Longrightarrow> args_fit (pieces (stmt_fmt st)) (stmt_args st)"
  by (cases st) (simp_all add: clean_stmt_def clean_text_def fmt_defs)

text \<open>A text rendered from clean arguments means the statement it was rendered from, and no other.\<close>

lemma decode_render: "clean_stmt st \<Longrightarrow> decode (render st) = Some st"
proof -
  assume cl: "clean_stmt st"
  obtain t where t: "t \<in> set templates" "stmt_fmt t = stmt_fmt st" "build t (stmt_args st) = Some st"
    using template_for by blast
  have dl: "u \<in> set templates \<Longrightarrow> delimited (pieces (stmt_fmt u))" for u
    using formats_delimited by (auto simp: list_all_iff)
  have fit: "args_fit (pieces (stmt_fmt t)) (stmt_args st)" using args_fit_stmt [OF cl] t(2) by simp
  have "c_scan (stmt_fmt u) (render st) = None" if u: "u \<in> set templates" "u \<noteq> t" for u
    using c_scan_apart [OF templates_apart [OF u(1) t(1) u(2)] dl [OF u(1)] dl [OF t(1)] fit]
    by (simp add: render_def t(2))
  moreover have "c_scan (stmt_fmt t) (render st) = Some (stmt_args st)"
    using c_scan_format [OF dl [OF t(1)] fit] by (simp add: render_def t(2))
  ultimately show ?thesis unfolding decode_def
    by (intro first_some_only [OF t(1)]) (simp_all add: t(3))
qed

lemma render_inj: "clean_stmt a \<Longrightarrow> clean_stmt b \<Longrightarrow> render a = render b \<Longrightarrow> a = b"
  using decode_render by (metis option.inject)

end
