(* ===== verification/Sql_Tables.thy ===== *)
theory Sql_Tables
  imports Sql_Text Sha256_Utils "HOL-Library.Multiset"
begin

text \<open>
  The database the DAO layer talks to. The tables are those of \<open>docs/database_init.sql\<close>: one record
  per row, one list per table, time stamps left out. The server and its client library are not part
  of the program: \<open>dao_env\<close> holds the calls the code makes of them, and the locale \<open>sql_service\<close>
  says what their documentation promises for the statements of \<open>Sql_Text\<close>: a statement fails and
  changes nothing, or it has the effect written here. \<open>sql_available\<close> adds that a statement which
  violates no constraint does not fail. The last section is a reference database, an executable
  one, on which both are interpreted.

  Column values are compared under the collation of the schema, \<open>utf8mb4_unicode_ci\<close>: \<open>key\<close> maps
  a text to what the comparison sees of it, and is a parameter.
\<close>

section \<open>Tables\<close>

record user_row =
  u_id :: int
  u_name :: string
  u_hash :: string
  u_salt :: string

record file_row =
  f_id :: int
  f_sha :: string
  f_size :: nat

record path_row =
  p_id :: int
  p_user :: int
  p_parent :: "int option"
  p_name :: string
  p_path :: string
  p_type :: char
  p_file :: "int option"
  p_tomb :: bool

record xfer_row =
  x_path :: int
  x_file :: int
  x_seq :: int
  x_total :: int
  x_status :: string

record tables =
  t_users :: "user_row list"
  t_files :: "file_row list"
  t_paths :: "path_row list"
  t_xfers :: "xfer_row list"

definition no_tables :: tables where
  "no_tables = \<lparr>t_users = [], t_files = [], t_paths = [], t_xfers = []\<rparr>"

section \<open>The meaning of the statements\<close>

text \<open>A row of a result is a list of cells; a cell is a text or SQL's NULL.\<close>

type_synonym cells = "string option list"

fun is_select :: "stmt \<Rightarrow> bool" where
  "is_select (Sel_login u) = True"
| "is_select (Sel_user u) = True"
| "is_select (Sel_root i) = True"
| "is_select (Sel_parent i) = True"
| "is_select (Find_any i n) = True"
| "is_select (Find_dir i n) = True"
| "is_select (Find_file i n) = True"
| "is_select (List_dir i j) = True"
| "is_select (File_info i j) = True"
| "is_select (Sel_file h) = True"
| "is_select (Sel_seq i) = True"
| "is_select st = False"

definition id_cell :: "int \<Rightarrow> cells" where
  "id_cell i = [Some (int_to_dec i)]"

definition child_of :: "(string \<Rightarrow> string) \<Rightarrow> int \<Rightarrow> string \<Rightarrow> path_row \<Rightarrow> bool" where
  "child_of key i n r \<longleftrightarrow> p_parent r = Some i \<and> key (p_name r) = key n \<and> \<not> p_tomb r"

fun select_rows :: "(string \<Rightarrow> string) \<Rightarrow> stmt \<Rightarrow> tables \<Rightarrow> cells list" where
  "select_rows key (Sel_login u) t =
     [[Some (int_to_dec (u_id r)), Some (u_hash r), Some (u_salt r)]. r \<leftarrow> t_users t, key (u_name r) = key u]"
| "select_rows key (Sel_user u) t = [id_cell (u_id r). r \<leftarrow> t_users t, key (u_name r) = key u]"
| "select_rows key (Sel_root i) t =
     [id_cell (p_id r). r \<leftarrow> t_paths t, p_user r = i \<and> p_parent r = None \<and> p_type r = CHR ''d'']"
| "select_rows key (Sel_parent i) t =
     [[map_option int_to_dec (p_parent r)]. r \<leftarrow> t_paths t, p_id r = i \<and> \<not> p_tomb r]"
| "select_rows key (Find_any i n) t = [id_cell (p_id r). r \<leftarrow> t_paths t, child_of key i n r]"
| "select_rows key (Find_dir i n) t =
     [id_cell (p_id r). r \<leftarrow> t_paths t, child_of key i n r \<and> p_type r = CHR ''d'']"
| "select_rows key (Find_file i n) t =
     [id_cell (p_id r). r \<leftarrow> t_paths t, child_of key i n r \<and> p_type r = CHR ''f'']"
| "select_rows key (List_dir i j) t =
     [[Some (p_name r)]. r \<leftarrow> t_paths t, p_user r = i \<and> p_parent r = Some j \<and> \<not> p_tomb r]"
| "select_rows key (File_info i j) t =
     [[Some (f_sha f), Some (nat_to_dec (f_size f))]. f \<leftarrow> t_files t, p \<leftarrow> t_paths t,
        p_file p = Some (f_id f) \<and> p_id p = i \<and> p_user p = j \<and> p_type p = CHR ''f'']"
| "select_rows key (Sel_file h) t = [id_cell (f_id f). f \<leftarrow> t_files t, key (f_sha f) = key h]"
| "select_rows key (Sel_seq i) t = [id_cell (x_seq x). x \<leftarrow> t_xfers t, x_path x = i]"
| "select_rows key st t = []"

text \<open>The constraints of the schema: UNIQUE keys, foreign keys, and the range of the ids. A UNIQUE
  key does not bind rows with a NULL in it. The columns written have these widths.\<close>

definition new_path :: "int \<Rightarrow> int option \<Rightarrow> string \<Rightarrow> string \<Rightarrow> char \<Rightarrow> int option \<Rightarrow> int \<Rightarrow> path_row" where
  "new_path usr par name path ty fl i =
     \<lparr>p_id = i, p_user = usr, p_parent = par, p_name = name, p_path = path, p_type = ty,
      p_file = fl, p_tomb = False\<rparr>"

definition ids_left :: "int list \<Rightarrow> bool" where
  "ids_left is \<longleftrightarrow> list_all (\<lambda>i. i < 2147483647) is"

definition path_violates ::
    "(string \<Rightarrow> string) \<Rightarrow> tables \<Rightarrow> int \<Rightarrow> int option \<Rightarrow> string \<Rightarrow> int option \<Rightarrow> bool" where
  "path_violates key t usr par name fl \<longleftrightarrow>
     (\<exists>r\<in>set (t_paths t). par \<noteq> None \<and> p_user r = usr \<and> p_parent r = par \<and> key (p_name r) = key name) \<or>
     usr \<notin> u_id ` set (t_users t) \<or>
     (par \<noteq> None \<and> the par \<notin> p_id ` set (t_paths t)) \<or>
     (fl \<noteq> None \<and> the fl \<notin> f_id ` set (t_files t)) \<or>
     \<not> ids_left (map p_id (t_paths t))"

fun violates :: "(string \<Rightarrow> string) \<Rightarrow> stmt \<Rightarrow> tables \<Rightarrow> bool" where
  "violates key (Ins_user u h s) t \<longleftrightarrow>
     (\<exists>r\<in>set (t_users t). key (u_name r) = key u) \<or> \<not> ids_left (map u_id (t_users t))"
| "violates key (Ins_root i) t \<longleftrightarrow> path_violates key t i None ''/'' None"
| "violates key (Ins_dir i j n p) t \<longleftrightarrow> path_violates key t i (Some j) n None"
| "violates key (Ins_path i j n p f) t \<longleftrightarrow> path_violates key t i (Some j) n (Some f)"
| "violates key (Ins_file h n) t \<longleftrightarrow>
     (\<exists>f\<in>set (t_files t). key (f_sha f) = key h) \<or> \<not> ids_left (map f_id (t_files t))"
| "violates key (Ins_xfer p f n s) t \<longleftrightarrow>
     p \<notin> p_id ` set (t_paths t) \<or> f \<notin> f_id ` set (t_files t)"
| "violates key st t \<longleftrightarrow> False"

fun stmt_fits :: "stmt \<Rightarrow> bool" where
  "stmt_fits (Ins_user u h s) \<longleftrightarrow> length u \<le> 64 \<and> length h \<le> 64 \<and> length s \<le> 32"
| "stmt_fits (Ins_dir i j n p) \<longleftrightarrow> length n \<le> 255 \<and> length p \<le> 512"
| "stmt_fits (Ins_path i j n p f) \<longleftrightarrow> length n \<le> 255 \<and> length p \<le> 512"
| "stmt_fits (Ins_file h n) \<longleftrightarrow> length h \<le> 64 \<and> (h = [] \<or> last h \<noteq> CHR '' '') \<and> n < 2 ^ 63"
| "stmt_fits (Ins_xfer p f n s) \<longleftrightarrow> s \<in> {''uploading'', ''downloading'', ''completed'', ''cancelled''}"
| "stmt_fits st \<longleftrightarrow> True"

text \<open>The tables after a statement that changes them; \<open>i\<close> is the id the database gave a new row.\<close>

definition set_xfer :: "int \<Rightarrow> (xfer_row \<Rightarrow> xfer_row) \<Rightarrow> tables \<Rightarrow> tables" where
  "set_xfer p f t = t\<lparr>t_xfers := map (\<lambda>x. if x_path x = p then f x else x) (t_xfers t)\<rparr>"

fun apply_stmt :: "stmt \<Rightarrow> int \<Rightarrow> tables \<Rightarrow> tables" where
  "apply_stmt (Ins_user u h s) i t =
     t\<lparr>t_users := t_users t @ [\<lparr>u_id = i, u_name = u, u_hash = h, u_salt = s\<rparr>]\<rparr>"
| "apply_stmt (Ins_root usr) i t =
     t\<lparr>t_paths := t_paths t @ [new_path usr None ''/'' ''/'' CHR ''d'' None i]\<rparr>"
| "apply_stmt (Ins_dir usr par n p) i t =
     t\<lparr>t_paths := t_paths t @ [new_path usr (Some par) n p CHR ''d'' None i]\<rparr>"
| "apply_stmt (Ins_path usr par n p f) i t =
     t\<lparr>t_paths := t_paths t @ [new_path usr (Some par) n p CHR ''f'' (Some f) i]\<rparr>"
| "apply_stmt (Ins_file h n) i t =
     t\<lparr>t_files := t_files t @ [\<lparr>f_id = i, f_sha = h, f_size = n\<rparr>]\<rparr>"
| "apply_stmt (Set_tomb p usr) i t =
     t\<lparr>t_paths := map (\<lambda>r. if p_id r = p \<and> p_user r = usr then r\<lparr>p_tomb := True\<rparr> else r) (t_paths t)\<rparr>"
| "apply_stmt (Ins_xfer p f n s) i t =
     (if \<exists>x\<in>set (t_xfers t). x_path x = p \<and> x_file x = f
      then t\<lparr>t_xfers := map (\<lambda>x. if x_path x = p \<and> x_file x = f
                               then x\<lparr>x_seq := 0, x_total := n, x_status := s\<rparr> else x) (t_xfers t)\<rparr>
      else t\<lparr>t_xfers := t_xfers t @ [\<lparr>x_path = p, x_file = f, x_seq = 0, x_total = n, x_status = s\<rparr>]\<rparr>)"
| "apply_stmt (Upd_seq s p) i t = set_xfer p (\<lambda>x. x\<lparr>x_seq := s\<rparr>) t"
| "apply_stmt (Complete_xfer p) i t = set_xfer p (\<lambda>x. x\<lparr>x_status := ''completed''\<rparr>) t"
| "apply_stmt (Cancel_xfer p) i t = set_xfer p (\<lambda>x. x\<lparr>x_status := ''cancelled''\<rparr>) t"
| "apply_stmt st i t = t"

fun used_ids :: "stmt \<Rightarrow> tables \<Rightarrow> int list option" where
  "used_ids (Ins_user u h s) t = Some (map u_id (t_users t))"
| "used_ids (Ins_root i) t = Some (map p_id (t_paths t))"
| "used_ids (Ins_dir i j n p) t = Some (map p_id (t_paths t))"
| "used_ids (Ins_path i j n p f) t = Some (map p_id (t_paths t))"
| "used_ids (Ins_file h n) t = Some (map f_id (t_files t))"
| "used_ids st t = None"

section \<open>Replies\<close>

text \<open>The reply of one \<open>mysql_query\<close>: an error, or what \<open>mysql_store_result\<close> (NULL or the rows)
  and \<open>mysql_insert_id\<close> then return.\<close>

datatype my_reply = Query_error | Query_ok "cells list option" int

definition stmt_ok :: "(string \<Rightarrow> string) \<Rightarrow> stmt \<Rightarrow> tables \<Rightarrow> my_reply \<Rightarrow> tables \<Rightarrow> bool" where
  "stmt_ok key st t rep t' \<longleftrightarrow>
     (case rep of
        Query_error \<Rightarrow> t' = t
      | Query_ok rows i \<Rightarrow>
          if is_select st
          then t' = t \<and> (case rows of None \<Rightarrow> True | Some rs \<Rightarrow> mset rs = mset (select_rows key st t))
          else \<not> violates key st t \<and> t' = apply_stmt st i t \<and>
               (case used_ids st t of None \<Rightarrow> True | Some is \<Rightarrow> i \<notin> set is \<and> 0 < i \<and> i \<le> 2147483647))"

text \<open>What the code asks of the world: a statement on a connection, \<open>time\<close>, and the calls
  \<open>sha256_hash\<close> makes.\<close>

record 'd dao_env =
  my_query :: "nat \<Rightarrow> string \<Rightarrow> 'd \<Rightarrow> my_reply \<times> 'd"
  wall_clock :: "'d \<Rightarrow> int \<times> 'd"
  sha_calls :: "'d \<Rightarrow> sha_env \<times> 'd"

locale sql_service =
  fixes env :: "'d dao_env" and tbl :: "'d \<Rightarrow> tables" and key digest :: "string \<Rightarrow> string"
  assumes reply: "clean_stmt st \<Longrightarrow> stmt_fits st \<Longrightarrow> my_query env c (render st) d = (rep, d') \<Longrightarrow>
      stmt_ok key st (tbl d) rep (tbl d')"
    and clock_tbl: "wall_clock env d = (n, d') \<Longrightarrow> tbl d' = tbl d \<and> 0 \<le> n"
    and sha_tbl: "sha_calls env d = (s, d') \<Longrightarrow> tbl d' = tbl d"
    and sha_sound: "sha_calls env d = (s, d') \<Longrightarrow> sha256_hash s x = (r, Some h, fs) \<Longrightarrow> h = digest x"
    and digest_hex: "length (digest x) = 64 \<and> list_all hex_digit (digest x)"

locale sql_available = sql_service env tbl key digest
  for env :: "'d dao_env" and tbl :: "'d \<Rightarrow> tables" and key digest :: "string \<Rightarrow> string" +
  assumes answers: "clean_stmt st \<Longrightarrow> stmt_fits st \<Longrightarrow> \<not> violates key st (tbl d) \<Longrightarrow>
      my_query env c (render st) d = (rep, d') \<Longrightarrow>
      \<exists>rows i. rep = Query_ok rows i \<and> (is_select st \<longrightarrow> rows \<noteq> None)"
    and sha_works: "sha_calls env d = (s, d') \<Longrightarrow> sha_tool_ok s digest"

section \<open>Well-formed tables\<close>

text \<open>What the schema guarantees of the contents: ids are unique and fit an \<open>INT\<close>, texts fit their
  columns, a name has one row per parent and user, a user name one row, a digest one row.\<close>

definition ids_ok :: "int list \<Rightarrow> bool" where
  "ids_ok is \<longleftrightarrow> distinct is \<and> list_all (\<lambda>i. 0 < i \<and> i \<le> 2147483647) is"

definition tables_ok :: "(string \<Rightarrow> string) \<Rightarrow> tables \<Rightarrow> bool" where
  "tables_ok key t \<longleftrightarrow>
     ids_ok (map u_id (t_users t)) \<and> ids_ok (map f_id (t_files t)) \<and> ids_ok (map p_id (t_paths t)) \<and>
     distinct (map (\<lambda>r. key (u_name r)) (t_users t)) \<and>
     distinct (map (\<lambda>f. key (f_sha f)) (t_files t)) \<and>
     distinct (map (\<lambda>r. (p_user r, p_parent r, key (p_name r))) (filter (\<lambda>r. p_parent r \<noteq> None) (t_paths t))) \<and>
     (\<forall>r\<in>set (t_users t). length (u_name r) \<le> 64 \<and> length (u_hash r) \<le> 64 \<and> length (u_salt r) \<le> 32) \<and>
     (\<forall>f\<in>set (t_files t). length (f_sha f) \<le> 64 \<and> f_size f < 2 ^ 63) \<and>
     (\<forall>r\<in>set (t_paths t). length (p_name r) \<le> 255 \<and> p_user r \<in> u_id ` set (t_users t) \<and>
        (case p_parent r of None \<Rightarrow> True | Some i \<Rightarrow> i \<in> p_id ` set (t_paths t)) \<and>
        (case p_file r of None \<Rightarrow> True | Some i \<Rightarrow> i \<in> f_id ` set (t_files t)))"

lemma tables_ok_empty: "tables_ok key no_tables"
  by (simp add: tables_ok_def ids_ok_def no_tables_def)

lemma ids_ok_snoc: "ids_ok is \<Longrightarrow> i \<notin> set is \<Longrightarrow> 0 < i \<Longrightarrow> i \<le> 2147483647 \<Longrightarrow> ids_ok (is @ [i])"
  by (simp add: ids_ok_def)

text \<open>Every statement keeps the tables well formed.\<close>

lemma tables_ok_insert_path:
  assumes "tables_ok key t" "\<not> path_violates key t usr par name fl"
    "i \<notin> set (map p_id (t_paths t))" "0 < i" "i \<le> 2147483647" "length name \<le> 255"
  shows "tables_ok key (t\<lparr>t_paths := t_paths t @ [new_path usr par name path ty fl i]\<rparr>)"
  using assms
  by (auto simp: tables_ok_def path_violates_def new_path_def ids_ok_snoc split: option.splits)

text \<open>An update that touches nothing but the tombstone leaves all the constraints as they are.\<close>

lemma map_filter_upd:
  "(\<And>x. g (f x) = g x) \<Longrightarrow> (\<And>x. Q (f x) = Q x) \<Longrightarrow> map g (filter Q (map f xs)) = map g (filter Q xs)"
  by (induction xs) auto

definition tombed :: "(path_row \<Rightarrow> bool) \<Rightarrow> path_row \<Rightarrow> path_row" where
  "tombed P r = (if P r then r\<lparr>p_tomb := True\<rparr> else r)"

lemma tombed_simps [simp]:
  "p_id (tombed P r) = p_id r" "p_user (tombed P r) = p_user r" "p_parent (tombed P r) = p_parent r"
  "p_name (tombed P r) = p_name r" "p_file (tombed P r) = p_file r" "p_type (tombed P r) = p_type r"
  "p_path (tombed P r) = p_path r" "p_tomb (tombed P r) \<longleftrightarrow> P r \<or> p_tomb r"
  by (simp_all add: tombed_def)

lemma tables_ok_tomb:
  assumes "tables_ok key t"
  shows "tables_ok key (t\<lparr>t_paths := map (tombed P) (t_paths t)\<rparr>)"
proof -
  have "map p_id (map (tombed P) rs) = map p_id rs" for rs by simp
  moreover have "map (\<lambda>r. (p_user r, p_parent r, key (p_name r))) (filter (\<lambda>r. p_parent r \<noteq> None) (map (tombed P) rs))
      = map (\<lambda>r. (p_user r, p_parent r, key (p_name r))) (filter (\<lambda>r. p_parent r \<noteq> None) rs)" for rs
    by (rule map_filter_upd) simp_all
  moreover have "p_id ` tombed P ` A = p_id ` A" for A by (simp add: image_image)
  ultimately show ?thesis using assms unfolding tables_ok_def by (simp del: map_map cong: option.case_cong)
qed

lemma tables_ok_xfers [simp]: "tables_ok key (t\<lparr>t_xfers := xs\<rparr>) = tables_ok key t"
  by (simp add: tables_ok_def cong: option.case_cong)

lemma tables_ok_apply:
  assumes "tables_ok key t" "\<not> violates key st t" "stmt_fits st"
    "\<And>is. used_ids st t = Some is \<Longrightarrow> i \<notin> set is \<and> 0 < i \<and> i \<le> 2147483647"
  shows "tables_ok key (apply_stmt st i t)"
proof (cases st)
  case (Ins_user u h s)
  with assms show ?thesis by (auto simp: tables_ok_def ids_ok_snoc split: option.splits)
next
  case (Ins_root u)
  with assms tables_ok_insert_path [of key t u None "''/''" None i "''/''" "CHR ''d''"] show ?thesis by simp
next
  case (Ins_dir u j n p)
  with assms tables_ok_insert_path [of key t u "Some j" n None i p "CHR ''d''"] show ?thesis by simp
next
  case (Ins_path u j n p f)
  with assms tables_ok_insert_path [of key t u "Some j" n "Some f" i p "CHR ''f''"] show ?thesis by simp
next
  case (Ins_file h n)
  with assms show ?thesis by (auto simp: tables_ok_def ids_ok_snoc split: option.splits)
next
  case (Set_tomb p u)
  have "apply_stmt st i t = t\<lparr>t_paths := map (tombed (\<lambda>r. p_id r = p \<and> p_user r = u)) (t_paths t)\<rparr>"
    by (simp add: Set_tomb tombed_def [abs_def])
  with tables_ok_tomb [OF assms(1)] show ?thesis by simp
qed (use assms in \<open>simp_all add: set_xfer_def\<close>)

lemma stmt_ok_tables:
  "stmt_ok key st t rep t' \<Longrightarrow> tables_ok key t \<Longrightarrow> stmt_fits st \<Longrightarrow> tables_ok key t'"
  by (auto simp: stmt_ok_def intro!: tables_ok_apply split: my_reply.splits if_splits option.splits)

section \<open>A reference database\<close>

definition next_id :: "int list \<Rightarrow> int" where
  "next_id is = foldr max is 0 + 1"

definition ref_exec :: "(string \<Rightarrow> string) \<Rightarrow> stmt \<Rightarrow> tables \<Rightarrow> my_reply \<times> tables" where
  "ref_exec key st t =
     (if is_select st then (Query_ok (Some (select_rows key st t)) 0, t)
      else if violates key st t \<or> \<not> stmt_fits st then (Query_error, t)
      else
        let i = (case used_ids st t of None \<Rightarrow> 0 | Some is \<Rightarrow> next_id is)
        in (Query_ok None i, apply_stmt st i t))"

text \<open>A stand-in for the digest: the first bytes in hexadecimal, filled up to 64 digits.\<close>

definition hex_char :: "nat \<Rightarrow> char" where
  "hex_char n = ''0123456789abcdef'' ! n"

definition hex_byte :: "char \<Rightarrow> string" where
  "hex_byte c = [hex_char (of_char c div 16 mod 16), hex_char (of_char c mod 16)]"

definition ref_digest :: "string \<Rightarrow> string" where
  "ref_digest s = take 64 (concat (map hex_byte s) @ replicate 64 (CHR ''0''))"

definition ref_sha :: sha_env where
  "ref_sha =
     \<lparr>env_mkstemp = Some ''/tmp/sha'', env_write = (\<lambda>s. int (length s)),
      env_popen = (\<lambda>cmd s. Some (Some (ref_digest s @ ''  /tmp/sha'' @ [CHR 0x0A])))\<rparr>"

definition ref_env :: "(string \<Rightarrow> string) \<Rightarrow> tables dao_env" where
  "ref_env key =
     \<lparr>my_query = (\<lambda>c s t. case decode s of None \<Rightarrow> (Query_error, t) | Some st \<Rightarrow> ref_exec key st t),
      wall_clock = (\<lambda>t. (1700000000, t)),
      sha_calls = (\<lambda>t. (ref_sha, t))\<rparr>"

lemma next_id_fresh: "next_id is \<notin> set is \<and> 0 < next_id is"
proof -
  have "i \<in> set is \<Longrightarrow> i \<le> foldr max is 0" for i by (induction "is") auto
  moreover have "0 \<le> foldr max is 0" by (induction "is") auto
  ultimately show ?thesis unfolding next_id_def by force
qed

lemma next_id_bound: "ids_left is \<Longrightarrow> next_id is \<le> 2147483647"
  by (induction "is") (auto simp: ids_left_def next_id_def)

lemma used_ids_left: "used_ids st t = Some is \<Longrightarrow> \<not> violates key st t \<Longrightarrow> ids_left is"
  by (cases st) (auto simp: path_violates_def)

lemma ref_exec_ok: "ref_exec key st t = (rep, t') \<Longrightarrow> stmt_ok key st t rep t'"
  using next_id_fresh next_id_bound used_ids_left
  by (force simp: ref_exec_def stmt_ok_def Let_def split: if_splits option.splits)

lemma hex_char_digit: "n < 16 \<Longrightarrow> hex_digit (hex_char n)"
  unfolding hex_digit_def hex_char_def by (rule nth_mem) simp

lemma hex_byte_digits: "list_all hex_digit (hex_byte c)"
  using hex_char_digit [OF mod_less_divisor [of 16]] by (simp add: hex_byte_def)

lemma list_all_take: "list_all P xs \<Longrightarrow> list_all P (take n xs)"
  using set_take_subset by (fastforce simp: list_all_iff)

lemma ref_digest_hex: "length (ref_digest s) = 64 \<and> list_all hex_digit (ref_digest s)"
proof -
  have "list_all hex_digit (concat (map hex_byte s))"
    using hex_byte_digits by (induction s) simp_all
  moreover have "list_all hex_digit (replicate 64 (CHR ''0''))"
    by (simp add: hex_digit_def list_all_iff)
  ultimately have "list_all hex_digit (ref_digest s)"
    unfolding ref_digest_def by (intro list_all_take) (simp only: list_all_append)
  moreover have "length (take 64 (xs @ replicate 64 (CHR ''0''))) = 64" for xs by simp
  then have "length (ref_digest s) = 64" unfolding ref_digest_def .
  ultimately show ?thesis by blast
qed

lemma ref_sha_ok: "sha_tool_ok ref_sha ref_digest"
  using ref_digest_hex by (auto simp: sha_tool_ok_def ref_sha_def)

lemma ref_query: "clean_stmt st \<Longrightarrow> my_query (ref_env key) c (render st) t = ref_exec key st t"
  by (simp add: ref_env_def decode_render)

text \<open>The reference database keeps both contracts, whatever the collation.\<close>

lemma ref_sha_sound: "sha256_hash ref_sha x = (r, Some h, fs) \<Longrightarrow> h = ref_digest x"
  using sha256_hash_ok [OF ref_sha_ok] by auto

interpretation ref_service: sql_service "ref_env key" "\<lambda>t. t" key ref_digest for key
  by unfold_locales
    (simp_all add: ref_query ref_exec_ok ref_digest_hex, auto simp: ref_env_def intro: ref_sha_sound)

interpretation ref_available: sql_available "ref_env key" "\<lambda>t. t" key ref_digest for key
proof unfold_locales
  fix st d c rep d'
  assume "clean_stmt st" "stmt_fits st" "\<not> violates key st d" "my_query (ref_env key) c (render st) d = (rep, d')"
  then show "\<exists>rows i. rep = Query_ok rows i \<and> (is_select st \<longrightarrow> rows \<noteq> None)"
    by (auto simp: ref_query ref_exec_def Let_def split: if_splits)
next
  fix d s d'
  assume "sha_calls (ref_env key) d = (s, d')"
  then show "sha_tool_ok s ref_digest" using ref_sha_ok by (simp add: ref_env_def)
qed

end
