(* ===== verification/Dao_Vfs.thy ===== *)
theory Dao_Vfs
  imports Sql_Tables Protocol "HOL-Library.Word" "HOL-Library.Signed_Division"
begin

text \<open>
  The DAO functions of \<open>src/server/dao_vfs.c\<close>. Each sends the text its \<open>snprintf\<close> call leaves in
  the query buffer, with the buffer's size, on a connection \<open>conn\<close> (\<open>None\<close> is NULL), and reads the
  reply. The state \<open>d\<close> is the database with the clock and the \<open>sha256sum\<close> program; it is passed
  and returned. \<open>None\<close> as a result is undefined behaviour: \<open>atoi\<close>, \<open>strcmp\<close> or \<open>strcpy\<close> on a NULL
  cell, or a copy past the end of a buffer. Input pointers are options, output pointers, which no
  caller passes as NULL, are returned. Logging is left out.
\<close>

section \<open>Queries\<close>

definition dao_execute_query :: "'d dao_env \<Rightarrow> nat \<Rightarrow> string \<Rightarrow> 'd \<Rightarrow> my_reply \<times> 'd" where
  "dao_execute_query env c query d = my_query env c query d"

text \<open>The query, \<open>mysql_store_result\<close> and the first \<open>mysql_fetch_row\<close>, as the look-ups have them.\<close>

datatype fetched = No_result | No_row | Row cells

definition fetch_first :: "'d dao_env \<Rightarrow> nat \<Rightarrow> string \<Rightarrow> 'd \<Rightarrow> fetched \<times> 'd" where
  "fetch_first env c query d =
     (case dao_execute_query env c query d of
        (Query_error, d1) \<Rightarrow> (No_result, d1)
      | (Query_ok None i, d1) \<Rightarrow> (No_result, d1)
      | (Query_ok (Some []) i, d1) \<Rightarrow> (No_row, d1)
      | (Query_ok (Some (row # rows)) i, d1) \<Rightarrow> (Row row, d1))"

text \<open>Reading \<open>row[k]\<close> as a string.\<close>

definition cell :: "cells \<Rightarrow> nat \<Rightarrow> string ub" where
  "cell row k = (if k < length row then row ! k else None)"

text \<open>\<open>strtoul\<close> saturates.\<close>

definition strtoul :: "string \<Rightarrow> 64 word" where
  "strtoul s = (if dec_value s < 2 ^ 64 \<and> - (2 ^ 64) < dec_value s then word_of_int (dec_value s) else - 1)"

text \<open>The look-up of one id: -1 without a result or a row.\<close>

definition fetch_id :: "'d dao_env \<Rightarrow> nat \<Rightarrow> string \<Rightarrow> 'd \<Rightarrow> (int \<times> 'd) ub" where
  "fetch_id env c query d =
     (case fetch_first env c query d of
        (No_result, d1) \<Rightarrow> Some (- 1, d1)
      | (No_row, d1) \<Rightarrow> Some (- 1, d1)
      | (Row row, d1) \<Rightarrow> map_option (\<lambda>s. (atoi s, d1)) (cell row 0))"

text \<open>A statement without a result: \<open>f\<close> is applied to the new id.\<close>

definition run_stmt :: "'d dao_env \<Rightarrow> nat \<Rightarrow> string \<Rightarrow> (int \<Rightarrow> int) \<Rightarrow> 'd \<Rightarrow> int \<times> 'd" where
  "run_stmt env c query f d =
     (case dao_execute_query env c query d of
        (Query_error, d1) \<Rightarrow> (- 1, d1)
      | (Query_ok rows i, d1) \<Rightarrow> (f i, d1))"

section \<open>Passwords\<close>

definition generate_password_hash :: "'d dao_env \<Rightarrow> string \<Rightarrow> 'd \<Rightarrow> string \<times> string \<times> 'd" where
  "generate_password_hash env password d =
     (case wall_clock env d of
        (now, d1) \<Rightarrow>
          (let salt = int_to_dec (now smod 1000000);
               combined = snprintf_str 512 (password @ salt)
           in case sha_calls env d1 of
                (s, d2) \<Rightarrow>
                  (case sha256_hash s combined of
                     (r, None, fs) \<Rightarrow> (salt, [], d2)
                   | (r, Some h, fs) \<Rightarrow> (salt, h, d2))))"

definition verify_password ::
    "'d dao_env \<Rightarrow> int \<Rightarrow> string \<Rightarrow> string \<Rightarrow> string \<Rightarrow> 'd \<Rightarrow> int \<times> 'd" where
  "verify_password env user_id password stored_hash stored_salt d =
     (let combined = snprintf_str 512 (password @ stored_salt)
      in case sha_calls env d of
           (s, d1) \<Rightarrow>
             (case sha256_hash s combined of
                (r, h, fs) \<Rightarrow>
                  if r = 0 \<and> (case h of None \<Rightarrow> [] | Some x \<Rightarrow> x) = stored_hash then (0, d1) else (- 1, d1)))"

section \<open>Users\<close>

definition dao_login_user ::
    "'d dao_env \<Rightarrow> nat option \<Rightarrow> string option \<Rightarrow> string option \<Rightarrow> 'd \<Rightarrow> (int \<times> 'd) ub" where
  "dao_login_user env conn username password d =
     (case (conn, username, password) of
        (Some c, Some u, Some pw) \<Rightarrow>
          (case fetch_first env c (snprintf_str 512 (c_format fmt_login [Fs u])) d of
             (No_result, d1) \<Rightarrow> Some (- 1, d1)
           | (No_row, d1) \<Rightarrow> Some (- 1, d1)
           | (Row row, d1) \<Rightarrow>
               (case (cell row 0, cell row 1, cell row 2) of
                  (Some i, Some stored_hash, Some stored_salt) \<Rightarrow>
                    (case verify_password env (atoi i) pw stored_hash stored_salt d1 of
                       (r, d2) \<Rightarrow> Some (if r = 0 then atoi i else - 1, d2))
                | _ \<Rightarrow> None))
      | _ \<Rightarrow> Some (- 1, d))"

section \<open>Directories\<close>

definition dao_get_root_dir_id :: "'d dao_env \<Rightarrow> nat option \<Rightarrow> int \<Rightarrow> 'd \<Rightarrow> (int \<times> 'd) ub" where
  "dao_get_root_dir_id env conn user_id d =
     (case conn of
        None \<Rightarrow> Some (- 1, d)
      | Some c \<Rightarrow>
          if user_id \<le> 0 then Some (- 1, d)
          else fetch_id env c (snprintf_str 256 (c_format fmt_root [Fd user_id])) d)"

definition dao_get_parent_id :: "'d dao_env \<Rightarrow> nat option \<Rightarrow> int \<Rightarrow> 'd \<Rightarrow> int \<times> 'd" where
  "dao_get_parent_id env conn dir_id d =
     (case conn of
        None \<Rightarrow> (- 1, d)
      | Some c \<Rightarrow>
          if dir_id \<le> 0 then (- 1, d)
          else
            (case fetch_first env c (snprintf_str 256 (c_format fmt_parent [Fd dir_id])) d of
               (No_result, d1) \<Rightarrow> (- 1, d1)
             | (No_row, d1) \<Rightarrow> (- 1, d1)
             | (Row row, d1) \<Rightarrow>
                 (case cell row 0 of None \<Rightarrow> (- 1, d1) | Some s \<Rightarrow> (atoi s, d1))))"

definition dao_init_root_dir :: "'d dao_env \<Rightarrow> nat option \<Rightarrow> int \<Rightarrow> 'd \<Rightarrow> (int \<times> 'd) ub" where
  "dao_init_root_dir env conn user_id d =
     (case conn of
        None \<Rightarrow> Some (- 1, d)
      | Some c \<Rightarrow>
          if user_id \<le> 0 then Some (- 1, d)
          else
            (case dao_get_root_dir_id env conn user_id d of
               None \<Rightarrow> None
             | Some (root_id, d1) \<Rightarrow>
                 if root_id > 0 then Some (root_id, d1)
                 else Some (run_stmt env c (snprintf_str 512 (c_format fmt_ins_root [Fd user_id])) c_int d1)))"

definition dao_register_user ::
    "'d dao_env \<Rightarrow> nat option \<Rightarrow> string option \<Rightarrow> string option \<Rightarrow> 'd \<Rightarrow> (int \<times> 'd) ub" where
  "dao_register_user env conn username password d =
     (case (conn, username, password) of
        (Some c, Some u, Some pw) \<Rightarrow>
          (case dao_execute_query env c (snprintf_str 512 (c_format fmt_user [Fs u])) d of
             (Query_error, d1) \<Rightarrow> Some (- 1, d1)
           | (Query_ok None i, d1) \<Rightarrow> Some (- 1, d1)
           | (Query_ok (Some rows) i, d1) \<Rightarrow>
               if length rows > 0 then Some (0, d1)
               else
                 (case generate_password_hash env pw d1 of
                    (salt, password_hash, d2) \<Rightarrow>
                      (case dao_execute_query env c
                              (snprintf_str 512 (c_format fmt_ins_user [Fs u, Fs password_hash, Fs salt])) d2 of
                         (Query_error, d3) \<Rightarrow> Some (- 1, d3)
                       | (Query_ok rs i, d3) \<Rightarrow>
                           (let new_id = c_int i in
                            case dao_init_root_dir env conn new_id d3 of
                              None \<Rightarrow> None
                            | Some (root, d4) \<Rightarrow> Some (new_id, d4)))))
      | _ \<Rightarrow> Some (- 1, d))"

definition dao_find_child_id ::
    "'d dao_env \<Rightarrow> nat option \<Rightarrow> int \<Rightarrow> string option \<Rightarrow> int \<Rightarrow> 'd \<Rightarrow> (int \<times> 'd) ub" where
  "dao_find_child_id env conn parent_id name is_dir d =
     (case (conn, name) of
        (Some c, Some n) \<Rightarrow>
          if parent_id \<le> 0 then Some (- 1, d)
          else
            (let fmt = (if is_dir = - 1 then fmt_find_any
                        else if is_dir = 1 then fmt_find_dir else fmt_find_file)
             in fetch_id env c (snprintf_str 512 (c_format fmt [Fd parent_id, Fs n])) d)
      | _ \<Rightarrow> Some (- 1, d))"

text \<open>The entries are appended one by one with \<open>snprintf(result + used, left, "%s ", row[0])\<close>; the
  first one that does not fit ends the loop with its beginning in the buffer, behind \<open>used\<close>. The
  result is the text in the buffer and \<open>used\<close>.\<close>

fun list_entries :: "cells list \<Rightarrow> nat \<Rightarrow> string \<Rightarrow> nat \<Rightarrow> (string \<times> nat) ub" where
  "list_entries [] result_len result used = Some (result, used)"
| "list_entries (row # rows) result_len result used =
     (case cell row 0 of
        None \<Rightarrow> None
      | Some name \<Rightarrow>
          (let left = result_len - used;
               ret = length (name @ '' '');
               result1 = take used result @ snprintf_str left (name @ '' '')
           in if ret \<ge> left then Some (result1, used)
              else list_entries rows result_len result1 (used + ret)))"

definition dao_list_dir ::
    "'d dao_env \<Rightarrow> nat option \<Rightarrow> int \<Rightarrow> int \<Rightarrow> nat \<Rightarrow> 'd \<Rightarrow> (int \<times> string \<times> 'd) ub" where
  "dao_list_dir env conn user_id dir_id result_len d =
     (case conn of
        None \<Rightarrow> Some (- 1, [], d)
      | Some c \<Rightarrow>
          if user_id \<le> 0 \<or> dir_id \<le> 0 then Some (- 1, [], d)
          else if length ''. ..'' \<ge> result_len then Some (- 1, snprintf_str result_len ''. ..'', d)
          else
            (case dao_execute_query env c (snprintf_str 512 (c_format fmt_list [Fd user_id, Fd dir_id])) d of
               (Query_error, d1) \<Rightarrow> Some (- 1, ''. ..'', d1)
             | (Query_ok None i, d1) \<Rightarrow> Some (- 1, ''. ..'', d1)
             | (Query_ok (Some rows) i, d1) \<Rightarrow>
                 if length rows > 0
                 then
                   (let used = length ''. ..'';
                        (result1, used1) = (if used + 1 < result_len then (''. ..'' @ '' '', used + 1)
                                            else (''. ..'', used))
                    in case list_entries rows result_len result1 used1 of
                         None \<Rightarrow> None
                       | Some (result2, used2) \<Rightarrow>
                           if used2 > 0 \<and> result2 ! (used2 - 1) = CHR '' ''
                           then Some (0, take (used2 - 1) result2, d1)
                           else Some (0, result2, d1))
                 else Some (0, ''. ..'', d1)))"

definition dao_create_dir ::
    "'d dao_env \<Rightarrow> nat option \<Rightarrow> int \<Rightarrow> int \<Rightarrow> string option \<Rightarrow> 'd \<Rightarrow> (int \<times> 'd) ub" where
  "dao_create_dir env conn user_id parent_id dir_name d =
     (case (conn, dir_name) of
        (Some c, Some n) \<Rightarrow>
          if user_id \<le> 0 \<or> parent_id \<le> 0 then Some (- 1, d)
          else
            (case dao_find_child_id env conn parent_id dir_name 1 d of
               None \<Rightarrow> None
             | Some (found, d1) \<Rightarrow>
                 if found > 0 then Some (0, d1)
                 else
                   (let path = snprintf_str 512 (''/'' @ n)
                    in Some (run_stmt env c
                         (snprintf_str 512 (c_format fmt_ins_dir [Fd user_id, Fd parent_id, Fs n, Fs path])) c_int d1)))
      | _ \<Rightarrow> Some (- 1, d))"

definition dao_delete_entry :: "'d dao_env \<Rightarrow> nat option \<Rightarrow> int \<Rightarrow> int \<Rightarrow> 'd \<Rightarrow> int \<times> 'd" where
  "dao_delete_entry env conn user_id path_id d =
     (case conn of
        None \<Rightarrow> (- 1, d)
      | Some c \<Rightarrow>
          if user_id \<le> 0 \<or> path_id \<le> 0 then (- 1, d)
          else run_stmt env c (snprintf_str 512 (c_format fmt_tomb [Fd path_id, Fd user_id])) (\<lambda>i. 0) d)"

section \<open>Files\<close>

text \<open>The digest is copied with \<open>strcpy\<close> into the caller's array of 65 bytes.\<close>

definition dao_get_file_info ::
    "'d dao_env \<Rightarrow> nat option \<Rightarrow> int \<Rightarrow> int \<Rightarrow> 'd \<Rightarrow> (int \<times> (string \<times> 64 word) option \<times> 'd) ub" where
  "dao_get_file_info env conn user_id path_id d =
     (case conn of
        None \<Rightarrow> Some (- 1, None, d)
      | Some c \<Rightarrow>
          if user_id \<le> 0 \<or> path_id \<le> 0 then Some (- 1, None, d)
          else
            (case fetch_first env c (snprintf_str 512 (c_format fmt_file_info [Fd path_id, Fd user_id])) d of
               (No_result, d1) \<Rightarrow> Some (- 1, None, d1)
             | (No_row, d1) \<Rightarrow> Some (- 1, None, d1)
             | (Row row, d1) \<Rightarrow>
                 (case (cell row 0, cell row 1) of
                    (Some sha, Some sz) \<Rightarrow>
                      if length sha < HASH_LEN then Some (0, Some (sha, strtoul sz), d1) else None
                  | _ \<Rightarrow> None)))"

definition dao_find_file_by_hash :: "'d dao_env \<Rightarrow> nat option \<Rightarrow> string option \<Rightarrow> 'd \<Rightarrow> (int \<times> 'd) ub" where
  "dao_find_file_by_hash env conn sha256 d =
     (case (conn, sha256) of
        (Some c, Some h) \<Rightarrow> fetch_id env c (snprintf_str 512 (c_format fmt_file [Fs h])) d
      | _ \<Rightarrow> Some (- 1, d))"

definition dao_insert_file :: "'d dao_env \<Rightarrow> nat option \<Rightarrow> string option \<Rightarrow> 64 word \<Rightarrow> 'd \<Rightarrow> int \<times> 'd" where
  "dao_insert_file env conn sha256 file_size d =
     (case (conn, sha256) of
        (Some c, Some h) \<Rightarrow>
          run_stmt env c (snprintf_str 512 (c_format fmt_ins_file [Fs h, Fu (unat file_size)])) c_int d
      | _ \<Rightarrow> (- 1, d))"

definition dao_insert_path ::
    "'d dao_env \<Rightarrow> nat option \<Rightarrow> int \<Rightarrow> int \<Rightarrow> string option \<Rightarrow> int \<Rightarrow> string \<Rightarrow> 'd \<Rightarrow> int \<times> 'd" where
  "dao_insert_path env conn user_id parent_id filename file_id path d =
     (case (conn, filename) of
        (Some c, Some n) \<Rightarrow>
          if user_id \<le> 0 \<or> parent_id \<le> 0 \<or> file_id \<le> 0 then (- 1, d)
          else run_stmt env c
                 (snprintf_str 512 (c_format fmt_ins_path [Fd user_id, Fd parent_id, Fs n, Fs path, Fd file_id])) c_int d
      | _ \<Rightarrow> (- 1, d))"

section \<open>Transfer records\<close>

definition dao_create_transfer_record ::
    "'d dao_env \<Rightarrow> nat option \<Rightarrow> int \<Rightarrow> int \<Rightarrow> int \<Rightarrow> string option \<Rightarrow> 'd \<Rightarrow> int \<times> 'd" where
  "dao_create_transfer_record env conn path_id file_id total_blocks status d =
     (case (conn, status) of
        (Some c, Some s) \<Rightarrow>
          if path_id \<le> 0 \<or> file_id \<le> 0 \<or> total_blocks \<le> 0 then (- 1, d)
          else run_stmt env c
                 (snprintf_str 512 (c_format fmt_ins_xfer
                    [Fd path_id, Fd file_id, Fd total_blocks, Fs s, Fd total_blocks, Fs s])) (\<lambda>i. 0) d
      | _ \<Rightarrow> (- 1, d))"

text \<open>The result holds the new value of \<open>*sequence\<close> when it was written.\<close>

definition dao_get_transfer_sequence :: "'d dao_env \<Rightarrow> nat option \<Rightarrow> int \<Rightarrow> 'd \<Rightarrow> (int \<times> int option \<times> 'd) ub" where
  "dao_get_transfer_sequence env conn path_id d =
     (case conn of
        None \<Rightarrow> Some (- 1, None, d)
      | Some c \<Rightarrow>
          if path_id \<le> 0 then Some (- 1, None, d)
          else
            (case fetch_first env c (snprintf_str 512 (c_format fmt_sel_seq [Fd path_id])) d of
               (No_result, d1) \<Rightarrow> Some (- 1, None, d1)
             | (No_row, d1) \<Rightarrow> Some (- 1, None, d1)
             | (Row row, d1) \<Rightarrow> map_option (\<lambda>s. (0, Some (atoi s), d1)) (cell row 0)))"

definition dao_update_transfer_sequence :: "'d dao_env \<Rightarrow> nat option \<Rightarrow> int \<Rightarrow> int \<Rightarrow> 'd \<Rightarrow> int \<times> 'd" where
  "dao_update_transfer_sequence env conn path_id new_sequence d =
     (case conn of
        None \<Rightarrow> (- 1, d)
      | Some c \<Rightarrow>
          if path_id \<le> 0 \<or> new_sequence < 0 then (- 1, d)
          else run_stmt env c (snprintf_str 512 (c_format fmt_upd_seq [Fd new_sequence, Fd path_id])) (\<lambda>i. 0) d)"

definition dao_complete_transfer :: "'d dao_env \<Rightarrow> nat option \<Rightarrow> int \<Rightarrow> 'd \<Rightarrow> int \<times> 'd" where
  "dao_complete_transfer env conn path_id d =
     (case conn of
        None \<Rightarrow> (- 1, d)
      | Some c \<Rightarrow>
          if path_id \<le> 0 then (- 1, d)
          else run_stmt env c (snprintf_str 512 (c_format fmt_complete [Fd path_id])) (\<lambda>i. 0) d)"

definition dao_cancel_transfer :: "'d dao_env \<Rightarrow> nat option \<Rightarrow> int \<Rightarrow> 'd \<Rightarrow> int \<times> 'd" where
  "dao_cancel_transfer env conn path_id d =
     (case conn of
        None \<Rightarrow> (- 1, d)
      | Some c \<Rightarrow>
          if path_id \<le> 0 then (- 1, d)
          else run_stmt env c (snprintf_str 512 (c_format fmt_cancel [Fd path_id])) (\<lambda>i. 0) d)"

end
