(* ===== verification/Dao_Laws.thy ===== *)
theory Dao_Laws
  imports Dao_Vfs
begin

text \<open>
  What the DAO functions of \<open>Dao_Vfs\<close> do to the tables, proved once inside the locales
  \<open>sql_service\<close> and \<open>sql_available\<close> for every database that keeps those contracts. The first
  section bounds the lengths of the query texts, so that the \<open>snprintf\<close> calls do not shorten them.
\<close>

section \<open>Lengths of the query texts\<close>

fun is_lit :: "piece \<Rightarrow> bool" where
  "is_lit (Lit c) = True"
| "is_lit p = False"

definition c_range :: "int \<Rightarrow> bool" where
  "c_range i \<longleftrightarrow> - 2147483648 \<le> i \<and> i \<le> 2147483647"

fun arg_len :: "fmt_arg \<Rightarrow> nat" where
  "arg_len (Fs s) = length s"
| "arg_len (Fd i) = 11"
| "arg_len (Fu n) = 20"

fun arg_in_range :: "fmt_arg \<Rightarrow> bool" where
  "arg_in_range (Fd i) = c_range i"
| "arg_in_range (Fu n) = (n < 10 ^ 20)"
| "arg_in_range (Fs s) = True"

definition lits :: "stmt \<Rightarrow> nat" where
  "lits st = length (filter is_lit (pieces (stmt_fmt st)))"

lemma length_int_to_dec: "c_range i \<Longrightarrow> length (int_to_dec i) \<le> 11"
proof -
  assume "c_range i"
  then have "nat i < 10 ^ 10" "nat (- i) < 10 ^ 10" by (auto simp: c_range_def)
  with length_nat_to_dec [of 10] have "length (nat_to_dec (nat i)) \<le> 10" "length (nat_to_dec (nat (- i))) \<le> 10"
    by auto
  then show ?thesis by (auto simp: int_to_dec_def)
qed

lemma length_show_arg: "arg_in_range a \<Longrightarrow> length (show_arg a) \<le> arg_len a"
  using length_int_to_dec length_nat_to_dec [of 20] by (cases a) auto

lemma length_fill:
  "list_all arg_in_range as \<Longrightarrow> length (fill ps as) \<le> length (filter is_lit ps) + sum_list (map arg_len as)"
proof (induction ps arbitrary: as)
  case (Cons p ps)
  have lit: "length (fill ps as) \<le> length (filter is_lit ps) + sum_list (map arg_len as)"
    using Cons by simp
  have conv: "as = a # bs \<Longrightarrow> length (show_arg a @ fill ps bs) \<le>
      length (filter is_lit ps) + sum_list (map arg_len as)" for a bs
    using Cons.IH [of bs] Cons.prems length_show_arg [of a] by simp
  show ?case
    using lit conv by (cases p; cases as) auto
qed simp

lemma length_render:
  "list_all arg_in_range (stmt_args st) \<Longrightarrow> length (render st) \<le> lits st + sum_list (map arg_len (stmt_args st))"
  by (simp add: render_def c_format_def lits_def length_fill)

lemma lits_Ins_dir: "lits (Ins_dir i j n p) = 81"
  by (simp add: lits_def fmt_ins_dir_def)

lemma lits_Ins_path: "lits (Ins_path i j n p f) = 92"
  by (simp add: lits_def fmt_ins_path_def)

lemma lits_le: "lits st \<le> 210"
  by (cases st) (simp_all add: lits_def fmt_defs)

section \<open>Query texts as statements\<close>

lemma render_folds:
  "c_format fmt_login [Fs u] = render (Sel_login u)"
  "c_format fmt_user [Fs u] = render (Sel_user u)"
  "c_format fmt_ins_user [Fs u, Fs h, Fs s] = render (Ins_user u h s)"
  "c_format fmt_root [Fd i] = render (Sel_root i)"
  "c_format fmt_parent [Fd i] = render (Sel_parent i)"
  "c_format fmt_ins_root [Fd i] = render (Ins_root i)"
  "c_format fmt_find_any [Fd i, Fs n] = render (Find_any i n)"
  "c_format fmt_find_dir [Fd i, Fs n] = render (Find_dir i n)"
  "c_format fmt_find_file [Fd i, Fs n] = render (Find_file i n)"
  "c_format fmt_list [Fd i, Fd j] = render (List_dir i j)"
  "c_format fmt_ins_dir [Fd i, Fd j, Fs n, Fs p] = render (Ins_dir i j n p)"
  "c_format fmt_tomb [Fd i, Fd j] = render (Set_tomb i j)"
  "c_format fmt_file_info [Fd i, Fd j] = render (File_info i j)"
  "c_format fmt_file [Fs h] = render (Sel_file h)"
  "c_format fmt_ins_file [Fs h, Fu z] = render (Ins_file h z)"
  "c_format fmt_ins_path [Fd i, Fd j, Fs n, Fs p, Fd f] = render (Ins_path i j n p f)"
  "c_format fmt_ins_xfer [Fd p', Fd f, Fd t, Fs s, Fd t, Fs s] = render (Ins_xfer p' f t s)"
  "c_format fmt_sel_seq [Fd i] = render (Sel_seq i)"
  "c_format fmt_upd_seq [Fd j, Fd i] = render (Upd_seq j i)"
  "c_format fmt_complete [Fd i] = render (Complete_xfer i)"
  "c_format fmt_cancel [Fd i] = render (Cancel_xfer i)"
  by (simp_all add: render_def)

text \<open>A statement that reaches the database as meant, from a buffer of \<open>n\<close> bytes.\<close>

definition goes :: "nat \<Rightarrow> stmt \<Rightarrow> bool" where
  "goes n st \<longleftrightarrow> clean_stmt st \<and> stmt_fits st \<and> length (render st) < n"

lemma goesI:
  "clean_stmt st \<Longrightarrow> stmt_fits st \<Longrightarrow> list_all arg_in_range (stmt_args st) \<Longrightarrow>
    lits st + sum_list (map arg_len (stmt_args st)) < n \<Longrightarrow> goes n st"
  using length_render [of st] by (simp add: goes_def)

lemma goes_small:
  "clean_stmt st \<Longrightarrow> stmt_fits st \<Longrightarrow> list_all arg_in_range (stmt_args st) \<Longrightarrow>
    210 + sum_list (map arg_len (stmt_args st)) < n \<Longrightarrow> goes n st"
  using lits_le [of st] by (intro goesI) linarith+

lemma id_cell_inj [simp]: "id_cell i = id_cell j \<longleftrightarrow> i = j"
  by (simp add: id_cell_def int_to_dec_inj)

lemma atoi_int_to_dec [simp]: "c_range i \<Longrightarrow> atoi (int_to_dec i) = i"
  by (simp add: atoi_def c_range_def min_def max_def)

text \<open>Which ids a table can hold.\<close>

lemma tables_ok_id_range:
  assumes "tables_ok key t"
  shows "r \<in> set (t_users t) \<Longrightarrow> 0 < u_id r \<and> c_range (u_id r)"
    "p \<in> set (t_paths t) \<Longrightarrow> 0 < p_id p \<and> c_range (p_id p)"
    "f \<in> set (t_files t) \<Longrightarrow> 0 < f_id f \<and> c_range (f_id f)"
  using assms by (fastforce simp: tables_ok_def ids_ok_def list_all_iff c_range_def)+

context sql_service begin

lemma exec_goes:
  "goes n st \<Longrightarrow> dao_execute_query env c (snprintf_str n (render st)) d = (rep, d') \<Longrightarrow>
    stmt_ok key st (tbl d) rep (tbl d')"
  using reply by (simp add: goes_def dao_execute_query_def snprintf_str_fits)

lemma fetch_first_goes:
  assumes "goes n st" "is_select st"
  shows "\<exists>f d'. fetch_first env c (snprintf_str n (render st)) d = (f, d') \<and> tbl d' = tbl d \<and>
    (f = No_row \<longrightarrow> select_rows key st (tbl d) = []) \<and>
    (\<forall>row. f = Row row \<longrightarrow> row \<in> set (select_rows key st (tbl d)))"
proof -
  obtain rep d' where q: "dao_execute_query env c (snprintf_str n (render st)) d = (rep, d')" by fastforce
  have ok: "stmt_ok key st (tbl d) rep (tbl d')" using exec_goes [OF assms(1) q] .
  show ?thesis
  proof (cases rep)
    case Query_error
    with ok q show ?thesis by (auto simp: fetch_first_def stmt_ok_def)
  next
    case (Query_ok rows i)
    show ?thesis
    proof (cases rows)
      case None
      with Query_ok ok q assms(2) show ?thesis by (auto simp: fetch_first_def stmt_ok_def)
    next
      case (Some rs)
      with Query_ok ok assms(2) have "tbl d' = tbl d" "set rs = set (select_rows key st (tbl d))"
        by (auto simp: stmt_ok_def dest: mset_eq_setD)
      with Query_ok Some q show ?thesis by (cases rs) (auto simp: fetch_first_def)
    qed
  qed
qed

text \<open>A look-up of an id answers -1 or an id of a matching row.\<close>

lemma fetch_id_goes:
  assumes "goes n st" "is_select st"
    "\<And>row. row \<in> set (select_rows key st (tbl d)) \<Longrightarrow> \<exists>i. row = id_cell i \<and> c_range i"
  shows "\<exists>r d'. fetch_id env c (snprintf_str n (render st)) d = Some (r, d') \<and> tbl d' = tbl d \<and>
    (r = - 1 \<or> id_cell r \<in> set (select_rows key st (tbl d)))"
proof -
  obtain f d' where f: "fetch_first env c (snprintf_str n (render st)) d = (f, d')" "tbl d' = tbl d"
      "\<And>row. f = Row row \<Longrightarrow> row \<in> set (select_rows key st (tbl d))"
    using fetch_first_goes [OF assms(1,2)] by blast
  show ?thesis
  proof (cases f)
    case (Row row)
    then obtain i where i: "row = id_cell i" "c_range i" "id_cell i \<in> set (select_rows key st (tbl d))"
      using f(3) assms(3) by blast
    with Row f(1,2) show ?thesis by (simp add: fetch_id_def cell_def id_cell_def)
  qed (use f in \<open>simp_all add: fetch_id_def\<close>)
qed

lemma run_stmt_goes:
  assumes "goes n st" "\<not> is_select st"
  shows "\<exists>r d'. run_stmt env c (snprintf_str n (render st)) f d = (r, d') \<and>
    (r = - 1 \<and> tbl d' = tbl d \<or>
     (\<exists>i. r = f i \<and> \<not> violates key st (tbl d) \<and> tbl d' = apply_stmt st i (tbl d) \<and>
        (\<forall>is. used_ids st (tbl d) = Some is \<longrightarrow> i \<notin> set is \<and> 0 < i \<and> i \<le> 2147483647)))"
proof -
  obtain rep d' where q: "dao_execute_query env c (snprintf_str n (render st)) d = (rep, d')" by fastforce
  have ok: "stmt_ok key st (tbl d) rep (tbl d')" using exec_goes [OF assms(1) q] .
  with q assms(2) show ?thesis
    by (cases rep) (auto simp: run_stmt_def stmt_ok_def split: option.splits)
qed

lemma run_stmt_tables_ok:
  "goes n st \<Longrightarrow> run_stmt env c (snprintf_str n (render st)) f d = (r, d') \<Longrightarrow> tables_ok key (tbl d) \<Longrightarrow>
    tables_ok key (tbl d')"
  using exec_goes stmt_ok_tables
  by (fastforce simp: run_stmt_def goes_def split: prod.splits my_reply.splits)

end

section \<open>The functions on any database\<close>

text \<open>The rows \<open>dao_find_child_id\<close> looks for.\<close>

definition wanted :: "(string \<Rightarrow> string) \<Rightarrow> int \<Rightarrow> string \<Rightarrow> int \<Rightarrow> path_row \<Rightarrow> bool" where
  "wanted key par n is_dir row \<longleftrightarrow>
     child_of key par n row \<and> (is_dir = - 1 \<or> p_type row = (if is_dir = 1 then CHR ''d'' else CHR ''f''))"

lemma wanted_simps [simp]:
  "wanted key par n (- 1) row \<longleftrightarrow> child_of key par n row"
  "wanted key par n 1 row \<longleftrightarrow> child_of key par n row \<and> p_type row = CHR ''d''"
  "wanted key par n 0 row \<longleftrightarrow> child_of key par n row \<and> p_type row = CHR ''f''"
  by (simp_all add: wanted_def)

text \<open>Here every call may fail; what is proved is that no call has undefined behaviour, which rows an
  answer comes from, and how the tables change.\<close>

lemma clean_text_prefix: "clean_text n \<Longrightarrow> clean_text (snprintf_str k (''/'' @ n))"
  by (auto simp: clean_text_def snprintf_str_def sq_def dest!: in_set_takeD)

context sql_service begin

lemma login_ok:
  assumes "tables_ok key (tbl d)" "clean_text u" "length u \<le> 64"
  shows "\<exists>r d'. dao_login_user env (Some c) (Some u) (Some pw) d = Some (r, d') \<and> tbl d' = tbl d \<and>
    (r = - 1 \<or> (\<exists>row\<in>set (t_users (tbl d)). r = u_id row \<and> key (u_name row) = key u \<and>
       u_hash row = digest (snprintf_str 512 (pw @ u_salt row))))"
proof -
  have g: "goes 512 (Sel_login u)"
    using assms by (intro goes_small) (simp_all add: clean_stmt_def)
  obtain f d1 where f: "fetch_first env c (snprintf_str 512 (render (Sel_login u))) d = (f, d1)" "tbl d1 = tbl d"
      "\<And>row. f = Row row \<Longrightarrow> row \<in> set (select_rows key (Sel_login u) (tbl d))"
    using fetch_first_goes [OF g, of c d] by auto
  show ?thesis
  proof (cases f)
    case (Row row)
    then obtain x where x: "x \<in> set (t_users (tbl d))" "key (u_name x) = key u"
      "row = [Some (int_to_dec (u_id x)), Some (u_hash x), Some (u_salt x)]"
      using f(3) by auto
    have i: "atoi (int_to_dec (u_id x)) = u_id x"
      using tables_ok_id_range(1) [OF assms(1) x(1)] by simp
    obtain s d2 where s: "sha_calls env d1 = (s, d2)" by fastforce
    obtain r h fs where h: "sha256_hash s (snprintf_str 512 (pw @ u_salt x)) = (r, h, fs)"
      using prod_cases3 by blast
    have t: "tbl d2 = tbl d" using sha_tbl [OF s] f(2) by simp
    have "h \<noteq> None \<longleftrightarrow> r = 0" using sha256_hash_code h by (metis fst_conv snd_conv)
    with sha_sound [OF s] h x f(1) Row i s t show ?thesis
      by (cases h) (auto simp: dao_login_user_def render_folds cell_def verify_password_def Let_def intro!: bexI [of _ x])
  qed (use f in \<open>simp_all add: dao_login_user_def render_folds\<close>)
qed

lemma get_root_ok:
  assumes "tables_ok key (tbl d)" "c_range uid"
  shows "\<exists>r d'. dao_get_root_dir_id env (Some c) uid d = Some (r, d') \<and> tbl d' = tbl d \<and>
    (r = - 1 \<or> (\<exists>row\<in>set (t_paths (tbl d)). p_id row = r \<and> p_user row = uid \<and> p_parent row = None \<and> p_type row = CHR ''d''))"
proof -
  have g: "goes 256 (Sel_root uid)"
    using assms by (intro goes_small) (simp_all add: clean_stmt_def)
  have "\<exists>r d'. fetch_id env c (snprintf_str 256 (render (Sel_root uid))) d = Some (r, d') \<and> tbl d' = tbl d \<and>
    (r = - 1 \<or> id_cell r \<in> set (select_rows key (Sel_root uid) (tbl d)))"
    using tables_ok_id_range(2) [OF assms(1)] by (intro fetch_id_goes [OF g]) auto
  then show ?thesis by (fastforce simp: dao_get_root_dir_id_def render_folds)
qed

lemma get_parent_ok:
  assumes "tables_ok key (tbl d)" "c_range i"
  shows "\<exists>r d'. dao_get_parent_id env (Some c) i d = (r, d') \<and> tbl d' = tbl d \<and>
    (r = - 1 \<or> (\<exists>row\<in>set (t_paths (tbl d)). p_id row = i \<and> p_parent row = Some r \<and> \<not> p_tomb row))"
proof -
  have g: "goes 256 (Sel_parent i)"
    using assms by (intro goes_small) (simp_all add: clean_stmt_def)
  obtain f d1 where f: "fetch_first env c (snprintf_str 256 (render (Sel_parent i))) d = (f, d1)" "tbl d1 = tbl d"
      "\<And>row. f = Row row \<Longrightarrow> row \<in> set (select_rows key (Sel_parent i) (tbl d))"
    using fetch_first_goes [OF g, of c d] by auto
  show ?thesis
  proof (cases f)
    case (Row row)
    then obtain x where x: "x \<in> set (t_paths (tbl d))" "p_id x = i" "\<not> p_tomb x"
      "row = [map_option int_to_dec (p_parent x)]"
      using f(3) by auto
    have "p_parent x = Some j \<Longrightarrow> c_range j" for j
    proof -
      assume "p_parent x = Some j"
      with assms(1) x(1) have "j \<in> p_id ` set (t_paths (tbl d))" by (fastforce simp: tables_ok_def)
      then show "c_range j" using tables_ok_id_range(2) [OF assms(1)] by auto
    qed
    with Row x f(1,2) show ?thesis
      by (cases "p_parent x") (auto simp: dao_get_parent_id_def render_folds cell_def intro!: bexI [of _ x])
  qed (use f in \<open>simp_all add: dao_get_parent_id_def render_folds\<close>)
qed

lemma find_child_ok:
  assumes "tables_ok key (tbl d)" "c_range par" "clean_text n" "length n \<le> 255"
  shows "\<exists>r d'. dao_find_child_id env (Some c) par (Some n) is_dir d = Some (r, d') \<and> tbl d' = tbl d \<and>
    (r = - 1 \<or> (\<exists>row\<in>set (t_paths (tbl d)). p_id row = r \<and> wanted key par n is_dir row))"
proof -
  let ?st = "(if is_dir = - 1 then Find_any par n else if is_dir = 1 then Find_dir par n else Find_file par n)"
  have g: "goes 512 ?st"
    using assms by (intro goes_small) (simp_all add: clean_stmt_def)
  have fmt: "c_format (if is_dir = - 1 then fmt_find_any else if is_dir = 1 then fmt_find_dir else fmt_find_file)
      [Fd par, Fs n] = render ?st"
    by (simp add: render_folds)
  have "\<exists>r d'. fetch_id env c (snprintf_str 512 (render ?st)) d = Some (r, d') \<and> tbl d' = tbl d \<and>
    (r = - 1 \<or> id_cell r \<in> set (select_rows key ?st (tbl d)))"
    using tables_ok_id_range(2) [OF assms(1)] by (intro fetch_id_goes [OF g]) (auto split: if_splits)
  then obtain r d' where r: "fetch_id env c (snprintf_str 512 (render ?st)) d = Some (r, d')" "tbl d' = tbl d"
    "r = - 1 \<or> id_cell r \<in> set (select_rows key ?st (tbl d))" by blast
  from r(3) have "r = - 1 \<or> (\<exists>row\<in>set (t_paths (tbl d)). p_id row = r \<and> wanted key par n is_dir row)"
    by (auto simp: wanted_def split: if_splits)
  with r(1,2) show ?thesis by (auto simp: dao_find_child_id_def fmt Let_def)
qed

end

text \<open>One row more, under a new id.\<close>

definition adds_path :: "tables \<Rightarrow> tables \<Rightarrow> path_row \<Rightarrow> bool" where
  "adds_path t t' r \<longleftrightarrow>
     t' = t\<lparr>t_paths := t_paths t @ [r]\<rparr> \<and> p_id r \<notin> p_id ` set (t_paths t) \<and> 0 < p_id r \<and> p_id r \<le> 2147483647"

lemma c_int_id_range: "0 < i \<Longrightarrow> i \<le> 2147483647 \<Longrightarrow> c_int i = i"
  by simp

context sql_service begin

lemma init_root_ok:
  assumes "tables_ok key (tbl d)" "c_range uid"
  shows "\<exists>r d'. dao_init_root_dir env (Some c) uid d = Some (r, d') \<and> tables_ok key (tbl d') \<and>
    (tbl d' = tbl d \<and> (r = - 1 \<or> (\<exists>row\<in>set (t_paths (tbl d)). p_id row = r \<and> p_user row = uid \<and> p_parent row = None)) \<or>
     adds_path (tbl d) (tbl d') (new_path uid None ''/'' ''/'' CHR ''d'' None r))"
proof (cases "uid \<le> 0")
  case False
  obtain r1 d1 where r1: "dao_get_root_dir_id env (Some c) uid d = Some (r1, d1)" "tbl d1 = tbl d"
    "r1 = - 1 \<or> (\<exists>row\<in>set (t_paths (tbl d)). p_id row = r1 \<and> p_user row = uid \<and> p_parent row = None \<and> p_type row = CHR ''d'')"
    using get_root_ok [OF assms] by blast
  have g: "goes 512 (Ins_root uid)"
    using assms by (intro goes_small) (simp_all add: clean_stmt_def)
  obtain r2 d2 where r2: "run_stmt env c (snprintf_str 512 (render (Ins_root uid))) c_int d1 = (r2, d2)"
    "r2 = - 1 \<and> tbl d2 = tbl d1 \<or> (\<exists>i. r2 = c_int i \<and> tbl d2 = apply_stmt (Ins_root uid) i (tbl d1) \<and>
       i \<notin> p_id ` set (t_paths (tbl d1)) \<and> 0 < i \<and> i \<le> 2147483647)"
    using run_stmt_goes [OF g, of c c_int d1] by auto
  have ok: "tables_ok key (tbl d2)"
    using run_stmt_tables_ok [OF g r2(1)] assms(1) r1(2) by simp
  show ?thesis
  proof (cases "r1 > 0")
    case True
    with r1 False assms(1) show ?thesis by (auto simp: dao_init_root_dir_def)
  next
    case no: False
    from r2(2) r1(2) have "tbl d2 = tbl d \<and> r2 = - 1 \<or>
        adds_path (tbl d) (tbl d2) (new_path uid None ''/'' ''/'' CHR ''d'' None r2)"
      by (auto simp: adds_path_def new_path_def)
    with no r1 r2(1) ok False show ?thesis by (auto simp: dao_init_root_dir_def render_folds)
  qed
qed (use assms in \<open>simp add: dao_init_root_dir_def\<close>)

lemma create_dir_ok:
  assumes "tables_ok key (tbl d)" "c_range uid" "c_range par" "clean_text n" "length n \<le> 200"
  shows "\<exists>r d'. dao_create_dir env (Some c) uid par (Some n) d = Some (r, d') \<and> tables_ok key (tbl d') \<and>
    (tbl d' = tbl d \<and> (r = - 1 \<or> r = 0) \<or>
     adds_path (tbl d) (tbl d') (new_path uid (Some par) n (''/'' @ n) CHR ''d'' None r))"
proof (cases "uid \<le> 0 \<or> par \<le> 0")
  case False
  obtain r1 d1 where r1: "dao_find_child_id env (Some c) par (Some n) 1 d = Some (r1, d1)" "tbl d1 = tbl d"
    using find_child_ok [OF assms(1,3,4)] assms(5) by fastforce
  let ?st = "Ins_dir uid par n (''/'' @ n)"
  have p: "snprintf_str 512 (''/'' @ n) = ''/'' @ n" using assms(5) by (simp add: snprintf_str_def)
  have g: "goes 512 ?st"
    using assms clean_text_prefix [of n 512] p by (intro goesI) (simp_all add: clean_stmt_def lits_Ins_dir)
  obtain r2 d2 where r2: "run_stmt env c (snprintf_str 512 (render ?st)) c_int d1 = (r2, d2)"
    "r2 = - 1 \<and> tbl d2 = tbl d1 \<or> (\<exists>i. r2 = c_int i \<and> tbl d2 = apply_stmt ?st i (tbl d1) \<and>
       i \<notin> p_id ` set (t_paths (tbl d1)) \<and> 0 < i \<and> i \<le> 2147483647)"
    using run_stmt_goes [OF g, of c c_int d1] by auto
  have ok: "tables_ok key (tbl d2)"
    using run_stmt_tables_ok [OF g r2(1)] assms(1) r1(2) by simp
  from r2(2) r1(2) have "tbl d2 = tbl d \<and> r2 = - 1 \<or>
      adds_path (tbl d) (tbl d2) (new_path uid (Some par) n (''/'' @ n) CHR ''d'' None r2)"
    by (auto simp: adds_path_def new_path_def)
  with r1 r2(1) ok False assms(1) p show ?thesis
    by (cases "r1 > 0") (auto simp: dao_create_dir_def render_folds Let_def)
qed (use assms in \<open>auto simp: dao_create_dir_def\<close>)

lemma delete_entry_ok:
  assumes "tables_ok key (tbl d)" "c_range uid" "c_range pid"
  shows "\<exists>r d'. dao_delete_entry env (Some c) uid pid d = (r, d') \<and> tables_ok key (tbl d') \<and>
    (r = - 1 \<and> tbl d' = tbl d \<or>
     r = 0 \<and> tbl d' = (tbl d)\<lparr>t_paths := map (tombed (\<lambda>x. p_id x = pid \<and> p_user x = uid)) (t_paths (tbl d))\<rparr>)"
proof (cases "uid \<le> 0 \<or> pid \<le> 0")
  case False
  have g: "goes 512 (Set_tomb pid uid)"
    using assms by (intro goes_small) (simp_all add: clean_stmt_def)
  obtain r d' where r: "run_stmt env c (snprintf_str 512 (render (Set_tomb pid uid))) (\<lambda>i. 0) d = (r, d')"
    "r = - 1 \<and> tbl d' = tbl d \<or> (\<exists>i. r = 0 \<and> tbl d' = apply_stmt (Set_tomb pid uid) i (tbl d))"
    using run_stmt_goes [OF g, of c "\<lambda>i. 0" d] by auto
  from r False run_stmt_tables_ok [OF g r(1) assms(1)] show ?thesis
    by (auto simp: dao_delete_entry_def render_folds tombed_def [abs_def])
qed (use assms in \<open>auto simp: dao_delete_entry_def\<close>)

end

lemma strtoul_nat: "n < 2 ^ 64 \<Longrightarrow> unat (strtoul (nat_to_dec n)) = n"
proof -
  assume n: "n < 2 ^ 64"
  then have i: "int n < 2 ^ 64" "- (2 ^ 64) < int n" by simp_all
  have "unat (word_of_nat n :: 64 word) = n" using n by (simp add: unsigned_of_nat take_bit_nat_eq_self)
  with i show ?thesis unfolding strtoul_def dec_value_nat_to_dec by (simp only: if_True simp_thms of_int_of_nat_eq)
qed

context sql_service begin

lemma file_info_ok:
  assumes "tables_ok key (tbl d)" "c_range uid" "c_range pid"
  shows "\<exists>r info d'. dao_get_file_info env (Some c) uid pid d = Some (r, info, d') \<and> tbl d' = tbl d \<and>
    (r = - 1 \<and> info = None \<or>
     r = 0 \<and> (\<exists>sha sz. info = Some (sha, sz) \<and> length sha \<le> 64 \<and>
       (\<exists>p\<in>set (t_paths (tbl d)). \<exists>f\<in>set (t_files (tbl d)). p_id p = pid \<and> p_user p = uid \<and> p_type p = CHR ''f'' \<and>
          p_file p = Some (f_id f) \<and> sha = f_sha f \<and> unat sz = f_size f)))"
proof (cases "uid \<le> 0 \<or> pid \<le> 0")
  case False
  have g: "goes 512 (File_info pid uid)"
    using assms by (intro goes_small) (simp_all add: clean_stmt_def)
  obtain f d1 where f: "fetch_first env c (snprintf_str 512 (render (File_info pid uid))) d = (f, d1)" "tbl d1 = tbl d"
      "\<And>row. f = Row row \<Longrightarrow> row \<in> set (select_rows key (File_info pid uid) (tbl d))"
    using fetch_first_goes [OF g, of c d] by auto
  show ?thesis
  proof (cases f)
    case (Row row)
    then obtain p x where x: "p \<in> set (t_paths (tbl d))" "x \<in> set (t_files (tbl d))" "p_id p = pid" "p_user p = uid"
      "p_type p = CHR ''f''" "p_file p = Some (f_id x)" "row = [Some (f_sha x), Some (nat_to_dec (f_size x))]"
      using f(3) by auto
    have b: "length (f_sha x) \<le> 64" "f_size x < 2 ^ 63" using assms(1) x(2) by (auto simp: tables_ok_def)
    then have "unat (strtoul (nat_to_dec (f_size x))) = f_size x" by (intro strtoul_nat) simp
    with b x Row f(1,2) False show ?thesis
      by (auto simp: dao_get_file_info_def render_folds cell_def intro!: bexI [of _ p] bexI [of _ x])
  qed (use f False in \<open>simp_all add: dao_get_file_info_def render_folds\<close>)
qed (use assms in \<open>auto simp: dao_get_file_info_def\<close>)

lemma find_file_ok:
  assumes "tables_ok key (tbl d)" "clean_text h" "length h \<le> 64"
  shows "\<exists>r d'. dao_find_file_by_hash env (Some c) (Some h) d = Some (r, d') \<and> tbl d' = tbl d \<and>
    (r = - 1 \<or> (\<exists>f\<in>set (t_files (tbl d)). f_id f = r \<and> key (f_sha f) = key h))"
proof -
  have g: "goes 512 (Sel_file h)"
    using assms by (intro goes_small) (simp_all add: clean_stmt_def)
  have "\<exists>r d'. fetch_id env c (snprintf_str 512 (render (Sel_file h))) d = Some (r, d') \<and> tbl d' = tbl d \<and>
    (r = - 1 \<or> id_cell r \<in> set (select_rows key (Sel_file h) (tbl d)))"
    using tables_ok_id_range(3) [OF assms(1)] by (intro fetch_id_goes [OF g]) auto
  then show ?thesis by (fastforce simp: dao_find_file_by_hash_def render_folds)
qed

lemma insert_file_ok:
  assumes "tables_ok key (tbl d)" "clean_text h" "length h \<le> 64" "h = [] \<or> last h \<noteq> CHR '' ''" "unat sz < 2 ^ 63"
  shows "\<exists>r d'. dao_insert_file env (Some c) (Some h) sz d = (r, d') \<and> tables_ok key (tbl d') \<and>
    (r = - 1 \<and> tbl d' = tbl d \<or>
     0 < r \<and> c_range r \<and> r \<notin> f_id ` set (t_files (tbl d)) \<and>
     tbl d' = (tbl d)\<lparr>t_files := t_files (tbl d) @ [\<lparr>f_id = r, f_sha = h, f_size = unat sz\<rparr>]\<rparr>)"
proof -
  have g: "goes 512 (Ins_file h (unat sz))"
    using assms by (intro goes_small) (simp_all add: clean_stmt_def)
  obtain r d' where r: "run_stmt env c (snprintf_str 512 (render (Ins_file h (unat sz)))) c_int d = (r, d')"
    "r = - 1 \<and> tbl d' = tbl d \<or> (\<exists>i. r = c_int i \<and> tbl d' = apply_stmt (Ins_file h (unat sz)) i (tbl d) \<and>
       i \<notin> f_id ` set (t_files (tbl d)) \<and> 0 < i \<and> i \<le> 2147483647)"
    using run_stmt_goes [OF g, of c c_int d] by auto
  from r run_stmt_tables_ok [OF g r(1) assms(1)] show ?thesis
    by (auto simp: dao_insert_file_def render_folds c_range_def)
qed

lemma insert_path_ok:
  assumes "tables_ok key (tbl d)" "c_range uid" "c_range par" "c_range fid" "clean_text n" "length n \<le> 190"
  shows "\<exists>r d'. dao_insert_path env (Some c) uid par (Some n) fid (''/'' @ n) d = (r, d') \<and> tables_ok key (tbl d') \<and>
    (r = - 1 \<and> tbl d' = tbl d \<or>
     adds_path (tbl d) (tbl d') (new_path uid (Some par) n (''/'' @ n) CHR ''f'' (Some fid) r))"
proof (cases "uid \<le> 0 \<or> par \<le> 0 \<or> fid \<le> 0")
  case False
  let ?st = "Ins_path uid par n (''/'' @ n) fid"
  have p: "snprintf_str 512 (''/'' @ n) = ''/'' @ n" using assms(6) by (simp add: snprintf_str_def)
  have g: "goes 512 ?st"
    using assms clean_text_prefix [of n 512] p by (intro goesI) (simp_all add: clean_stmt_def lits_Ins_path)
  obtain r d' where r: "run_stmt env c (snprintf_str 512 (render ?st)) c_int d = (r, d')"
    "r = - 1 \<and> tbl d' = tbl d \<or> (\<exists>i. r = c_int i \<and> tbl d' = apply_stmt ?st i (tbl d) \<and>
       i \<notin> p_id ` set (t_paths (tbl d)) \<and> 0 < i \<and> i \<le> 2147483647)"
    using run_stmt_goes [OF g, of c c_int d] by auto
  from r False run_stmt_tables_ok [OF g r(1) assms(1)] show ?thesis
    by (auto simp: dao_insert_path_def render_folds adds_path_def new_path_def)
qed (use assms in \<open>auto simp: dao_insert_path_def\<close>)

text \<open>The calls on transfer records change the table of transfers and nothing else.\<close>

lemma create_transfer_ok:
  assumes "c_range pid" "c_range fid" "c_range nblk" "s \<in> {''uploading'', ''downloading'', ''completed'', ''cancelled''}"
  shows "\<exists>r d' xs. dao_create_transfer_record env (Some c) pid fid nblk (Some s) d = (r, d') \<and>
    tbl d' = (tbl d)\<lparr>t_xfers := xs\<rparr> \<and> (fid \<le> 0 \<longrightarrow> r = - 1 \<and> d' = d)"
proof (cases "pid \<le> 0 \<or> fid \<le> 0 \<or> nblk \<le> 0")
  case False
  have "clean_text s" using assms(4) by (auto simp: clean_text_def sq_def)
  moreover have "length s \<le> 11" using assms(4) by auto
  ultimately have g: "goes 512 (Ins_xfer pid fid nblk s)"
    using assms by (intro goes_small) (simp_all add: clean_stmt_def)
  from run_stmt_goes [OF g, of c "\<lambda>i. 0" d] False show ?thesis
    by (auto simp: dao_create_transfer_record_def render_folds)
      (metis tables.surjective tables.update_convs(4))+
qed (auto simp: dao_create_transfer_record_def intro!: exI [of _ "t_xfers (tbl d)"])

lemma get_sequence_ok:
  assumes "c_range pid" "\<forall>x\<in>set (t_xfers (tbl d)). c_range (x_seq x)"
  shows "\<exists>r s d'. dao_get_transfer_sequence env (Some c) pid d = Some (r, s, d') \<and> tbl d' = tbl d \<and>
    (r = - 1 \<and> s = None \<or> r = 0 \<and> (\<exists>x\<in>set (t_xfers (tbl d)). x_path x = pid \<and> s = Some (x_seq x)))"
proof (cases "pid \<le> 0")
  case False
  have g: "goes 512 (Sel_seq pid)"
    using assms by (intro goes_small) (simp_all add: clean_stmt_def)
  obtain f d1 where f: "fetch_first env c (snprintf_str 512 (render (Sel_seq pid))) d = (f, d1)" "tbl d1 = tbl d"
      "\<And>row. f = Row row \<Longrightarrow> row \<in> set (select_rows key (Sel_seq pid) (tbl d))"
    using fetch_first_goes [OF g, of c d] by auto
  show ?thesis
  proof (cases f)
    case (Row row)
    then obtain x where x: "x \<in> set (t_xfers (tbl d))" "x_path x = pid" "row = id_cell (x_seq x)"
      using f(3) by auto
    with Row f False assms(2) show ?thesis
      by (auto simp: dao_get_transfer_sequence_def render_folds cell_def id_cell_def intro!: bexI [of _ x])
  qed (use f False in \<open>simp_all add: dao_get_transfer_sequence_def render_folds\<close>)
qed (auto simp: dao_get_transfer_sequence_def)

end

section \<open>Listings\<close>

definition entries_text :: "string list \<Rightarrow> string" where
  "entries_text ns = concat (map (\<lambda>n. n @ '' '') ns)"

text \<open>The names that fit, from the first on, in a buffer of \<open>len\<close> bytes of which \<open>used\<close> are used: a name is
  shown as a whole or not at all.\<close>

fun fitting :: "nat \<Rightarrow> nat \<Rightarrow> string list \<Rightarrow> string list" where
  "fitting len used [] = []"
| "fitting len used (n # ns) = (if used + length n + 1 < len then n # fitting len (used + length n + 1) ns else [])"

lemma fitting_all: "used + length (entries_text ns) < len \<Longrightarrow> fitting len used ns = ns"
  by (induction ns arbitrary: used) (auto simp: entries_text_def)

lemma fitting_set: "set (fitting len used ns) \<subseteq> set ns"
  by (induction ns arbitrary: used) auto

lemma list_entries_exact:
  "used < len \<Longrightarrow> length result = used \<Longrightarrow> \<exists>rest. list_entries (map (\<lambda>n. [Some n]) ns) len result used =
      Some (result @ entries_text (fitting len used ns) @ rest, used + length (entries_text (fitting len used ns))) \<and>
    length (result @ entries_text (fitting len used ns) @ rest) < len"
proof (induction ns arbitrary: result used)
  case (Cons n ns)
  show ?case
  proof (cases "length (n @ '' '') \<ge> len - used")
    case True
    with Cons.prems show ?thesis by (simp add: cell_def Let_def snprintf_str_def entries_text_def)
  next
    case False
    then have f: "snprintf_str (len - used) (n @ '' '') = n @ '' ''" by (intro snprintf_str_fits) simp
    have lt: "used + length (n @ '' '') < len" using False by simp
    let ?u = "used + length (n @ '' '')" and ?F = "fitting len (used + length (n @ '' '')) ns"
    obtain rest where "list_entries (map (\<lambda>n. [Some n]) ns) len (result @ n @ '' '') ?u =
        Some ((result @ n @ '' '') @ entries_text ?F @ rest, ?u + length (entries_text ?F))"
      "length ((result @ n @ '' '') @ entries_text ?F @ rest) < len"
      using Cons.IH [OF lt, of "result @ n @ '' ''"] Cons.prems(2) by auto
    with Cons.prems False f lt show ?thesis
      by (intro exI [of _ rest]) (simp add: cell_def Let_def entries_text_def)
  qed
qed (simp add: entries_text_def)

lemma list_entries_safe:
  "used < len \<Longrightarrow> length result = used \<Longrightarrow> \<exists>res u. list_entries (map (\<lambda>n. [Some n]) ns) len result used = Some (res, u)"
  using list_entries_exact by blast

text \<open>The names \<open>ls\<close> shows of a directory, in some order.\<close>

definition child_names :: "tables \<Rightarrow> int \<Rightarrow> int \<Rightarrow> string list" where
  "child_names t uid dir =
     map p_name (filter (\<lambda>r. p_user r = uid \<and> p_parent r = Some dir \<and> \<not> p_tomb r) (t_paths t))"

lemma concat_filter: "concat (map (\<lambda>x. if P x then [f x] else []) xs) = map f (filter P xs)"
  by (induction xs) auto

lemma list_rows: "select_rows key (List_dir uid dir) t = map (\<lambda>n. [Some n]) (child_names t uid dir)"
  by (simp add: child_names_def concat_filter o_def)

lemma mset_map_eq: "mset rs = mset (map f ns) \<Longrightarrow> \<exists>ms. rs = map f ms \<and> mset ms = mset ns"
proof (induction rs arbitrary: ns)
  case (Cons r rs)
  then have "r \<in> set (map f ns)" by (metis list.set_intros(1) mset_eq_setD)
  then obtain n where n: "n \<in> set ns" "r = f n" by auto
  then obtain xs ys where ns: "ns = xs @ n # ys" by (meson split_list)
  with Cons.prems n(2) have "mset rs = mset (map f (xs @ ys))" by simp
  with Cons.IH obtain ms where "rs = map f ms" "mset ms = mset (xs @ ys)" by blast
  with n(2) ns show ?case by (intro exI [of _ "n # ms"]) simp
qed simp

lemma length_entries_text: "length (entries_text ns) = (\<Sum>n\<in>#mset ns. length n + 1)"
  by (induction ns) (auto simp: entries_text_def)

lemma entries_text_last: "ns \<noteq> [] \<Longrightarrow> entries_text ns \<noteq> [] \<and> last (entries_text ns) = CHR '' ''"
  by (induction ns) (auto simp: entries_text_def split: if_splits)

text \<open>The listing of names.\<close>

definition listing :: "string list \<Rightarrow> string" where
  "listing ns = (if ns = [] then ''. ..'' else ''. .. '' @ butlast (entries_text ns))"

context sql_service begin

lemma list_dir_ok:
  assumes "c_range uid" "c_range dir" "5 < len"
  shows "\<exists>r res d'. dao_list_dir env (Some c) uid dir len d = Some (r, res, d') \<and> tbl d' = tbl d \<and> length res < len \<and>
    (r = - 1 \<or> r = 0 \<and> (\<exists>ns. mset ns = mset (child_names (tbl d) uid dir) \<and> res = listing (fitting len 5 ns)))"
proof (cases "uid \<le> 0 \<or> dir \<le> 0")
  case False
  have g: "goes 512 (List_dir uid dir)"
    using assms by (intro goes_small) (simp_all add: clean_stmt_def)
  obtain rep d1 where q: "dao_execute_query env c (snprintf_str 512 (render (List_dir uid dir))) d = (rep, d1)" by fastforce
  have ok: "stmt_ok key (List_dir uid dir) (tbl d) rep (tbl d1)" using exec_goes [OF g q] .
  show ?thesis
  proof (cases "rep = Query_error \<or> (\<exists>i. rep = Query_ok None i)")
    case True
    then show ?thesis using q ok False assms(3) by (auto simp: dao_list_dir_def render_folds stmt_ok_def)
  next
    case no: False
    then obtain rows i where rows: "rep = Query_ok (Some rows) i" by (metis my_reply.exhaust not_None_eq)
    with ok have t: "tbl d1 = tbl d" "mset rows = mset (map (\<lambda>n. [Some n]) (child_names (tbl d) uid dir))"
      by (auto simp: stmt_ok_def list_rows simp del: select_rows.simps)
    then obtain ns where ns: "rows = map (\<lambda>n. [Some n]) ns" "mset ns = mset (child_names (tbl d) uid dir)"
      using mset_map_eq by blast
    let ?F = "fitting len 5 ns"
    obtain rest where le: "list_entries (map (\<lambda>n. [Some n]) ns) len ''. .. '' 5 = Some (''. .. '' @ entries_text ?F @ rest, 5 + length (entries_text ?F))"
      "length (''. .. '' @ entries_text ?F @ rest) < len"
      using list_entries_exact [of 5 len "''. .. ''" ns] assms(3) by auto
    have cut: "(''. .. '' @ entries_text ?F @ rest) ! (4 + length (entries_text ?F)) = CHR '' '' \<and>
      take (4 + length (entries_text ?F)) (''. .. '' @ entries_text ?F @ rest) = listing ?F"
    proof (cases "?F = []")
      case False
      from entries_text_last [OF False] obtain xs where "entries_text ?F = xs @ '' ''" by (metis append_butlast_last_id)
      with False show ?thesis by (simp add: listing_def nth_append eval_nat_numeral)
    qed (simp add: listing_def entries_text_def eval_nat_numeral)
    obtain res u where lp: "list_entries (map (\<lambda>n. [Some n]) ns) len ''. .. '' 5 = Some (res, u)" "0 < u"
      "res ! (u - 1) = CHR '' ''" "take (u - 1) res = listing ?F" "length res < len"
      using le cut by auto
    have "dao_list_dir env (Some c) uid dir len d = Some (0, listing ?F, d1)"
    proof (cases "ns = []")
      case True
      with q rows ns(1) False assms(3) show ?thesis by (simp add: dao_list_dir_def render_folds listing_def)
    next
      case ne: False
      with q rows ns(1) lp(2-4) lp(1) [unfolded eval_nat_numeral] False assms(3) show ?thesis
        by (simp add: dao_list_dir_def render_folds eval_nat_numeral)
    qed
    moreover have "length (listing ?F) < len" unfolding lp(4) [symmetric] using lp(5) by simp
    ultimately show ?thesis using t(1) ns(2) by auto
  qed
qed (use assms in \<open>auto simp: dao_list_dir_def\<close>)

end

section \<open>Registration\<close>

lemma time_mod_range: "0 \<le> n \<Longrightarrow> 0 \<le> n smod 1000000 \<and> n smod 1000000 < (1000000 :: int)"
  by (cases "n = 0") (simp_all add: signed_modulo_int_def)

lemma salt_clean: "clean_text (int_to_dec i)"
proof -
  have "c \<in> set (int_to_dec i) \<Longrightarrow> c \<noteq> sq \<and> c \<noteq> CHR 0x5C \<and> c \<noteq> NUL" for c
    using int_to_dec_int_char [of c i] by (auto simp: int_char_def is_digit_def sq_def)
  then show ?thesis by (auto simp: clean_text_def)
qed

lemma hex_clean: "list_all hex_digit h \<Longrightarrow> clean_text h"
  by (auto simp: clean_text_def list_all_iff sq_def dest: hex_digit_char)

context sql_service begin

lemma generate_ok:
  "\<exists>salt h d'. generate_password_hash env pw d = (salt, h, d') \<and> tbl d' = tbl d \<and> clean_text salt \<and> length salt \<le> 11 \<and>
    clean_text h \<and> length h \<le> 64 \<and> (h = [] \<or> h = digest (snprintf_str 512 (pw @ salt)))"
proof -
  obtain n d1 where n: "wall_clock env d = (n, d1)" by fastforce
  obtain s d2 where s: "sha_calls env d1 = (s, d2)" by fastforce
  let ?salt = "int_to_dec (n smod 1000000)"
  obtain r h fs where h: "sha256_hash s (snprintf_str 512 (pw @ ?salt)) = (r, h, fs)" using prod_cases3 by blast
  have "c_range (n smod 1000000)"
    using clock_tbl [OF n] time_mod_range [of n] by (simp add: c_range_def)
  then have l: "length ?salt \<le> 11" by (rule length_int_to_dec)
  have t: "tbl d2 = tbl d" using clock_tbl [OF n] sha_tbl [OF s] by simp
  have c: "clean_text (digest x) \<and> length (digest x) = 64" for x using digest_hex hex_clean by blast
  show ?thesis
  proof (cases h)
    case None
    with n s h t l salt_clean show ?thesis by (simp add: generate_password_hash_def Let_def clean_text_def)
  next
    case (Some x)
    with sha_sound [OF s] h have "x = digest (snprintf_str 512 (pw @ ?salt))" by blast
    with Some n s h t l c salt_clean show ?thesis by (simp add: generate_password_hash_def Let_def)
  qed
qed

lemma register_ok:
  assumes "tables_ok key (tbl d)" "clean_text u" "length u \<le> 64"
  shows "\<exists>r d'. dao_register_user env (Some c) (Some u) (Some pw) d = Some (r, d') \<and> tables_ok key (tbl d') \<and>
    ((r = - 1 \<or> r = 0) \<and> tbl d' = tbl d \<or>
     0 < r \<and> r \<notin> u_id ` set (t_users (tbl d)) \<and>
       (\<exists>row ps. u_id row = r \<and> u_name row = u \<and> tbl d' = (tbl d)\<lparr>t_users := t_users (tbl d) @ [row], t_paths := ps\<rparr> \<and>
          (ps = t_paths (tbl d) \<or> (\<exists>p. ps = t_paths (tbl d) @ [p] \<and> p_user p = r))))"
proof -
  have g: "goes 512 (Sel_user u)"
    using assms by (intro goes_small) (simp_all add: clean_stmt_def)
  obtain rep d1 where q: "dao_execute_query env c (snprintf_str 512 (render (Sel_user u))) d = (rep, d1)" by fastforce
  have t1: "tbl d1 = tbl d" using exec_goes [OF g q] by (auto simp: stmt_ok_def split: my_reply.splits)
  obtain salt h d2 where gp: "generate_password_hash env pw d1 = (salt, h, d2)" "tbl d2 = tbl d1" "clean_text salt"
    "length salt \<le> 11" "clean_text h" "length h \<le> 64"
    using generate_ok by blast
  let ?st = "Ins_user u h salt"
  have g2: "goes 512 ?st"
    using assms gp by (intro goes_small) (simp_all add: clean_stmt_def)
  obtain rep2 d3 where q2: "dao_execute_query env c (snprintf_str 512 (render ?st)) d2 = (rep2, d3)" by fastforce
  have ok2: "stmt_ok key ?st (tbl d) rep2 (tbl d3)" using exec_goes [OF g2 q2] gp(2) t1 by simp
  show ?thesis
  proof (cases "\<exists>i. rep = Query_ok (Some []) i")
    case False
    then have "dao_register_user env (Some c) (Some u) (Some pw) d = Some (- 1, d1) \<or>
        dao_register_user env (Some c) (Some u) (Some pw) d = Some (0, d1)"
      using q by (auto simp: dao_register_user_def render_folds split: my_reply.splits option.splits)
    with t1 assms(1) show ?thesis by auto
  next
    case True
    show ?thesis
    proof (cases rep2)
      case Query_error
      with True q gp q2 ok2 assms(1) show ?thesis by (auto simp: dao_register_user_def render_folds stmt_ok_def)
    next
      case (Query_ok rs i)
      with ok2 have i: "i \<notin> u_id ` set (t_users (tbl d))" "0 < i" "i \<le> 2147483647" "tbl d3 = apply_stmt ?st i (tbl d)"
        by (auto simp: stmt_ok_def)
      have "tables_ok key (tbl d3)" using stmt_ok_tables [OF ok2 assms(1)] g2 by (simp add: goes_def)
      then obtain r d4 where r: "dao_init_root_dir env (Some c) i d3 = Some (r, d4)" "tables_ok key (tbl d4)"
        "tbl d4 = tbl d3 \<or> adds_path (tbl d3) (tbl d4) (new_path i None ''/'' ''/'' CHR ''d'' None r)"
        using init_root_ok [of d3 i c] i by (auto simp: c_range_def)
      have "dao_register_user env (Some c) (Some u) (Some pw) d = Some (i, d4)"
        using True q gp(1) q2 Query_ok r(1) i by (auto simp: dao_register_user_def render_folds Let_def)
      moreover have "\<exists>row ps. u_id row = i \<and> u_name row = u \<and> tbl d4 = (tbl d)\<lparr>t_users := t_users (tbl d) @ [row], t_paths := ps\<rparr> \<and>
          (ps = t_paths (tbl d) \<or> (\<exists>p. ps = t_paths (tbl d) @ [p] \<and> p_user p = i))"
        using r(3) i(4)
        by (intro exI [of _ "\<lparr>u_id = i, u_name = u, u_hash = h, u_salt = salt\<rparr>"] exI [of _ "t_paths (tbl d4)"])
          (auto simp: adds_path_def new_path_def)
      ultimately show ?thesis using i(1,2) r(2) by blast
    qed
  qed
qed

end

section \<open>The functions on a database that answers\<close>

lemma filter_ids_empty: "map (\<lambda>x. id_cell (g x)) (filter P xs) = [] \<longleftrightarrow> (\<forall>x\<in>set xs. \<not> P x)"
  by (simp add: filter_empty_conv)

context sql_available begin

lemma exec_answers:
  assumes "goes n st" "dao_execute_query env c (snprintf_str n (render st)) d = (rep, d')" "\<not> violates key st (tbl d)"
  shows "\<exists>rows i. rep = Query_ok rows i \<and> (is_select st \<longrightarrow> rows \<noteq> None)"
  using assms answers [of st d c rep d'] by (simp add: goes_def dao_execute_query_def snprintf_str_fits)

lemma fetch_first_exact:
  assumes "goes n st" "is_select st"
  shows "\<exists>f d'. fetch_first env c (snprintf_str n (render st)) d = (f, d') \<and> tbl d' = tbl d \<and>
    (if select_rows key st (tbl d) = [] then f = No_row else \<exists>row\<in>set (select_rows key st (tbl d)). f = Row row)"
proof -
  obtain rep d' where q: "dao_execute_query env c (snprintf_str n (render st)) d = (rep, d')" by fastforce
  have "\<not> violates key st (tbl d)" using assms(2) by (cases st) simp_all
  from exec_answers [OF assms(1) q this] assms(2) obtain rs i where r: "rep = Query_ok (Some rs) i" by auto
  with exec_goes [OF assms(1) q] assms(2) have t: "tbl d' = tbl d" "mset rs = mset (select_rows key st (tbl d))"
    by (auto simp: stmt_ok_def)
  then have "set rs = set (select_rows key st (tbl d))" by (blast dest: mset_eq_setD)
  with t r q show ?thesis by (cases rs) (auto simp: fetch_first_def)
qed

lemma fetch_id_exact:
  assumes "goes n st" "is_select st"
    "\<And>row. row \<in> set (select_rows key st (tbl d)) \<Longrightarrow> \<exists>i. row = id_cell i \<and> c_range i"
  shows "\<exists>r d'. fetch_id env c (snprintf_str n (render st)) d = Some (r, d') \<and> tbl d' = tbl d \<and>
    (if select_rows key st (tbl d) = [] then r = - 1 else id_cell r \<in> set (select_rows key st (tbl d)))"
proof -
  obtain f d' where f: "fetch_first env c (snprintf_str n (render st)) d = (f, d')" "tbl d' = tbl d"
    "if select_rows key st (tbl d) = [] then f = No_row else \<exists>row\<in>set (select_rows key st (tbl d)). f = Row row"
    using fetch_first_exact [OF assms(1,2)] by blast
  show ?thesis
  proof (cases "select_rows key st (tbl d) = []")
    case False
    with f(3) obtain row where row: "row \<in> set (select_rows key st (tbl d))" "f = Row row" by auto
    with assms(3) obtain i where "row = id_cell i" "c_range i" by blast
    with row f(1,2) False show ?thesis by (simp add: fetch_id_def cell_def id_cell_def)
  qed (use f in \<open>simp add: fetch_id_def\<close>)
qed

lemma run_stmt_exact:
  assumes "goes n st" "\<not> is_select st"
  shows "\<exists>r d'. run_stmt env c (snprintf_str n (render st)) f d = (r, d') \<and>
    (if violates key st (tbl d) then r = - 1 \<and> tbl d' = tbl d
     else \<exists>i. r = f i \<and> tbl d' = apply_stmt st i (tbl d) \<and>
       (\<forall>is. used_ids st (tbl d) = Some is \<longrightarrow> i \<notin> set is \<and> 0 < i \<and> i \<le> 2147483647))"
proof -
  obtain rep d' where q: "dao_execute_query env c (snprintf_str n (render st)) d = (rep, d')" by fastforce
  have ok: "stmt_ok key st (tbl d) rep (tbl d')" using exec_goes [OF assms(1) q] .
  show ?thesis
  proof (cases "violates key st (tbl d)")
    case True
    with ok assms(2) q show ?thesis
      by (cases rep) (auto simp: stmt_ok_def run_stmt_def)
  next
    case False
    from exec_answers [OF assms(1) q False] obtain rows i where "rep = Query_ok rows i" by blast
    with ok assms(2) q False show ?thesis
      by (auto simp: stmt_ok_def run_stmt_def split: option.splits)
  qed
qed

lemma find_child_exact:
  assumes "tables_ok key (tbl d)" "c_range par" "0 < par" "clean_text n" "length n \<le> 255"
  shows "\<exists>r d'. dao_find_child_id env (Some c) par (Some n) is_dir d = Some (r, d') \<and> tbl d' = tbl d \<and>
    (if \<exists>row\<in>set (t_paths (tbl d)). wanted key par n is_dir row
     then \<exists>row\<in>set (t_paths (tbl d)). wanted key par n is_dir row \<and> p_id row = r else r = - 1)"
proof -
  let ?st = "(if is_dir = - 1 then Find_any par n else if is_dir = 1 then Find_dir par n else Find_file par n)"
  let ?P = "wanted key par n is_dir"
  have g: "goes 512 ?st"
    using assms by (intro goes_small) (simp_all add: clean_stmt_def)
  have fmt: "c_format (if is_dir = - 1 then fmt_find_any else if is_dir = 1 then fmt_find_dir else fmt_find_file)
      [Fd par, Fs n] = render ?st"
    by (simp add: render_folds)
  have rows: "select_rows key ?st (tbl d) = map (\<lambda>r. id_cell (p_id r)) (filter ?P (t_paths (tbl d)))"
    by (auto simp: concat_filter wanted_def [abs_def])
  have "\<exists>r d'. fetch_id env c (snprintf_str 512 (render ?st)) d = Some (r, d') \<and> tbl d' = tbl d \<and>
    (if select_rows key ?st (tbl d) = [] then r = - 1 else id_cell r \<in> set (select_rows key ?st (tbl d)))"
    using tables_ok_id_range(2) [OF assms(1)] by (intro fetch_id_exact [OF g]) (auto split: if_splits)
  then obtain r d' where r: "fetch_id env c (snprintf_str 512 (render ?st)) d = Some (r, d')" "tbl d' = tbl d"
    "if select_rows key ?st (tbl d) = [] then r = - 1 else id_cell r \<in> set (select_rows key ?st (tbl d))" by blast
  from r(3) have "if \<exists>row\<in>set (t_paths (tbl d)). ?P row then \<exists>row\<in>set (t_paths (tbl d)). ?P row \<and> p_id row = r else r = - 1"
    unfolding rows filter_ids_empty by (auto split: if_splits)
  with r(1,2) assms(3) show ?thesis by (auto simp: dao_find_child_id_def Let_def fmt)
qed

lemma create_dir_exact:
  assumes "tables_ok key (tbl d)" "c_range uid" "c_range par" "0 < uid" "0 < par" "clean_text n" "length n \<le> 200"
  shows "\<exists>r d'. dao_create_dir env (Some c) uid par (Some n) d = Some (r, d') \<and>
    (if \<exists>row\<in>set (t_paths (tbl d)). child_of key par n row \<and> p_type row = CHR ''d'' then r = 0 \<and> tbl d' = tbl d
     else if path_violates key (tbl d) uid (Some par) n None then r = - 1 \<and> tbl d' = tbl d
     else adds_path (tbl d) (tbl d') (new_path uid (Some par) n (''/'' @ n) CHR ''d'' None r))"
proof -
  have l: "length n \<le> 255" using assms(7) by simp
  obtain r1 d1 where r1: "dao_find_child_id env (Some c) par (Some n) 1 d = Some (r1, d1)" "tbl d1 = tbl d"
    "if \<exists>row\<in>set (t_paths (tbl d)). child_of key par n row \<and> p_type row = CHR ''d''
     then \<exists>row\<in>set (t_paths (tbl d)). (child_of key par n row \<and> p_type row = CHR ''d'') \<and> p_id row = r1 else r1 = - 1"
    using find_child_exact [OF assms(1,3,5,6) l, of c 1] unfolding wanted_simps by blast
  then have found: "r1 > 0 \<longleftrightarrow> (\<exists>row\<in>set (t_paths (tbl d)). child_of key par n row \<and> p_type row = CHR ''d'')"
    using tables_ok_id_range(2) [OF assms(1)] by (fastforce split: if_splits)
  let ?st = "Ins_dir uid par n (''/'' @ n)"
  have p: "snprintf_str 512 (''/'' @ n) = ''/'' @ n" using assms(7) by (simp add: snprintf_str_def)
  have g: "goes 512 ?st"
    using assms clean_text_prefix [of n 512] p by (intro goesI) (simp_all add: clean_stmt_def lits_Ins_dir)
  obtain r2 d2 where r2: "run_stmt env c (snprintf_str 512 (render ?st)) c_int d1 = (r2, d2)"
    "if path_violates key (tbl d) uid (Some par) n None then r2 = - 1 \<and> tbl d2 = tbl d
     else \<exists>i. r2 = c_int i \<and> tbl d2 = apply_stmt ?st i (tbl d) \<and> i \<notin> p_id ` set (t_paths (tbl d)) \<and> 0 < i \<and> i \<le> 2147483647"
    using run_stmt_exact [OF g, of c c_int d1] r1(2)
    by (cases "path_violates key (tbl d) uid (Some par) n None") auto
  have "if path_violates key (tbl d) uid (Some par) n None then r2 = - 1 \<and> tbl d2 = tbl d
     else adds_path (tbl d) (tbl d2) (new_path uid (Some par) n (''/'' @ n) CHR ''d'' None r2)"
    using r2(2) by (auto simp: adds_path_def new_path_def split: if_splits)
  with r1(1,2) r2(1) found assms(4,5) p show ?thesis
    by (cases "r1 > 0"; cases "path_violates key (tbl d) uid (Some par) n None") (auto simp: dao_create_dir_def render_folds)
qed

lemma delete_entry_exact:
  assumes "c_range uid" "c_range pid" "0 < uid" "0 < pid"
  shows "\<exists>d'. dao_delete_entry env (Some c) uid pid d = (0, d') \<and>
    tbl d' = (tbl d)\<lparr>t_paths := map (tombed (\<lambda>x. p_id x = pid \<and> p_user x = uid)) (t_paths (tbl d))\<rparr>"
proof -
  have g: "goes 512 (Set_tomb pid uid)"
    using assms by (intro goes_small) (simp_all add: clean_stmt_def)
  from run_stmt_exact [OF g, of c "\<lambda>i. 0" d] assms(3,4) show ?thesis
    by (auto simp: dao_delete_entry_def render_folds tombed_def [abs_def])
qed

end

context sql_available begin

lemma login_exact:
  assumes "tables_ok key (tbl d)" "clean_text u" "length u \<le> 64" "length pw \<le> 127"
    "row \<in> set (t_users (tbl d))" "key (u_name row) = key u"
  shows "\<exists>d'. dao_login_user env (Some c) (Some u) (Some pw) d =
    Some (if u_hash row = digest (pw @ u_salt row) then u_id row else - 1, d') \<and> tbl d' = tbl d"
proof -
  have g: "goes 512 (Sel_login u)"
    using assms by (intro goes_small) (simp_all add: clean_stmt_def)
  let ?cells = "\<lambda>r. [Some (int_to_dec (u_id r)), Some (u_hash r), Some (u_salt r)]"
  have inj: "inj_on (\<lambda>r. key (u_name r)) (set (t_users (tbl d)))"
    using assms(1) by (simp add: tables_ok_def distinct_map)
  have rows: "set (select_rows key (Sel_login u) (tbl d)) = {?cells row}"
  proof -
    have "x = row" if "x \<in> set (t_users (tbl d))" "key (u_name x) = key u" for x
      by (rule inj_onD [OF inj]) (use that assms(5,6) in simp_all)
    then have "{x \<in> set (t_users (tbl d)). key (u_name x) = key u} = {row}" using assms(5,6) by blast
    then show ?thesis by (simp add: concat_filter)
  qed
  then have ne: "select_rows key (Sel_login u) (tbl d) \<noteq> []" by (metis list.set(1) insert_not_empty)
  have sel: "is_select (Sel_login u)" by simp
  obtain f d1 where f0: "fetch_first env c (snprintf_str 512 (render (Sel_login u))) d = (f, d1)" "tbl d1 = tbl d"
      "if select_rows key (Sel_login u) (tbl d) = [] then f = No_row
       else \<exists>row\<in>set (select_rows key (Sel_login u) (tbl d)). f = Row row"
    using fetch_first_exact [OF g sel, of c d] by blast
  with ne have "\<exists>cs\<in>set (select_rows key (Sel_login u) (tbl d)). f = Row cs" by (simp only: if_False)
  then have "f = Row (?cells row)" unfolding rows by blast
  note f = f0(1,2) this
  have i: "atoi (int_to_dec (u_id row)) = u_id row"
    using tables_ok_id_range(1) [OF assms(1,5)] by simp
  obtain s d2 where s: "sha_calls env d1 = (s, d2)" by fastforce
  have salt: "length (u_salt row) \<le> 32" using assms(1,5) by (simp add: tables_ok_def)
  then have "snprintf_str 512 (pw @ u_salt row) = pw @ u_salt row" using assms(4) by (intro snprintf_str_fits) simp
  then have h: "sha256_hash s (snprintf_str 512 (pw @ u_salt row)) = (0, Some (digest (pw @ u_salt row)), [])"
    using sha256_hash_ok [OF sha_works [OF s]] by simp
  have "tbl d2 = tbl d" using sha_tbl [OF s] f(2) by simp
  with f i s h show ?thesis
    by (auto simp: dao_login_user_def render_folds cell_def verify_password_def Let_def)
qed

lemma get_root_exact:
  assumes "tables_ok key (tbl d)" "c_range uid" "0 < uid"
  shows "\<exists>r d'. dao_get_root_dir_id env (Some c) uid d = Some (r, d') \<and> tbl d' = tbl d \<and>
    (let P = (\<lambda>row. p_user row = uid \<and> p_parent row = None \<and> p_type row = CHR ''d'')
     in if \<exists>row\<in>set (t_paths (tbl d)). P row then \<exists>row\<in>set (t_paths (tbl d)). P row \<and> p_id row = r else r = - 1)"
proof -
  have g: "goes 256 (Sel_root uid)"
    using assms by (intro goes_small) (simp_all add: clean_stmt_def)
  let ?P = "\<lambda>row. p_user row = uid \<and> p_parent row = None \<and> p_type row = CHR ''d''"
  have rows: "select_rows key (Sel_root uid) (tbl d) = map (\<lambda>r. id_cell (p_id r)) (filter ?P (t_paths (tbl d)))"
    by (simp add: concat_filter)
  have "\<exists>r d'. fetch_id env c (snprintf_str 256 (render (Sel_root uid))) d = Some (r, d') \<and> tbl d' = tbl d \<and>
    (if select_rows key (Sel_root uid) (tbl d) = [] then r = - 1 else id_cell r \<in> set (select_rows key (Sel_root uid) (tbl d)))"
    using tables_ok_id_range(2) [OF assms(1)] by (intro fetch_id_exact [OF g]) auto
  then obtain r d' where r: "fetch_id env c (snprintf_str 256 (render (Sel_root uid))) d = Some (r, d')" "tbl d' = tbl d"
    "if select_rows key (Sel_root uid) (tbl d) = [] then r = - 1 else id_cell r \<in> set (select_rows key (Sel_root uid) (tbl d))"
    by blast
  from r(3) have "if \<exists>row\<in>set (t_paths (tbl d)). ?P row then \<exists>row\<in>set (t_paths (tbl d)). ?P row \<and> p_id row = r else r = - 1"
    unfolding rows filter_ids_empty by (auto split: if_splits)
  with r(1,2) assms(3) show ?thesis by (auto simp: dao_get_root_dir_id_def render_folds Let_def)
qed

lemma init_root_exact:
  assumes "tables_ok key (tbl d)" "c_range uid" "0 < uid" "uid \<in> u_id ` set (t_users (tbl d))"
    "ids_left (map p_id (t_paths (tbl d)))" "\<not> (\<exists>row\<in>set (t_paths (tbl d)). p_user row = uid)"
  shows "\<exists>r d'. dao_init_root_dir env (Some c) uid d = Some (r, d') \<and>
    adds_path (tbl d) (tbl d') (new_path uid None ''/'' ''/'' CHR ''d'' None r)"
proof -
  obtain r1 d1 where r1: "dao_get_root_dir_id env (Some c) uid d = Some (r1, d1)" "tbl d1 = tbl d" "r1 = - 1"
    using get_root_exact [OF assms(1-3), of c] assms(6) unfolding Let_def by auto
  have g: "goes 512 (Ins_root uid)"
    using assms by (intro goes_small) (simp_all add: clean_stmt_def)
  have "\<not> violates key (Ins_root uid) (tbl d1)"
    using assms r1(2) by (auto simp: path_violates_def)
  then obtain r2 d2 where "run_stmt env c (snprintf_str 512 (render (Ins_root uid))) c_int d1 = (r2, d2)"
    "adds_path (tbl d) (tbl d2) (new_path uid None ''/'' ''/'' CHR ''d'' None r2)"
    using run_stmt_exact [OF g, of c c_int d1] r1(2) by (auto simp: adds_path_def new_path_def)
  with r1 assms(3) show ?thesis by (auto simp: dao_init_root_dir_def render_folds)
qed

lemma generate_exact:
  assumes "length pw \<le> 127"
  shows "\<exists>salt d'. generate_password_hash env pw d = (salt, digest (pw @ salt), d') \<and> tbl d' = tbl d \<and>
    clean_text salt \<and> length salt \<le> 11"
proof -
  obtain n d1 where n: "wall_clock env d = (n, d1)" by fastforce
  obtain s d2 where s: "sha_calls env d1 = (s, d2)" by fastforce
  let ?salt = "int_to_dec (n smod 1000000)"
  have "c_range (n smod 1000000)"
    using clock_tbl [OF n] time_mod_range [of n] by (simp add: c_range_def)
  then have l: "length ?salt \<le> 11" by (rule length_int_to_dec)
  then have "snprintf_str 512 (pw @ ?salt) = pw @ ?salt" using assms by (intro snprintf_str_fits) simp
  then have h: "sha256_hash s (snprintf_str 512 (pw @ ?salt)) = (0, Some (digest (pw @ ?salt)), [])"
    using sha256_hash_ok [OF sha_works [OF s]] by simp
  have "tbl d2 = tbl d" using clock_tbl [OF n] sha_tbl [OF s] by simp
  with n s h l salt_clean show ?thesis by (auto simp: generate_password_hash_def Let_def)
qed

lemma register_exact:
  assumes "tables_ok key (tbl d)" "clean_text u" "length u \<le> 64" "length pw \<le> 127"
    "\<not> (\<exists>row\<in>set (t_users (tbl d)). key (u_name row) = key u)"
    "ids_left (map u_id (t_users (tbl d)))" "ids_left (map p_id (t_paths (tbl d)))"
  shows "\<exists>row root d'. dao_register_user env (Some c) (Some u) (Some pw) d = Some (u_id row, d') \<and> tables_ok key (tbl d') \<and>
    0 < u_id row \<and> c_range (u_id row) \<and> u_name row = u \<and> u_hash row = digest (pw @ u_salt row) \<and>
    adds_path ((tbl d)\<lparr>t_users := t_users (tbl d) @ [row]\<rparr>) (tbl d') (new_path (u_id row) None ''/'' ''/'' CHR ''d'' None root)"
proof -
  have g: "goes 512 (Sel_user u)"
    using assms by (intro goes_small) (simp_all add: clean_stmt_def)
  obtain rep d1 where q: "dao_execute_query env c (snprintf_str 512 (render (Sel_user u))) d = (rep, d1)" by fastforce
  obtain rows i1 where rows: "rep = Query_ok (Some rows) i1" using exec_answers [OF g q] by auto
  have "select_rows key (Sel_user u) (tbl d) = []" using assms(5) by (simp add: concat_filter filter_empty_conv)
  with exec_goes [OF g q] rows have t1: "tbl d1 = tbl d" "rows = []"
    by (simp_all add: stmt_ok_def del: select_rows.simps)
  obtain salt d2 where gp: "generate_password_hash env pw d1 = (salt, digest (pw @ salt), d2)" "tbl d2 = tbl d1"
    "clean_text salt" "length salt \<le> 11"
    using generate_exact [OF assms(4)] by blast
  let ?st = "Ins_user u (digest (pw @ salt)) salt"
  have g2: "goes 512 ?st"
    using assms gp digest_hex hex_clean by (intro goes_small) (simp_all add: clean_stmt_def)
  obtain rep2 d3 where q2: "dao_execute_query env c (snprintf_str 512 (render ?st)) d2 = (rep2, d3)" by fastforce
  have ok2: "stmt_ok key ?st (tbl d) rep2 (tbl d3)" using exec_goes [OF g2 q2] gp(2) t1 by simp
  have "\<not> violates key ?st (tbl d2)" using assms(5,6) gp(2) t1 by simp
  from exec_answers [OF g2 q2 this] obtain rs i where rep2: "rep2 = Query_ok rs i" by auto
  let ?row = "\<lparr>u_id = i, u_name = u, u_hash = digest (pw @ salt), u_salt = salt\<rparr>"
  from ok2 rep2 have i: "i \<notin> u_id ` set (t_users (tbl d))" "0 < i" "i \<le> 2147483647"
    "tbl d3 = (tbl d)\<lparr>t_users := t_users (tbl d) @ [?row]\<rparr>"
    by (auto simp: stmt_ok_def)
  have ok3: "tables_ok key (tbl d3)" using stmt_ok_tables [OF ok2 assms(1)] g2 by (simp add: goes_def)
  have "\<not> (\<exists>p\<in>set (t_paths (tbl d3)). p_user p = i)" using assms(1) i by (auto simp: tables_ok_def)
  then obtain r d4 where r: "dao_init_root_dir env (Some c) i d3 = Some (r, d4)"
    "adds_path (tbl d3) (tbl d4) (new_path i None ''/'' ''/'' CHR ''d'' None r)"
    using init_root_exact [OF ok3, of i c] i assms(7) by (auto simp: c_range_def)
  obtain r' d5 where "dao_init_root_dir env (Some c) i d3 = Some (r', d5)" "tables_ok key (tbl d5)"
    using init_root_ok [OF ok3, of i c] i by (auto simp: c_range_def)
  with r(1) have ok4: "tables_ok key (tbl d4)" by simp
  have "dao_register_user env (Some c) (Some u) (Some pw) d = Some (i, d4)"
    using q rows t1(2) gp(1) q2 rep2 r(1) i by (auto simp: dao_register_user_def render_folds Let_def)
  with i r(2) ok4 show ?thesis
    by (intro exI [of _ ?row] exI [of _ r] exI [of _ d4]) (simp add: c_range_def)
qed

end

context sql_available begin

lemma find_file_exact:
  assumes "tables_ok key (tbl d)" "clean_text h" "length h \<le> 64"
  shows "\<exists>r d'. dao_find_file_by_hash env (Some c) (Some h) d = Some (r, d') \<and> tbl d' = tbl d \<and>
    (if \<exists>f\<in>set (t_files (tbl d)). key (f_sha f) = key h
     then \<exists>f\<in>set (t_files (tbl d)). key (f_sha f) = key h \<and> f_id f = r else r = - 1)"
proof -
  have g: "goes 512 (Sel_file h)"
    using assms by (intro goes_small) (simp_all add: clean_stmt_def)
  have rows: "select_rows key (Sel_file h) (tbl d) =
      map (\<lambda>f. id_cell (f_id f)) (filter (\<lambda>f. key (f_sha f) = key h) (t_files (tbl d)))"
    by (simp add: concat_filter)
  have "\<exists>r d'. fetch_id env c (snprintf_str 512 (render (Sel_file h))) d = Some (r, d') \<and> tbl d' = tbl d \<and>
    (if select_rows key (Sel_file h) (tbl d) = [] then r = - 1 else id_cell r \<in> set (select_rows key (Sel_file h) (tbl d)))"
    using tables_ok_id_range(3) [OF assms(1)] by (intro fetch_id_exact [OF g]) auto
  then obtain r d' where r: "fetch_id env c (snprintf_str 512 (render (Sel_file h))) d = Some (r, d')" "tbl d' = tbl d"
    "if select_rows key (Sel_file h) (tbl d) = [] then r = - 1 else id_cell r \<in> set (select_rows key (Sel_file h) (tbl d))"
    by blast
  from r(3) have "if \<exists>f\<in>set (t_files (tbl d)). key (f_sha f) = key h
     then \<exists>f\<in>set (t_files (tbl d)). key (f_sha f) = key h \<and> f_id f = r else r = - 1"
    unfolding rows filter_ids_empty by (auto split: if_splits)
  with r(1,2) show ?thesis by (auto simp: dao_find_file_by_hash_def render_folds)
qed

lemma insert_file_exact:
  assumes "tables_ok key (tbl d)" "clean_text h" "length h \<le> 64" "h = [] \<or> last h \<noteq> CHR '' ''" "unat sz < 2 ^ 63"
    "\<not> violates key (Ins_file h (unat sz)) (tbl d)"
  shows "\<exists>r d'. dao_insert_file env (Some c) (Some h) sz d = (r, d') \<and> tables_ok key (tbl d') \<and>
     0 < r \<and> c_range r \<and> r \<notin> f_id ` set (t_files (tbl d)) \<and>
     tbl d' = (tbl d)\<lparr>t_files := t_files (tbl d) @ [\<lparr>f_id = r, f_sha = h, f_size = unat sz\<rparr>]\<rparr>"
proof -
  have g: "goes 512 (Ins_file h (unat sz))"
    using assms by (intro goes_small) (simp_all add: clean_stmt_def)
  obtain r d' where r: "run_stmt env c (snprintf_str 512 (render (Ins_file h (unat sz)))) c_int d = (r, d')"
    "\<exists>i. r = c_int i \<and> tbl d' = apply_stmt (Ins_file h (unat sz)) i (tbl d) \<and>
       i \<notin> f_id ` set (t_files (tbl d)) \<and> 0 < i \<and> i \<le> 2147483647"
    using run_stmt_exact [OF g, of c c_int d] assms(6) by auto
  from r run_stmt_tables_ok [OF g r(1) assms(1)] show ?thesis
    by (auto simp: dao_insert_file_def render_folds c_range_def)
qed

lemma insert_path_exact:
  assumes "tables_ok key (tbl d)" "c_range uid" "c_range par" "c_range fid" "0 < uid" "0 < par" "0 < fid"
    "clean_text n" "length n \<le> 190"
  shows "\<exists>r d'. dao_insert_path env (Some c) uid par (Some n) fid (''/'' @ n) d = (r, d') \<and> tables_ok key (tbl d') \<and>
    (if path_violates key (tbl d) uid (Some par) n (Some fid) then r = - 1 \<and> tbl d' = tbl d
     else adds_path (tbl d) (tbl d') (new_path uid (Some par) n (''/'' @ n) CHR ''f'' (Some fid) r))"
proof -
  let ?st = "Ins_path uid par n (''/'' @ n) fid"
  have p: "snprintf_str 512 (''/'' @ n) = ''/'' @ n" using assms(9) by (simp add: snprintf_str_def)
  have g: "goes 512 ?st"
    using assms clean_text_prefix [of n 512] p by (intro goesI) (simp_all add: clean_stmt_def lits_Ins_path)
  obtain r d' where r: "run_stmt env c (snprintf_str 512 (render ?st)) c_int d = (r, d')"
    "if path_violates key (tbl d) uid (Some par) n (Some fid) then r = - 1 \<and> tbl d' = tbl d
     else \<exists>i. r = c_int i \<and> tbl d' = apply_stmt ?st i (tbl d) \<and> i \<notin> p_id ` set (t_paths (tbl d)) \<and> 0 < i \<and> i \<le> 2147483647"
    using run_stmt_exact [OF g, of c c_int d]
    by (cases "path_violates key (tbl d) uid (Some par) n (Some fid)") auto
  from r assms(5-7) run_stmt_tables_ok [OF g r(1) assms(1)] show ?thesis
    by (cases "path_violates key (tbl d) uid (Some par) n (Some fid)")
      (auto simp: dao_insert_path_def render_folds adds_path_def new_path_def)
qed

lemma file_info_exact:
  assumes "tables_ok key (tbl d)" "c_range uid" "c_range pid" "0 < uid" "0 < pid"
    "p \<in> set (t_paths (tbl d))" "p_id p = pid" "p_user p = uid" "p_type p = CHR ''f''"
    "f \<in> set (t_files (tbl d))" "p_file p = Some (f_id f)"
  shows "\<exists>sz d'. dao_get_file_info env (Some c) uid pid d = Some (0, Some (f_sha f, sz), d') \<and> tbl d' = tbl d \<and>
    unat sz = f_size f"
proof -
  have g: "goes 512 (File_info pid uid)"
    using assms by (intro goes_small) (simp_all add: clean_stmt_def)
  have sel: "is_select (File_info pid uid)" by simp
  have "[Some (f_sha f), Some (nat_to_dec (f_size f))] \<in> set (select_rows key (File_info pid uid) (tbl d))"
    using assms(6-11) by (simp, intro bexI [of _ f]) auto
  then have one: "select_rows key (File_info pid uid) (tbl d) \<noteq> []" by (metis empty_iff list.set(1))
  obtain fe d1 where fe: "fetch_first env c (snprintf_str 512 (render (File_info pid uid))) d = (fe, d1)" "tbl d1 = tbl d"
      "if select_rows key (File_info pid uid) (tbl d) = [] then fe = No_row
       else \<exists>row\<in>set (select_rows key (File_info pid uid) (tbl d)). fe = Row row"
    using fetch_first_exact [OF g sel, of c d] by blast
  with one have "\<exists>cs\<in>set (select_rows key (File_info pid uid) (tbl d)). fe = Row cs" by (simp only: if_False)
  then obtain cs where cs: "cs \<in> set (select_rows key (File_info pid uid) (tbl d))" "fe = Row cs" by blast
  then obtain q x where x: "q \<in> set (t_paths (tbl d))" "x \<in> set (t_files (tbl d))" "p_id q = pid"
    "p_file q = Some (f_id x)" "cs = [Some (f_sha x), Some (nat_to_dec (f_size x))]"
    by auto
  have inj: "inj_on p_id (set (t_paths (tbl d)))" "inj_on f_id (set (t_files (tbl d)))"
    using assms(1) by (simp_all add: tables_ok_def ids_ok_def distinct_map)
  have "q = p" using inj_onD [OF inj(1) _ x(1) assms(6)] x(3) assms(7) by simp
  then have "x = f" using inj_onD [OF inj(2) _ x(2) assms(10)] x(4) assms(11) by simp
  have b: "length (f_sha f) \<le> 64" "f_size f < 2 ^ 63" using assms(1,10) by (auto simp: tables_ok_def)
  then have "unat (strtoul (nat_to_dec (f_size f))) = f_size f" by (intro strtoul_nat) simp
  with b cs(2) x(5) \<open>x = f\<close> fe(1,2) assms(4,5) show ?thesis
    by (simp add: dao_get_file_info_def render_folds cell_def)
qed

end

end
