(* ===== verification/Server_World.thy ===== *)
theory Server_World
  imports Dao_Laws Messages
begin

text \<open>
  What a worker thread of the server works on while it serves one client: the database connection
  of the thread (\<open>get_thread_db_conn\<close>, NULL is \<open>None\<close>), the database, the socket of the client and
  the file system below the working directory. Files are named by the path text the code uses.
  Whether the next fallible call on the file system succeeds is said by a list of answers; when the
  list is exhausted calls succeed. \<open>send_msg\<close> of \<open>src/server/session.c\<close> is here because every
  handler uses it.
\<close>

datatype fs_entry = Directory | Regular string

record 'd world =
  w_conn :: "nat option"
  w_db :: 'd
  w_sock :: sock
  w_fs :: "string \<rightharpoonup> fs_entry"
  w_faults :: "bool list"

definition get_thread_db_conn :: "'d world \<Rightarrow> nat option" where
  "get_thread_db_conn w = w_conn w"

definition os_answer :: "'d world \<Rightarrow> bool \<times> 'd world" where
  "os_answer w = (case w_faults w of [] \<Rightarrow> (True, w) | b # bs \<Rightarrow> (b, w\<lparr>w_faults := bs\<rparr>))"

text \<open>The result of the send is logged and otherwise ignored.\<close>

definition send_msg :: "sock \<Rightarrow> string \<Rightarrow> sock" where
  "send_msg k msg = snd (send_command_packet k (init_command_packet (cmd_code CMD_TYPE_REPLY) (Some msg)))"

definition say :: "string \<Rightarrow> 'd world \<Rightarrow> 'd world" where
  "say msg w = w\<lparr>w_sock := send_msg (w_sock w) msg\<rparr>"

text \<open>A DAO call on the database of the world.\<close>

definition db_call :: "('d \<Rightarrow> ('a \<times> 'd) ub) \<Rightarrow> 'd world \<Rightarrow> ('a \<times> 'd world) ub" where
  "db_call f w = (case f (w_db w) of None \<Rightarrow> None | Some (a, d) \<Rightarrow> Some (a, w\<lparr>w_db := d\<rparr>))"

definition db_run :: "('d \<Rightarrow> 'a \<times> 'd) \<Rightarrow> 'd world \<Rightarrow> 'a \<times> 'd world" where
  "db_run f w = (case f (w_db w) of (a, d) \<Rightarrow> (a, w\<lparr>w_db := d\<rparr>))"

section \<open>Lemmas\<close>

lemma send_full_rx: "send_full k buf = (r, k') \<Longrightarrow> rx_segs k' = rx_segs k \<and> rx_fail k' = rx_fail k"
  using send_full_prefix by blast

lemma send_msg_rx [simp]: "rx_segs (send_msg k m) = rx_segs k" "rx_fail (send_msg k m) = rx_fail k"
  using send_full_rx [of k] unfolding send_msg_def send_command_packet_def by (metis prod.collapse)+

lemma say_simps [simp]:
  "w_conn (say m w) = w_conn w" "w_db (say m w) = w_db w" "w_fs (say m w) = w_fs w"
  "w_faults (say m w) = w_faults w" "w_sock (say m w) = send_msg (w_sock w) m"
  by (simp_all add: say_def)

lemma stream_send_msg [simp]: "stream (send_msg k m) = stream k"
  by (simp add: stream_def)

text \<open>A socket on which every send goes through.\<close>

definition open_sock :: "sock \<Rightarrow> bool" where
  "open_sock k \<longleftrightarrow> tx_caps k = []"

definition reply_bytes :: "string \<Rightarrow> string" where
  "reply_bytes m = bytes_of_command (init_command_packet (cmd_code CMD_TYPE_REPLY) (Some m))"

lemma send_full_open: "open_sock k \<Longrightarrow> send_full k buf = (0, k\<lparr>tx_out := tx_out k @ buf\<rparr>)"
  by (cases "buf = []")
    (simp_all add: send_full_def send_loop.simps [of "[]" 0] send_loop.simps [of buf 0]
      send_loop.simps [of buf "length buf"] os_send_def open_sock_def)

lemma send_msg_open: "open_sock k \<Longrightarrow> send_msg k m = k\<lparr>tx_out := tx_out k @ reply_bytes m\<rparr>"
  by (simp add: send_msg_def send_command_packet_def send_full_open reply_bytes_def)

text \<open>The database calls touch nothing but the database.\<close>

lemma db_call_world: "db_call f w = Some (a, w') \<Longrightarrow> \<exists>d. w' = w\<lparr>w_db := d\<rparr>"
  by (auto simp: db_call_def split: option.splits)

lemma db_run_world: "db_run f w = (a, w') \<Longrightarrow> \<exists>d. w' = w\<lparr>w_db := d\<rparr>"
  by (auto simp: db_run_def split: prod.splits)

end
