(* ===== verification/Client.thy ===== *)
theory Client
  imports Protocol Sha256_Utils Config_Ini Client_Texts Server_World
begin

text \<open>
  The client: \<open>process_command\<close> and its helpers in \<open>src/client/client_command_handle.c\<close> and the
  command loop of \<open>src/client/client.c\<close>. Its state is the socket, the files it can reach by path text,
  and what it has printed; \<open>c_stderr\<close> collects the prefixes given to \<open>perror\<close>. Whether the next
  fallible call on the file system succeeds is said by \<open>c_faults\<close>, how much the coming \<open>read\<close> and
  \<open>write\<close> calls transfer at most by \<open>c_caps\<close> (0 or less is the value they return); when a list is
  exhausted the calls succeed and transfer all. The lines logged are left out.
\<close>

record client =
  c_sock :: sock
  c_fs :: "string \<rightharpoonup> fs_entry"
  c_faults :: "bool list"
  c_caps :: "int list"
  c_stdout :: string
  c_stderr :: "string list"

text \<open>The external program \<open>sha256sum\<close>, and what \<open>stat\<close> gives as the size of a directory.\<close>

record client_env =
  ce_sha :: sha_env
  ce_dir_size :: nat

definition CLIENT_BUFFER_SIZE :: nat where "CLIENT_BUFFER_SIZE = 4096"

definition c_print :: "string \<Rightarrow> client \<Rightarrow> client" where
  "c_print s w = w\<lparr>c_stdout := c_stdout w @ s\<rparr>"

definition c_perror :: "string \<Rightarrow> client \<Rightarrow> client" where
  "c_perror s w = w\<lparr>c_stderr := c_stderr w @ [s]\<rparr>"

section \<open>System calls\<close>

definition c_answer :: "client \<Rightarrow> bool \<times> client" where
  "c_answer w = (case c_faults w of [] \<Rightarrow> (True, w) | b # bs \<Rightarrow> (b, w\<lparr>c_faults := bs\<rparr>))"

definition c_cap :: "nat \<Rightarrow> client \<Rightarrow> int \<times> client" where
  "c_cap n w = (case c_caps w of [] \<Rightarrow> (int n, w) | c # cs \<Rightarrow> (min c (int n), w\<lparr>c_caps := cs\<rparr>))"

fun entry_size :: "client_env \<Rightarrow> fs_entry \<Rightarrow> nat" where
  "entry_size env Directory = ce_dir_size env"
| "entry_size env (Regular s) = length s"

text \<open>\<open>stat\<close> (and \<open>fstat\<close> of a file opened under the path).\<close>

definition c_stat :: "client_env \<Rightarrow> string \<Rightarrow> client \<Rightarrow> nat option \<times> client" where
  "c_stat env path w =
     (case c_fs w path of
        None \<Rightarrow> (None, w)
      | Some e \<Rightarrow> (case c_answer w of (b, w1) \<Rightarrow> (if b then Some (entry_size env e) else None, w1)))"

definition c_open_read :: "string \<Rightarrow> client \<Rightarrow> bool \<times> client" where
  "c_open_read path w = (case c_fs w path of None \<Rightarrow> (False, w) | Some e \<Rightarrow> c_answer w)"

text \<open>The directory a path names a file in, and \<open>open(path, O_WRONLY | O_CREAT)\<close>.\<close>

definition c_dir_of :: "string \<Rightarrow> string" where
  "c_dir_of path = butlast (rev (dropWhile (\<lambda>c. c \<noteq> CHR ''/'') (rev path)))"

definition c_open_write :: "string \<Rightarrow> client \<Rightarrow> bool \<times> client" where
  "c_open_write path w =
     (if c_fs w path = Some Directory \<or> c_fs w (c_dir_of path) \<noteq> Some Directory then (False, w)
      else
        (case c_answer w of
           (False, w1) \<Rightarrow> (False, w1)
         | (True, w1) \<Rightarrow>
             (True, if c_fs w1 path = None then w1\<lparr>c_fs := (c_fs w1)(path \<mapsto> Regular [])\<rparr> else w1)))"

text \<open>\<open>ftruncate(fd, 0)\<close> of a file open for writing.\<close>

definition c_truncate :: "string \<Rightarrow> client \<Rightarrow> bool \<times> client" where
  "c_truncate path w =
     (case c_answer w of
        (False, w1) \<Rightarrow> (False, w1)
      | (True, w1) \<Rightarrow> (True, w1\<lparr>c_fs := (c_fs w1)(path \<mapsto> Regular [])\<rparr>))"

text \<open>Bytes written at a position; a gap before it is filled with zeros.\<close>

definition put_at :: "nat \<Rightarrow> string \<Rightarrow> string \<Rightarrow> string" where
  "put_at off d s = take off s @ replicate (off - length s) NUL @ d @ drop (off + length d) s"

definition content_of :: "(string \<rightharpoonup> fs_entry) \<Rightarrow> string \<Rightarrow> string" where
  "content_of fs path = (case fs path of Some (Regular s) \<Rightarrow> s | _ \<Rightarrow> [])"

definition c_write :: "string \<Rightarrow> nat \<Rightarrow> string \<Rightarrow> client \<Rightarrow> int \<times> client" where
  "c_write path pos d w =
     (case c_cap (length d) w of
        (r, w1) \<Rightarrow>
          if r \<le> 0 then (r, w1)
          else (r, w1\<lparr>c_fs := (c_fs w1)(path \<mapsto> Regular (put_at pos (take (nat r) d) (content_of (c_fs w1) path)))\<rparr>))"

text \<open>\<open>read\<close> gives what there is from the position on; it fails on a directory.\<close>

definition c_read :: "string \<Rightarrow> nat \<Rightarrow> nat \<Rightarrow> client \<Rightarrow> int \<times> string \<times> client" where
  "c_read path pos n w =
     (case c_fs w path of
        Some (Regular s) \<Rightarrow>
          (case c_cap (length (take n (drop pos s))) w of
             (r, w1) \<Rightarrow> (r, take (nat r) (drop pos s), w1))
      | _ \<Rightarrow> (- 1, [], w))"

section \<open>Helpers\<close>

text \<open>\<open>write_file_full\<close> on a file at position \<open>pos\<close>.\<close>

function write_loop :: "string \<Rightarrow> nat \<Rightarrow> string \<Rightarrow> nat \<Rightarrow> client \<Rightarrow> int \<times> client" where
  "write_loop path pos buf written w =
     (if written < length buf
      then
        (case c_write path (pos + written) (drop written buf) w of
           (ret, w1) \<Rightarrow> if ret \<le> 0 then (- 1, w1) else write_loop path pos buf (written + nat ret) w1)
      else (0, w))"
  by pat_completeness auto
termination write_loop
  by (relation "measure (\<lambda>(path, pos, buf, written, w). length buf - written)") auto

declare write_loop.simps [simp del]

definition write_file_full :: "string \<Rightarrow> nat \<Rightarrow> string \<Rightarrow> client \<Rightarrow> int \<times> client" where
  "write_file_full path pos buf w = write_loop path pos buf 0 w"

definition recv_server_reply :: "client \<Rightarrow> client" where
  "recv_server_reply w =
     (case recv_command_packet (c_sock w) of
        (r, reply_packet, k) \<Rightarrow>
          (let w1 = w\<lparr>c_sock := k\<rparr>
           in case (0 < r, reply_packet) of
                (True, Some p) \<Rightarrow> c_print (cstr (cp_data p) @ [CHR 0x0A]) w1
              | _ \<Rightarrow> c_print txt_no_reply w1))"

text \<open>\<open>sscanf(input, "%99s %199s", cmd, arg)\<close> on zeroed arrays.\<close>

definition scan_word :: "nat \<Rightarrow> string \<Rightarrow> string \<times> string" where
  "scan_word n s =
     (let t = dropWhile is_space s; word = take n (takeWhile (\<lambda>c. \<not> is_space c) t)
      in (word, drop (length word) t))"

definition scan_command :: "string \<Rightarrow> string \<times> string" where
  "scan_command input =
     (case scan_word 99 input of (cmd, rest) \<Rightarrow> (cmd, fst (scan_word 199 rest)))"

section \<open>Download\<close>

definition request_offset :: "nat option \<Rightarrow> int \<Rightarrow> int" where
  "request_offset local file_size =
     (let local_size = (case local of None \<Rightarrow> 0 | Some n \<Rightarrow> int n)
      in if local_size < file_size then local_size
         else if local \<noteq> None \<and> local_size = file_size then file_size
         else 0)"

text \<open>The receive loop: \<open>pos\<close> is the position in the local file. It tells how it ended.\<close>

datatype gets_end = Received | Interrupted | Write_error

function client_gets_loop :: "string \<Rightarrow> nat \<Rightarrow> nat \<Rightarrow> client \<Rightarrow> gets_end \<times> client" where
  "client_gets_loop path pos remaining w =
     (if remaining > 0
      then
        (let once = (if remaining < CLIENT_BUFFER_SIZE then remaining else CLIENT_BUFFER_SIZE)
         in case recv_full (c_sock w) once of
              (r, buf, k) \<Rightarrow>
                if r \<le> 0 then (Interrupted, w\<lparr>c_sock := k\<rparr>)
                else
                  (case write_file_full path pos buf (w\<lparr>c_sock := k\<rparr>) of
                     (wr, w1) \<Rightarrow>
                       if wr = - 1 then (Write_error, w1)
                       else client_gets_loop path (pos + once) (remaining - once) w1))
      else (Received, w))"
  by pat_completeness auto
termination client_gets_loop
  by (relation "measure (\<lambda>(path, pos, remaining, w). remaining)") (auto simp: CLIENT_BUFFER_SIZE_def)

declare client_gets_loop.simps [simp del]

definition download_path :: "string \<Rightarrow> string" where
  "download_path arg = snprintf_str 512 (''./downloads/'' @ arg)"

text \<open>What follows once the local file is open.\<close>

definition client_gets_file :: "string \<Rightarrow> string \<Rightarrow> int \<Rightarrow> int \<Rightarrow> client \<Rightarrow> client" where
  "client_gets_file arg path file_size offset w =
     (case (if offset = 0 then c_truncate path w else (True, w)) of
        (False, w1) \<Rightarrow> c_perror err_truncate w1
      | (True, w1) \<Rightarrow>
          if offset < 0 then c_perror err_seek w1
          else
            (case client_gets_loop path (nat offset) (nat (file_size - offset)) w1 of
               (Interrupted, w2) \<Rightarrow> c_print txt_gets_broken w2
             | (Write_error, w2) \<Rightarrow> c_perror err_write w2
             | (Received, w2) \<Rightarrow>
                 c_print (txt_gets_done @ arg @ '' ('' @ int_to_dec file_size @ txt_bytes) w2))"

definition client_gets :: "client_env \<Rightarrow> string \<Rightarrow> client \<Rightarrow> client" where
  "client_gets env arg w =
     (case send_command_packet (c_sock w) (init_command_packet (cmd_code CMD_TYPE_GETS) (Some arg)) of
        (sr, k) \<Rightarrow>
          if sr = - 1 then c_print txt_send_failed (w\<lparr>c_sock := k\<rparr>)
          else
            (case recv_file_packet k of
               (rr, pkt, k1) \<Rightarrow>
                 (let w1 = w\<lparr>c_sock := k1\<rparr>
                  in case (0 < rr, pkt) of
                       (True, Some server_file_packet) \<Rightarrow>
                         (let file_size = sint (fp_file_size server_file_packet)
                          in if file_size < 0 then c_print txt_no_file w1
                             else
                               (case c_stat env arg w1 of
                                  (local, w2) \<Rightarrow>
                                    (let offset = request_offset local file_size
                                     in case send_file_packet (c_sock w2)
                                               (init_file_packet (cmd_code CMD_TYPE_GETS) (Some arg)
                                                  (fp_file_size server_file_packet) (word_of_int offset)) of
                                          (fr, k2) \<Rightarrow>
                                            (let w3 = w2\<lparr>c_sock := k2\<rparr>
                                             in if fr = - 1 then c_print txt_offset_failed w3
                                                else if local \<noteq> None \<and> offset = file_size then c_print txt_complete w3
                                                else
                                                  (case c_open_write (download_path arg) w3 of
                                                     (False, w4) \<Rightarrow> c_perror err_create w4
                                                   | (True, w4) \<Rightarrow>
                                                       client_gets_file arg (download_path arg) file_size offset w4)))))
                     | _ \<Rightarrow> c_print txt_info_failed w1)))"

section \<open>Upload\<close>

text \<open>The send loop; the first component tells whether it was interrupted.\<close>

function client_puts_loop :: "string \<Rightarrow> nat \<Rightarrow> int \<Rightarrow> client \<Rightarrow> bool \<times> client" where
  "client_puts_loop path pos remaining w =
     (if remaining > 0
      then
        (let once = (if remaining < int CLIENT_BUFFER_SIZE then nat remaining else CLIENT_BUFFER_SIZE)
         in case c_read path pos once w of
              (nread, buf, w1) \<Rightarrow>
                if nread \<le> 0 then (False, w1)
                else
                  (case send_full (c_sock w1) buf of
                     (sr, k) \<Rightarrow>
                       if sr = - 1 then (True, w1\<lparr>c_sock := k\<rparr>)
                       else client_puts_loop path (pos + nat nread) (remaining - nread) (w1\<lparr>c_sock := k\<rparr>)))
      else (False, w))"
  by pat_completeness auto
termination client_puts_loop
  by (relation "measure (\<lambda>(path, pos, remaining, w). nat remaining)") auto

declare client_puts_loop.simps [simp del]

text \<open>What follows once the server knows the file.\<close>

definition client_puts_file :: "string \<Rightarrow> int \<Rightarrow> client \<Rightarrow> client" where
  "client_puts_file arg len w =
     (case recv_file_packet (c_sock w) of
        (rr, pkt, k) \<Rightarrow>
          (let w1 = w\<lparr>c_sock := k\<rparr>
           in case (0 < rr, pkt) of
                (True, Some server_file_packet) \<Rightarrow>
                  (let off = sint (fp_offset server_file_packet); offset = (if off > len then 0 else off)
                   in if offset < 0 then c_perror err_seek w1
                      else
                        (case client_puts_loop arg (nat offset) (len - offset) w1 of
                           (True, w2) \<Rightarrow> c_print txt_puts_broken w2
                         | (False, w2) \<Rightarrow> recv_server_reply w2))
              | _ \<Rightarrow> c_print txt_no_offset w1))"

definition client_puts :: "client_env \<Rightarrow> string \<Rightarrow> client \<Rightarrow> client" where
  "client_puts env arg w =
     (case c_open_read arg w of
        (False, w1) \<Rightarrow> c_perror err_open w1
      | (True, w1) \<Rightarrow>
          (case c_stat env arg w1 of
             (None, w2) \<Rightarrow> c_perror err_size w2
           | (Some len, w2) \<Rightarrow>
               (case send_command_packet (c_sock w2) (init_command_packet (cmd_code CMD_TYPE_PUTS) (Some arg)) of
                  (sr, k) \<Rightarrow>
                    (let w3 = w2\<lparr>c_sock := k\<rparr>
                     in if sr = - 1 then c_print txt_send_failed w3
                        else
                          (case get_file_sha256 (ce_sha env) arg (content_of (c_fs w3) arg) of
                             (hr, sha256) \<Rightarrow>
                               if hr \<noteq> 0 then c_print txt_sha_failed w3
                               else
                                 (let client_file_packet =
                                        (init_file_packet (cmd_code CMD_TYPE_PUTS) (Some arg) (word_of_nat len) 0)
                                          \<lparr>fp_hash := strncpy_zeroed HASH_LEN (HASH_LEN - 1)
                                             (case sha256 of None \<Rightarrow> [] | Some h \<Rightarrow> h)\<rparr>
                                  in case send_file_packet (c_sock w3) client_file_packet of
                                       (fr, k1) \<Rightarrow>
                                         if fr = - 1 then c_print txt_puts_info (w3\<lparr>c_sock := k1\<rparr>)
                                         else client_puts_file arg (int len) (w3\<lparr>c_sock := k1\<rparr>)))))))"

section \<open>Commands\<close>

definition process_command :: "client_env \<Rightarrow> string \<Rightarrow> client \<Rightarrow> client" where
  "process_command env input w =
     (case scan_command input of
        (cmd, arg) \<Rightarrow>
          if cmd = ''gets'' \<and> arg = [] then c_print txt_usage_gets w
          else if cmd = ''puts'' \<and> arg = [] then c_print txt_usage_puts w
          else if (cmd = ''cd'' \<or> cmd = ''rm'' \<or> cmd = ''mkdir'') \<and> arg = [] then c_print txt_need_arg w
          else
            (let cmd_type = get_cmd_type (Some cmd)
             in if cmd_type = CMD_TYPE_INVALID then c_print txt_invalid w
                else if cmd_type = CMD_TYPE_GETS then client_gets env arg w
                else if cmd_type = CMD_TYPE_PUTS then client_puts env arg w
                else
                  (case send_command_packet (c_sock w) (init_command_packet (cmd_code cmd_type) (Some arg)) of
                     (sr, k) \<Rightarrow>
                       if sr = - 1 then c_print txt_send_failed (w\<lparr>c_sock := k\<rparr>)
                       else recv_server_reply (w\<lparr>c_sock := k\<rparr>))))"

text \<open>The command loop on what is typed, in the chunks \<open>fgets\<close> reads into the 512 bytes of \<open>input\<close>.\<close>

function client_loop :: "client_env \<Rightarrow> string \<Rightarrow> client \<Rightarrow> client" where
  "client_loop env typed w =
     (let w1 = c_print ''> '' w
      in if typed = [] then w1
         else
           (case fgets_chunk 511 typed of
              (line, rest) \<Rightarrow>
                (let input = takeWhile (\<lambda>c. c \<noteq> CHR 0x0A) (cstr line)
                 in if input = ''quit'' \<or> input = ''exit'' then c_print txt_bye w1
                    else if input = [] then client_loop env rest w1
                    else client_loop env rest (process_command env input w1))))"
  by pat_completeness auto

lemma fgets_511_shorter: "fgets_chunk 511 s = (l, r) \<Longrightarrow> s \<noteq> [] \<Longrightarrow> length r < length s"
  using fgets_chunk_progress [of 510] by (cases s) auto

termination client_loop
  by (relation "measure (\<lambda>(env, typed, w). length typed)") (auto dest!: fgets_511_shorter [OF sym])

declare client_loop.simps [simp del]

end
