(* ===== verification/Client_Main.thy ===== *)
theory Client_Main
  imports Sockets Logging Client
begin

text \<open>
  \<open>main\<close> of \<open>src/client/client.c\<close> from its start to its end: settings, log, connection, greeting, the
  command loop, and the end.
\<close>

section \<open>The greeting\<close>

definition txt_welcome :: string where
  "txt_welcome =
     [CHR 0xE6, CHR 0xAC, CHR 0xA2, CHR 0xE8, CHR 0xBF, CHR 0x8E, CHR 0xE4, CHR 0xBD, CHR 0xBF,
      CHR 0xE7, CHR 0x94, CHR 0xA8, CHR 0x20, CHR 0x57, CHR 0x69, CHR 0x6E, CHR 0x64, CHR 0x43,
      CHR 0x6C, CHR 0x6F, CHR 0x75, CHR 0x64, CHR 0x20, CHR 0xE5, CHR 0xAE, CHR 0xA2, CHR 0xE6,
      CHR 0x88, CHR 0xB7, CHR 0xE7, CHR 0xAB, CHR 0xAF, CHR 0xEF, CHR 0xBC, CHR 0x81, CHR 0x28,
      CHR 0xE8, CHR 0xBE, CHR 0x93, CHR 0xE5, CHR 0x85, CHR 0xA5, CHR 0x20, CHR 0x71, CHR 0x75,
      CHR 0x69, CHR 0x74, CHR 0x20, CHR 0xE6, CHR 0x88, CHR 0x96, CHR 0x20, CHR 0x65, CHR 0x78,
      CHR 0x69, CHR 0x74, CHR 0x20, CHR 0xE4, CHR 0xBB, CHR 0xA5, CHR 0xE9, CHR 0x80, CHR 0x80,
      CHR 0xE5, CHR 0x87, CHR 0xBA, CHR 0x29, CHR 0x0A]"

definition txt_please :: string where
  "txt_please =
     [CHR 0xE8, CHR 0xAF, CHR 0xB7, CHR 0xE5, CHR 0xAE, CHR 0x8C, CHR 0xE6, CHR 0x88, CHR 0x90,
      CHR 0xE7, CHR 0x99, CHR 0xBB, CHR 0xE5, CHR 0xBD, CHR 0x95, CHR 0x2F, CHR 0xE6, CHR 0xB3,
      CHR 0xA8, CHR 0xE5, CHR 0x86, CHR 0x8C, CHR 0xEF, CHR 0xBC, CHR 0x9A, CHR 0x0A]"

definition txt_login_form :: string where
  "txt_login_form =
     [CHR 0xE7, CHR 0x99, CHR 0xBB, CHR 0xE5, CHR 0xBD, CHR 0x95, CHR 0xE6, CHR 0xA0, CHR 0xBC,
      CHR 0xE5, CHR 0xBC, CHR 0x8F, CHR 0xEF, CHR 0xBC, CHR 0x9A, CHR 0x6C, CHR 0x6F, CHR 0x67,
      CHR 0x69, CHR 0x6E, CHR 0x20, CHR 0x20, CHR 0x20, CHR 0x20, CHR 0x75, CHR 0x73, CHR 0x65,
      CHR 0x72, CHR 0x6E, CHR 0x61, CHR 0x6D, CHR 0x65, CHR 0x3A, CHR 0x70, CHR 0x61, CHR 0x73,
      CHR 0x73, CHR 0x77, CHR 0x6F, CHR 0x72, CHR 0x64, CHR 0x0A]"

definition txt_register_form :: string where
  "txt_register_form =
     [CHR 0xE6, CHR 0xB3, CHR 0xA8, CHR 0xE5, CHR 0x86, CHR 0x8C, CHR 0xE6, CHR 0xA0, CHR 0xBC,
      CHR 0xE5, CHR 0xBC, CHR 0x8F, CHR 0xEF, CHR 0xBC, CHR 0x9A, CHR 0x72, CHR 0x65, CHR 0x67,
      CHR 0x69, CHR 0x73, CHR 0x74, CHR 0x65, CHR 0x72, CHR 0x20, CHR 0x75, CHR 0x73, CHR 0x65,
      CHR 0x72, CHR 0x6E, CHR 0x61, CHR 0x6D, CHR 0x65, CHR 0x3A, CHR 0x70, CHR 0x61, CHR 0x73,
      CHR 0x73, CHR 0x77, CHR 0x6F, CHR 0x72, CHR 0x64, CHR 0x0A]"

section \<open>The program\<close>

definition client_log :: "(string \<Rightarrow> bool) \<Rightarrow> (string \<Rightarrow> bool) \<Rightarrow> settings \<Rightarrow> log_state" where
  "client_log exists_path can_open st =
     init_log_with_fallback exists_path can_open (Some (set_log_level st)) (Some (set_log_file st))
       (init_log_with_fallback exists_path can_open (Some ''INFO'') (Some ''../log/client.log'') log_initial)"

text \<open>The status, the system calls, the client, and the log at the end; \<open>exit\<close> leaves the log open.\<close>

definition client_main ::
    "client_env \<Rightarrow> (string \<Rightarrow> string option) \<Rightarrow> (string \<Rightarrow> bool) \<Rightarrow> (string \<Rightarrow> bool) \<Rightarrow> (string \<Rightarrow> 32 word) \<Rightarrow> string \<Rightarrow> os \<Rightarrow> client \<Rightarrow>
      int \<times> os \<times> client \<times> log_state ub" where
  "client_main env files exists_path can_open inet_addr typed s w =
     (let st = client_settings files;
          log = client_log exists_path can_open st in
      case sys Ignore_sigpipe s of
        (_, s1) \<Rightarrow>
          (case client_init_socket inet_addr (set_ip st) (set_port st) s1 of
             (Inl x, s2) \<Rightarrow> (x, s2, w, Some log)
           | (Inr sock_fd, s2) \<Rightarrow>
               (let w1 = c_print (txt_welcome @ txt_please @ txt_login_form @ txt_register_form) w;
                    w2 = client_loop env typed w1
                in (0, snd (sys (Close sock_fd) s2), w2, close_log log))))"

section \<open>Its life\<close>

text \<open>The user sees something only when the connection stands; then the connection is closed once, at the
  end, whatever was typed, and the status is 0.\<close>

lemma client_main_life:
  assumes "client_main env files exists_path can_open inet_addr typed s w = (x, s', w', log)"
  shows "x = (if answer (os_answers s) 1 = - 1 \<or> answer (os_answers s) 2 = - 1 then 1 else 0) \<and>
    (if x = 1 then w' = w \<and> (\<forall>fd. Close fd \<notin> set (drop (length (os_calls s)) (os_calls s')))
     else w' = client_loop env typed (c_print (txt_welcome @ txt_please @ txt_login_form @ txt_register_form) w) \<and>
       (\<exists>fd. drop (length (os_calls s)) (os_calls s') = [Ignore_sigpipe, Socket,
          Connect fd (inet_addr (set_ip (client_settings files))) (htons_port (set_port (client_settings files))), Close fd]))"
  using assms by (auto simp: client_main_def client_init_socket_def sys_eq error_check_def Let_def numeral_2_eq_2 split: if_splits)

end
