(* ===== verification/Auth.thy ===== *)
theory Auth
  imports Server_World
begin

text \<open>
  Log-in and registration: \<open>src/server/auth.c\<close>. The arguments are the client's descriptor, the data
  of the command packet as a string and the session's \<open>user_id\<close>, which is returned; the world is
  passed and returned.
\<close>

text \<open>\<open>username\<close> and \<open>password\<close> are arrays of 64 and 128 bytes; the result holds their contents
  when the function returns 0.\<close>

definition parse_auth_data :: "string option \<Rightarrow> int \<times> (string \<times> string) option" where
  "parse_auth_data data =
     (case data of
        None \<Rightarrow> (- 1, None)
      | Some s \<Rightarrow>
          if CHR '':'' \<notin> set s then (- 1, None)
          else
            (let username = takeWhile (\<lambda>c. c \<noteq> CHR '':'') s;
                 user_len = length username
             in if user_len \<le> 0 \<or> user_len \<ge> 64 then (- 1, None)
                else
                  (let pwd_part = drop (user_len + 1) s;
                       pwd_len = length pwd_part
                   in if pwd_len \<le> 0 \<or> pwd_len \<ge> 128 then (- 1, None)
                      else (0, Some (username, pwd_part)))))"

text \<open>\<open>send_msg\<close> on a negative descriptor reaches nobody.\<close>

definition say_fd :: "int \<Rightarrow> string \<Rightarrow> 'd world \<Rightarrow> 'd world" where
  "say_fd fd m w = (if fd < 0 then w else say m w)"

definition handle_login ::
    "'d dao_env \<Rightarrow> int \<Rightarrow> string option \<Rightarrow> int \<Rightarrow> 'd world \<Rightarrow> (int \<times> 'd world) ub" where
  "handle_login env client_fd data user_id w =
     (if client_fd < 0 \<or> data = None then Some (user_id, say_fd client_fd msg_login_args w)
      else
        (case get_thread_db_conn w of
           None \<Rightarrow> Some (user_id, say msg_internal w)
         | Some c \<Rightarrow>
             (case parse_auth_data data of
                (_, None) \<Rightarrow> Some (user_id, say msg_auth_format w)
              | (_, Some (username, password)) \<Rightarrow>
                  (case db_call (dao_login_user env (Some c) (Some username) (Some password)) w of
                     None \<Rightarrow> None
                   | Some (login_user_id, w1) \<Rightarrow>
                       if login_user_id > 0 then Some (login_user_id, say msg_login_ok w1)
                       else if login_user_id = 0 then Some (user_id, say msg_login_wrong w1)
                       else Some (user_id, say msg_internal w1)))))"

definition handle_register ::
    "'d dao_env \<Rightarrow> int \<Rightarrow> string option \<Rightarrow> int \<Rightarrow> 'd world \<Rightarrow> (int \<times> 'd world) ub" where
  "handle_register env client_fd data user_id w =
     (if client_fd < 0 \<or> data = None then Some (user_id, say_fd client_fd msg_register_args w)
      else
        (case get_thread_db_conn w of
           None \<Rightarrow> Some (user_id, say msg_internal w)
         | Some c \<Rightarrow>
             (case parse_auth_data data of
                (_, None) \<Rightarrow> Some (user_id, say msg_auth_format w)
              | (_, Some (username, password)) \<Rightarrow>
                  (case db_call (dao_register_user env (Some c) (Some username) (Some password)) w of
                     None \<Rightarrow> None
                   | Some (register_user_id, w1) \<Rightarrow>
                       if register_user_id > 0 then Some (register_user_id, say msg_register_ok w1)
                       else if register_user_id = 0 then Some (user_id, say msg_user_exists w1)
                       else Some (user_id, say msg_internal w1)))))"

section \<open>Lemmas\<close>

text \<open>What is accepted: a colon, 1 to 63 bytes before the first one, 1 to 127 after it.\<close>

lemma parse_auth_ok:
  "parse_auth_data (Some s) = (r, Some (u, p)) \<Longrightarrow>
    s = u @ CHR '':'' # p \<and> CHR '':'' \<notin> set u \<and> 0 < length u \<and> length u \<le> 63 \<and> 0 < length p \<and> length p \<le> 127 \<and> r = 0"
proof -
  assume a: "parse_auth_data (Some s) = (r, Some (u, p))"
  then have u: "u = takeWhile (\<lambda>c. c \<noteq> CHR '':'') s" "p = drop (length u + 1) s" "CHR '':'' \<in> set s"
    and len: "0 < length u" "length u \<le> 63" "0 < length p" "length p \<le> 127" "r = 0"
    by (auto simp: parse_auth_data_def Let_def split: if_splits)
  have "dropWhile (\<lambda>c. c \<noteq> CHR '':'') s \<noteq> []" using u(3) by (simp add: dropWhile_eq_Nil_conv)
  then obtain x xs where x: "dropWhile (\<lambda>c. c \<noteq> CHR '':'') s = x # xs" by (cases "dropWhile (\<lambda>c. c \<noteq> CHR '':'') s") auto
  then have "x = CHR '':''" by (metis (mono_tags) dropWhile_eq_Cons_conv)
  with x u(1) have s: "s = u @ CHR '':'' # xs" by (metis takeWhile_dropWhile_id)
  then have "p = xs" using u(2) by simp
  moreover have "CHR '':'' \<notin> set u" using u(1) by (auto dest: set_takeWhileD)
  ultimately show ?thesis using s len by simp
qed

lemma parse_auth_complete:
  "CHR '':'' \<notin> set u \<Longrightarrow> 0 < length u \<Longrightarrow> length u \<le> 63 \<Longrightarrow> 0 < length p \<Longrightarrow> length p \<le> 127 \<Longrightarrow>
    parse_auth_data (Some (u @ CHR '':'' # p)) = (0, Some (u, p))"
proof -
  assume a: "CHR '':'' \<notin> set u" "0 < length u" "length u \<le> 63" "0 < length p" "length p \<le> 127"
  then have "takeWhile (\<lambda>c. c \<noteq> CHR '':'') (u @ CHR '':'' # p) = u"
    by (subst takeWhile_append2) auto
  with a show ?thesis by (simp add: parse_auth_data_def Let_def)
qed

end
