(* ===== verification/File_Cmds.thy ===== *)
theory File_Cmds
  imports Server_World
begin

text \<open>
  The directory commands: \<open>src/server/file_cmds.c\<close>. A session keeps the virtual path in an array of
  512 bytes, the user's id and the id of the current directory; here they are the fields of
  \<open>session\<close>, the path as a string. Writing past the array is undefined behaviour, \<open>None\<close>.
\<close>

record session =
  s_path :: string
  s_user :: int
  s_dir :: int

text \<open>The path without its last component: the cut at the last slash (\<open>strrchr\<close>), or the root.\<close>

definition up_path :: "string \<Rightarrow> string" where
  "up_path p =
     (let upto_slash = rev (dropWhile (\<lambda>c. c \<noteq> CHR ''/'') (rev p))
      in if length upto_slash > 1 then butlast upto_slash else ''/'')"

text \<open>\<open>strcat\<close> into the array of the path.\<close>

definition cat_path :: "string \<Rightarrow> string \<Rightarrow> string ub" where
  "cat_path p s = (if length p + length s < 512 then Some (p @ s) else None)"

definition handle_cd ::
    "'d dao_env \<Rightarrow> session \<Rightarrow> string option \<Rightarrow> 'd world \<Rightarrow> (session \<times> 'd world) ub" where
  "handle_cd env s arg w =
     (if arg = None \<or> arg = Some [] then Some (s, say msg_input w)
      else
        (case get_thread_db_conn w of
           None \<Rightarrow> Some (s, say msg_internal w)
         | Some c \<Rightarrow>
             if arg = Some ''.'' then Some (s, say msg_same_dir w)
             else if arg = Some ''..'' then
               (case db_run (dao_get_parent_id env (Some c) (s_dir s)) w of
                  (parent_id, w1) \<Rightarrow>
                    if parent_id \<le> 0 then Some (s, say msg_at_root w1)
                    else Some (s\<lparr>s_dir := parent_id, s_path := up_path (s_path s)\<rparr>, say msg_up w1))
             else if arg = Some ''/'' then
               (case db_call (dao_get_root_dir_id env (Some c) (s_user s)) w of
                  None \<Rightarrow> None
                | Some (root_id, w1) \<Rightarrow>
                    if root_id \<le> 0 then Some (s, say msg_no_root w1)
                    else Some (s\<lparr>s_dir := root_id, s_path := ''/''\<rparr>, say msg_to_root w1))
             else
               (case db_call (dao_find_child_id env (Some c) (s_dir s) arg 1) w of
                  None \<Rightarrow> None
                | Some (child_id, w1) \<Rightarrow>
                    if child_id \<le> 0 then Some (s, say msg_no_dir w1)
                    else
                      (let s1 = s\<lparr>s_dir := child_id\<rparr>
                       in if length (s_path s1) + length (the arg) + 2 > 512
                          then Some (s1, say msg_path_long w1)
                          else
                            (case (if s_path s1 \<noteq> ''/'' then cat_path (s_path s1) ''/'' else Some (s_path s1)) of
                               None \<Rightarrow> None
                             | Some p1 \<Rightarrow>
                                 (case cat_path p1 (the arg) of
                                    None \<Rightarrow> None
                                  | Some p2 \<Rightarrow> Some (s1\<lparr>s_path := p2\<rparr>, say msg_entered w1)))))))"

definition handle_ls :: "'d dao_env \<Rightarrow> session \<Rightarrow> 'd world \<Rightarrow> 'd world ub" where
  "handle_ls env s w =
     (case get_thread_db_conn w of
        None \<Rightarrow> Some (say msg_internal w)
      | Some c \<Rightarrow>
          (case db_call (\<lambda>d. map_option (\<lambda>(r, res, d'). ((r, res), d'))
                              (dao_list_dir env (Some c) (s_user s) (s_dir s) 4096 d)) w of
             None \<Rightarrow> None
           | Some ((r, result), w1) \<Rightarrow> Some (if r \<noteq> 0 then say msg_ls_failed w1 else say result w1)))"

definition handle_pwd :: "session \<Rightarrow> 'd world \<Rightarrow> 'd world" where
  "handle_pwd s w = say (s_path s) w"

definition handle_rm :: "'d dao_env \<Rightarrow> session \<Rightarrow> string option \<Rightarrow> 'd world \<Rightarrow> 'd world ub" where
  "handle_rm env s arg w =
     (if arg = None \<or> arg = Some [] then Some (say msg_input w)
      else
        (case get_thread_db_conn w of
           None \<Rightarrow> Some (say msg_internal w)
         | Some c \<Rightarrow>
             (case db_call (dao_find_child_id env (Some c) (s_dir s) arg (- 1)) w of
                None \<Rightarrow> None
              | Some (path_id, w1) \<Rightarrow>
                  if path_id \<le> 0 then Some (say msg_no_entry w1)
                  else
                    (case db_run (dao_delete_entry env (Some c) (s_user s) path_id) w1 of
                       (r, w2) \<Rightarrow> Some (if r \<noteq> 0 then say msg_rm_failed w2 else say msg_rm_ok w2)))))"

definition handle_mkdir :: "'d dao_env \<Rightarrow> session \<Rightarrow> string option \<Rightarrow> 'd world \<Rightarrow> 'd world ub" where
  "handle_mkdir env s arg w =
     (if arg = None \<or> arg = Some [] then Some (say msg_input w)
      else
        (case get_thread_db_conn w of
           None \<Rightarrow> Some (say msg_internal w)
         | Some c \<Rightarrow>
             (case db_call (dao_create_dir env (Some c) (s_user s) (s_dir s) arg) w of
                None \<Rightarrow> None
              | Some (new_dir_id, w1) \<Rightarrow>
                  if new_dir_id < 0 then Some (say msg_mkdir_failed w1)
                  else if new_dir_id = 0 then Some (say msg_dir_exists w1)
                  else Some (say msg_mkdir_ok w1))))"

end
