(* ===== verification/File_Transfer.thy ===== *)
theory File_Transfer
  imports File_Cmds
begin

text \<open>
  Upload and download: \<open>src/server/file_transfer.c\<close>. A descriptor is the path text the file was
  opened under; the contents are those of \<open>w_fs\<close>. Writing through the memory mapping of an upload
  is writing the file. Offsets and sizes have the widths of the C types: 64-bit words on the wire
  and in \<open>unsigned long\<close>, \<open>int\<close> with \<open>c_int\<close> where the code converts to \<open>int\<close>.
\<close>

section \<open>Storage\<close>

definition STORAGE_DIR :: string where "STORAGE_DIR = ''./storage''"

definition BUFFER_SIZE :: nat where "BUFFER_SIZE = 4096"

definition gen_physical_path :: "nat \<Rightarrow> string \<Rightarrow> string" where
  "gen_physical_path path_len file_name = snprintf_str path_len (STORAGE_DIR @ ''/'' @ file_name)"

definition ensure_storage_dir :: "'d world \<Rightarrow> int \<times> 'd world" where
  "ensure_storage_dir w =
     (case w_fs w STORAGE_DIR of
        Some Directory \<Rightarrow> (0, w)
      | Some (Regular s) \<Rightarrow> (- 1, w)
      | None \<Rightarrow>
          (case os_answer w of
             (True, w1) \<Rightarrow> (0, w1\<lparr>w_fs := (w_fs w1)(STORAGE_DIR \<mapsto> Directory)\<rparr>)
           | (False, w1) \<Rightarrow> (- 1, w1)))"

text \<open>\<open>open(path, O_RDONLY)\<close> and \<open>open(path, O_RDWR | O_CREAT | O_TRUNC)\<close>: whether they succeed.\<close>

definition open_read :: "string \<Rightarrow> 'd world \<Rightarrow> bool \<times> 'd world" where
  "open_read path w = (case w_fs w path of None \<Rightarrow> (False, w) | Some e \<Rightarrow> os_answer w)"

definition dir_of :: "string \<Rightarrow> string" where
  "dir_of path = butlast (rev (dropWhile (\<lambda>c. c \<noteq> CHR ''/'') (rev path)))"

definition open_trunc :: "string \<Rightarrow> 'd world \<Rightarrow> bool \<times> 'd world" where
  "open_trunc path w =
     (if w_fs w path = Some Directory \<or> w_fs w (dir_of path) \<noteq> Some Directory then (False, w)
      else
        (case os_answer w of
           (True, w1) \<Rightarrow> (True, w1\<lparr>w_fs := (w_fs w1)(path \<mapsto> Regular [])\<rparr>)
         | (False, w1) \<Rightarrow> (False, w1)))"

text \<open>\<open>ftruncate\<close> of an empty file; a negative length is refused.\<close>

definition os_ftruncate :: "string \<Rightarrow> 64 word \<Rightarrow> 'd world \<Rightarrow> int \<times> 'd world" where
  "os_ftruncate path len w =
     (if sint len < 0 then (- 1, w)
      else
        (case os_answer w of
           (True, w1) \<Rightarrow> (0, w1\<lparr>w_fs := (w_fs w1)(path \<mapsto> Regular (replicate (unat len) NUL))\<rparr>)
         | (False, w1) \<Rightarrow> (- 1, w1)))"

section \<open>Blocks\<close>

definition calculate_total_blocks :: "64 word \<Rightarrow> int" where
  "calculate_total_blocks file_size =
     c_int (uint ((file_size + word_of_nat BLOCK_SIZE - 1) div word_of_nat BLOCK_SIZE))"

text \<open>\<open>strcpy\<close> of a string into a zeroed array of 65 bytes.\<close>

definition hash_field :: "string \<Rightarrow> char list ub" where
  "hash_field s = (if length s < HASH_LEN then Some (s @ replicate (HASH_LEN - length s) NUL) else None)"

text \<open>\<open>lseek\<close> and \<open>read\<close> on the opened file; \<open>read\<close> returns what there is, -1 on a directory.\<close>

definition os_read_at :: "string \<Rightarrow> int \<Rightarrow> nat \<Rightarrow> 'd world \<Rightarrow> (int \<times> string) \<times> 'd world" where
  "os_read_at path off n w =
     (if off < 0 then ((- 1, []), w)
      else
        (case (w_fs w path, os_answer w) of
           (Some (Regular s), (True, w1)) \<Rightarrow>
             ((int (length (take n (drop (nat off) s))), take n (drop (nat off) s)), w1)
         | (_, (_, w1)) \<Rightarrow> ((- 1, []), w1)))"

definition send_block :: "string \<Rightarrow> int \<Rightarrow> int \<Rightarrow> int \<Rightarrow> string \<Rightarrow> 'd world \<Rightarrow> (int \<times> 'd world) ub" where
  "send_block file_fd block_index block_offset block_size hash w =
     (case hash_field hash of
        None \<Rightarrow> None
      | Some h \<Rightarrow>
          if block_size < 0 \<or> block_size > int MAX_BLOCK_DATA then None
          else
            (case os_read_at file_fd block_offset (nat block_size) w of
               ((ret, data), w1) \<Rightarrow>
                 if ret \<noteq> block_size then Some (- 1, w1)
                 else
                   (let block_pkt =
                          \<lparr>bp_cmd_type = cmd_code CMD_TYPE_GETS, bp_block_index = word_of_int block_index,
                           bp_block_size = word_of_int block_size, bp_block_offset = word_of_int block_offset,
                           bp_hash = h, bp_block_data = data @ replicate (MAX_BLOCK_DATA - length data) NUL\<rparr>
                    in case send_full (w_sock w1) (bytes_of_block block_pkt) of
                         (r, k) \<Rightarrow> Some (if r \<noteq> 0 then - 1 else 0, w1\<lparr>w_sock := k\<rparr>))))"

section \<open>Download\<close>

definition gets_error :: "string option \<Rightarrow> 'd world \<Rightarrow> 'd world" where
  "gets_error arg w =
     w\<lparr>w_sock := snd (send_file_packet (w_sock w) (init_file_packet (cmd_code CMD_TYPE_GETS) arg (- 1) 0))\<rparr>"

definition last_block_size :: "64 word \<Rightarrow> int \<Rightarrow> int" where
  "last_block_size file_size block_offset = c_int (uint (file_size - word_of_int block_offset))"

text \<open>The loop over the blocks, with the progress written after each.\<close>

function gets_loop ::
    "'d dao_env \<Rightarrow> nat \<Rightarrow> int \<Rightarrow> string \<Rightarrow> string \<Rightarrow> 64 word \<Rightarrow> int \<Rightarrow> int \<Rightarrow> 'd world \<Rightarrow> 'd world ub" where
  "gets_loop env c file_path_id file_fd sha256 file_size total_blocks block_idx w =
     (if block_idx < total_blocks
      then
        (let block_offset = block_idx * int BLOCK_SIZE;
             block_size = (if block_idx = total_blocks - 1 then last_block_size file_size block_offset
                           else int BLOCK_SIZE)
         in case send_block file_fd block_idx block_offset block_size sha256 w of
              None \<Rightarrow> None
            | Some (r, w1) \<Rightarrow>
                if r \<noteq> 0 then Some w1
                else gets_loop env c file_path_id file_fd sha256 file_size total_blocks (block_idx + 1)
                       (snd (db_run (dao_update_transfer_sequence env (Some c) file_path_id (block_idx + 1)) w1)))
      else Some w)"
  by pat_completeness auto
termination gets_loop
  by (relation "measure (\<lambda>(env, c, pid, fd, sha, sz, n, i, w). nat (n - i))") auto

declare gets_loop.simps [simp del]

definition get_sequence :: "'d dao_env \<Rightarrow> nat option \<Rightarrow> int \<Rightarrow> 'd world \<Rightarrow> ((int \<times> int option) \<times> 'd world) ub" where
  "get_sequence env conn path_id w =
     db_call (\<lambda>d. map_option (\<lambda>(r, s, d'). ((r, s), d')) (dao_get_transfer_sequence env conn path_id d)) w"

text \<open>What follows once the file is open and its size known.\<close>

definition gets_send ::
    "'d dao_env \<Rightarrow> nat \<Rightarrow> int \<Rightarrow> string option \<Rightarrow> string \<Rightarrow> string \<Rightarrow> 64 word \<Rightarrow> 'd world \<Rightarrow> 'd world ub" where
  "gets_send env c file_path_id arg file_fd sha256 file_size w =
     (let total_blocks = calculate_total_blocks file_size;
          w1 = snd (db_run (dao_create_transfer_record env (Some c) file_path_id 0 total_blocks
                              (Some ''downloading'')) w)
      in case get_sequence env (Some c) file_path_id w1 of
           None \<Rightarrow> None
         | Some ((r, s), w2) \<Rightarrow>
             (let start_sequence = (case (r = 0, s) of (True, Some n) \<Rightarrow> n | _ \<Rightarrow> 0)
              in case hash_field sha256 of
                   None \<Rightarrow> None
                 | Some h \<Rightarrow>
                     (let server_file_packet =
                            (init_file_packet (cmd_code CMD_TYPE_GETS) arg file_size (word_of_int start_sequence))
                              \<lparr>fp_hash := h, fp_offset := word_of_int total_blocks\<rparr>
                      in case send_file_packet (w_sock w2) server_file_packet of
                           (sr, k) \<Rightarrow>
                             (let w3 = w2\<lparr>w_sock := k\<rparr>
                              in if sr = - 1 then Some w3
                                 else
                                   (case gets_loop env c file_path_id file_fd sha256 file_size total_blocks
                                           start_sequence w3 of
                                      None \<Rightarrow> None
                                    | Some w4 \<Rightarrow>
                                        (case get_sequence env (Some c) file_path_id w4 of
                                           None \<Rightarrow> None
                                         | Some ((r', s'), w5) \<Rightarrow>
                                             Some (if r' = 0 \<and> s' = Some total_blocks
                                                   then snd (db_run (dao_complete_transfer env (Some c) file_path_id) w5)
                                                   else w5)))))))"

definition handle_gets :: "'d dao_env \<Rightarrow> session \<Rightarrow> string option \<Rightarrow> 'd world \<Rightarrow> 'd world ub" where
  "handle_gets env s arg w =
     (if arg = None \<or> arg = Some [] then Some (gets_error arg w)
      else
        (case get_thread_db_conn w of
           None \<Rightarrow> Some (gets_error arg w)
         | Some c \<Rightarrow>
             (case db_call (dao_find_child_id env (Some c) (s_dir s) arg 0) w of
                None \<Rightarrow> None
              | Some (file_path_id, w1) \<Rightarrow>
                  if file_path_id \<le> 0 then Some (gets_error arg w1)
                  else
                    (case db_call (\<lambda>d. map_option (\<lambda>(r, i, d'). ((r, i), d'))
                                         (dao_get_file_info env (Some c) (s_user s) file_path_id d)) w1 of
                       None \<Rightarrow> None
                     | Some ((r, None), w2) \<Rightarrow> Some (gets_error arg w2)
                     | Some ((r, Some (sha256, file_size)), w2) \<Rightarrow>
                         (let physical_path = gen_physical_path 512 sha256
                          in case open_read physical_path w2 of
                               (False, w3) \<Rightarrow> Some (gets_error arg w3)
                             | (True, w3) \<Rightarrow>
                                 gets_send env c file_path_id arg physical_path sha256 file_size w3)))))"

section \<open>Upload\<close>

text \<open>\<open>strlen\<close> and the like on an array that need not hold a NUL: without one they read past it.\<close>

definition array_string :: "char list \<Rightarrow> string ub" where
  "array_string buf = (if NUL \<in> set buf then Some (cstr buf) else None)"

text \<open>The receive loop: \<open>n\<close> bytes are still wanted; the result is what has arrived.\<close>

function recv_upload :: "nat \<Rightarrow> string \<Rightarrow> sock \<Rightarrow> string \<times> sock" where
  "recv_upload n acc k =
     (if n = 0 then (acc, k)
      else
        (let once = (if n < BUFFER_SIZE then n else BUFFER_SIZE)
         in case os_recv k once of
              (ret, data, k1) \<Rightarrow>
                if ret \<le> 0 then (acc, k1) else recv_upload (n - nat ret) (acc @ data) k1))"
  by pat_completeness auto
termination recv_upload
  by (relation "measure (\<lambda>(n, acc, k). n)") auto

declare recv_upload.simps [simp del]

text \<open>The records of a file whose contents are complete.\<close>

definition puts_record ::
    "'d dao_env \<Rightarrow> nat \<Rightarrow> session \<Rightarrow> string \<Rightarrow> string \<Rightarrow> 64 word \<Rightarrow> 'd world \<Rightarrow> 'd world" where
  "puts_record env c s arg sha256 file_size w =
     (case db_run (dao_insert_file env (Some c) (Some sha256) file_size) w of
        (new_file_id, w1) \<Rightarrow>
          if new_file_id \<le> 0 then say msg_db_failed w1
          else
            (let virtual_path = snprintf_str 512 (''/'' @ arg)
             in case db_run (dao_insert_path env (Some c) (s_user s) (s_dir s) (Some arg) new_file_id virtual_path) w1 of
                  (new_path_id, w2) \<Rightarrow>
                    if new_path_id \<le> 0 then say msg_db_failed w2 else say msg_upload_ok w2))"

text \<open>The reception into the opened, empty file.\<close>

definition puts_receive ::
    "'d dao_env \<Rightarrow> nat \<Rightarrow> session \<Rightarrow> string \<Rightarrow> string \<Rightarrow> string \<Rightarrow> 64 word \<Rightarrow> 'd world \<Rightarrow> 'd world" where
  "puts_receive env c s arg file_fd sha256 file_size w =
     (case send_file_packet (w_sock w) (init_file_packet (cmd_code CMD_TYPE_PUTS) (Some arg) file_size 0) of
        (sr, k) \<Rightarrow>
          (let w1 = w\<lparr>w_sock := k\<rparr>
           in if sr = - 1 then w1
              else
                (case os_ftruncate file_fd file_size w1 of
                   (fr, w2) \<Rightarrow>
                     if fr = - 1 then say msg_extend_failed w2
                     else
                       (case os_answer w2 of
                          (False, w3) \<Rightarrow> say msg_map_failed w3
                        | (True, w3) \<Rightarrow>
                            (case recv_upload (nat (sint file_size)) [] (w_sock w3) of
                               (data, k1) \<Rightarrow>
                                 (let w4 = w3\<lparr>w_sock := k1,
                                        w_fs := (w_fs w3)(file_fd \<mapsto>
                                          Regular (data @ replicate (unat file_size - length data) NUL))\<rparr>
                                  in if length data < unat file_size then say msg_interrupted w4
                                     else puts_record env c s arg sha256 file_size w4))))))"

definition handle_puts :: "'d dao_env \<Rightarrow> session \<Rightarrow> string option \<Rightarrow> 'd world \<Rightarrow> 'd world ub" where
  "handle_puts env s arg w =
     (if arg = None \<or> arg = Some [] then Some (say msg_file_name w)
      else
        (case ensure_storage_dir w of
           (er, w1) \<Rightarrow>
             if er \<noteq> 0 then Some (say msg_storage w1)
             else
               (case get_thread_db_conn w1 of
                  None \<Rightarrow> Some (say msg_internal w1)
                | Some c \<Rightarrow>
                    (case recv_file_packet (w_sock w1) of
                       (rr, pkt, k) \<Rightarrow>
                         (let w2 = w1\<lparr>w_sock := k\<rparr>
                          in if rr \<le> 0 then Some (say msg_recv_info w2)
                             else
                               (case map_option (\<lambda>p. (array_string (fp_hash p), fp_file_size p)) pkt of
                                  Some (Some sha256, file_size) \<Rightarrow>
                                    if file_size \<le> 0 \<or> length sha256 \<noteq> 64 then Some (say msg_bad_info w2)
                                    else
                                      (let physical_path = gen_physical_path 512 sha256
                                       in case db_call (dao_find_file_by_hash env (Some c) (Some sha256)) w2 of
                                            None \<Rightarrow> None
                                          | Some (existing_file_id, w3) \<Rightarrow>
                                              if existing_file_id > 0
                                              then
                                                (let virtual_path = snprintf_str 512 (''/'' @ the arg)
                                                 in case db_run (dao_insert_path env (Some c) (s_user s) (s_dir s) arg
                                                                   existing_file_id virtual_path) w3 of
                                                      (new_path_id, w4) \<Rightarrow>
                                                        Some (if new_path_id > 0 then say msg_instant w4
                                                              else say msg_vpath_failed w4))
                                              else
                                                (case open_trunc physical_path w3 of
                                                   (False, w4) \<Rightarrow> Some (say msg_create_failed w4)
                                                 | (True, w4) \<Rightarrow>
                                                     Some (puts_receive env c s (the arg) physical_path sha256
                                                             file_size w4)))
                                | _ \<Rightarrow> None))))))"

end
