(* ===== verification/Session.thy ===== *)
theory Session
  imports Auth File_Transfer
begin

text \<open>
  The session of one client: \<open>handle_request\<close> of \<open>src/server/session.c\<close>. \<open>serve_command\<close> is the
  body of its loop for one packet, from the check that a user is logged in to the end of the
  \<open>switch\<close>; \<open>session_loop\<close> is the loop. The loop ends when no packet arrives any more, so it is
  modelled for connections whose input is finite.
\<close>

definition initial_session :: session where
  "initial_session = \<lparr>s_path = ''/'', s_user = - 1, s_dir = - 1\<rparr>"

definition get_packet_cmd_type :: "command_packet option \<Rightarrow> 32 word" where
  "get_packet_cmd_type cmd_packet =
     (case cmd_packet of None \<Rightarrow> cmd_code CMD_TYPE_INVALID | Some p \<Rightarrow> cp_cmd_type p)"

text \<open>The root directory of a user who has just logged in, made if it is missing.\<close>

definition enter_root :: "'d dao_env \<Rightarrow> int \<Rightarrow> int \<Rightarrow> 'd world \<Rightarrow> (int \<times> 'd world) ub" where
  "enter_root env user_id old_dir w =
     (case get_thread_db_conn w of
        None \<Rightarrow> Some (old_dir, w)
      | Some c \<Rightarrow>
          (case db_call (dao_get_root_dir_id env (Some c) user_id) w of
             None \<Rightarrow> None
           | Some (dir, w1) \<Rightarrow>
               if dir \<le> 0 then db_call (dao_init_root_dir env (Some c) user_id) w1 else Some (dir, w1)))"

definition with_session :: "session \<Rightarrow> 'd world ub \<Rightarrow> (session \<times> 'd world) ub" where
  "with_session s r = (case r of None \<Rightarrow> None | Some w \<Rightarrow> Some (s, w))"

definition serve_login :: "'d dao_env \<Rightarrow> int \<Rightarrow> string \<Rightarrow> session \<Rightarrow> 'd world \<Rightarrow> (session \<times> 'd world) ub" where
  "serve_login env client_fd data s w =
     (case handle_login env client_fd (Some data) (s_user s) w of
        None \<Rightarrow> None
      | Some (uid, w1) \<Rightarrow>
          (let s1 = s\<lparr>s_user := uid\<rparr>
           in if uid > 0 \<and> s_dir s1 = - 1
              then (case enter_root env uid (s_dir s1) w1 of
                      None \<Rightarrow> None
                    | Some (dir, w2) \<Rightarrow> Some (s1\<lparr>s_dir := dir\<rparr>, w2))
              else Some (s1, w1)))"

definition serve_register :: "'d dao_env \<Rightarrow> int \<Rightarrow> string \<Rightarrow> session \<Rightarrow> 'd world \<Rightarrow> (session \<times> 'd world) ub" where
  "serve_register env client_fd data s w =
     (case handle_register env client_fd (Some data) (s_user s) w of
        None \<Rightarrow> None
      | Some (uid, w1) \<Rightarrow>
          (let s1 = s\<lparr>s_user := uid\<rparr>
           in if uid > 0
              then (case enter_root env uid (s_dir s1) w1 of
                      None \<Rightarrow> None
                    | Some (dir, w2) \<Rightarrow> Some (s1\<lparr>s_dir := dir\<rparr>, w2))
              else Some (s1, w1)))"

definition serve_command ::
    "'d dao_env \<Rightarrow> int \<Rightarrow> command_packet \<Rightarrow> session \<Rightarrow> 'd world \<Rightarrow> (session \<times> 'd world) ub" where
  "serve_command env client_fd cmd_packet s w =
     (let t = get_packet_cmd_type (Some cmd_packet);
          data = cstr (cp_data cmd_packet)
      in if s_user s = - 1 \<and> t \<noteq> cmd_code CMD_TYPE_LOGIN \<and> t \<noteq> cmd_code CMD_TYPE_REGISTER \<and> t \<noteq> cmd_code CMD_TYPE_LOGOUT
         then Some (s, say msg_login_first w)
         else if t = cmd_code CMD_TYPE_LOGIN then serve_login env client_fd data s w
         else if t = cmd_code CMD_TYPE_REGISTER then serve_register env client_fd data s w
         else if t = cmd_code CMD_TYPE_LOGOUT then Some (initial_session, say msg_logout w)
         else if t = cmd_code CMD_TYPE_PWD then Some (s, handle_pwd s w)
         else if t = cmd_code CMD_TYPE_CD then handle_cd env s (Some data) w
         else if t = cmd_code CMD_TYPE_LS then with_session s (handle_ls env s w)
         else if t = cmd_code CMD_TYPE_GETS then with_session s (handle_gets env s (Some data) w)
         else if t = cmd_code CMD_TYPE_PUTS then with_session s (handle_puts env s (Some data) w)
         else if t = cmd_code CMD_TYPE_RM then with_session s (handle_rm env s (Some data) w)
         else if t = cmd_code CMD_TYPE_MKDIR then with_session s (handle_mkdir env s (Some data) w)
         else Some (s, say msg_bad_command w))"

section \<open>No handler adds input\<close>

text \<open>The connection to the database stays the same, and the input is not touched.\<close>

definition keeps :: "'d world \<Rightarrow> 'd world \<Rightarrow> bool" where
  "keeps w w' \<longleftrightarrow> w_conn w' = w_conn w \<and> rx_segs (w_sock w') = rx_segs (w_sock w) \<and> rx_fail (w_sock w') = rx_fail (w_sock w)"

lemma keeps_refl [simp, intro]: "keeps w w"
  by (simp add: keeps_def)

lemma keeps_trans: "keeps w w' \<Longrightarrow> keeps w' w'' \<Longrightarrow> keeps w w''"
  by (simp add: keeps_def)

lemma keeps_say [simp]: "keeps w (say m w') = keeps w w'"
  by (simp add: keeps_def)

lemma keeps_fs [simp]: "keeps w (w'\<lparr>w_fs := f\<rparr>) = keeps w w'"
  by (simp add: keeps_def)

lemma keeps_db [simp]: "keeps w (w'\<lparr>w_db := d\<rparr>) = keeps w w'"
  by (simp add: keeps_def)

lemma keeps_db_call: "db_call f w = Some (a, w') \<Longrightarrow> keeps w w'"
  by (auto dest!: db_call_world)

lemma keeps_db_run: "db_run f w = (a, w') \<Longrightarrow> keeps w w'"
  by (auto dest!: db_run_world)

lemma keeps_db_run_snd: "keeps w (snd (db_run f w))"
  using keeps_db_run [of f w] by (metis prod.collapse)

lemma keeps_os_answer: "os_answer w = (b, w') \<Longrightarrow> keeps w w'"
  by (auto simp: os_answer_def keeps_def split: list.splits)

lemma keeps_send: "send_full (w_sock w) b = (r, k) \<Longrightarrow> keeps w (w\<lparr>w_sock := k\<rparr>)"
  using send_full_rx by (simp add: keeps_def)

named_theorems keeping \<open>calls that keep the connection and leave the input alone\<close>

lemmas [keeping] = keeps_db_call keeps_db_run keeps_os_answer keeps_send

lemma keeps_handle_login: "handle_login env fd data u w = Some (u', w') \<Longrightarrow> keeps w w'"
  by (auto simp: handle_login_def say_fd_def split: if_splits option.splits prod.splits dest!: keeping)

lemma keeps_handle_register: "handle_register env fd data u w = Some (u', w') \<Longrightarrow> keeps w w'"
  by (auto simp: handle_register_def say_fd_def split: if_splits option.splits prod.splits dest!: keeping)

lemma keeps_enter_root: "enter_root env u d w = Some (d', w') \<Longrightarrow> keeps w w'"
  by (auto simp: enter_root_def split: if_splits option.splits prod.splits dest!: keeping intro: keeps_trans)

lemma keeps_serve_login: "serve_login env fd data s w = Some (s', w') \<Longrightarrow> keeps w w'"
  by (auto simp: serve_login_def Let_def split: if_splits option.splits prod.splits
    dest!: keeps_handle_login keeps_enter_root intro: keeps_trans)

lemma keeps_serve_register: "serve_register env fd data s w = Some (s', w') \<Longrightarrow> keeps w w'"
  by (auto simp: serve_register_def Let_def split: if_splits option.splits prod.splits
    dest!: keeps_handle_register keeps_enter_root intro: keeps_trans)

lemma keeps_handle_cd: "handle_cd env s arg w = Some (s', w') \<Longrightarrow> keeps w w'"
  by (auto simp: handle_cd_def Let_def split: if_splits option.splits prod.splits dest!: keeping)

lemma keeps_handle_ls: "handle_ls env s w = Some w' \<Longrightarrow> keeps w w'"
  by (auto simp: handle_ls_def split: if_splits option.splits prod.splits dest!: keeping)

lemma keeps_handle_pwd: "keeps w (handle_pwd s w)"
  by (simp add: handle_pwd_def)

lemma keeps_handle_rm: "handle_rm env s arg w = Some w' \<Longrightarrow> keeps w w'"
  by (auto simp: handle_rm_def split: if_splits option.splits prod.splits dest!: keeping intro: keeps_trans)

lemma keeps_handle_mkdir: "handle_mkdir env s arg w = Some w' \<Longrightarrow> keeps w w'"
  by (auto simp: handle_mkdir_def split: if_splits option.splits prod.splits dest!: keeping)

lemma keeps_gets_error: "keeps w (gets_error arg w)"
  using keeps_send unfolding gets_error_def send_file_packet_def by (metis prod.collapse)

lemma keeps_open_read: "open_read p w = (b, w') \<Longrightarrow> keeps w w'"
  by (auto simp: open_read_def split: option.splits dest: keeping)

lemma keeps_open_trunc: "open_trunc p w = (b, w') \<Longrightarrow> keeps w w'"
  by (auto simp: open_trunc_def split: if_splits prod.splits bool.splits dest!: keeping)

lemma keeps_ensure_storage: "ensure_storage_dir w = (r, w') \<Longrightarrow> keeps w w'"
  by (auto simp: ensure_storage_dir_def split: option.splits fs_entry.splits prod.splits bool.splits dest!: keeping)

lemma keeps_ftruncate: "os_ftruncate p n w = (r, w') \<Longrightarrow> keeps w w'"
  by (auto simp: os_ftruncate_def split: if_splits prod.splits bool.splits dest!: keeping)

lemma keeps_read_at: "os_read_at p off n w = (r, w') \<Longrightarrow> keeps w w'"
  by (auto simp: os_read_at_def split: if_splits prod.splits bool.splits option.splits fs_entry.splits dest!: keeping)

lemmas [keeping] = keeps_open_read keeps_open_trunc keeps_ensure_storage keeps_ftruncate keeps_read_at

lemma keeps_send_block: "send_block fd i off n h w = Some (r, w') \<Longrightarrow> keeps w w'"
  by (auto simp: send_block_def Let_def split: if_splits prod.splits option.splits dest!: keeping intro: keeps_trans)

lemma keeps_gets_loop: "gets_loop env c pid fd sha sz n i w = Some w' \<Longrightarrow> keeps w w'"
proof (induction env c pid fd sha sz n i w rule: gets_loop.induct)
  case (1 env c pid fd sha sz n i w)
  show ?case
  proof (cases "i < n")
    case False
    with 1(2) show ?thesis by (simp add: gets_loop.simps)
  next
    case True
    let ?off = "i * int BLOCK_SIZE"
    let ?bs = "if i = n - 1 then last_block_size sz ?off else int BLOCK_SIZE"
    obtain r w1 where b: "send_block fd i ?off ?bs sha w = Some (r, w1)"
      using 1(2) True by (auto simp: gets_loop.simps [of env c pid fd sha sz n i w] Let_def split: option.splits)
    note k = keeps_send_block [OF b]
    show ?thesis
    proof (cases "r = 0")
      case False
      with 1(2) True b k show ?thesis by (simp add: gets_loop.simps [of env c pid fd sha sz n i w] Let_def)
    next
      case r0: True
      with 1(2) True b have "gets_loop env c pid fd sha sz n (i + 1)
          (snd (db_run (dao_update_transfer_sequence env (Some c) pid (i + 1)) w1)) = Some w'"
        by (simp add: gets_loop.simps [of env c pid fd sha sz n i w] Let_def)
      from 1(1) [OF True refl refl b refl _ this] r0 show ?thesis
        using keeps_trans [OF k keeps_trans [OF keeps_db_run_snd]] by blast
    qed
  qed
qed

lemma keeps_get_sequence: "get_sequence env conn pid w = Some (r, w') \<Longrightarrow> keeps w w'"
  by (auto simp: get_sequence_def dest: keeps_db_call)

lemma keeps_gets_send: "gets_send env c pid arg fd sha sz w = Some w' \<Longrightarrow> keeps w w'"
proof -
  assume a: "gets_send env c pid arg fd sha sz w = Some w'"
  define n where "n = calculate_total_blocks sz"
  define w1 where "w1 = snd (db_run (dao_create_transfer_record env (Some c) pid 0 n (Some ''downloading'')) w)"
  have k1: "keeps w w1" unfolding w1_def by (rule keeps_db_run_snd)
  obtain rs w2 where q: "get_sequence env (Some c) pid w1 = Some (rs, w2)"
    using a by (auto simp: gets_send_def n_def [symmetric] w1_def [symmetric] Let_def split: option.splits)
  note k2 = keeps_trans [OF k1 keeps_get_sequence [OF q]]
  from a q show ?thesis
    by (auto simp: gets_send_def n_def [symmetric] w1_def [symmetric] Let_def send_file_packet_def
        split: option.splits prod.splits if_splits
        dest!: keeping keeps_gets_loop keeps_get_sequence intro: keeps_trans [OF k2] keeps_trans [OF keeps_trans [OF k2]]
          keeps_trans [OF keeps_trans [OF keeps_trans [OF k2]]] keeps_trans [OF keeps_trans [OF keeps_trans [OF keeps_trans [OF k2]]] keeps_db_run_snd])
qed

lemma keeps_handle_gets: "handle_gets env s arg w = Some w' \<Longrightarrow> keeps w w'"
  by (auto simp: handle_gets_def Let_def split: if_splits option.splits prod.splits bool.splits
      dest!: keeping keeps_gets_send intro: keeps_trans keeps_gets_error keeps_trans [OF _ keeps_gets_error])

text \<open>An upload also reads: the input only gets shorter.\<close>

definition drains :: "'d world \<Rightarrow> 'd world \<Rightarrow> bool" where
  "drains w w' \<longleftrightarrow> w_conn w' = w_conn w \<and> length (stream (w_sock w')) \<le> length (stream (w_sock w))"

lemma drains_keeps: "keeps w w' \<Longrightarrow> drains w w'"
  by (simp add: drains_def keeps_def stream_def)

lemma drains_trans: "drains w w' \<Longrightarrow> drains w' w'' \<Longrightarrow> drains w w''"
  by (simp add: drains_def)

lemma drains_then: "drains w w' \<Longrightarrow> keeps w' w'' \<Longrightarrow> drains w w''"
  using drains_keeps drains_trans by blast

lemma drains_say [simp]: "drains w (say m w') = drains w w'"
  by (simp add: drains_def)

lemma os_recv_le: "os_recv k n = (r, d, k') \<Longrightarrow> length (stream k') \<le> length (stream k)"
proof -
  assume a: "os_recv k n = (r, d, k')"
  define xs where "xs = dropWhile (\<lambda>s. s = []) (rx_segs k)"
  have "length (concat xs) = length (stream k)"
    unfolding xs_def concat_dropWhile_Nil stream_def ..
  with a show ?thesis
    by (cases xs) (auto simp: os_recv_def xs_def [symmetric] stream_def)
qed

lemma recv_upload_le: "recv_upload n acc k = (data, k') \<Longrightarrow> length (stream k') \<le> length (stream k)"
proof (induction n acc k rule: recv_upload.induct)
  case (1 n acc k)
  show ?case
  proof (cases "n = 0")
    case True
    with 1(2) show ?thesis by (simp add: recv_upload.simps)
  next
    case False
    obtain r d k1 where o: "os_recv k (if n < BUFFER_SIZE then n else BUFFER_SIZE) = (r, d, k1)"
      using prod_cases3 by blast
    note le = os_recv_le [OF o]
    show ?thesis
    proof (cases "r \<le> 0")
      case True
      with 1(2) False o le show ?thesis by (simp add: recv_upload.simps [of n acc k] Let_def)
    next
      case pos: False
      with 1(2) False o have "recv_upload (n - nat r) (acc @ d) k1 = (data, k')"
        by (simp add: recv_upload.simps [of n acc k] Let_def)
      from 1(1) [OF False refl o [symmetric] refl pos this] le show ?thesis by simp
    qed
  qed
qed

lemma recv_full_le: "recv_full k n = (r, b, k') \<Longrightarrow> length (stream k') \<le> length (stream k)"
  using recv_full_stream [of k n] by (auto simp: stream_def)

lemma recv_file_le: "recv_file_packet k = (r, p, k') \<Longrightarrow> length (stream k') \<le> length (stream k)"
  by (auto simp: recv_file_packet_def Let_def split: prod.splits if_splits dest: recv_full_le)

lemma drains_recv: "recv_file_packet (w_sock w) = (r, p, k) \<Longrightarrow> drains w (w\<lparr>w_sock := k\<rparr>)"
  using recv_file_le by (auto simp: drains_def)

lemma keeps_puts_record: "keeps w (puts_record env c s arg h sz w)"
  by (auto simp: puts_record_def Let_def split: prod.splits dest!: keeping intro: keeps_trans)

lemma drains_puts_receive: "drains w (puts_receive env c s arg fd h sz w)"
proof -
  obtain sr k where snd: "send_file_packet (w_sock w) (init_file_packet (cmd_code CMD_TYPE_PUTS) (Some arg) sz 0) = (sr, k)"
    by fastforce
  have k1: "keeps w (w\<lparr>w_sock := k\<rparr>)" using keeps_send snd unfolding send_file_packet_def by blast
  obtain fr w2 where ft: "os_ftruncate fd sz (w\<lparr>w_sock := k\<rparr>) = (fr, w2)" by fastforce
  note k2 = keeps_trans [OF k1 keeps_ftruncate [OF ft]]
  obtain b w3 where oa: "os_answer w2 = (b, w3)" by fastforce
  note k3 = keeps_trans [OF k2 keeps_os_answer [OF oa]]
  obtain data k4 where ru: "recv_upload (nat (sint sz)) [] (w_sock w3) = (data, k4)" by fastforce
  have "drains w3 (w3\<lparr>w_sock := k4, w_fs := f\<rparr>)" for f
    using recv_upload_le [OF ru] by (simp add: drains_def)
  note k4 = drains_trans [OF drains_keeps [OF k3] this]
  show ?thesis
    using drains_keeps [OF k1] drains_keeps [OF k2] drains_keeps [OF k3] k4 drains_then [OF k4 keeps_puts_record]
    by (cases b) (simp_all add: puts_receive_def snd ft oa ru Let_def del: cmd_code.simps)
qed

lemma drains_handle_puts: "handle_puts env s arg w = Some w' \<Longrightarrow> drains w w'"
proof -
  assume a: "handle_puts env s arg w = Some w'"
  obtain er w1 where e: "ensure_storage_dir w = (er, w1)" by fastforce
  obtain rr p k where r: "recv_file_packet (w_sock w1) = (rr, p, k)" using prod_cases3 by blast
  note k1 = keeps_ensure_storage [OF e]
  note k2 = drains_trans [OF drains_keeps [OF k1] drains_recv [OF r]]
  show ?thesis
    using a drains_keeps [OF k1] k2
    by (auto simp: handle_puts_def e r Let_def drains_keeps split: if_splits option.splits prod.splits bool.splits
        dest!: keeping intro: drains_then drains_trans [OF drains_then drains_puts_receive] drains_trans [OF _ drains_puts_receive])
qed

lemma keeps_with_session: "with_session s r = Some (s', w') \<Longrightarrow> s' = s \<and> r = Some w'"
  by (auto simp: with_session_def split: option.splits)

lemma keeps_serve_command:
  "serve_command env fd p s w = Some (s', w') \<Longrightarrow> cp_cmd_type p \<noteq> cmd_code CMD_TYPE_PUTS \<Longrightarrow> keeps w w'"
  by (auto simp: serve_command_def get_packet_cmd_type_def Let_def split: if_splits
      dest!: keeps_with_session keeps_serve_login keeps_serve_register keeps_handle_cd keeps_handle_ls
        keeps_handle_gets keeps_handle_rm keeps_handle_mkdir
      intro: keeps_handle_pwd)

lemma drains_serve_command: "serve_command env fd p s w = Some (s', w') \<Longrightarrow> drains w w'"
proof (cases "cp_cmd_type p = cmd_code CMD_TYPE_PUTS")
  case True
  assume "serve_command env fd p s w = Some (s', w')"
  with True show ?thesis
    by (auto simp: serve_command_def get_packet_cmd_type_def Let_def drains_keeps split: if_splits
      dest!: keeps_with_session drains_handle_puts)
qed (use keeps_serve_command drains_keeps in blast)

lemma recv_command_shorter:
  "recv_command_packet k = (r, p, k') \<Longrightarrow> 0 < r \<Longrightarrow> \<exists>q. p = Some q \<and> length (stream k') < length (stream k)"
  using recv_full_stream [of k sizeof_command_packet]
  by (auto simp: recv_command_packet_def Let_def stream_def sizeof_command_packet_def split: prod.splits if_splits)

section \<open>The loop\<close>

function session_loop :: "'d dao_env \<Rightarrow> int \<Rightarrow> session \<Rightarrow> 'd world \<Rightarrow> 'd world ub" where
  "session_loop env client_fd s w =
     (case recv_command_packet (w_sock w) of
        (ret, cmd_packet, k) \<Rightarrow>
          (let w1 = w\<lparr>w_sock := k\<rparr>
           in if ret \<le> 0 then Some w1
              else
                (case cmd_packet of
                   None \<Rightarrow> None
                 | Some p \<Rightarrow>
                     (case serve_command env client_fd p s w1 of
                        None \<Rightarrow> None
                      | Some (s', w2) \<Rightarrow> session_loop env client_fd s' w2))))"
  by pat_completeness auto
termination session_loop
  by (relation "measure (\<lambda>(env, fd, s, w). length (stream (w_sock w)))")
    (auto simp: drains_def dest!: sym [of "(_, _, _)"] drains_serve_command recv_command_shorter)

declare session_loop.simps [simp del]

definition handle_request :: "'d dao_env \<Rightarrow> int \<Rightarrow> 'd world \<Rightarrow> 'd world ub" where
  "handle_request env client_fd w = session_loop env client_fd initial_session w"

end
