(* ===== verification/Blocks.thy ===== *)
theory Blocks
  imports File_Transfer
begin

text \<open>
  The arithmetic of the blocks of a download: how many there are, how long the last one is, and that
  the blocks cut the file into consecutive pieces.
\<close>

lemma unat_word64: "k < 2 ^ 64 \<Longrightarrow> unat (word_of_nat k :: 64 word) = k"
  by (simp add: unsigned_of_nat take_bit_nat_eq_self)

lemma block_size_word: "unat (word_of_nat BLOCK_SIZE :: 64 word) = BLOCK_SIZE"
  by (simp add: BLOCK_SIZE_def)

definition block_count :: "nat \<Rightarrow> nat" where
  "block_count n = (n + BLOCK_SIZE - 1) div BLOCK_SIZE"

lemma block_count_bounds: "n \<le> block_count n * BLOCK_SIZE \<and> (0 < n \<longrightarrow> 0 < block_count n \<and> (block_count n - 1) * BLOCK_SIZE < n)"
proof -
  have "block_count n * BLOCK_SIZE + (n + BLOCK_SIZE - 1) mod BLOCK_SIZE = n + BLOCK_SIZE - 1"
    unfolding block_count_def by (rule div_mult_mod_eq)
  moreover have "(n + BLOCK_SIZE - 1) mod BLOCK_SIZE < BLOCK_SIZE" by (simp add: BLOCK_SIZE_def)
  ultimately show ?thesis by (auto simp: BLOCK_SIZE_def left_diff_distrib')
qed

lemma block_count_le: "n \<le> k * BLOCK_SIZE \<Longrightarrow> block_count n \<le> k"
proof -
  assume "n \<le> k * BLOCK_SIZE"
  then have "n + BLOCK_SIZE - 1 < (k + 1) * BLOCK_SIZE" by (simp add: BLOCK_SIZE_def)
  then have "block_count n < k + 1" unfolding block_count_def by (simp add: less_mult_imp_div_less)
  then show ?thesis by simp
qed

lemma block_count_0 [simp]: "block_count 0 = 0"
  by (simp add: block_count_def BLOCK_SIZE_def)

text \<open>The count of the code is the exact one as long as it fits an \<open>int\<close>.\<close>

lemma uint_round_up: "unat (sz :: 64 word) \<le> 2147483647 * BLOCK_SIZE \<Longrightarrow>
    uint ((sz + word_of_nat BLOCK_SIZE - 1) div word_of_nat BLOCK_SIZE) = int (block_count (unat sz))"
proof -
  assume a: "unat sz \<le> 2147483647 * BLOCK_SIZE"
  have "unat (sz + word_of_nat BLOCK_SIZE) = unat sz + BLOCK_SIZE"
    using a block_size_word by (subst unat_add_lem [THEN iffD1]) (simp_all add: BLOCK_SIZE_def)
  moreover from this have "1 \<le> sz + word_of_nat BLOCK_SIZE"
    by (simp add: word_le_nat_alt BLOCK_SIZE_def)
  ultimately have "unat (sz + word_of_nat BLOCK_SIZE - 1) = unat sz + BLOCK_SIZE - 1"
    by (simp add: unat_sub)
  then have "unat ((sz + word_of_nat BLOCK_SIZE - 1) div word_of_nat BLOCK_SIZE) = block_count (unat sz)"
    by (simp only: unat_div block_size_word block_count_def)
  then show ?thesis by (metis uint_nat)
qed

lemma total_blocks_exact:
  assumes "unat sz \<le> 2147483647 * BLOCK_SIZE"
  shows "calculate_total_blocks sz = int (block_count (unat sz))"
  using uint_round_up [OF assms] block_count_le [OF assms] by (simp add: calculate_total_blocks_def)

lemma last_block_exact:
  assumes "0 < unat sz" "unat sz \<le> 2147483647 * BLOCK_SIZE" "n = block_count (unat sz)"
  shows "last_block_size sz ((int n - 1) * int BLOCK_SIZE) = int (unat sz - (n - 1) * BLOCK_SIZE)"
    "0 < unat sz - (n - 1) * BLOCK_SIZE" "unat sz - (n - 1) * BLOCK_SIZE \<le> BLOCK_SIZE"
proof -
  have b: "0 < n" "(n - 1) * BLOCK_SIZE < unat sz" "unat sz \<le> n * BLOCK_SIZE"
    using block_count_bounds [of "unat sz"] assms(1,3) by auto
  then show "0 < unat sz - (n - 1) * BLOCK_SIZE" by simp
  show le: "unat sz - (n - 1) * BLOCK_SIZE \<le> BLOCK_SIZE" using b by (cases n) auto
  have off: "(int n - 1) * int BLOCK_SIZE = int ((n - 1) * BLOCK_SIZE)" using b(1) by (cases n) auto
  have "(n - 1) * BLOCK_SIZE < 2 ^ 64" using b(2) assms(2) by (simp add: BLOCK_SIZE_def)
  then have "unat (word_of_nat ((n - 1) * BLOCK_SIZE) :: 64 word) = (n - 1) * BLOCK_SIZE"
    by (rule unat_word64)
  moreover from this have "(word_of_nat ((n - 1) * BLOCK_SIZE) :: 64 word) \<le> sz"
    using b(2) by (simp add: word_le_nat_alt)
  ultimately have "unat (sz - word_of_nat ((n - 1) * BLOCK_SIZE)) = unat sz - (n - 1) * BLOCK_SIZE"
    by (simp add: unat_sub)
  then have "uint (sz - word_of_int ((int n - 1) * int BLOCK_SIZE)) = int (unat sz - (n - 1) * BLOCK_SIZE)"
    unfolding off of_int_of_nat_eq by (metis uint_nat)
  with le show "last_block_size sz ((int n - 1) * int BLOCK_SIZE) = int (unat sz - (n - 1) * BLOCK_SIZE)"
    unfolding last_block_size_def by (simp add: BLOCK_SIZE_def)
qed

lemma last_block_range:
  assumes "0 < unat sz" "unat sz \<le> 2147483647 * BLOCK_SIZE"
  shows "0 \<le> last_block_size sz ((int (block_count (unat sz)) - 1) * int BLOCK_SIZE) \<and>
    last_block_size sz ((int (block_count (unat sz)) - 1) * int BLOCK_SIZE) \<le> int MAX_BLOCK_DATA"
proof -
  have "BLOCK_SIZE = MAX_BLOCK_DATA" by (simp add: BLOCK_SIZE_def MAX_BLOCK_DATA_def)
  with last_block_exact(1,3) [OF assms refl] show ?thesis by (metis of_nat_0_le_iff of_nat_le_iff)
qed

section \<open>Sending blocks\<close>

lemma os_answer_same [simp]: "w_faults w = [] \<Longrightarrow> os_answer w = (True, w)"
  by (simp add: os_answer_def)

lemma os_answer_keeps: "os_answer w = (b, w') \<Longrightarrow> w_db w' = w_db w \<and> w_conn w' = w_conn w \<and> w_sock w' = w_sock w \<and> w_fs w' = w_fs w"
  by (auto simp: os_answer_def split: list.splits)

lemma os_read_at_keeps: "os_read_at p off n w = (r, w') \<Longrightarrow> w_db w' = w_db w \<and> w_conn w' = w_conn w"
  by (auto simp: os_read_at_def split: if_splits prod.splits bool.splits option.splits fs_entry.splits dest!: os_answer_keeps)

text \<open>With a block size that fits the packet and a hash that fits its field nothing is overrun.\<close>

lemma send_block_safe:
  assumes "length sha \<le> 64" "0 \<le> bs" "bs \<le> int MAX_BLOCK_DATA"
  shows "\<exists>r w'. send_block fd i off bs sha w = Some (r, w') \<and> w_db w' = w_db w \<and> w_conn w' = w_conn w"
  using assms
  by (auto simp: send_block_def hash_field_def Let_def split: prod.splits dest: os_read_at_keeps)

definition cut_at :: "nat \<Rightarrow> nat \<Rightarrow> string \<Rightarrow> string" where
  "cut_at off n s = take n (drop off s)"

definition file_block :: "string \<Rightarrow> nat \<Rightarrow> string \<Rightarrow> block_packet" where
  "file_block sha i data =
     \<lparr>bp_cmd_type = cmd_code CMD_TYPE_GETS, bp_block_index = word_of_nat i,
      bp_block_size = word_of_nat (length data), bp_block_offset = word_of_nat (i * BLOCK_SIZE),
      bp_hash = sha @ replicate (HASH_LEN - length sha) NUL,
      bp_block_data = data @ replicate (MAX_BLOCK_DATA - length data) NUL\<rparr>"

definition sent :: "string \<Rightarrow> 'd world \<Rightarrow> 'd world" where
  "sent b w = w\<lparr>w_sock := (w_sock w)\<lparr>tx_out := tx_out (w_sock w) @ b\<rparr>\<rparr>"

lemma sent_simps [simp]:
  "w_conn (sent b w) = w_conn w" "w_db (sent b w) = w_db w" "w_fs (sent b w) = w_fs w" "w_faults (sent b w) = w_faults w"
  "open_sock (w_sock (sent b w)) = open_sock (w_sock w)" "stream (w_sock (sent b w)) = stream (w_sock w)"
  "tx_out (w_sock (sent b w)) = tx_out (w_sock w) @ b" "rx_segs (w_sock (sent b w)) = rx_segs (w_sock w)"
  "rx_fail (w_sock (sent b w)) = rx_fail (w_sock w)"
  by (simp_all add: sent_def open_sock_def stream_def)

lemma sent_sent: "sent b (sent a w) = sent (a @ b) w"
  by (simp add: sent_def)

lemma sent_db: "sent b (w\<lparr>w_db := d\<rparr>) = (sent b w)\<lparr>w_db := d\<rparr>"
  by (simp add: sent_def)

lemma say_open: "open_sock (w_sock w) \<Longrightarrow> say m w = sent (reply_bytes m) w"
  by (simp add: say_def sent_def send_msg_open)

lemma send_block_open:
  assumes "open_sock (w_sock w)" "w_faults w = []" "w_fs w fd = Some (Regular s)" "length sha \<le> 64"
    "i * BLOCK_SIZE + n \<le> length s" "n \<le> MAX_BLOCK_DATA"
  shows "send_block fd (int i) (int i * int BLOCK_SIZE) (int n) sha w =
    Some (0, sent (bytes_of_block (file_block sha i (cut_at (i * BLOCK_SIZE) n s))) w)"
proof -
  define k where "k = i * BLOCK_SIZE"
  have off: "int i * int BLOCK_SIZE = int k" by (simp add: k_def)
  have l: "length (cut_at k n s) = n" using assms(5) by (simp add: cut_at_def k_def)
  have "os_read_at fd (int k) n w = ((int n, cut_at k n s), w)"
    using assms(2,3) l by (simp add: cut_at_def os_read_at_def)
  with assms(1,4,6) l show ?thesis
    unfolding off k_def [symmetric] file_block_def
    by (simp add: send_block_def hash_field_def Let_def send_full_open sent_def del: cmd_code.simps)
qed

text \<open>The pieces of a file that the blocks carry.\<close>

definition pieces_of :: "string \<Rightarrow> nat \<Rightarrow> string list" where
  "pieces_of s n = map (\<lambda>i. cut_at (i * BLOCK_SIZE) BLOCK_SIZE s) [0..<n]"

lemma concat_pieces: "concat (pieces_of s n) = take (n * BLOCK_SIZE) s"
proof (induction n)
  case (Suc n)
  have "take (n * BLOCK_SIZE) s @ take BLOCK_SIZE (drop (n * BLOCK_SIZE) s) = take (n * BLOCK_SIZE + BLOCK_SIZE) s"
    by (simp only: take_add)
  with Suc show ?case by (simp add: pieces_of_def cut_at_def add.commute)
qed (simp add: pieces_of_def)

lemma pieces_whole: "length s \<le> n * BLOCK_SIZE \<Longrightarrow> concat (pieces_of s n) = s"
  by (simp add: concat_pieces)

definition file_blocks :: "string \<Rightarrow> string \<Rightarrow> nat \<Rightarrow> nat \<Rightarrow> block_packet list" where
  "file_blocks sha s a n = map (\<lambda>i. file_block sha i (cut_at (i * BLOCK_SIZE) BLOCK_SIZE s)) [a..<n]"

lemma block_payload:
  "length data \<le> MAX_BLOCK_DATA \<Longrightarrow> take (unat (bp_block_size (file_block sha i data))) (bp_block_data (file_block sha i data)) = data"
  by (simp add: file_block_def unsigned_of_nat take_bit_nat_eq_self MAX_BLOCK_DATA_def)

lemma blocks_payload:
  "map (\<lambda>b. take (unat (bp_block_size b)) (bp_block_data b)) (file_blocks sha s 0 n) = pieces_of s n"
proof -
  have "length (cut_at off BLOCK_SIZE s) \<le> MAX_BLOCK_DATA" for off
    by (simp add: cut_at_def BLOCK_SIZE_def MAX_BLOCK_DATA_def)
  then show ?thesis by (simp add: file_blocks_def pieces_of_def block_payload o_def)
qed

text \<open>The whole loop, on a socket that takes everything and a file that is all there.\<close>

lemma cut_at_last: "length s \<le> off + n \<Longrightarrow> cut_at off n s = cut_at off (length s - off) s"
  by (simp add: cut_at_def)

lemma db_run_snd: "\<exists>d. snd (db_run f w) = w\<lparr>w_db := d\<rparr>"
  using db_run_world [of f w] by (metis prod.collapse)

lemma gets_loop_open:
  assumes "open_sock (w_sock w)" "w_faults w = []" "w_fs w fd = Some (Regular s)" "length sha \<le> 64"
    "length s = unat sz" "unat sz \<le> 2147483647 * BLOCK_SIZE" "n = block_count (unat sz)" "i \<le> n"
  shows "\<exists>d. gets_loop env c pid fd sha sz (int n) (int i) w =
    Some (sent (concat (map bytes_of_block (file_blocks sha s i n))) (w\<lparr>w_db := d\<rparr>))"
  using assms(1-3,8)
proof (induction "n - i" arbitrary: i w)
  case 0
  then show ?case by (auto simp: gets_loop.simps file_blocks_def sent_def intro!: exI [of _ "w_db w"])
next
  case (Suc k)
  then have lt: "i < n" by simp
  then have pos: "0 < unat sz" using assms(7) by (cases "unat sz = 0") auto
  have b: "(n - 1) * BLOCK_SIZE < length s" "length s \<le> n * BLOCK_SIZE"
    using block_count_bounds [of "unat sz"] pos assms(5,7) by auto
  define bs where "bs = (if i = n - 1 then length s - i * BLOCK_SIZE else BLOCK_SIZE)"
  have "i \<noteq> n - 1 \<Longrightarrow> (i + 1) * BLOCK_SIZE \<le> (n - 1) * BLOCK_SIZE" using lt by (intro mult_right_mono) auto
  then have fit: "i * BLOCK_SIZE + bs \<le> length s" "bs \<le> MAX_BLOCK_DATA"
    using b lt by (auto simp: bs_def BLOCK_SIZE_def MAX_BLOCK_DATA_def)
  have eq: "int i = int n - 1 \<longleftrightarrow> i = n - 1" using lt by linarith
  have size: "(if int i = int n - 1 then last_block_size sz (int i * int BLOCK_SIZE) else int BLOCK_SIZE) = int bs"
  proof (cases "int i = int n - 1")
    case True
    then have "i = n - 1" using eq by blast
    then have "bs = unat sz - (n - 1) * BLOCK_SIZE" unfolding bs_def assms(5) [symmetric] by (simp only: if_True refl)
    with last_block_exact(1) [OF pos assms(6,7)] True show ?thesis by (simp only: if_True refl)
  next
    case False
    with eq have "i \<noteq> n - 1" by blast
    with False show ?thesis unfolding bs_def by (simp only: if_False)
  qed
  have data: "cut_at (i * BLOCK_SIZE) bs s = cut_at (i * BLOCK_SIZE) BLOCK_SIZE s"
  proof (cases "i = n - 1")
    case True
    then have "length s \<le> i * BLOCK_SIZE + BLOCK_SIZE" using b(2) lt by (cases n) auto
    from cut_at_last [OF this] True show ?thesis by (simp add: bs_def)
  qed (simp add: bs_def)
  let ?b = "bytes_of_block (file_block sha i (cut_at (i * BLOCK_SIZE) BLOCK_SIZE s))"
  have snd: "send_block fd (int i) (int i * int BLOCK_SIZE) (int bs) sha w = Some (0, sent ?b w)"
    unfolding data [symmetric] by (rule send_block_open [OF Suc(3-5) assms(4) fit])
  obtain d1 where d1: "snd (db_run (dao_update_transfer_sequence env (Some c) pid (int i + 1)) (sent ?b w)) = (sent ?b w)\<lparr>w_db := d1\<rparr>"
    by (rule exE [OF db_run_snd])
  let ?w = "(sent ?b w)\<lparr>w_db := d1\<rparr>"
  have step: "gets_loop env c pid fd sha sz (int n) (int i) w = gets_loop env c pid fd sha sz (int n) (int (Suc i)) ?w"
    using lt size snd d1 by (simp add: gets_loop.simps [of env c pid fd sha sz "int n" "int i" w] Let_def add.commute)
  obtain d where d: "gets_loop env c pid fd sha sz (int n) (int (Suc i)) ?w =
      Some (sent (concat (map bytes_of_block (file_blocks sha s (Suc i) n))) (?w\<lparr>w_db := d\<rparr>))"
  proof (rule exE [OF Suc(1)])
    show "k = n - Suc i" "Suc i \<le> n" using Suc(2) lt by simp_all
    show "open_sock (w_sock ?w)" "w_faults ?w = []" "w_fs ?w fd = Some (Regular s)" using Suc(3-5) by simp_all
  qed
  have "file_blocks sha s i n = file_block sha i (cut_at (i * BLOCK_SIZE) BLOCK_SIZE s) # file_blocks sha s (Suc i) n"
    using lt by (simp add: file_blocks_def upt_conv_Cons)
  with step d show ?case by (intro exI [of _ d]) (simp add: sent_def)
qed

end
