(* ===== verification/Dao_Props.thy ===== *)
theory Dao_Props
  imports Dao_Laws
begin

text \<open>
  The properties of the DAO layer, for every database that keeps the contract \<open>sql_service\<close> or
  \<open>sql_available\<close>, each with an instance on the reference database of \<open>Sql_Tables\<close>.
\<close>

section \<open>Helper lemmas\<close>

lemma adds_path_rows: "adds_path t t' r \<Longrightarrow> t_paths t' = t_paths t @ [r] \<and> t_users t' = t_users t \<and> t_files t' = t_files t"
  by (simp add: adds_path_def)

context sql_available begin

lemma register_again:
  assumes "clean_text u" "length u \<le> 64" "\<exists>row\<in>set (t_users (tbl d)). key (u_name row) = key u"
  shows "\<exists>d'. dao_register_user env (Some c) (Some u) (Some pw) d = Some (0, d') \<and> tbl d' = tbl d"
proof -
  have g: "goes 512 (Sel_user u)"
    using assms by (intro goes_small) (simp_all add: clean_stmt_def)
  obtain rep d1 where q: "dao_execute_query env c (snprintf_str 512 (render (Sel_user u))) d = (rep, d1)" by fastforce
  obtain rows i1 where rows: "rep = Query_ok (Some rows) i1" using exec_answers [OF g q] by auto
  have "select_rows key (Sel_user u) (tbl d) \<noteq> []" using assms(3) by (simp add: concat_filter filter_empty_conv)
  with exec_goes [OF g q] rows have "tbl d1 = tbl d" "rows \<noteq> []"
    by (auto simp: stmt_ok_def simp del: select_rows.simps)
  with q rows show ?thesis by (auto simp: dao_register_user_def render_folds)
qed

lemma register_login:
  assumes "tables_ok key (tbl d)" "clean_text u" "length u \<le> 64" "length pw \<le> 127"
    "\<not> (\<exists>row\<in>set (t_users (tbl d)). key (u_name row) = key u)"
    "ids_left (map u_id (t_users (tbl d)))" "ids_left (map p_id (t_paths (tbl d)))"
  shows "\<exists>uid salt root d1 d2 d3. dao_register_user env (Some c) (Some u) (Some pw) d = Some (uid, d1) \<and> 0 < uid \<and>
    (\<forall>pw'. length pw' \<le> 127 \<longrightarrow> (\<exists>d4. dao_login_user env (Some c) (Some u) (Some pw') d1 =
       Some (if digest (pw @ salt) = digest (pw' @ salt) then uid else - 1, d4))) \<and>
    dao_get_root_dir_id env (Some c) uid d1 = Some (root, d2) \<and> 0 < root \<and>
    dao_register_user env (Some c) (Some u) (Some pw) d1 = Some (0, d3)"
proof -
  obtain row root d1 where r: "dao_register_user env (Some c) (Some u) (Some pw) d = Some (u_id row, d1)"
    "tables_ok key (tbl d1)" "0 < u_id row" "c_range (u_id row)" "u_name row = u" "u_hash row = digest (pw @ u_salt row)"
    "adds_path ((tbl d)\<lparr>t_users := t_users (tbl d) @ [row]\<rparr>) (tbl d1) (new_path (u_id row) None ''/'' ''/'' CHR ''d'' None root)"
    using register_exact [OF assms] by blast
  then have row: "row \<in> set (t_users (tbl d1))" by (simp add: adds_path_def)
  have login: "length pw' \<le> 127 \<Longrightarrow> \<exists>d4. dao_login_user env (Some c) (Some u) (Some pw') d1 =
       Some (if digest (pw @ u_salt row) = digest (pw' @ u_salt row) then u_id row else - 1, d4)" for pw'
    using login_exact [OF r(2) assms(2,3) _ row, of pw' c] r(5,6) by auto
  let ?P = "\<lambda>x. p_user x = u_id row \<and> p_parent x = None \<and> p_type x = CHR ''d''"
  have "new_path (u_id row) None ''/'' ''/'' CHR ''d'' None root \<in> set (t_paths (tbl d1))"
    using r(7) by (simp add: adds_path_def)
  then have "\<exists>x\<in>set (t_paths (tbl d1)). ?P x" by (rule bexI [rotated]) (simp add: new_path_def)
  then obtain root' d2 where root: "dao_get_root_dir_id env (Some c) (u_id row) d1 = Some (root', d2)"
    "\<exists>x\<in>set (t_paths (tbl d1)). p_id x = root'"
    using get_root_exact [OF r(2,4,3), of c] unfolding Let_def by (auto split: if_splits)
  then have "0 < root'" using tables_ok_id_range(2) [OF r(2)] by auto
  moreover obtain d3 where "dao_register_user env (Some c) (Some u) (Some pw) d1 = Some (0, d3)"
    using register_again [OF assms(2,3), of d1 c pw] row r(5) by auto
  ultimately show ?thesis using r(1,3) login root(1) by blast
qed

end

section \<open>Accounts\<close>

text \<open>C11: on a database that answers, a new user name registers with a positive id; afterwards logging
  in under that name returns this id exactly for the passwords that hash like the one registered, with
  the salt stored, and -1 for all others; the new user has a root directory, and registering the name
  again returns 0.\<close>

theorem register_then_login:
  assumes "sql_available env tbl key digest" "tables_ok key (tbl d)"
    "clean_text u" "length u \<le> 64" "length pw \<le> 127"
    "\<not> (\<exists>row\<in>set (t_users (tbl d)). key (u_name row) = key u)"
    "ids_left (map u_id (t_users (tbl d)))" "ids_left (map p_id (t_paths (tbl d)))"
  shows "\<exists>uid salt root d1 d2 d3. dao_register_user env (Some c) (Some u) (Some pw) d = Some (uid, d1) \<and> 0 < uid \<and>
    (\<forall>pw'. length pw' \<le> 127 \<longrightarrow> (\<exists>d4. dao_login_user env (Some c) (Some u) (Some pw') d1 =
       Some (if digest (pw @ salt) = digest (pw' @ salt) then uid else - 1, d4))) \<and>
    dao_get_root_dir_id env (Some c) uid d1 = Some (root, d2) \<and> 0 < root \<and>
    dao_register_user env (Some c) (Some u) (Some pw) d1 = Some (0, d3)"
  by (rule sql_available.register_login [OF assms])

lemma ref_available: "sql_available (ref_env key) (\<lambda>t. t) key ref_digest"
  by (rule ref_available.sql_available_axioms)

theorem register_then_login_witness:
  "\<exists>uid d1. dao_register_user (ref_env id) (Some 7) (Some ''ann'') (Some ''pw'') no_tables = Some (uid, d1) \<and> 0 < uid"
proof -
  have "clean_text ''ann''" by (simp add: clean_text_def sq_def)
  then show ?thesis
    using register_then_login [OF ref_available [of id], of no_tables "''ann''" "''pw''" 7] tables_ok_empty
    by (force simp: no_tables_def ids_left_def)
qed


lemma ref_service: "sql_service (ref_env key) (\<lambda>t. t) key ref_digest"
  by (rule ref_service.sql_service_axioms)


section \<open>Directories\<close>

lemma path_violates_adds:
  "adds_path t t' (new_path usr (Some par) n p ty fl i) \<Longrightarrow>
    path_violates key (t'\<lparr>t_paths := map (tombed P) (t_paths t')\<rparr>) usr (Some par) n fl'"
  by (auto simp: adds_path_def path_violates_def new_path_def)

context sql_available begin

text \<open>The life of a directory: created, found, listed, deleted, gone; its name stays taken.\<close>

lemma dir_life:
  assumes "tables_ok key (tbl d)" "c_range uid" "c_range par" "0 < uid" "0 < par" "clean_text n" "length n \<le> 200"
    "uid \<in> u_id ` set (t_users (tbl d))" "par \<in> p_id ` set (t_paths (tbl d))" "ids_left (map p_id (t_paths (tbl d)))"
    "\<not> (\<exists>row\<in>set (t_paths (tbl d)). p_parent row = Some par \<and> key (p_name row) = key n)"
  shows "\<exists>pid d1 d2 d3 d4 d5 d6 d7. dao_create_dir env (Some c) uid par (Some n) d = Some (pid, d1) \<and> 0 < pid \<and>
    dao_find_child_id env (Some c) par (Some n) 1 d1 = Some (pid, d2) \<and>
    dao_find_child_id env (Some c) par (Some n) 0 d1 = Some (- 1, d3) \<and>
    child_names (tbl d1) uid par = child_names (tbl d) uid par @ [n] \<and>
    dao_create_dir env (Some c) uid par (Some n) d1 = Some (0, d4) \<and>
    dao_delete_entry env (Some c) uid pid d1 = (0, d5) \<and>
    dao_find_child_id env (Some c) par (Some n) (- 1) d5 = Some (- 1, d6) \<and>
    child_names (tbl d5) uid par = child_names (tbl d) uid par \<and>
    dao_create_dir env (Some c) uid par (Some n) d5 = Some (- 1, d7)"
proof -
  have l: "length n \<le> 255" using assms(7) by simp
  have nv: "\<not> path_violates key (tbl d) uid (Some par) n None"
    using assms(8-11) by (auto simp: path_violates_def)
  have nd: "\<not> (\<exists>row\<in>set (t_paths (tbl d)). child_of key par n row \<and> p_type row = CHR ''d'')"
    using assms(11) by (auto simp: child_of_def)
  obtain pid d1 where d1: "dao_create_dir env (Some c) uid par (Some n) d = Some (pid, d1)"
    "adds_path (tbl d) (tbl d1) (new_path uid (Some par) n (''/'' @ n) CHR ''d'' None pid)"
    using create_dir_exact [OF assms(1-7), of c] nv nd by auto
  define R where "R = new_path uid (Some par) n (''/'' @ n) CHR ''d'' None pid"
  note d1 = d1 [folded R_def]
  have ok1: "tables_ok key (tbl d1)"
    using create_dir_ok [OF assms(1-3,6,7), of c] d1(1) by auto
  have rows: "t_paths (tbl d1) = t_paths (tbl d) @ [R]" "t_users (tbl d1) = t_users (tbl d)"
    using adds_path_rows [OF d1(2)] by auto
  have child: "row \<in> set (t_paths (tbl d1)) \<and> child_of key par n row \<longleftrightarrow> row = R" for row
    using assms(11) rows(1) by (auto simp: child_of_def R_def new_path_def)
  have r: "p_type R = CHR ''d''" "p_id R = pid" "0 < pid" "c_range pid" "\<not> p_tomb R" "p_user R = uid"
    "p_parent R = Some par" "p_name R = n"
    using d1(2) by (auto simp: R_def new_path_def adds_path_def c_range_def)
  have pid: "row \<in> set (t_paths (tbl d1)) \<Longrightarrow> child_of key par n row \<Longrightarrow> p_id row = pid" for row
    using child [of row] r(2) by simp
  have f1: "\<exists>row\<in>set (t_paths (tbl d1)). wanted key par n 1 row"
    using child r(1) by (metis wanted_simps(2))
  have "p_type R \<noteq> CHR ''f''" using r(1) by simp
  then have f0: "\<not> (\<exists>row\<in>set (t_paths (tbl d1)). wanted key par n 0 row)"
    using child by (metis wanted_simps(3))
  obtain d2 where d2: "dao_find_child_id env (Some c) par (Some n) 1 d1 = Some (pid, d2)"
    using find_child_exact [OF ok1 assms(3,5,6) l, of c 1] f1 pid by (auto split: if_splits)
  obtain d3 where d3: "dao_find_child_id env (Some c) par (Some n) 0 d1 = Some (- 1, d3)"
    using find_child_exact [OF ok1 assms(3,5,6) l, of c 0] f0 by (auto split: if_splits)
  obtain d4 where d4: "dao_create_dir env (Some c) uid par (Some n) d1 = Some (0, d4)"
    using create_dir_exact [OF ok1 assms(2-7), of c] f1 by auto
  obtain d5 where d5: "dao_delete_entry env (Some c) uid pid d1 = (0, d5)"
    "tbl d5 = (tbl d1)\<lparr>t_paths := map (tombed (\<lambda>x. p_id x = pid \<and> p_user x = uid)) (t_paths (tbl d1))\<rparr>"
    using delete_entry_exact [OF assms(2) r(4) assms(4) r(3), of c d1] by blast
  have ok5: "tables_ok key (tbl d5)" using tables_ok_tomb [OF ok1] d5(2) by simp
  have gone: "\<not> (\<exists>row\<in>set (t_paths (tbl d5)). child_of key par n row)"
    using assms(11) rows(1) d5(2) r by (auto simp: child_of_def)
  obtain d6 where d6: "dao_find_child_id env (Some c) par (Some n) (- 1) d5 = Some (- 1, d6)"
    using find_child_exact [OF ok5 assms(3,5,6) l, of c "- 1"] gone by (auto split: if_splits)
  have "path_violates key (tbl d5) uid (Some par) n None"
    unfolding d5(2) by (rule path_violates_adds [OF d1(2) [unfolded R_def]])
  with gone obtain d7 where d7: "dao_create_dir env (Some c) uid par (Some n) d5 = Some (- 1, d7)"
    using create_dir_exact [OF ok5 assms(2-7), of c] by auto
  have names1: "child_names (tbl d1) uid par = child_names (tbl d) uid par @ [n]"
    using rows r by (simp add: child_names_def)
  have "row \<in> set (t_paths (tbl d)) \<Longrightarrow> p_id row \<noteq> pid" for row
    using d1(2) r(2) unfolding adds_path_def by (metis imageI)
  then have names5: "child_names (tbl d5) uid par = child_names (tbl d) uid par"
    unfolding d5(2) child_names_def using rows r
    by (simp add: filter_map o_def) (auto intro!: arg_cong [where f = "map p_name"] filter_cong)
  show ?thesis using d1(1) r(3) d2 d3 names1 d4 d5(1) d6 names5 d7 by blast
qed

end

text \<open>On a database that answers, a directory made under a name no row of the parent has yet is found
  under that name as a directory and not as a file, is added to the listing, and cannot be made
  again; once deleted it is neither found nor listed, but its name stays taken: making it again is
  a database error from then on, because the tombstoned row still occupies the unique key.\<close>

lemma directory_life:
  assumes "sql_available env tbl key digest" "tables_ok key (tbl d)" "c_range uid" "c_range par" "0 < uid" "0 < par"
    "clean_text n" "length n \<le> 200" "uid \<in> u_id ` set (t_users (tbl d))" "par \<in> p_id ` set (t_paths (tbl d))"
    "ids_left (map p_id (t_paths (tbl d)))"
    "\<not> (\<exists>row\<in>set (t_paths (tbl d)). p_parent row = Some par \<and> key (p_name row) = key n)"
  shows "\<exists>pid d1 d2 d3 d4 d5 d6 d7. dao_create_dir env (Some c) uid par (Some n) d = Some (pid, d1) \<and> 0 < pid \<and>
    dao_find_child_id env (Some c) par (Some n) 1 d1 = Some (pid, d2) \<and>
    dao_find_child_id env (Some c) par (Some n) 0 d1 = Some (- 1, d3) \<and>
    child_names (tbl d1) uid par = child_names (tbl d) uid par @ [n] \<and>
    dao_create_dir env (Some c) uid par (Some n) d1 = Some (0, d4) \<and>
    dao_delete_entry env (Some c) uid pid d1 = (0, d5) \<and>
    dao_find_child_id env (Some c) par (Some n) (- 1) d5 = Some (- 1, d6) \<and>
    child_names (tbl d5) uid par = child_names (tbl d) uid par \<and>
    dao_create_dir env (Some c) uid par (Some n) d5 = Some (- 1, d7)"
  by (rule sql_available.dir_life [OF assms])

text \<open>One user with a root directory, for the instances.\<close>

definition one_user :: tables where
  "one_user = no_tables\<lparr>
     t_users := [\<lparr>u_id = 1, u_name = ''ann'', u_hash = ref_digest ''pw42'', u_salt = ''42''\<rparr>],
     t_paths := [new_path 1 None ''/'' ''/'' CHR ''d'' None 5]\<rparr>"

lemma one_user_ok: "tables_ok key one_user"
  using ref_digest_hex by (simp add: tables_ok_def ids_ok_def one_user_def no_tables_def new_path_def)

lemma directory_life_instance:
  "\<exists>pid t1. dao_create_dir (ref_env id) (Some 7) 1 5 (Some ''docs'') one_user = Some (pid, t1) \<and> 0 < pid"
proof -
  have n: "clean_text ''docs''" by (simp add: clean_text_def sq_def)
  show ?thesis
    using directory_life [OF ref_available [of id] one_user_ok, of 1 5 "''docs''" 7] n
    by (force simp: one_user_def no_tables_def new_path_def c_range_def ids_left_def)
qed

text \<open>On any database, deleting as one user leaves every row that belongs to another user as it is
  and removes no row; the call reports success even when no row matched.\<close>

lemma delete_isolated:
  assumes "sql_service env tbl key digest" "tables_ok key (tbl d)" "c_range uid" "c_range pid"
  shows "\<exists>r d'. dao_delete_entry env (Some c) uid pid d = (r, d') \<and> (r = 0 \<or> r = - 1) \<and>
    filter (\<lambda>row. p_user row \<noteq> uid) (t_paths (tbl d')) = filter (\<lambda>row. p_user row \<noteq> uid) (t_paths (tbl d)) \<and>
    map p_id (t_paths (tbl d')) = map p_id (t_paths (tbl d)) \<and>
    t_users (tbl d') = t_users (tbl d) \<and> t_files (tbl d') = t_files (tbl d)"
proof -
  have others: "filter (\<lambda>row. p_user row \<noteq> uid) (map (tombed (\<lambda>x. p_id x = pid \<and> p_user x = uid)) rows) =
      filter (\<lambda>row. p_user row \<noteq> uid) rows" for rows
    by (induction rows) (auto simp: tombed_def)
  show ?thesis
    using sql_service.delete_entry_ok [OF assms, of c] others by (auto simp: o_def)
qed

lemma delete_isolated_instance:
  "\<exists>r t'. dao_delete_entry (ref_env id) (Some 7) 2 5 one_user = (r, t') \<and>
     filter (\<lambda>row. p_user row \<noteq> 2) (t_paths t') = t_paths one_user"
  using delete_isolated [OF ref_service [of id] one_user_ok, of 2 5 7]
  by (auto simp: c_range_def) (auto simp: one_user_def new_path_def)

text \<open>On any database, the listing of a directory is the two dots followed by names of the user's entries
  that are not deleted, each once, separated by spaces, as many as fit the buffer; whatever happens
  the text fits the buffer and no table changes.\<close>

lemma list_dir_text:
  assumes "sql_service env tbl key digest" "c_range uid" "c_range dir" "5 < len"
  shows "\<exists>r res d'. dao_list_dir env (Some c) uid dir len d = Some (r, res, d') \<and> tbl d' = tbl d \<and> length res < len \<and>
    (r = - 1 \<or> r = 0 \<and> (\<exists>ns. mset ns = mset (child_names (tbl d) uid dir) \<and> res = listing (fitting len 5 ns)))"
  by (rule sql_service.list_dir_ok [OF assms])

section \<open>Files\<close>

context sql_available begin

lemma stored_file:
  assumes "tables_ok key (tbl d)" "c_range uid" "c_range par" "0 < uid" "0 < par" "clean_text n" "length n \<le> 190"
    "uid \<in> u_id ` set (t_users (tbl d))" "par \<in> p_id ` set (t_paths (tbl d))"
    "ids_left (map p_id (t_paths (tbl d)))" "ids_left (map f_id (t_files (tbl d)))"
    "\<not> (\<exists>row\<in>set (t_paths (tbl d)). p_parent row = Some par \<and> key (p_name row) = key n)"
    "clean_text h" "length h \<le> 64" "h = [] \<or> last h \<noteq> CHR '' ''" "unat sz < 2 ^ 63"
    "\<not> (\<exists>f\<in>set (t_files (tbl d)). key (f_sha f) = key h)"
  shows "\<exists>fid d1 pid d2 d3 d4 d5. dao_insert_file env (Some c) (Some h) sz d = (fid, d1) \<and> 0 < fid \<and>
    dao_insert_path env (Some c) uid par (Some n) fid (''/'' @ n) d1 = (pid, d2) \<and> 0 < pid \<and>
    dao_find_file_by_hash env (Some c) (Some h) d2 = Some (fid, d3) \<and>
    dao_find_child_id env (Some c) par (Some n) 0 d2 = Some (pid, d4) \<and>
    dao_get_file_info env (Some c) uid pid d2 = Some (0, Some (h, sz), d5)"
proof -
  have l: "length n \<le> 255" using assms(7) by simp
  have "\<not> violates key (Ins_file h (unat sz)) (tbl d)" using assms(11,17) by simp
  then obtain fid d1 where d1: "dao_insert_file env (Some c) (Some h) sz d = (fid, d1)" "tables_ok key (tbl d1)"
    "0 < fid" "c_range fid" "tbl d1 = (tbl d)\<lparr>t_files := t_files (tbl d) @ [\<lparr>f_id = fid, f_sha = h, f_size = unat sz\<rparr>]\<rparr>"
    using insert_file_exact [OF assms(1,13-16), of c] by blast
  have "\<not> path_violates key (tbl d1) uid (Some par) n (Some fid)"
    using assms(8-10,12) d1(5) by (auto simp: path_violates_def)
  then obtain pid d2 where d2: "dao_insert_path env (Some c) uid par (Some n) fid (''/'' @ n) d1 = (pid, d2)"
    "tables_ok key (tbl d2)" "adds_path (tbl d1) (tbl d2) (new_path uid (Some par) n (''/'' @ n) CHR ''f'' (Some fid) pid)"
    using insert_path_exact [OF d1(2) assms(2,3) d1(4) assms(4,5) d1(3) assms(6,7), of c] by auto
  define R where "R = new_path uid (Some par) n (''/'' @ n) CHR ''f'' (Some fid) pid"
  define F where "F = \<lparr>f_id = fid, f_sha = h, f_size = unat sz\<rparr>"
  note d2 = d2 [folded R_def]
  have rows: "t_paths (tbl d2) = t_paths (tbl d) @ [R]" "t_files (tbl d2) = t_files (tbl d) @ [F]"
    using adds_path_rows [OF d2(3)] d1(5) by (auto simp: F_def)
  have r: "p_type R = CHR ''f''" "p_id R = pid" "0 < pid" "c_range pid" "p_user R = uid" "p_file R = Some fid"
    "child_of key par n R"
    using d2(3) by (auto simp: R_def new_path_def adds_path_def c_range_def child_of_def)
  have only: "row \<in> set (t_paths (tbl d2)) \<and> child_of key par n row \<longleftrightarrow> row = R" for row
    using assms(12) rows(1) r(7) by (auto simp: child_of_def)
  then have pid: "row \<in> set (t_paths (tbl d2)) \<Longrightarrow> child_of key par n row \<Longrightarrow> p_id row = pid" for row
    using r(2) by metis
  have w: "\<exists>row\<in>set (t_paths (tbl d2)). wanted key par n 0 row" using only r(1) by (metis wanted_simps(3))
  have fid: "f \<in> set (t_files (tbl d2)) \<Longrightarrow> key (f_sha f) = key h \<Longrightarrow> f_id f = fid" for f
    using assms(17) rows(2) by (auto simp: F_def)
  obtain d3 where d3: "dao_find_file_by_hash env (Some c) (Some h) d2 = Some (fid, d3)"
    using find_file_exact [OF d2(2) assms(13,14), of c] rows(2) fid by (auto simp: F_def split: if_splits)
  obtain d4 where d4: "dao_find_child_id env (Some c) par (Some n) 0 d2 = Some (pid, d4)"
    using find_child_exact [OF d2(2) assms(3,5,6) l, of c 0] w pid by (auto split: if_splits)
  have mem: "R \<in> set (t_paths (tbl d2))" "F \<in> set (t_files (tbl d2))" using rows by auto
  have "p_file R = Some (f_id F)" using r(6) by (simp add: F_def)
  from file_info_exact [OF d2(2) assms(2) r(4) assms(4) r(3) mem(1) r(2,5,1) mem(2) this, of c]
  obtain z d5 where d5: "dao_get_file_info env (Some c) uid pid d2 = Some (0, Some (f_sha F, z), d5)" "unat z = f_size F"
    by blast
  then have "z = sz" by (simp add: F_def word_unat_eq_iff)
  with d1(1,3) d2(1) r(3) d3 d4 d5(1) show ?thesis by (auto simp: F_def)
qed

end

text \<open>On a database that answers, a file record and a path record inserted for a new digest and a new
  name are found again: the digest gives the file's id, which is what an instant upload looks for, the
  name gives the path's id as a file, and the path's id gives back digest and size, at 64 bits.\<close>

lemma stored_file_found:
  assumes "sql_available env tbl key digest" "tables_ok key (tbl d)" "c_range uid" "c_range par" "0 < uid" "0 < par"
    "clean_text n" "length n \<le> 190" "uid \<in> u_id ` set (t_users (tbl d))" "par \<in> p_id ` set (t_paths (tbl d))"
    "ids_left (map p_id (t_paths (tbl d)))" "ids_left (map f_id (t_files (tbl d)))"
    "\<not> (\<exists>row\<in>set (t_paths (tbl d)). p_parent row = Some par \<and> key (p_name row) = key n)"
    "clean_text h" "length h \<le> 64" "h = [] \<or> last h \<noteq> CHR '' ''" "unat sz < 2 ^ 63"
    "\<not> (\<exists>f\<in>set (t_files (tbl d)). key (f_sha f) = key h)"
  shows "\<exists>fid d1 pid d2 d3 d4 d5. dao_insert_file env (Some c) (Some h) sz d = (fid, d1) \<and> 0 < fid \<and>
    dao_insert_path env (Some c) uid par (Some n) fid (''/'' @ n) d1 = (pid, d2) \<and> 0 < pid \<and>
    dao_find_file_by_hash env (Some c) (Some h) d2 = Some (fid, d3) \<and>
    dao_find_child_id env (Some c) par (Some n) 0 d2 = Some (pid, d4) \<and>
    dao_get_file_info env (Some c) uid pid d2 = Some (0, Some (h, sz), d5)"
  by (rule sql_available.stored_file [OF assms])

end
