(* ===== verification/Session_Laws.thy ===== *)
theory Session_Laws
  imports Session Blocks Dao_Props
begin

text \<open>
  What the handlers do to the tables and to the session, for every database that keeps the contract
  \<open>sql_service\<close>: no call has undefined behaviour, the tables stay well formed, ids never disappear.
  \<open>session_ok\<close> is the invariant of the session: who it belongs to, where it is, and that its path is
  an absolute path that fits its array of 512 bytes.
\<close>

definition session_ok :: "tables \<Rightarrow> session \<Rightarrow> bool" where
  "session_ok t s \<longleftrightarrow>
     (s_user s = - 1 \<or> s_user s \<in> u_id ` set (t_users t)) \<and>
     (s_dir s = - 1 \<or> s_dir s \<in> p_id ` set (t_paths t)) \<and>
     length (s_path s) \<le> 511 \<and> s_path s \<noteq> [] \<and> hd (s_path s) = CHR ''/''"

text \<open>Well-formed tables in which no transfer is recorded and every file has fewer than \<open>2 ^ 31\<close> blocks.\<close>

definition store_ok :: "(string \<Rightarrow> string) \<Rightarrow> tables \<Rightarrow> bool" where
  "store_ok key t \<longleftrightarrow>
     tables_ok key t \<and> t_xfers t = [] \<and> (\<forall>f\<in>set (t_files t). f_size f \<le> 2147483647 * BLOCK_SIZE)"

definition grows :: "tables \<Rightarrow> tables \<Rightarrow> bool" where
  "grows t t' \<longleftrightarrow>
     u_id ` set (t_users t) \<subseteq> u_id ` set (t_users t') \<and> p_id ` set (t_paths t) \<subseteq> p_id ` set (t_paths t') \<and>
     t_files t' = t_files t \<and> t_xfers t' = t_xfers t"

lemma grows_refl [simp, intro]: "grows t t"
  by (simp add: grows_def)

lemma grows_trans: "grows t t' \<Longrightarrow> grows t' t'' \<Longrightarrow> grows t t''"
  unfolding grows_def by (metis subset_trans)

lemma grows_adds: "adds_path t t' r \<Longrightarrow> grows t t'"
  by (auto simp: adds_path_def grows_def)

lemma grows_tomb: "grows t (t\<lparr>t_paths := map (tombed P) (t_paths t)\<rparr>)"
  by (auto simp: grows_def image_image)

lemma session_ok_grows: "session_ok t s \<Longrightarrow> grows t t' \<Longrightarrow> session_ok t' s"
  by (auto simp: session_ok_def grows_def)

lemma store_ok_grows: "store_ok key t \<Longrightarrow> grows t t' \<Longrightarrow> tables_ok key t' \<Longrightarrow> store_ok key t'"
  by (simp add: store_ok_def grows_def)

lemma session_ok_initial: "session_ok t initial_session"
  by (simp add: session_ok_def initial_session_def)

lemma session_ok_range:
  "session_ok t s \<Longrightarrow> tables_ok key t \<Longrightarrow> c_range (s_user s) \<and> c_range (s_dir s)"
  using tables_ok_id_range(1,2) [of key t] by (auto simp: session_ok_def c_range_def)

section \<open>Paths\<close>

lemma up_path_cut: "CHR ''/'' \<notin> set n \<Longrightarrow> up_path (p @ CHR ''/'' # n) = (if p = [] then ''/'' else p)"
proof -
  assume n: "CHR ''/'' \<notin> set n"
  have "dropWhile (\<lambda>c. c \<noteq> CHR ''/'') (rev n @ CHR ''/'' # rev p) = CHR ''/'' # rev p"
    using n by (subst dropWhile_append2) auto
  then have "rev (dropWhile (\<lambda>c. c \<noteq> CHR ''/'') (rev (p @ CHR ''/'' # n))) = p @ ''/''" by simp
  then show ?thesis unfolding up_path_def by (simp add: Let_def)
qed

lemma up_path_split: "CHR ''/'' \<in> set p \<Longrightarrow> \<exists>a b. p = a @ CHR ''/'' # b \<and> CHR ''/'' \<notin> set b"
  using split_list_last by fastforce

lemma up_path_ok:
  assumes "length p \<le> 511" "p \<noteq> []" "hd p = CHR ''/''"
  shows "length (up_path p) \<le> 511 \<and> up_path p \<noteq> [] \<and> hd (up_path p) = CHR ''/''"
proof -
  have "CHR ''/'' \<in> set p" using assms(2,3) by (metis hd_in_set)
  then obtain a b where "p = a @ CHR ''/'' # b" "CHR ''/'' \<notin> set b" using up_path_split by blast
  with assms up_path_cut [of b a] show ?thesis by (cases a) auto
qed

section \<open>The handlers\<close>

lemma db_call_Some: "f (w_db w) = Some (a, d) \<Longrightarrow> db_call f w = Some (a, w\<lparr>w_db := d\<rparr>)"
  by (simp add: db_call_def)

lemma db_run_eq: "f (w_db w) = (a, d) \<Longrightarrow> db_run f w = (a, w\<lparr>w_db := d\<rparr>)"
  by (simp add: db_run_def)

lemma parse_auth_clean:
  "parse_auth_data (Some s) = (r, Some (u, p)) \<Longrightarrow> clean_text s \<Longrightarrow> clean_text u \<and> length u \<le> 64"
  using parse_auth_ok [of s r u p] by (auto simp: clean_text_def)

lemma cd_child_ok:
  assumes "session_ok t s" "row \<in> set (t_paths t)" "p_id row = i"
    "length (s_path s) + length n + 2 \<le> 512"
  shows "\<exists>p1 p2. (if s_path s \<noteq> ''/'' then cat_path (s_path s) ''/'' else Some (s_path s)) = Some p1 \<and>
    cat_path p1 n = Some p2 \<and> p2 = (if s_path s = ''/'' then ''/'' @ n else s_path s @ ''/'' @ n) \<and>
    session_ok t (s\<lparr>s_dir := i, s_path := p2\<rparr>)"
  using assms by (auto simp: cat_path_def session_ok_def)

lemma open_read_db: "open_read p w = (b, w') \<Longrightarrow> w_db w' = w_db w"
  by (auto simp: open_read_def split: option.splits dest: os_answer_keeps)

context sql_service begin

lemma handle_login_ok:
  assumes "tables_ok key (tbl (w_db w))" "clean_text data"
  shows "\<exists>u' w'. handle_login env fd (Some data) u w = Some (u', w') \<and> tbl (w_db w') = tbl (w_db w) \<and>
    (u' = u \<or> 0 < u' \<and> u' \<in> u_id ` set (t_users (tbl (w_db w))))"
proof (cases "w_conn w")
  case (Some c)
  show ?thesis
  proof (cases "parse_auth_data (Some data)")
    case (Pair r up)
    show ?thesis
    proof (cases up)
      case (Some q)
      then obtain a b where ab: "parse_auth_data (Some data) = (r, Some (a, b))" using Pair by (cases q) auto
      obtain i d' where l: "dao_login_user env (Some c) (Some a) (Some b) (w_db w) = Some (i, d')"
        "tbl d' = tbl (w_db w)" "i = - 1 \<or> (\<exists>row\<in>set (t_users (tbl (w_db w))). i = u_id row)"
        using login_ok [OF assms(1), of a c b] parse_auth_clean [OF ab assms(2)] by blast
      with \<open>w_conn w = Some c\<close> ab show ?thesis
        by (auto simp: handle_login_def get_thread_db_conn_def say_fd_def db_call_Some [where f = "dao_login_user env (Some c) (Some a) (Some b)" and w = w, OF l(1)])
    qed (use Pair \<open>w_conn w = Some c\<close> in \<open>auto simp: handle_login_def get_thread_db_conn_def say_fd_def\<close>)
  qed
qed (auto simp: handle_login_def get_thread_db_conn_def say_fd_def)

lemma handle_register_ok:
  assumes "tables_ok key (tbl (w_db w))" "clean_text data"
  shows "\<exists>u' w'. handle_register env fd (Some data) u w = Some (u', w') \<and> tables_ok key (tbl (w_db w')) \<and>
    grows (tbl (w_db w)) (tbl (w_db w')) \<and> (u' = u \<or> 0 < u' \<and> u' \<in> u_id ` set (t_users (tbl (w_db w'))))"
proof (cases "w_conn w")
  case (Some c)
  show ?thesis
  proof (cases "parse_auth_data (Some data)")
    case (Pair r up)
    show ?thesis
    proof (cases up)
      case (Some q)
      then obtain a b where ab: "parse_auth_data (Some data) = (r, Some (a, b))" using Pair by (cases q) auto
      obtain i d' where l: "dao_register_user env (Some c) (Some a) (Some b) (w_db w) = Some (i, d')"
        "tables_ok key (tbl d')" "grows (tbl (w_db w)) (tbl d')" "i \<le> 0 \<or> i \<in> u_id ` set (t_users (tbl d'))"
        using register_ok [OF assms(1), of a c b] parse_auth_clean [OF ab assms(2)]
        by (fastforce simp: grows_def)
      with \<open>w_conn w = Some c\<close> ab assms(1) show ?thesis
        by (auto simp: handle_register_def get_thread_db_conn_def say_fd_def
          db_call_Some [where f = "dao_register_user env (Some c) (Some a) (Some b)" and w = w, OF l(1)])
    qed (use Pair \<open>w_conn w = Some c\<close> assms(1) in \<open>auto simp: handle_register_def get_thread_db_conn_def say_fd_def\<close>)
  qed
qed (use assms(1) in \<open>auto simp: handle_register_def get_thread_db_conn_def say_fd_def\<close>)

lemma enter_root_ok:
  assumes "tables_ok key (tbl (w_db w))" "c_range uid" "dir = - 1 \<or> dir \<in> p_id ` set (t_paths (tbl (w_db w)))"
  shows "\<exists>dir' w'. enter_root env uid dir w = Some (dir', w') \<and> tables_ok key (tbl (w_db w')) \<and>
    grows (tbl (w_db w)) (tbl (w_db w')) \<and> (dir' = - 1 \<or> dir' \<in> p_id ` set (t_paths (tbl (w_db w'))))"
proof (cases "w_conn w")
  case (Some c)
  obtain r d1 where r: "dao_get_root_dir_id env (Some c) uid (w_db w) = Some (r, d1)" "tbl d1 = tbl (w_db w)"
    "r = - 1 \<or> r \<in> p_id ` set (t_paths (tbl (w_db w)))"
    using get_root_ok [OF assms(1,2), of c] by blast
  obtain r2 d2 where r2: "dao_init_root_dir env (Some c) uid d1 = Some (r2, d2)" "tables_ok key (tbl d2)"
    "tbl d2 = tbl d1 \<and> (r2 = - 1 \<or> r2 \<in> p_id ` set (t_paths (tbl d1))) \<or>
     adds_path (tbl d1) (tbl d2) (new_path uid None ''/'' ''/'' CHR ''d'' None r2)"
    using init_root_ok [of d1 uid c] assms(1,2) r(2) by (auto 4 3)
  then have "grows (tbl d1) (tbl d2)" "r2 = - 1 \<or> r2 \<in> p_id ` set (t_paths (tbl d2))"
    using grows_adds by (auto simp: adds_path_def new_path_def)
  with Some r r2(1,2) assms(1) show ?thesis
    by (cases "r \<le> 0") (auto simp: enter_root_def get_thread_db_conn_def db_call_Some)
qed (use assms in \<open>auto simp: enter_root_def get_thread_db_conn_def\<close>)

lemma serve_login_ok:
  assumes "tables_ok key (tbl (w_db w))" "session_ok (tbl (w_db w)) s" "clean_text data"
  shows "\<exists>s' w'. serve_login env fd data s w = Some (s', w') \<and> tables_ok key (tbl (w_db w')) \<and>
    grows (tbl (w_db w)) (tbl (w_db w')) \<and> session_ok (tbl (w_db w')) s'"
proof -
  obtain u' w1 where l: "handle_login env fd (Some data) (s_user s) w = Some (u', w1)" "tbl (w_db w1) = tbl (w_db w)"
    "u' = s_user s \<or> u' \<in> u_id ` set (t_users (tbl (w_db w)))"
    using handle_login_ok [OF assms(1,3), of fd "s_user s"] by blast
  have s1: "session_ok (tbl (w_db w)) (s\<lparr>s_user := u'\<rparr>)" using assms(2) l(3) by (auto simp: session_ok_def)
  have dir: "s_dir s = - 1 \<or> s_dir s \<in> p_id ` set (t_paths (tbl (w_db w1)))" using assms(2) l(2) by (simp add: session_ok_def)
  have "c_range u'" using session_ok_range [OF s1 assms(1)] by simp
  then obtain dir' w2 where e: "enter_root env u' (s_dir s) w1 = Some (dir', w2)" "tables_ok key (tbl (w_db w2))"
    "grows (tbl (w_db w1)) (tbl (w_db w2))" "dir' = - 1 \<or> dir' \<in> p_id ` set (t_paths (tbl (w_db w2)))"
    using enter_root_ok [OF _ _ dir] assms(1) l(2) by metis
  have "session_ok (tbl (w_db w2)) (s\<lparr>s_user := u', s_dir := dir'\<rparr>)"
    using session_ok_grows [OF s1] e(3,4) l(2) by (simp add: session_ok_def)
  with l(1,2) e s1 assms(1) show ?thesis
    by (cases "u' > 0 \<and> s_dir s = - 1") (auto simp: serve_login_def Let_def)
qed

lemma serve_register_ok:
  assumes "tables_ok key (tbl (w_db w))" "session_ok (tbl (w_db w)) s" "clean_text data"
  shows "\<exists>s' w'. serve_register env fd data s w = Some (s', w') \<and> tables_ok key (tbl (w_db w')) \<and>
    grows (tbl (w_db w)) (tbl (w_db w')) \<and> session_ok (tbl (w_db w')) s'"
proof -
  obtain u' w1 where l: "handle_register env fd (Some data) (s_user s) w = Some (u', w1)" "tables_ok key (tbl (w_db w1))"
    "grows (tbl (w_db w)) (tbl (w_db w1))" "u' = s_user s \<or> u' \<in> u_id ` set (t_users (tbl (w_db w1)))"
    using handle_register_ok [OF assms(1,3), of fd "s_user s"] by blast
  have s1: "session_ok (tbl (w_db w1)) (s\<lparr>s_user := u'\<rparr>)"
    using session_ok_grows [OF assms(2) l(3)] l(4) by (auto simp: session_ok_def)
  have dir: "s_dir s = - 1 \<or> s_dir s \<in> p_id ` set (t_paths (tbl (w_db w1)))" using s1 by (simp add: session_ok_def)
  have "c_range u'" using session_ok_range [OF s1 l(2)] by simp
  then obtain dir' w2 where e: "enter_root env u' (s_dir s) w1 = Some (dir', w2)" "tables_ok key (tbl (w_db w2))"
    "grows (tbl (w_db w1)) (tbl (w_db w2))" "dir' = - 1 \<or> dir' \<in> p_id ` set (t_paths (tbl (w_db w2)))"
    using enter_root_ok [OF l(2) _ dir] by metis
  have "session_ok (tbl (w_db w2)) (s\<lparr>s_user := u', s_dir := dir'\<rparr>)"
    using session_ok_grows [OF s1 e(3)] e(4) by (simp add: session_ok_def)
  with l e s1 show ?thesis
    by (cases "u' > 0") (auto simp: serve_register_def Let_def intro: grows_trans)
qed

text \<open>\<open>cd\<close> never changes a table.\<close>

lemma handle_cd_ok:
  assumes "tables_ok key (tbl (w_db w))" "session_ok (tbl (w_db w)) s" "clean_text n" "length n \<le> 255"
  shows "\<exists>s' w'. handle_cd env s (Some n) w = Some (s', w') \<and> tbl (w_db w') = tbl (w_db w) \<and>
    session_ok (tbl (w_db w)) s'"
proof -
  note range = session_ok_range [OF assms(2,1)]
  show ?thesis
  proof (cases "w_conn w")
    case (Some c)
    let ?d = "w_db w"
    obtain pr d1 where p: "dao_get_parent_id env (Some c) (s_dir s) ?d = (pr, d1)" "tbl d1 = tbl ?d"
      "pr = - 1 \<or> (\<exists>row\<in>set (t_paths (tbl ?d)). p_parent row = Some pr)"
      using get_parent_ok [OF assms(1), of "s_dir s" c] range by blast
    then have "pr = - 1 \<or> pr \<in> p_id ` set (t_paths (tbl ?d))"
      using assms(1) by (fastforce simp: tables_ok_def)
    then have up: "pr \<noteq> - 1 \<Longrightarrow> session_ok (tbl ?d) (s\<lparr>s_dir := pr, s_path := up_path (s_path s)\<rparr>)"
      using assms(2) up_path_ok [of "s_path s"] by (simp add: session_ok_def)
    obtain rr d2 where r: "dao_get_root_dir_id env (Some c) (s_user s) ?d = Some (rr, d2)" "tbl d2 = tbl ?d"
      "rr = - 1 \<or> rr \<in> p_id ` set (t_paths (tbl ?d))"
      using get_root_ok [OF assms(1), of "s_user s" c] range by blast
    then have root: "session_ok (tbl ?d) (s\<lparr>s_dir := rr, s_path := ''/''\<rparr>)"
      using assms(2) by (simp add: session_ok_def)
    obtain cr d3 where ch: "dao_find_child_id env (Some c) (s_dir s) (Some n) 1 ?d = Some (cr, d3)" "tbl d3 = tbl ?d"
      "cr = - 1 \<or> (\<exists>row\<in>set (t_paths (tbl ?d)). p_id row = cr)"
      using find_child_ok [OF assms(1) _ assms(3,4), of "s_dir s" c 1] range by blast
    show ?thesis
    proof (cases "n = [] \<or> n = ''.'' \<or> n = ''..'' \<or> n = ''/''")
      case True
      with Some p(1,2) r(1,2) up root assms(2) show ?thesis
        by (auto simp: handle_cd_def get_thread_db_conn_def db_run_eq db_call_Some)
    next
      case False
      show ?thesis
      proof (cases "cr \<le> 0 \<or> length (s_path s) + length n + 2 > 512")
        case True
        have "session_ok (tbl ?d) (s\<lparr>s_dir := cr\<rparr>)" using assms(2) ch(3) by (auto simp: session_ok_def)
        with True False Some ch(1,2) assms(2) show ?thesis
          by (auto simp: handle_cd_def get_thread_db_conn_def db_call_Some Let_def)
      next
        case fits: False
        then obtain row where row: "row \<in> set (t_paths (tbl ?d))" "p_id row = cr" using ch(3) by auto
        have le: "length (s_path s) + length n + 2 \<le> 512" using fits by simp
        obtain p1 p2 where
          "(if s_path s \<noteq> ''/'' then cat_path (s_path s) ''/'' else Some (s_path s)) = Some p1"
          "cat_path p1 n = Some p2" "session_ok (tbl ?d) (s\<lparr>s_dir := cr, s_path := p2\<rparr>)"
          using cd_child_ok [OF assms(2) row le] by blast
        with fits False Some ch(1,2) show ?thesis
          by (auto simp: handle_cd_def get_thread_db_conn_def db_call_Some Let_def)
      qed
    qed
  qed (use assms(2) in \<open>auto simp: handle_cd_def get_thread_db_conn_def\<close>)
qed

lemma handle_ls_ok:
  assumes "c_range (s_user s)" "c_range (s_dir s)"
  shows "\<exists>w'. handle_ls env s w = Some w' \<and> tbl (w_db w') = tbl (w_db w)"
proof (cases "w_conn w")
  case (Some c)
  obtain r res d' where "dao_list_dir env (Some c) (s_user s) (s_dir s) 4096 (w_db w) = Some (r, res, d')" "tbl d' = tbl (w_db w)"
    using list_dir_ok [OF assms, of 4096 c "w_db w"] by auto
  with Some show ?thesis by (auto simp: handle_ls_def get_thread_db_conn_def db_call_def)
qed (simp add: handle_ls_def get_thread_db_conn_def)

lemma handle_rm_ok:
  assumes "tables_ok key (tbl (w_db w))" "c_range (s_user s)" "c_range (s_dir s)" "clean_text n" "length n \<le> 255"
  shows "\<exists>w'. handle_rm env s (Some n) w = Some w' \<and> tables_ok key (tbl (w_db w')) \<and> grows (tbl (w_db w)) (tbl (w_db w'))"
proof (cases "w_conn w")
  case (Some c)
  obtain r d1 where f: "dao_find_child_id env (Some c) (s_dir s) (Some n) (- 1) (w_db w) = Some (r, d1)" "tbl d1 = tbl (w_db w)"
    "r = - 1 \<or> r \<in> p_id ` set (t_paths (tbl (w_db w)))"
    using find_child_ok [OF assms(1,3-5), of c "- 1"] by blast
  then have "c_range r" using tables_ok_id_range(2) [OF assms(1)] by (auto simp: c_range_def)
  then obtain r2 d2 where x: "dao_delete_entry env (Some c) (s_user s) r d1 = (r2, d2)" "tables_ok key (tbl d2)"
    "grows (tbl d1) (tbl d2)"
    using delete_entry_ok [of d1 "s_user s" r c] assms(1,2) f(2) grows_tomb by (metis grows_refl)
  with Some f(1,2) assms(1) show ?thesis
    by (auto simp: handle_rm_def get_thread_db_conn_def db_call_Some db_run_eq)
qed (use assms(1) in \<open>auto simp: handle_rm_def get_thread_db_conn_def\<close>)

lemma handle_mkdir_ok:
  assumes "tables_ok key (tbl (w_db w))" "c_range (s_user s)" "c_range (s_dir s)" "clean_text n" "length n \<le> 200"
  shows "\<exists>w'. handle_mkdir env s (Some n) w = Some w' \<and> tables_ok key (tbl (w_db w')) \<and> grows (tbl (w_db w)) (tbl (w_db w'))"
proof (cases "w_conn w")
  case (Some c)
  obtain r d1 where f: "dao_create_dir env (Some c) (s_user s) (s_dir s) (Some n) (w_db w) = Some (r, d1)"
    "tables_ok key (tbl d1)" "grows (tbl (w_db w)) (tbl d1)"
    using create_dir_ok [OF assms, of c] grows_adds by (metis grows_refl)
  with Some assms(1) show ?thesis
    by (auto simp: handle_mkdir_def get_thread_db_conn_def db_call_Some)
qed (use assms(1) in \<open>auto simp: handle_mkdir_def get_thread_db_conn_def\<close>)

text \<open>Downloads: with no transfer recorded, none ever is, and every download starts at block 0.\<close>

lemma update_sequence_none:
  assumes "t_xfers (tbl d) = []" "c_range pid" "c_range n"
  shows "\<exists>r d'. dao_update_transfer_sequence env (Some c) pid n d = (r, d') \<and> tbl d' = tbl d"
proof -
  have g: "goes 512 (Upd_seq n pid)"
    using assms by (intro goes_small) (simp_all add: clean_stmt_def)
  have "set_xfer pid f (tbl d) = tbl d" for f using assms(1) by (simp add: set_xfer_def)
  with run_stmt_goes [OF g, of c "\<lambda>i. 0" d] show ?thesis
    by (auto simp: dao_update_transfer_sequence_def render_folds)
qed

lemma get_sequence_none:
  assumes "t_xfers (tbl (w_db w)) = []" "c_range pid"
  shows "\<exists>w'. get_sequence env (Some c) pid w = Some ((- 1, None), w') \<and> (\<exists>d. w' = w\<lparr>w_db := d\<rparr> \<and> tbl d = tbl (w_db w))"
  using get_sequence_ok [OF assms(2), of "w_db w" c] assms(1) by (auto simp: get_sequence_def db_call_def)

lemma gets_loop_ok:
  assumes "t_xfers (tbl (w_db w)) = []" "c_range pid" "length sha \<le> 64" "unat sz \<le> 2147483647 * BLOCK_SIZE"
    "n = calculate_total_blocks sz" "0 \<le> i" "i \<le> n"
  shows "\<exists>w'. gets_loop env c pid fd sha sz n i w = Some w' \<and> tbl (w_db w') = tbl (w_db w)"
  using assms(1,6,7)
proof (induction "nat (n - i)" arbitrary: i w)
  case 0
  then show ?case by (simp add: gets_loop.simps)
next
  case (Suc k)
  then have lt: "i < n" by simp
  have n: "n = int (block_count (unat sz))" "n \<le> 2147483647"
    using total_blocks_exact [OF assms(4)] block_count_le [OF assms(4)] assms(5) by simp_all
  with lt Suc(4) have pos: "0 < unat sz" by (cases "unat sz = 0") auto
  let ?bs = "if i = n - 1 then last_block_size sz (i * int BLOCK_SIZE) else int BLOCK_SIZE"
  have bs: "0 \<le> ?bs" "?bs \<le> int MAX_BLOCK_DATA"
    using last_block_range [OF pos assms(4)] n(1) by (simp_all add: BLOCK_SIZE_def MAX_BLOCK_DATA_def)
  obtain r w1 where snd: "send_block fd i (i * int BLOCK_SIZE) ?bs sha w = Some (r, w1)" "w_db w1 = w_db w"
    using send_block_safe [OF assms(3) bs] by blast
  have "c_range (i + 1)" using lt Suc(4) n(2) by (simp add: c_range_def)
  then obtain q d2 where d2: "dao_update_transfer_sequence env (Some c) pid (i + 1) (w_db w1) = (q, d2)" "tbl d2 = tbl (w_db w)"
    using update_sequence_none [of "w_db w1" pid "i + 1" c] Suc(3) assms(2) snd(2) by auto
  show ?case
  proof (cases "r = 0")
    case False
    with lt snd show ?thesis by (simp add: gets_loop.simps [of env c pid fd sha sz n i w] Let_def)
  next
    case True
    with lt snd d2(1) have step: "gets_loop env c pid fd sha sz n i w = gets_loop env c pid fd sha sz n (i + 1) (w1\<lparr>w_db := d2\<rparr>)"
      by (simp add: gets_loop.simps [of env c pid fd sha sz n i w] Let_def db_run_eq)
    show ?thesis using Suc(1) [of "i + 1" "w1\<lparr>w_db := d2\<rparr>"] Suc(2-4) lt d2(2) step by simp
  qed
qed

lemma gets_send_ok:
  assumes "t_xfers (tbl (w_db w)) = []" "c_range pid" "length sha \<le> 64" "unat sz \<le> 2147483647 * BLOCK_SIZE"
  shows "\<exists>w'. gets_send env c pid arg fd sha sz w = Some w' \<and> tbl (w_db w') = tbl (w_db w)"
proof -
  let ?n = "calculate_total_blocks sz"
  have n: "0 \<le> ?n" using total_blocks_exact [OF assms(4)] by simp
  have cr: "snd (db_run (dao_create_transfer_record env (Some c) pid 0 ?n (Some ''downloading'')) w) = w"
    by (simp add: db_run_def dao_create_transfer_record_def)
  obtain w2 where w2: "get_sequence env (Some c) pid w = Some ((- 1, None), w2)" "tbl (w_db w2) = tbl (w_db w)"
    using get_sequence_none [OF assms(1,2), of c] by auto
  let ?p = "(init_file_packet (cmd_code CMD_TYPE_GETS) arg sz 0)
     \<lparr>fp_hash := sha @ replicate (HASH_LEN - length sha) NUL, fp_offset := word_of_int ?n\<rparr>"
  obtain sr k where s: "send_file_packet (w_sock w2) ?p = (sr, k)" by fastforce
  let ?w3 = "w2\<lparr>w_sock := k\<rparr>"
  obtain w4 where w4: "gets_loop env c pid fd sha sz ?n 0 ?w3 = Some w4" "tbl (w_db w4) = tbl (w_db w)"
    using gets_loop_ok [of ?w3 pid sha sz ?n 0 c fd] assms n w2(2) by auto
  obtain w5 where w5: "get_sequence env (Some c) pid w4 = Some ((- 1, None), w5)" "tbl (w_db w5) = tbl (w_db w)"
    using get_sequence_none [of w4 pid c] assms(1,2) w4(2) by auto
  have h: "hash_field sha = Some (sha @ replicate (HASH_LEN - length sha) NUL)" using assms(3) by (simp add: hash_field_def)
  have "gets_send env c pid arg fd sha sz w = Some (if sr = - 1 then ?w3 else w5)"
    unfolding gets_send_def Let_def cr w2(1) by (simp add: h s w4(1) w5(1) del: HASH_LEN_def cmd_code.simps)
  with w2(2) w5(2) show ?thesis by simp
qed

lemma handle_gets_ok:
  assumes "store_ok key (tbl (w_db w))" "c_range (s_user s)" "c_range (s_dir s)" "clean_text n" "length n \<le> 255"
  shows "\<exists>w'. handle_gets env s (Some n) w = Some w' \<and> tbl (w_db w') = tbl (w_db w)"
proof (cases "w_conn w")
  case (Some c)
  have ok: "tables_ok key (tbl (w_db w))" "t_xfers (tbl (w_db w)) = []" using assms(1) by (simp_all add: store_ok_def)
  obtain r d1 where f: "dao_find_child_id env (Some c) (s_dir s) (Some n) 0 (w_db w) = Some (r, d1)" "tbl d1 = tbl (w_db w)"
    "r = - 1 \<or> r \<in> p_id ` set (t_paths (tbl (w_db w)))"
    using find_child_ok [OF ok(1) assms(3-5), of c 0] by blast
  then have r: "c_range r" using tables_ok_id_range(2) [OF ok(1)] by (auto simp: c_range_def)
  obtain q info d2 where i: "dao_get_file_info env (Some c) (s_user s) r d1 = Some (q, info, d2)" "tbl d2 = tbl (w_db w)"
    "info = None \<or> (\<exists>sha sz. info = Some (sha, sz) \<and> length sha \<le> 64 \<and> (\<exists>x\<in>set (t_files (tbl (w_db w))). unat sz = f_size x))"
    using file_info_ok [of d1 "s_user s" r c] ok(1) assms(2) r f(2) by fastforce
  let ?w2 = "w\<lparr>w_db := d2\<rparr>"
  show ?thesis
  proof (cases "n = [] \<or> r \<le> 0 \<or> info = None")
    case True
    with Some f(1,2) i(1,2) show ?thesis
      by (auto simp: handle_gets_def get_thread_db_conn_def gets_error_def db_call_def)
  next
    case False
    then obtain sha sz where info: "info = Some (sha, sz)" "length sha \<le> 64" "unat sz \<le> 2147483647 * BLOCK_SIZE"
      using i(3) assms(1) by (auto simp: store_ok_def)
    obtain b w3 where b: "open_read (gen_physical_path 512 sha) ?w2 = (b, w3)" by fastforce
    then have t3: "tbl (w_db w3) = tbl (w_db w)" using open_read_db i(2) by fastforce
    then obtain w4 where w4: "gets_send env c r (Some n) (gen_physical_path 512 sha) sha sz w3 = Some w4" "tbl (w_db w4) = tbl (w_db w)"
      using gets_send_ok [of w3 r sha sz c "Some n"] ok(2) r info(2,3) by auto
    from False Some f(1) i(1) info(1) b w4 t3 show ?thesis
      by (cases b) (auto simp: handle_gets_def get_thread_db_conn_def gets_error_def db_call_def Let_def)
  qed
qed (simp add: handle_gets_def get_thread_db_conn_def gets_error_def)

text \<open>One command that is not an upload.\<close>

lemma serve_command_ok:
  assumes "store_ok key (tbl (w_db w))" "session_ok (tbl (w_db w)) s"
    "clean_text (cstr (cp_data p))" "length (cstr (cp_data p)) \<le> 200" "cp_cmd_type p \<noteq> cmd_code CMD_TYPE_PUTS"
  shows "\<exists>s' w'. serve_command env fd p s w = Some (s', w') \<and> store_ok key (tbl (w_db w')) \<and>
    grows (tbl (w_db w)) (tbl (w_db w')) \<and> session_ok (tbl (w_db w')) s'"
proof -
  define data where "data = cstr (cp_data p)"
  define t where "t = cp_cmd_type p"
  have ok: "tables_ok key (tbl (w_db w))" using assms(1) by (simp add: store_ok_def)
  note range = session_ok_range [OF assms(2) ok]
  have l: "length data \<le> 255" "length data \<le> 200" "clean_text data" using assms(3,4) by (simp_all add: data_def)
  note st = store_ok_grows [OF assms(1)] and se = session_ok_grows [OF assms(2)]
  have same: "tbl (w_db w') = tbl (w_db w) \<Longrightarrow> store_ok key (tbl (w_db w')) \<and> grows (tbl (w_db w)) (tbl (w_db w')) \<and> session_ok (tbl (w_db w')) s" for w'
    using assms(1,2) by simp
  consider "s_user s = - 1 \<and> t \<noteq> cmd_code CMD_TYPE_LOGIN \<and> t \<noteq> cmd_code CMD_TYPE_REGISTER \<and> t \<noteq> cmd_code CMD_TYPE_LOGOUT"
    | (login) "t = cmd_code CMD_TYPE_LOGIN" | (reg) "t = cmd_code CMD_TYPE_REGISTER"
    | (out) "t = cmd_code CMD_TYPE_LOGOUT" | (user) "s_user s \<noteq> - 1" "t \<noteq> cmd_code CMD_TYPE_LOGIN" "t \<noteq> cmd_code CMD_TYPE_REGISTER" "t \<noteq> cmd_code CMD_TYPE_LOGOUT"
    by blast
  then show ?thesis
  proof cases
    case 1
    then show ?thesis using assms(1,2) by (simp add: serve_command_def get_packet_cmd_type_def t_def [symmetric] Let_def del: cmd_code.simps)
  next
    case login
    then show ?thesis using serve_login_ok [OF ok assms(2) l(3), of fd] st
      by (auto simp: serve_command_def get_packet_cmd_type_def t_def [symmetric] data_def [symmetric] Let_def simp del: cmd_code.simps)
  next
    case reg
    then show ?thesis using serve_register_ok [OF ok assms(2) l(3), of fd] st
      by (auto simp: serve_command_def get_packet_cmd_type_def t_def [symmetric] data_def [symmetric] Let_def cmd_code_inj simp del: cmd_code.simps)
  next
    case out
    then show ?thesis using assms(1) session_ok_initial
      by (auto simp: serve_command_def get_packet_cmd_type_def t_def [symmetric] data_def [symmetric] Let_def cmd_code_inj simp del: cmd_code.simps)
  next
    case user
    obtain s1 w1 where cd: "handle_cd env s (Some data) w = Some (s1, w1)" "tbl (w_db w1) = tbl (w_db w)" "session_ok (tbl (w_db w)) s1"
      using handle_cd_ok [OF ok assms(2) l(3,1)] by blast
    obtain w2 where ls: "handle_ls env s w = Some w2" "tbl (w_db w2) = tbl (w_db w)" using handle_ls_ok [of s w] range by blast
    obtain w3 where rm: "handle_rm env s (Some data) w = Some w3" "tables_ok key (tbl (w_db w3))" "grows (tbl (w_db w)) (tbl (w_db w3))"
      using handle_rm_ok [OF ok _ _ l(3,1)] range by blast
    obtain w4 where mk: "handle_mkdir env s (Some data) w = Some w4" "tables_ok key (tbl (w_db w4))" "grows (tbl (w_db w)) (tbl (w_db w4))"
      using handle_mkdir_ok [OF ok _ _ l(3,2)] range by blast
    obtain w5 where ge: "handle_gets env s (Some data) w = Some w5" "tbl (w_db w5) = tbl (w_db w)"
      using handle_gets_ok [OF assms(1) _ _ l(3,1)] range by blast
    have "serve_command env fd p s w \<in> {Some (s, handle_pwd s w), Some (s1, w1), Some (s, w2), Some (s, w3), Some (s, w4), Some (s, w5), Some (s, say msg_bad_command w)}"
      using user assms(5) cd(1) ls(1) rm(1) mk(1) ge(1)
      by (simp add: serve_command_def get_packet_cmd_type_def t_def [symmetric] data_def [symmetric] Let_def with_session_def del: cmd_code.simps)
    moreover have "tbl (w_db (handle_pwd s w)) = tbl (w_db w)" by (simp add: handle_pwd_def)
    ultimately show ?thesis using cd ls rm mk ge st se same assms(1) by auto
  qed
qed

end

end
