(* ===== verification/Session_Props.thy ===== *)
theory Session_Props
  imports Session_Laws
begin

text \<open>
  Properties of whole sessions: \<open>handle_request\<close> on an input that consists of command packets.
\<close>

section \<open>The loop on a list of packets\<close>

text \<open>A packet that \<open>recv_command_packet\<close> accepts, and what it makes of it.\<close>

definition packet_ok :: "command_packet \<Rightarrow> bool" where
  "packet_ok p \<longleftrightarrow> wf_command p \<and> 0 \<le> sint (cp_data_len p) \<and> sint (cp_data_len p) < int CMD_DATA_LEN"

definition terminated :: "command_packet \<Rightarrow> command_packet" where
  "terminated p = p\<lparr>cp_data := (cp_data p)[CMD_DATA_LEN - 1 := NUL]\<rparr>"

definition argument :: "command_packet \<Rightarrow> string" where
  "argument p = cstr (cp_data (terminated p))"

lemma packet_ok_init: "NUL \<notin> set s \<Longrightarrow> packet_ok (init_command_packet t (Some s)) \<and> argument (init_command_packet t (Some s)) = take 255 s \<and>
    cp_cmd_type (init_command_packet t (Some s)) = t"
proof -
  assume s: "NUL \<notin> set s"
  have "(cp_data (init_command_packet t (Some s)))[CMD_DATA_LEN - 1 := NUL] = cp_data (init_command_packet t (Some s))"
    using strncpy_last_nul [of s] by (simp add: init_command_packet_def Let_def)
  with init_command_Some [OF s, of t] show ?thesis
    by (simp add: packet_ok_def argument_def terminated_def)
qed

lemma session_loop_step:
  assumes "stream (w_sock w) = bytes_of_command p @ rest" "packet_ok p"
  shows "\<exists>segs. concat segs = rest \<and> session_loop env fd s w =
    (case serve_command env fd (terminated p) s (w\<lparr>w_sock := (w_sock w)\<lparr>rx_segs := segs\<rparr>\<rparr>) of
       None \<Rightarrow> None | Some (s', w2) \<Rightarrow> session_loop env fd s' w2)"
proof -
  have wf: "wf_command p" using assms(2) by (simp add: packet_ok_def)
  from recv_command_framed [OF assms(1) wf] assms(2) obtain segs where
    "concat segs = rest" "recv_command_packet (w_sock w) = (264, Some (terminated p), (w_sock w)\<lparr>rx_segs := segs\<rparr>)"
    unfolding packet_ok_def terminated_def by (metis not_le)
  then show ?thesis by (intro exI [of _ segs]) (simp add: session_loop.simps [of env fd s w] Let_def)
qed

lemma session_loop_end:
  assumes "stream (w_sock w) = []"
  shows "\<exists>segs. session_loop env fd s w = Some (w\<lparr>w_sock := (w_sock w)\<lparr>rx_segs := segs\<rparr>\<rparr>)"
proof -
  have short: "\<not> sizeof_command_packet \<le> length (stream (w_sock w))" using assms by (simp add: sizeof_command_packet_def)
  obtain segs where "recv_full (w_sock w) sizeof_command_packet =
      (if rx_fail (w_sock w) then - 1 else 0, [], (w_sock w)\<lparr>rx_segs := segs\<rparr>)"
    using recv_full_stream [of "w_sock w" sizeof_command_packet] short assms by auto
  then show ?thesis
    by (intro exI [of _ segs]) (simp add: session_loop.simps [of env fd s w] recv_command_packet_def Let_def)
qed

section \<open>Before the log-in\<close>

lemma stranger_loop:
  assumes "open_sock (w_sock w)" "stream (w_sock w) = concat (map bytes_of_command ps)"
    "\<forall>p\<in>set ps. packet_ok p \<and> cp_cmd_type p \<noteq> cmd_code CMD_TYPE_LOGIN \<and> cp_cmd_type p \<noteq> cmd_code CMD_TYPE_REGISTER"
  shows "\<exists>w'. session_loop env fd initial_session w = Some w' \<and> w_db w' = w_db w \<and> w_fs w' = w_fs w \<and>
    tx_out (w_sock w') = tx_out (w_sock w) @ concat (map (\<lambda>p. reply_bytes
      (if cp_cmd_type p = cmd_code CMD_TYPE_LOGOUT then msg_logout else msg_login_first)) ps)"
  using assms
proof (induction ps arbitrary: w)
  case Nil
  then show ?case using session_loop_end [of w env fd initial_session] by auto
next
  case (Cons p ps)
  let ?m = "if cp_cmd_type p = cmd_code CMD_TYPE_LOGOUT then msg_logout else msg_login_first"
  obtain segs where st: "concat segs = concat (map bytes_of_command ps)" "session_loop env fd initial_session w =
    (case serve_command env fd (terminated p) initial_session (w\<lparr>w_sock := (w_sock w)\<lparr>rx_segs := segs\<rparr>\<rparr>) of
       None \<Rightarrow> None | Some (s', w2) \<Rightarrow> session_loop env fd s' w2)"
    using session_loop_step [of w p "concat (map bytes_of_command ps)" env fd initial_session] Cons.prems by auto
  let ?w1 = "w\<lparr>w_sock := (w_sock w)\<lparr>rx_segs := segs\<rparr>\<rparr>"
  have "serve_command env fd (terminated p) initial_session ?w1 = Some (initial_session, say ?m ?w1)"
    using Cons.prems(3)
    by (simp add: serve_command_def get_packet_cmd_type_def terminated_def initial_session_def Let_def cmd_code_inj del: cmd_code.simps)
  moreover have "say ?m ?w1 = sent (reply_bytes ?m) ?w1"
    using Cons.prems(1) by (intro say_open) (simp add: open_sock_def)
  moreover have "stream (w_sock ?w1) = concat (map bytes_of_command ps)" "open_sock (w_sock ?w1)"
    using st(1) Cons.prems(1) by (simp_all add: stream_def open_sock_def)
  ultimately show ?case
    using Cons.IH [of "sent (reply_bytes ?m) ?w1"] Cons.prems(3) st(2) by auto
qed

text \<open>C14: a client that never logs in or registers gets nothing done: whatever commands it sends, in
  whatever portions, each is answered with the request to log in first (a log-out with its
  confirmation), nothing else is sent, and neither the database nor the file system changes.\<close>

theorem session_requires_login:
  assumes "open_sock (w_sock w)" "stream (w_sock w) = concat (map bytes_of_command ps)"
    "\<forall>p\<in>set ps. packet_ok p \<and> cp_cmd_type p \<noteq> cmd_code CMD_TYPE_LOGIN \<and> cp_cmd_type p \<noteq> cmd_code CMD_TYPE_REGISTER"
  shows "\<exists>w'. handle_request env fd w = Some w' \<and> w_db w' = w_db w \<and> w_fs w' = w_fs w \<and>
    tx_out (w_sock w') = tx_out (w_sock w) @ concat (map (\<lambda>p. reply_bytes
      (if cp_cmd_type p = cmd_code CMD_TYPE_LOGOUT then msg_logout else msg_login_first)) ps)"
  unfolding handle_request_def by (rule stranger_loop [OF assms])

text \<open>A world for the instances.\<close>

definition world_of :: "'d \<Rightarrow> string list \<Rightarrow> 'd world" where
  "world_of d segs =
     \<lparr>w_conn = Some 7, w_db = d, w_sock = \<lparr>rx_segs = segs, rx_fail = False, tx_caps = [], tx_out = []\<rparr>,
      w_fs = (\<lambda>p. None), w_faults = []\<rparr>"

lemma world_of_simps [simp]:
  "w_conn (world_of d segs) = Some 7" "w_db (world_of d segs) = d" "w_fs (world_of d segs) = (\<lambda>p. None)"
  "w_faults (world_of d segs) = []" "stream (w_sock (world_of d segs)) = concat segs"
  "open_sock (w_sock (world_of d segs))" "tx_out (w_sock (world_of d segs)) = []"
  by (simp_all add: world_of_def stream_def open_sock_def)

theorem session_requires_login_witness:
  "\<exists>w'. handle_request (ref_env id) 5 (world_of one_user [bytes_of_command (init_command_packet (cmd_code CMD_TYPE_LS) (Some []))]) = Some w' \<and>
     w_db w' = one_user \<and> tx_out (w_sock w') = reply_bytes msg_login_first"
  using session_requires_login [of "world_of one_user [bytes_of_command (init_command_packet (cmd_code CMD_TYPE_LS) (Some []))]"
      "[init_command_packet (cmd_code CMD_TYPE_LS) (Some [])]" "ref_env id" 5]
    packet_ok_init [of "[]" "cmd_code CMD_TYPE_LS"]
  by (auto simp: cmd_code_inj simp del: cmd_code.simps)

section \<open>Safety of whole sessions\<close>

context sql_service begin

lemma session_safe:
  assumes "store_ok key (tbl (w_db w))" "session_ok (tbl (w_db w)) s"
    "stream (w_sock w) = concat (map bytes_of_command ps)"
    "\<forall>p\<in>set ps. packet_ok p \<and> cp_cmd_type p \<noteq> cmd_code CMD_TYPE_PUTS \<and> clean_text (argument p) \<and> length (argument p) \<le> 200"
  shows "\<exists>w'. session_loop env fd s w = Some w' \<and> store_ok key (tbl (w_db w')) \<and> grows (tbl (w_db w)) (tbl (w_db w'))"
  using assms
proof (induction ps arbitrary: s w)
  case Nil
  then show ?case using session_loop_end [of w env fd s] by auto
next
  case (Cons p ps)
  obtain segs where st: "concat segs = concat (map bytes_of_command ps)" "session_loop env fd s w =
    (case serve_command env fd (terminated p) s (w\<lparr>w_sock := (w_sock w)\<lparr>rx_segs := segs\<rparr>\<rparr>) of
       None \<Rightarrow> None | Some (s', w2) \<Rightarrow> session_loop env fd s' w2)"
    using session_loop_step [of w p "concat (map bytes_of_command ps)" env fd s] Cons.prems by auto
  let ?w1 = "w\<lparr>w_sock := (w_sock w)\<lparr>rx_segs := segs\<rparr>\<rparr>"
  have t: "cp_cmd_type (terminated p) \<noteq> cmd_code CMD_TYPE_PUTS" "clean_text (cstr (cp_data (terminated p)))"
    "length (cstr (cp_data (terminated p))) \<le> 200"
    using Cons.prems(4) by (simp_all add: argument_def terminated_def)
  obtain s' w2 where s': "serve_command env fd (terminated p) s ?w1 = Some (s', w2)" "store_ok key (tbl (w_db w2))"
    "grows (tbl (w_db w)) (tbl (w_db w2))" "session_ok (tbl (w_db w2)) s'"
    using serve_command_ok [of ?w1 s "terminated p" fd] Cons.prems(1,2) t by auto
  have "stream (w_sock w2) = concat (map bytes_of_command ps)"
    using keeps_serve_command [OF s'(1) t(1)] st(1) by (simp add: keeps_def stream_def)
  then obtain w' where "session_loop env fd s' w2 = Some w'" "store_ok key (tbl (w_db w'))" "grows (tbl (w_db w2)) (tbl (w_db w'))"
    using Cons.IH [OF s'(2,4)] Cons.prems(4) by auto
  with st(2) s'(1,3) show ?case using grows_trans by auto
qed

end

text \<open>On any database that keeps the SQL contract, and whatever fails, a session of commands other
  than uploads, with arguments of at most 200 bytes without quotes, runs to its end without undefined
  behaviour; afterwards the tables are well formed, no user and no entry has disappeared, and no
  transfer has been recorded.\<close>

lemma session_keeps_tables:
  assumes "sql_service env tbl key digest" "store_ok key (tbl (w_db w))"
    "stream (w_sock w) = concat (map bytes_of_command ps)"
    "\<forall>p\<in>set ps. packet_ok p \<and> cp_cmd_type p \<noteq> cmd_code CMD_TYPE_PUTS \<and> clean_text (argument p) \<and> length (argument p) \<le> 200"
  shows "\<exists>w'. handle_request env fd w = Some w' \<and> store_ok key (tbl (w_db w')) \<and> grows (tbl (w_db w)) (tbl (w_db w'))"
  unfolding handle_request_def by (rule sql_service.session_safe [OF assms(1,2) session_ok_initial assms(3,4)])

lemma session_keeps_tables_instance:
  "\<exists>w'. handle_request (ref_env id) 5 (world_of one_user
       [bytes_of_command (init_command_packet (cmd_code CMD_TYPE_LOGIN) (Some ''ann:pw'')) @
        bytes_of_command (init_command_packet (cmd_code CMD_TYPE_MKDIR) (Some ''docs''))]) = Some w' \<and>
     tables_ok id (w_db w')"
proof -
  have "store_ok id one_user" using one_user_ok [of id] by (simp add: store_ok_def one_user_def no_tables_def)
  moreover have "clean_text ''ann:pw''" "clean_text ''docs''" by (simp_all add: clean_text_def sq_def)
  ultimately show ?thesis
    using session_keeps_tables [OF ref_service [of id], of "world_of one_user
       [bytes_of_command (init_command_packet (cmd_code CMD_TYPE_LOGIN) (Some ''ann:pw'')) @
        bytes_of_command (init_command_packet (cmd_code CMD_TYPE_MKDIR) (Some ''docs''))]"
      "[init_command_packet (cmd_code CMD_TYPE_LOGIN) (Some ''ann:pw''), init_command_packet (cmd_code CMD_TYPE_MKDIR) (Some ''docs'')]" 5]
      packet_ok_init [of "''ann:pw''" "cmd_code CMD_TYPE_LOGIN"] packet_ok_init [of "''docs''" "cmd_code CMD_TYPE_MKDIR"]
    by (auto simp: cmd_code_inj store_ok_def simp del: cmd_code.simps)
qed

end
