(* ===== verification/Location.thy ===== *)
theory Location
  imports Session_Props
begin

text \<open>
  Where a session is. The session keeps the id of its directory and, separately, the text that \<open>pwd\<close>
  prints; \<open>located\<close> is the abstract relation the two should stand in: the text names, component by
  component, the way from the user's root to the directory. \<open>family\<close> says of the tables that every
  entry belongs to the owner of its parent directory.
\<close>

definition join_path :: "string \<Rightarrow> string \<Rightarrow> string" where
  "join_path p n = (if p = ''/'' then ''/'' @ n else p @ ''/'' @ n)"

inductive located :: "(string \<Rightarrow> string) \<Rightarrow> tables \<Rightarrow> int \<Rightarrow> int \<Rightarrow> string \<Rightarrow> bool" for key t u where
  root: "row \<in> set (t_paths t) \<Longrightarrow> p_parent row = None \<Longrightarrow> p_user row = u \<Longrightarrow> located key t u (p_id row) ''/''"
| child: "located key t u d p \<Longrightarrow> row \<in> set (t_paths t) \<Longrightarrow> p_parent row = Some d \<Longrightarrow> p_user row = u \<Longrightarrow>
    key (p_name row) = key n \<Longrightarrow> CHR ''/'' \<notin> set n \<Longrightarrow> n \<noteq> [] \<Longrightarrow> located key t u (p_id row) (join_path p n)"

definition family :: "tables \<Rightarrow> bool" where
  "family t \<longleftrightarrow> (\<forall>r\<in>set (t_paths t). \<forall>q\<in>set (t_paths t). p_parent r = Some (p_id q) \<longrightarrow> p_user q = p_user r)"

lemma located_row: "located key t u d p \<Longrightarrow> \<exists>row\<in>set (t_paths t). p_id row = d \<and> p_user row = u"
  by (induction rule: located.induct) auto

lemma located_path: "located key t u d p \<Longrightarrow> p \<noteq> []"
  by (induction rule: located.induct) (auto simp: join_path_def)

lemma up_path_join: "CHR ''/'' \<notin> set n \<Longrightarrow> p \<noteq> [] \<Longrightarrow> up_path (join_path p n) = p"
  using up_path_cut [of n p] up_path_cut [of n "[]"] by (auto simp: join_path_def)

lemma paths_unique:
  "tables_ok key t \<Longrightarrow> r \<in> set (t_paths t) \<Longrightarrow> q \<in> set (t_paths t) \<Longrightarrow> p_id r = p_id q \<Longrightarrow> r = q"
  by (auto simp: tables_ok_def ids_ok_def distinct_map dest: inj_onD)

lemma path_user: "tables_ok key t \<Longrightarrow> row \<in> set (t_paths t) \<Longrightarrow> p_user row \<in> u_id ` set (t_users t)"
  unfolding tables_ok_def by blast

text \<open>One step up and one step down the tree.\<close>

lemma located_up:
  assumes "located key t u d p" "tables_ok key t" "row \<in> set (t_paths t)" "p_id row = d" "p_parent row = Some e"
  shows "located key t u e (up_path p)"
  using assms
proof (cases rule: located.cases)
  case (root r)
  then have "r = row" using assms(3,4) by (intro paths_unique [OF assms(2)]) simp_all
  with root(4) assms(5) show ?thesis by simp
next
  case (child e' p' r n)
  then have "r = row" using assms(3,4) by (intro paths_unique [OF assms(2)]) simp_all
  then have "e' = e" using child(5) assms(5) by simp
  with child(2,3,8) located_path [OF child(3)] show ?thesis by (simp add: up_path_join)
qed

lemma located_down:
  assumes "located key t u d p" "tables_ok key t" "family t" "row \<in> set (t_paths t)" "wanted key d n 1 row"
    "CHR ''/'' \<notin> set n" "n \<noteq> []"
  shows "located key t u (p_id row) (join_path p n)"
proof -
  obtain q where q: "q \<in> set (t_paths t)" "p_id q = d" "p_user q = u" using located_row [OF assms(1)] by blast
  with assms(3-5) have "p_user row = u" by (auto simp: family_def child_of_def)
  with assms show ?thesis by (intro located.child) (simp_all add: child_of_def)
qed

context sql_service begin

lemma cd_located:
  assumes "tables_ok key (tbl (w_db w))" "family (tbl (w_db w))" "located key (tbl (w_db w)) (s_user s) (s_dir s) (s_path s)"
    "clean_text n" "CHR ''/'' \<notin> set n \<or> n = ''/''" "length (s_path s) + length n + 2 \<le> 512" "length n \<le> 255"
  shows "\<exists>s' w'. handle_cd env s (Some n) w = Some (s', w') \<and> tbl (w_db w') = tbl (w_db w) \<and> s_user s' = s_user s \<and>
    located key (tbl (w_db w)) (s_user s) (s_dir s') (s_path s')"
proof -
  let ?d = "w_db w"
  let ?t = "tbl ?d"
  obtain q where q: "q \<in> set (t_paths ?t)" "p_id q = s_dir s" "p_user q = s_user s" using located_row [OF assms(3)] by blast
  then have "s_user s \<in> u_id ` set (t_users ?t)" using path_user [OF assms(1)] by metis
  then have range: "c_range (s_user s)" "c_range (s_dir s)" using tables_ok_id_range(1) [OF assms(1)] tables_ok_id_range(2) [OF assms(1) q(1)] q(2) by auto
  show ?thesis
  proof (cases "w_conn w")
    case (Some c)
    obtain pr d1 where p: "dao_get_parent_id env (Some c) (s_dir s) ?d = (pr, d1)" "tbl d1 = ?t"
      "pr = - 1 \<or> (\<exists>row\<in>set (t_paths ?t). p_id row = s_dir s \<and> p_parent row = Some pr)"
      using get_parent_ok [OF assms(1) range(2), of c] by blast
    then have up: "pr \<noteq> - 1 \<Longrightarrow> located key ?t (s_user s) pr (up_path (s_path s))"
      using located_up [OF assms(3,1)] by blast
    obtain rr d2 where r: "dao_get_root_dir_id env (Some c) (s_user s) ?d = Some (rr, d2)" "tbl d2 = ?t"
      "rr = - 1 \<or> (\<exists>row\<in>set (t_paths ?t). p_id row = rr \<and> p_user row = s_user s \<and> p_parent row = None)"
      using get_root_ok [OF assms(1) range(1), of c] by blast
    then have root: "rr \<noteq> - 1 \<Longrightarrow> located key ?t (s_user s) rr ''/''" using located.root by blast
    show ?thesis
    proof (cases "n = [] \<or> n = ''.'' \<or> n = ''..'' \<or> n = ''/''")
      case True
      with Some p(1,2) r(1,2) up root assms(3) show ?thesis
        by (auto simp: handle_cd_def get_thread_db_conn_def db_run_eq db_call_Some)
    next
      case False
      then have n: "CHR ''/'' \<notin> set n" "n \<noteq> []" using assms(5) by auto
      obtain cr d3 where ch: "dao_find_child_id env (Some c) (s_dir s) (Some n) 1 ?d = Some (cr, d3)" "tbl d3 = ?t"
        "cr = - 1 \<or> (\<exists>row\<in>set (t_paths ?t). p_id row = cr \<and> wanted key (s_dir s) n 1 row)"
        using find_child_ok [OF assms(1) range(2) assms(4,7), of c 1] by blast
      then have "cr \<noteq> - 1 \<Longrightarrow> located key ?t (s_user s) cr (join_path (s_path s) n)"
        using located_down [OF assms(3,1,2) _ _ n] by blast
      with ch(1,2) False Some assms(3,6) show ?thesis
        by (auto simp: handle_cd_def get_thread_db_conn_def db_call_Some Let_def cat_path_def join_path_def)
    qed
  qed (use assms(3) in \<open>auto simp: handle_cd_def get_thread_db_conn_def\<close>)
qed

end

text \<open>C15: on any database that keeps the SQL contract, \<open>cd\<close> with an argument that is a single component,
  a dot, two dots or a slash keeps the session located: the text \<open>pwd\<close> prints still spells the way
  from the user's own root to the directory the session works on; no table changes. The length
  premise excludes the one branch that breaks this, where the directory changes and the text, too
  long for its array, does not.\<close>

theorem cd_keeps_location:
  assumes "sql_service env tbl key digest" "tables_ok key (tbl (w_db w))" "family (tbl (w_db w))"
    "located key (tbl (w_db w)) (s_user s) (s_dir s) (s_path s)"
    "clean_text n" "CHR ''/'' \<notin> set n \<or> n = ''/''" "length (s_path s) + length n + 2 \<le> 512" "length n \<le> 255"
  shows "\<exists>s' w'. handle_cd env s (Some n) w = Some (s', w') \<and> tbl (w_db w') = tbl (w_db w) \<and> s_user s' = s_user s \<and>
    located key (tbl (w_db w)) (s_user s) (s_dir s') (s_path s')"
  by (rule sql_service.cd_located [OF assms])

text \<open>A user with a root directory and \<open>docs\<close> in it.\<close>

definition one_dir :: tables where
  "one_dir = one_user\<lparr>t_paths := t_paths one_user @ [new_path 1 (Some 5) ''docs'' ''/docs'' CHR ''d'' None 6]\<rparr>"

lemma one_dir_ok: "tables_ok key one_dir"
  unfolding one_dir_def
  by (rule tables_ok_insert_path [OF one_user_ok]) (auto simp: path_violates_def one_user_def no_tables_def new_path_def ids_left_def)

lemma one_dir_family: "family one_dir"
  by (auto simp: family_def one_dir_def one_user_def no_tables_def new_path_def)

lemma one_dir_located: "located key one_dir 1 6 ''/docs''"
proof -
  have rows: "new_path 1 None ''/'' ''/'' CHR ''d'' None 5 \<in> set (t_paths one_dir)"
    "new_path 1 (Some 5) ''docs'' ''/docs'' CHR ''d'' None 6 \<in> set (t_paths one_dir)"
    by (simp_all add: one_dir_def one_user_def)
  have "located key one_dir 1 5 ''/''" using located.root [OF rows(1)] by (simp add: new_path_def)
  from located.child [OF this rows(2), of "''docs''"] show ?thesis by (simp add: new_path_def join_path_def)
qed

theorem cd_keeps_location_witness:
  "\<exists>s' w'. handle_cd (ref_env id) \<lparr>s_path = ''/docs'', s_user = 1, s_dir = 6\<rparr> (Some ''..'') (world_of one_dir []) = Some (s', w') \<and>
     located id one_dir 1 (s_dir s') (s_path s')"
  using cd_keeps_location [OF ref_service [of id], of "world_of one_dir []" "\<lparr>s_path = ''/docs'', s_user = 1, s_dir = 6\<rparr>" "''..''"]
    one_dir_ok [of id] one_dir_family one_dir_located [of id]
  by (auto simp: clean_text_def sq_def)

section \<open>Changing the user\<close>

lemma clean_colon: "clean_text u \<Longrightarrow> CHR '':'' \<notin> set u \<Longrightarrow> 0 < length u \<Longrightarrow> length u \<le> 63 \<Longrightarrow> 0 < length pw \<Longrightarrow> length pw \<le> 127 \<Longrightarrow>
    parse_auth_data (Some (u @ CHR '':'' # pw)) = (0, Some (u, pw)) \<and> length u \<le> 64"
  using parse_auth_complete [of u pw] by simp

context sql_available begin

lemma handle_login_exact:
  assumes "w_conn w = Some c" "0 \<le> fd" "tables_ok key (tbl (w_db w))" "clean_text u" "CHR '':'' \<notin> set u"
    "0 < length u" "length u \<le> 63" "0 < length pw" "length pw \<le> 127" "row \<in> set (t_users (tbl (w_db w)))" "u_name row = u"
  shows "\<exists>d'. handle_login env fd (Some (u @ CHR '':'' # pw)) old w =
    Some (if u_hash row = digest (pw @ u_salt row) then (u_id row, say msg_login_ok (w\<lparr>w_db := d'\<rparr>))
          else (old, say msg_internal (w\<lparr>w_db := d'\<rparr>))) \<and> tbl d' = tbl (w_db w)"
proof -
  have p: "parse_auth_data (Some (u @ CHR '':'' # pw)) = (0, Some (u, pw))" "length u \<le> 64"
    using clean_colon [OF assms(4-9)] by auto
  obtain d' where d': "dao_login_user env (Some c) (Some u) (Some pw) (w_db w) =
    Some (if u_hash row = digest (pw @ u_salt row) then u_id row else - 1, d')" "tbl d' = tbl (w_db w)"
    using login_exact [OF assms(3,4) p(2) assms(9,10), of c] assms(11) by auto
  moreover have "0 < u_id row" using tables_ok_id_range(1) [OF assms(3,10)] by simp
  ultimately show ?thesis
    using assms(1,2) p(1) by (auto simp: handle_login_def get_thread_db_conn_def db_call_Some intro!: exI [of _ d'])
qed

lemma handle_mkdir_exact:
  assumes "w_conn w = Some c" "tables_ok key (tbl (w_db w))" "s_user s \<in> u_id ` set (t_users (tbl (w_db w)))"
    "s_dir s \<in> p_id ` set (t_paths (tbl (w_db w)))" "clean_text n" "n \<noteq> []" "length n \<le> 200"
    "ids_left (map p_id (t_paths (tbl (w_db w))))"
    "\<not> (\<exists>r\<in>set (t_paths (tbl (w_db w))). p_parent r = Some (s_dir s) \<and> key (p_name r) = key n)"
  shows "\<exists>d' i. handle_mkdir env s (Some n) w = Some (say msg_mkdir_ok (w\<lparr>w_db := d'\<rparr>)) \<and> tables_ok key (tbl d') \<and>
    adds_path (tbl (w_db w)) (tbl d') (new_path (s_user s) (Some (s_dir s)) n (''/'' @ n) CHR ''d'' None i)"
proof -
  let ?t = "tbl (w_db w)"
  have r: "c_range (s_user s)" "0 < s_user s" "c_range (s_dir s)" "0 < s_dir s"
    using tables_ok_id_range(1,2) [OF assms(2)] assms(3,4) by auto
  have "\<not> path_violates key ?t (s_user s) (Some (s_dir s)) n None"
    using assms(3,4,8,9) by (auto simp: path_violates_def)
  moreover have "\<not> (\<exists>row\<in>set (t_paths ?t). child_of key (s_dir s) n row \<and> p_type row = CHR ''d'')"
    using assms(9) by (auto simp: child_of_def)
  ultimately obtain i d' where d': "dao_create_dir env (Some c) (s_user s) (s_dir s) (Some n) (w_db w) = Some (i, d')"
    "adds_path ?t (tbl d') (new_path (s_user s) (Some (s_dir s)) n (''/'' @ n) CHR ''d'' None i)"
    using create_dir_exact [OF assms(2) r(1,3,2,4) assms(5,7), of c] by (auto simp only: if_False)
  have "tables_ok key (tbl d')" using create_dir_ok [OF assms(2) r(1,3) assms(5,7), of c] d'(1) by auto
  moreover have "0 < i" using d'(2) by (simp add: adds_path_def new_path_def)
  ultimately show ?thesis
    using d' assms(1,6) by (auto simp: handle_mkdir_def get_thread_db_conn_def db_call_Some)
qed

lemma relogin:
  assumes "w_conn w = Some c" "0 \<le> fd" "tables_ok key (tbl (w_db w))" "clean_text u" "CHR '':'' \<notin> set u"
    "0 < length u" "length u \<le> 63" "0 < length pw" "length pw \<le> 127" "row \<in> set (t_users (tbl (w_db w)))" "u_name row = u"
    "u_hash row = digest (pw @ u_salt row)" "old \<in> set (t_paths (tbl (w_db w)))" "p_id old = s_dir s" "p_user old \<noteq> u_id row"
    "clean_text n" "n \<noteq> []" "length n \<le> 200" "ids_left (map p_id (t_paths (tbl (w_db w))))"
    "\<not> (\<exists>r\<in>set (t_paths (tbl (w_db w))). p_parent r = Some (s_dir s) \<and> key (p_name r) = key n)"
  shows "\<exists>w1 w2 i. serve_login env fd (u @ CHR '':'' # pw) s w = Some (s\<lparr>s_user := u_id row\<rparr>, w1) \<and>
    handle_mkdir env (s\<lparr>s_user := u_id row\<rparr>) (Some n) w1 = Some w2 \<and>
    adds_path (tbl (w_db w)) (tbl (w_db w2)) (new_path (u_id row) (Some (s_dir s)) n (''/'' @ n) CHR ''d'' None i) \<and>
    \<not> family (tbl (w_db w2))"
proof -
  obtain d1 where d1: "handle_login env fd (Some (u @ CHR '':'' # pw)) (s_user s) w =
      Some (u_id row, say msg_login_ok (w\<lparr>w_db := d1\<rparr>))" "tbl d1 = tbl (w_db w)"
    using handle_login_exact [OF assms(1-11), of "s_user s"] assms(12) by auto
  let ?w1 = "say msg_login_ok (w\<lparr>w_db := d1\<rparr>)"
  have "0 < p_id old" using tables_ok_id_range(2) [OF assms(3,13)] by simp
  then have login: "serve_login env fd (u @ CHR '':'' # pw) s w = Some (s\<lparr>s_user := u_id row\<rparr>, ?w1)"
    using d1 assms(14) by (simp add: serve_login_def Let_def)
  have mem: "s_user (s\<lparr>s_user := u_id row\<rparr>) \<in> u_id ` set (t_users (tbl (w_db ?w1)))"
    "s_dir (s\<lparr>s_user := u_id row\<rparr>) \<in> p_id ` set (t_paths (tbl (w_db ?w1)))"
    using assms(10,13) d1(2) by (simp, simp add: assms(14) [symmetric])
  obtain d2 i where d2: "handle_mkdir env (s\<lparr>s_user := u_id row\<rparr>) (Some n) ?w1 = Some (say msg_mkdir_ok (?w1\<lparr>w_db := d2\<rparr>))"
    "adds_path (tbl (w_db w)) (tbl d2) (new_path (u_id row) (Some (s_dir s)) n (''/'' @ n) CHR ''d'' None i)"
    using handle_mkdir_exact [OF _ _ mem assms(16-18), of c] assms(1,3,19,20) d1(2) by auto
  define R where "R = new_path (u_id row) (Some (s_dir s)) n (''/'' @ n) CHR ''d'' None i"
  have "R \<in> set (t_paths (tbl d2))" "old \<in> set (t_paths (tbl d2))" "p_parent R = Some (p_id old)" "p_user R = u_id row"
    using d2(2) assms(13,14) unfolding R_def [symmetric] by (simp_all add: adds_path_def) (simp_all add: R_def new_path_def)
  then have "\<not> family (tbl d2)" using assms(15) unfolding family_def by metis
  with login d2 show ?thesis by fastforce
qed

end

text \<open>C30: a second log-in on the same connection changes the user and nothing else: the session stays in the
  directory of the first user, and a directory made there belongs to the second user, below a parent of
  the first, so that the ownership rule of the tables, \<open>family\<close>, is broken.\<close>

theorem relogin_crosses_users:
  assumes "sql_available env tbl key digest" "w_conn w = Some c" "0 \<le> fd" "tables_ok key (tbl (w_db w))"
    "clean_text u" "CHR '':'' \<notin> set u" "0 < length u" "length u \<le> 63" "0 < length pw" "length pw \<le> 127"
    "row \<in> set (t_users (tbl (w_db w)))" "u_name row = u" "u_hash row = digest (pw @ u_salt row)"
    "old \<in> set (t_paths (tbl (w_db w)))" "p_id old = s_dir s" "p_user old \<noteq> u_id row"
    "clean_text n" "n \<noteq> []" "length n \<le> 200" "ids_left (map p_id (t_paths (tbl (w_db w))))"
    "\<not> (\<exists>r\<in>set (t_paths (tbl (w_db w))). p_parent r = Some (s_dir s) \<and> key (p_name r) = key n)"
  shows "\<exists>w1 w2 i. serve_login env fd (u @ CHR '':'' # pw) s w = Some (s\<lparr>s_user := u_id row\<rparr>, w1) \<and>
    handle_mkdir env (s\<lparr>s_user := u_id row\<rparr>) (Some n) w1 = Some w2 \<and>
    adds_path (tbl (w_db w)) (tbl (w_db w2)) (new_path (u_id row) (Some (s_dir s)) n (''/'' @ n) CHR ''d'' None i) \<and>
    \<not> family (tbl (w_db w2))"
  by (rule sql_available.relogin [OF assms])

text \<open>Two users, the second without a directory yet.\<close>

definition bob :: user_row where
  "bob = \<lparr>u_id = 2, u_name = ''bob'', u_hash = ref_digest ''pw42'', u_salt = ''42''\<rparr>"

definition two_users :: tables where
  "two_users = one_user\<lparr>t_users := t_users one_user @ [bob]\<rparr>"

lemma two_users_ok: "tables_ok id two_users"
  using ref_digest_hex by (simp add: tables_ok_def ids_ok_def two_users_def bob_def one_user_def no_tables_def new_path_def)

theorem relogin_crosses_users_witness:
  "\<exists>w1 w2. serve_login (ref_env id) 5 (''bob'' @ CHR '':'' # ''pw'') \<lparr>s_path = ''/'', s_user = 1, s_dir = 5\<rparr> (world_of two_users []) =
      Some (\<lparr>s_path = ''/'', s_user = 2, s_dir = 5\<rparr>, w1) \<and>
    handle_mkdir (ref_env id) \<lparr>s_path = ''/'', s_user = 2, s_dir = 5\<rparr> (Some ''x'') w1 = Some w2 \<and> \<not> family (w_db w2)"
proof -
  have c: "clean_text ''bob''" "clean_text ''x''" by (simp_all add: clean_text_def sq_def)
  have b: "bob \<in> set (t_users two_users)" "u_name bob = ''bob''" "u_id bob = 2" "u_hash bob = ref_digest (''pw'' @ u_salt bob)"
    by (simp_all add: two_users_def bob_def)
  let ?R = "new_path 1 None ''/'' ''/'' CHR ''d'' None 5"
  have r: "?R \<in> set (t_paths two_users)" "p_id ?R = 5" "p_user ?R = 1" "ids_left (map p_id (t_paths two_users))"
    "\<not> (\<exists>r\<in>set (t_paths two_users). p_parent r = Some 5 \<and> id (p_name r) = id ''x'')"
    by (simp_all add: two_users_def one_user_def no_tables_def new_path_def ids_left_def)
  show ?thesis
    using relogin_crosses_users [OF ref_available [of id], of "world_of two_users []" 7 5 "''bob''" "''pw''" bob ?R
        "\<lparr>s_path = ''/'', s_user = 1, s_dir = 5\<rparr>" "''x''"] two_users_ok c b r
    by simp blast
qed

section \<open>A wrong password\<close>

context sql_service begin

lemma login_reply:
  assumes "w_conn w = Some c" "0 \<le> fd" "open_sock (w_sock w)" "tables_ok key (tbl (w_db w))" "clean_text u" "CHR '':'' \<notin> set u"
    "0 < length u" "length u \<le> 63" "0 < length pw" "length pw \<le> 127"
  shows "\<exists>u' w'. handle_login env fd (Some (u @ CHR '':'' # pw)) old w = Some (u', w') \<and> tbl (w_db w') = tbl (w_db w) \<and>
    (0 < u' \<and> tx_out (w_sock w') = tx_out (w_sock w) @ reply_bytes msg_login_ok \<or>
     u' = old \<and> tx_out (w_sock w') = tx_out (w_sock w) @ reply_bytes msg_internal)"
proof -
  have p: "parse_auth_data (Some (u @ CHR '':'' # pw)) = (0, Some (u, pw))" "length u \<le> 64"
    using clean_colon [OF assms(5-10)] by auto
  obtain r d' where d': "dao_login_user env (Some c) (Some u) (Some pw) (w_db w) = Some (r, d')" "tbl d' = tbl (w_db w)"
    "r = - 1 \<or> (\<exists>row\<in>set (t_users (tbl (w_db w))). r = u_id row)"
    using login_ok [OF assms(4,5) p(2), of c pw] by blast
  then have "r = - 1 \<or> 0 < r" using tables_ok_id_range(1) [OF assms(4)] by auto
  with d'(1,2) assms(1-3) p(1) show ?thesis
    by (auto simp: handle_login_def get_thread_db_conn_def db_call_Some say_open)
qed

end

text \<open>Log-in with well-formed credentials answers with success or with the internal error, never with
  the message for a wrong password that \<open>auth.c\<close> has: \<open>dao_login_user\<close> returns -1, not 0, for an
  unknown user and for a password that does not match. No table changes, and a failed log-in leaves
  the session's user as it was.\<close>

lemma wrong_password_is_internal_error:
  assumes "sql_service env tbl key digest" "w_conn w = Some c" "0 \<le> fd" "open_sock (w_sock w)" "tables_ok key (tbl (w_db w))"
    "clean_text u" "CHR '':'' \<notin> set u" "0 < length u" "length u \<le> 63" "0 < length pw" "length pw \<le> 127"
  shows "\<exists>u' w'. handle_login env fd (Some (u @ CHR '':'' # pw)) old w = Some (u', w') \<and> tbl (w_db w') = tbl (w_db w) \<and>
    (0 < u' \<and> tx_out (w_sock w') = tx_out (w_sock w) @ reply_bytes msg_login_ok \<or>
     u' = old \<and> tx_out (w_sock w') = tx_out (w_sock w) @ reply_bytes msg_internal)"
  by (rule sql_service.login_reply [OF assms])

end
