(* ===== verification/Scenario.thy ===== *)
theory Scenario
  imports Location
begin

text \<open>
  One session from end to end, packets in and packets out, on any database that answers: a user logs
  in, makes a directory, enters it, asks where they are, goes back and asks again.
\<close>

section \<open>Single commands\<close>

text \<open>On an open socket, in whatever portions the packet arrives, the command takes the session from \<open>s\<close>
  to \<open>s'\<close>, sends \<open>b\<close>, and leaves a database with \<open>Q\<close>.\<close>

definition replies ::
    "'d dao_env \<Rightarrow> int \<Rightarrow> nat \<Rightarrow> command_packet \<Rightarrow> session \<Rightarrow> 'd \<Rightarrow> session \<Rightarrow> string \<Rightarrow> ('d \<Rightarrow> bool) \<Rightarrow> bool" where
  "replies env fd c p s d s' b Q \<longleftrightarrow>
     (\<forall>w. w_conn w = Some c \<and> open_sock (w_sock w) \<and> w_db w = d \<longrightarrow>
       (\<exists>d'. serve_command env fd (terminated p) s w = Some (s', sent b (w\<lparr>w_db := d'\<rparr>)) \<and> Q d'))"

lemma session_replies:
  assumes "replies env fd c p s (w_db w) s' b Q" "packet_ok p" "w_conn w = Some c" "open_sock (w_sock w)"
    "stream (w_sock w) = bytes_of_command p @ rest"
  shows "\<exists>w'. session_loop env fd s w = session_loop env fd s' w' \<and> w_conn w' = Some c \<and> open_sock (w_sock w') \<and>
    stream (w_sock w') = rest \<and> tx_out (w_sock w') = tx_out (w_sock w) @ b \<and> Q (w_db w')"
proof -
  obtain segs where st: "concat segs = rest" "session_loop env fd s w =
    (case serve_command env fd (terminated p) s (w\<lparr>w_sock := (w_sock w)\<lparr>rx_segs := segs\<rparr>\<rparr>) of
       None \<Rightarrow> None | Some (s', w2) \<Rightarrow> session_loop env fd s' w2)"
    using session_loop_step [OF assms(5,2)] by blast
  let ?w1 = "w\<lparr>w_sock := (w_sock w)\<lparr>rx_segs := segs\<rparr>\<rparr>"
  have "w_conn ?w1 = Some c \<and> open_sock (w_sock ?w1) \<and> w_db ?w1 = w_db w" using assms(3,4) by (simp add: open_sock_def)
  then obtain d' where d': "serve_command env fd (terminated p) s ?w1 = Some (s', sent b (?w1\<lparr>w_db := d'\<rparr>))" "Q d'"
    using assms(1) unfolding replies_def by blast
  show ?thesis
    by (rule exI [of _ "sent b (?w1\<lparr>w_db := d'\<rparr>)"])
      (use st d' assms(3,4) in \<open>simp add: open_sock_def stream_def sent_def\<close>)
qed

text \<open>A command packet as the client makes it.\<close>

abbreviation request :: "cmd_type \<Rightarrow> string \<Rightarrow> command_packet" where
  "request t x \<equiv> init_command_packet (cmd_code t) (Some x)"

lemma request_ok:
  assumes "NUL \<notin> set x" "length x \<le> 255"
  shows "packet_ok (request t x)" "cstr (cp_data (terminated (request t x))) = x"
    "cp_cmd_type (terminated (request t x)) = cmd_code t"
  using packet_ok_init [OF assms(1), of "cmd_code t"] assms(2) by (simp_all add: argument_def) (simp add: terminated_def)

lemma replies_pwd:
  "s_user s \<noteq> - 1 \<Longrightarrow> replies env fd c (request CMD_TYPE_PWD []) s d s (reply_bytes (s_path s)) (\<lambda>d'. d' = d)"
  by (auto simp: replies_def serve_command_def get_packet_cmd_type_def request_ok(3) handle_pwd_def say_open cmd_code_inj
    simp del: cmd_code.simps)

context sql_available begin

lemma get_parent_exact:
  assumes "tables_ok key (tbl d)" "row \<in> set (t_paths (tbl d))" "p_parent row = Some par" "\<not> p_tomb row"
  shows "\<exists>d'. dao_get_parent_id env (Some c) (p_id row) d = (par, d') \<and> tbl d' = tbl d"
proof -
  have i: "c_range (p_id row)" using tables_ok_id_range(2) [OF assms(1,2)] by simp
  have "par \<in> p_id ` set (t_paths (tbl d))" using assms(1-3) unfolding tables_ok_def by fastforce
  then have par: "c_range par" using tables_ok_id_range(2) [OF assms(1)] by auto
  have g: "goes 256 (Sel_parent (p_id row))"
    using i by (intro goes_small) (simp_all add: clean_stmt_def)
  have sel: "is_select (Sel_parent (p_id row))" by simp
  have rows: "set (select_rows key (Sel_parent (p_id row)) (tbl d)) = {[Some (int_to_dec par)]}"
  proof -
    have "x = row" if "x \<in> set (t_paths (tbl d))" "p_id x = p_id row" for x
      by (rule paths_unique [OF assms(1) that(1) assms(2) that(2)])
    then have "{x \<in> set (t_paths (tbl d)). p_id x = p_id row \<and> \<not> p_tomb x} = {row}" using assms(2,4) by blast
    then show ?thesis by (simp add: concat_filter assms(3))
  qed
  then have ne: "select_rows key (Sel_parent (p_id row)) (tbl d) \<noteq> []" by (metis list.set(1) insert_not_empty)
  obtain f d1 where f: "fetch_first env c (snprintf_str 256 (render (Sel_parent (p_id row)))) d = (f, d1)" "tbl d1 = tbl d"
      "if select_rows key (Sel_parent (p_id row)) (tbl d) = [] then f = No_row
       else \<exists>cs\<in>set (select_rows key (Sel_parent (p_id row)) (tbl d)). f = Row cs"
    using fetch_first_exact [OF g sel, of c d] by blast
  from f(3) have "f = Row [Some (int_to_dec par)]" unfolding rows using ne by (simp only: if_False) blast
  with f(1,2) par tables_ok_id_range(2) [OF assms(1,2)] show ?thesis by (simp add: dao_get_parent_id_def render_folds cell_def)
qed

lemma replies_login:
  assumes "0 \<le> fd" "tables_ok key (tbl d)" "clean_text u" "CHR '':'' \<notin> set u" "0 < length u" "length u \<le> 63"
    "clean_text pw" "0 < length pw" "length pw \<le> 127" "row \<in> set (t_users (tbl d))" "u_name row = u" "u_hash row = digest (pw @ u_salt row)"
    "base \<in> set (t_paths (tbl d))" "p_user base = u_id row" "p_parent base = None" "p_type base = CHR ''d''"
    "\<forall>r\<in>set (t_paths (tbl d)). p_user r = u_id row \<and> p_parent r = None \<longrightarrow> r = base"
  shows "replies env fd c (request CMD_TYPE_LOGIN (u @ CHR '':'' # pw)) initial_session d
    \<lparr>s_path = ''/'', s_user = u_id row, s_dir = p_id base\<rparr> (reply_bytes msg_login_ok) (\<lambda>d'. tbl d' = tbl d)"
  unfolding replies_def
proof (intro allI impI, elim conjE)
  fix w :: "'d world"
  assume w: "w_conn w = Some c" "open_sock (w_sock w)" "w_db w = d"
  have n: "NUL \<notin> set (u @ CHR '':'' # pw)" using assms(3,7) by (simp add: clean_text_def)
  have l: "length (u @ CHR '':'' # pw) \<le> 255" using assms(6,9) by simp
  have ok: "tables_ok key (tbl (w_db w))" "row \<in> set (t_users (tbl (w_db w)))" using assms(2,10) w(3) by simp_all
  obtain d1 where d1: "handle_login env fd (Some (u @ CHR '':'' # pw)) (- 1) w = Some (u_id row, say msg_login_ok (w\<lparr>w_db := d1\<rparr>))"
    "tbl d1 = tbl d"
    using handle_login_exact [OF w(1) assms(1) ok(1) assms(3-6,8,9) ok(2) assms(11), of "- 1"]
    unfolding if_P [OF assms(12)] w(3) by blast
  have pos: "0 < u_id row" "c_range (u_id row)" using tables_ok_id_range(1) [OF assms(2,10)] by simp_all
  have ok1: "tables_ok key (tbl d1)" using assms(2) d1(2) by simp
  obtain r d2 where d2: "dao_get_root_dir_id env (Some c) (u_id row) d1 = Some (r, d2)" "tbl d2 = tbl d" "r = p_id base"
  proof -
    let ?P = "\<lambda>r. p_user r = u_id row \<and> p_parent r = None \<and> p_type r = CHR ''d''"
    have "\<exists>r\<in>set (t_paths (tbl d1)). ?P r" using assms(13-16) d1(2) by auto
    then obtain r d2 where "dao_get_root_dir_id env (Some c) (u_id row) d1 = Some (r, d2)" "tbl d2 = tbl d1"
      "\<exists>x\<in>set (t_paths (tbl d1)). ?P x \<and> p_id x = r"
      using get_root_exact [OF ok1 pos(2,1), of c] unfolding Let_def by (auto simp only: if_True)
    moreover from this(3) have "r = p_id base" using assms(17) d1(2) by auto
    ultimately show thesis using that d1(2) by simp
  qed
  have "0 < p_id base" using tables_ok_id_range(2) [OF assms(2,13)] by simp
  then have "enter_root env (u_id row) (- 1) (say msg_login_ok (w\<lparr>w_db := d1\<rparr>)) =
      Some (p_id base, sent (reply_bytes msg_login_ok) (w\<lparr>w_db := d2\<rparr>))"
    using d2(1,3) w(1,2) by (simp add: enter_root_def get_thread_db_conn_def db_call_def say_open sent_def)
  with d1(1) pos have "serve_login env fd (u @ CHR '':'' # pw) initial_session w =
      Some (\<lparr>s_path = ''/'', s_user = u_id row, s_dir = p_id base\<rparr>, sent (reply_bytes msg_login_ok) (w\<lparr>w_db := d2\<rparr>))"
    by (simp add: serve_login_def initial_session_def Let_def)
  with request_ok(2,3) [OF n l, of CMD_TYPE_LOGIN] d2(2)
  show "\<exists>d'. serve_command env fd (terminated (request CMD_TYPE_LOGIN (u @ CHR '':'' # pw))) initial_session w =
      Some (\<lparr>s_path = ''/'', s_user = u_id row, s_dir = p_id base\<rparr>, sent (reply_bytes msg_login_ok) (w\<lparr>w_db := d'\<rparr>)) \<and> tbl d' = tbl d"
    by (simp add: serve_command_def get_packet_cmd_type_def Let_def del: cmd_code.simps) blast
qed

lemma replies_mkdir:
  assumes "tables_ok key (tbl d)" "s_user s \<in> u_id ` set (t_users (tbl d))" "s_dir s \<in> p_id ` set (t_paths (tbl d))"
    "clean_text n" "n \<noteq> []" "length n \<le> 200" "ids_left (map p_id (t_paths (tbl d)))"
    "\<not> (\<exists>r\<in>set (t_paths (tbl d)). p_parent r = Some (s_dir s) \<and> key (p_name r) = key n)"
  shows "replies env fd c (request CMD_TYPE_MKDIR n) s d s (reply_bytes msg_mkdir_ok)
    (\<lambda>d'. tables_ok key (tbl d') \<and> (\<exists>i. adds_path (tbl d) (tbl d') (new_path (s_user s) (Some (s_dir s)) n (''/'' @ n) CHR ''d'' None i)))"
  unfolding replies_def
proof (intro allI impI, elim conjE)
  fix w :: "'d world"
  assume w: "w_conn w = Some c" "open_sock (w_sock w)" "w_db w = d"
  have n: "NUL \<notin> set n" "length n \<le> 255" using assms(4,6) by (simp_all add: clean_text_def)
  have u: "s_user s \<noteq> - 1" using assms(2) tables_ok_id_range(1) [OF assms(1)] by force
  obtain d' i where d': "handle_mkdir env s (Some n) w = Some (say msg_mkdir_ok (w\<lparr>w_db := d'\<rparr>))" "tables_ok key (tbl d')"
    "adds_path (tbl d) (tbl d') (new_path (s_user s) (Some (s_dir s)) n (''/'' @ n) CHR ''d'' None i)"
    using handle_mkdir_exact [of w c, unfolded w(3), OF w(1) assms] by blast
  have "serve_command env fd (terminated (request CMD_TYPE_MKDIR n)) s w = Some (s, sent (reply_bytes msg_mkdir_ok) (w\<lparr>w_db := d'\<rparr>))"
    using d'(1) u w(2) by (simp add: serve_command_def get_packet_cmd_type_def request_ok [OF n] with_session_def say_open cmd_code_inj Let_def del: cmd_code.simps)
  with d'(2,3) show "\<exists>d'. serve_command env fd (terminated (request CMD_TYPE_MKDIR n)) s w = Some (s, sent (reply_bytes msg_mkdir_ok) (w\<lparr>w_db := d'\<rparr>)) \<and>
     tables_ok key (tbl d') \<and> (\<exists>i. adds_path (tbl d) (tbl d') (new_path (s_user s) (Some (s_dir s)) n (''/'' @ n) CHR ''d'' None i))"
    by blast
qed

lemma replies_cd:
  assumes "tables_ok key (tbl d)" "row \<in> set (t_paths (tbl d))" "wanted key (s_dir s) n 1 row" "s_user s \<noteq> - 1"
    "\<forall>r\<in>set (t_paths (tbl d)). wanted key (s_dir s) n 1 r \<longrightarrow> r = row"
    "clean_text n" "n \<notin> {[], ''.'', ''..'', ''/''}" "length n \<le> 255" "length (s_path s) + length n + 2 \<le> 512"
  shows "replies env fd c (request CMD_TYPE_CD n) s d (s\<lparr>s_dir := p_id row, s_path := join_path (s_path s) n\<rparr>)
    (reply_bytes msg_entered) (\<lambda>d'. tbl d' = tbl d)"
  unfolding replies_def
proof (intro allI impI, elim conjE)
  fix w :: "'d world"
  assume w: "w_conn w = Some c" "open_sock (w_sock w)" "w_db w = d"
  have n: "NUL \<notin> set n" using assms(6) by (simp add: clean_text_def)
  have "p_parent row = Some (s_dir s)" using assms(3) by (simp add: child_of_def)
  then have "s_dir s \<in> p_id ` set (t_paths (tbl d))" using assms(1,2) unfolding tables_ok_def by fastforce
  then have r: "c_range (s_dir s)" "0 < s_dir s" using tables_ok_id_range(2) [OF assms(1)] by auto
  have ex: "\<exists>x\<in>set (t_paths (tbl d)). wanted key (s_dir s) n 1 x" using assms(2,3) by blast
  obtain q d' where d': "dao_find_child_id env (Some c) (s_dir s) (Some n) 1 d = Some (q, d')" "tbl d' = tbl d"
    "\<exists>x\<in>set (t_paths (tbl d)). wanted key (s_dir s) n 1 x \<and> p_id x = q"
    using find_child_exact [OF assms(1) r assms(6,8), of c 1] unfolding if_P [OF ex] by blast
  have q: "q = p_id row" using d'(3) assms(5) by blast
  have "0 < p_id row" using tables_ok_id_range(2) [OF assms(1,2)] by simp
  then have "handle_cd env s (Some n) w =
      Some (s\<lparr>s_dir := p_id row, s_path := join_path (s_path s) n\<rparr>, sent (reply_bytes msg_entered) (w\<lparr>w_db := d'\<rparr>))"
    using d'(1) w assms(7,9)
    by (simp add: handle_cd_def get_thread_db_conn_def db_call_Some q Let_def cat_path_def join_path_def say_open)
  then have "serve_command env fd (terminated (request CMD_TYPE_CD n)) s w =
      Some (s\<lparr>s_dir := p_id row, s_path := join_path (s_path s) n\<rparr>, sent (reply_bytes msg_entered) (w\<lparr>w_db := d'\<rparr>))"
    using assms(4) by (simp add: serve_command_def get_packet_cmd_type_def request_ok [OF n assms(8)] cmd_code_inj Let_def del: cmd_code.simps)
  with d'(2) show "\<exists>d'. serve_command env fd (terminated (request CMD_TYPE_CD n)) s w =
      Some (s\<lparr>s_dir := p_id row, s_path := join_path (s_path s) n\<rparr>, sent (reply_bytes msg_entered) (w\<lparr>w_db := d'\<rparr>)) \<and> tbl d' = tbl d"
    by blast
qed

lemma replies_up:
  assumes "tables_ok key (tbl d)" "row \<in> set (t_paths (tbl d))" "p_id row = s_dir s" "p_parent row = Some par" "\<not> p_tomb row"
    "s_user s \<noteq> - 1"
  shows "replies env fd c (request CMD_TYPE_CD ''..'') s d (s\<lparr>s_dir := par, s_path := up_path (s_path s)\<rparr>)
    (reply_bytes msg_up) (\<lambda>d'. tbl d' = tbl d)"
  unfolding replies_def
proof (intro allI impI, elim conjE)
  fix w :: "'d world"
  assume w: "w_conn w = Some c" "open_sock (w_sock w)" "w_db w = d"
  obtain d' where d': "dao_get_parent_id env (Some c) (s_dir s) d = (par, d')" "tbl d' = tbl d"
    using get_parent_exact [OF assms(1,2,4,5), of c] assms(3) by auto
  have "par \<in> p_id ` set (t_paths (tbl d))" using assms(1,2,4) unfolding tables_ok_def by fastforce
  then have "0 < par" using tables_ok_id_range(2) [OF assms(1)] by auto
  with d'(1) w have cd: "handle_cd env s (Some ''..'') w =
      Some (s\<lparr>s_dir := par, s_path := up_path (s_path s)\<rparr>, sent (reply_bytes msg_up) (w\<lparr>w_db := d'\<rparr>))"
    by (simp add: handle_cd_def get_thread_db_conn_def db_run_eq say_open)
  have r: "cp_cmd_type (terminated (request CMD_TYPE_CD ''..'')) = cmd_code CMD_TYPE_CD"
    "cstr (cp_data (terminated (request CMD_TYPE_CD ''..''))) = ''..''"
    using request_ok [of "''..''" CMD_TYPE_CD] by simp_all
  show "\<exists>d'. serve_command env fd (terminated (request CMD_TYPE_CD ''..'')) s w =
      Some (s\<lparr>s_dir := par, s_path := up_path (s_path s)\<rparr>, sent (reply_bytes msg_up) (w\<lparr>w_db := d'\<rparr>)) \<and> tbl d' = tbl d"
    by (rule exI [of _ d'])
      (use assms(6) d'(2) cd in \<open>simp add: serve_command_def get_packet_cmd_type_def r cmd_code_inj Let_def del: cmd_code.simps\<close>)
qed

text \<open>Into a child directory and back, with \<open>pwd\<close> at both ends.\<close>

lemma walk:
  assumes "w_conn w = Some c" "open_sock (w_sock w)" "tables_ok key (tbl (w_db w))" "s_user s \<noteq> - 1"
    "R \<in> set (t_paths (tbl (w_db w)))" "\<forall>r\<in>set (t_paths (tbl (w_db w))). wanted key (s_dir s) n 1 r \<longleftrightarrow> r = R"
    "clean_text n" "n \<notin> {[], ''.'', ''..'', ''/''}" "CHR ''/'' \<notin> set n" "length n \<le> 200"
    "s_path s \<noteq> []" "length (s_path s) + length n + 2 \<le> 512"
    "stream (w_sock w) = bytes_of_command (request CMD_TYPE_CD n) @ bytes_of_command (request CMD_TYPE_PWD []) @
      bytes_of_command (request CMD_TYPE_CD ''..'') @ bytes_of_command (request CMD_TYPE_PWD []) @ []"
  shows "\<exists>w'. session_loop env fd s w = Some w' \<and> tbl (w_db w') = tbl (w_db w) \<and>
    tx_out (w_sock w') = tx_out (w_sock w) @ concat (map reply_bytes [msg_entered, join_path (s_path s) n, msg_up, s_path s])"
proof -
  let ?s2 = "s\<lparr>s_dir := p_id R, s_path := join_path (s_path s) n\<rparr>"
  let ?s3 = "?s2\<lparr>s_dir := s_dir s, s_path := up_path (s_path ?s2)\<rparr>"
  have nul: "NUL \<notin> set n" "length n \<le> 255" using assms(7,10) by (simp_all add: clean_text_def)
  have R: "wanted key (s_dir s) n 1 R" using assms(5,6) by blast
  have only: "\<forall>r\<in>set (t_paths (tbl (w_db w))). wanted key (s_dir s) n 1 r \<longrightarrow> r = R" using assms(6) by blast
  obtain w3 where w3: "session_loop env fd s w = session_loop env fd ?s2 w3" "w_conn w3 = Some c" "open_sock (w_sock w3)"
    "stream (w_sock w3) = bytes_of_command (request CMD_TYPE_PWD []) @ bytes_of_command (request CMD_TYPE_CD ''..'') @
      bytes_of_command (request CMD_TYPE_PWD []) @ []"
    "tx_out (w_sock w3) = tx_out (w_sock w) @ reply_bytes msg_entered" "tbl (w_db w3) = tbl (w_db w)"
    using session_replies [OF replies_cd [OF assms(3,5) R assms(4) only assms(7,8) nul(2) assms(12)]
        request_ok(1) [OF nul] assms(1,2,13)] by blast
  have s2: "s_user ?s2 \<noteq> - 1" "packet_ok (request CMD_TYPE_PWD [])" "packet_ok (request CMD_TYPE_CD ''..'')"
    "s_path ?s2 = join_path (s_path s) n"
    using assms(4) request_ok(1) [of "[]"] request_ok(1) [of "''..''"] by (simp_all del: cmd_code.simps)
  obtain w4 where w4: "session_loop env fd ?s2 w3 = session_loop env fd ?s2 w4" "w_conn w4 = Some c" "open_sock (w_sock w4)"
    "stream (w_sock w4) = bytes_of_command (request CMD_TYPE_CD ''..'') @ bytes_of_command (request CMD_TYPE_PWD []) @ []"
    "tx_out (w_sock w4) = tx_out (w_sock w3) @ reply_bytes (join_path (s_path s) n)" "w_db w4 = w_db w3"
    using session_replies [OF replies_pwd [OF s2(1)] s2(2) w3(2,3,4)] unfolding s2(4) by blast
  have t4: "tbl (w_db w4) = tbl (w_db w)" using w4(6) w3(6) by simp
  have up: "replies env fd c (request CMD_TYPE_CD ''..'') ?s2 (w_db w4) ?s3 (reply_bytes msg_up) (\<lambda>d'. tbl d' = tbl (w_db w4))"
  proof (rule replies_up [where row = R])
    show "p_parent R = Some (s_dir s)" "\<not> p_tomb R" using R by (auto simp: child_of_def)
  qed (use assms(3,5) s2(1) t4 in simp_all)
  obtain w5 where w5: "session_loop env fd ?s2 w4 = session_loop env fd ?s3 w5" "w_conn w5 = Some c" "open_sock (w_sock w5)"
    "stream (w_sock w5) = bytes_of_command (request CMD_TYPE_PWD []) @ []"
    "tx_out (w_sock w5) = tx_out (w_sock w4) @ reply_bytes msg_up" "tbl (w_db w5) = tbl (w_db w4)"
    using session_replies [OF up s2(3) w4(2,3,4)] by blast
  have s3: "s_user ?s3 \<noteq> - 1" "s_path ?s3 = s_path s" using assms(4) up_path_join [OF assms(9,11)] by simp_all
  obtain w6 where w6: "session_loop env fd ?s3 w5 = session_loop env fd ?s3 w6" "stream (w_sock w6) = []"
    "tx_out (w_sock w6) = tx_out (w_sock w5) @ reply_bytes (s_path s)" "w_db w6 = w_db w5"
    using session_replies [OF replies_pwd [OF s3(1)] s2(2) w5(2,3,4)] unfolding s3(2) by blast
  obtain segs where "session_loop env fd ?s3 w6 = Some (w6\<lparr>w_sock := (w_sock w6)\<lparr>rx_segs := segs\<rparr>\<rparr>)"
    using session_loop_end [OF w6(2)] by blast
  with w3(1) w4(1) w5(1) w6(1) have "session_loop env fd s w = Some (w6\<lparr>w_sock := (w_sock w6)\<lparr>rx_segs := segs\<rparr>\<rparr>)"
    by (simp only:)
  then show ?thesis
    using w6(3,4) w5(5,6) t4 w4(5) w3(5)
    by (intro exI [of _ "w6\<lparr>w_sock := (w_sock w6)\<lparr>rx_segs := segs\<rparr>\<rparr>"]) simp
qed

lemma tour:
  assumes "w_conn w = Some c" "0 \<le> fd" "open_sock (w_sock w)" "tables_ok key (tbl (w_db w))"
    "clean_text u" "CHR '':'' \<notin> set u" "0 < length u" "length u \<le> 63" "clean_text pw" "0 < length pw" "length pw \<le> 127"
    "row \<in> set (t_users (tbl (w_db w)))" "u_name row = u" "u_hash row = digest (pw @ u_salt row)"
    "base \<in> set (t_paths (tbl (w_db w)))" "p_user base = u_id row" "p_parent base = None" "p_type base = CHR ''d''"
    "\<forall>r\<in>set (t_paths (tbl (w_db w))). p_user r = u_id row \<and> p_parent r = None \<longrightarrow> r = base"
    "clean_text n" "n \<notin> {[], ''.'', ''..'', ''/''}" "CHR ''/'' \<notin> set n" "length n \<le> 200" "ids_left (map p_id (t_paths (tbl (w_db w))))"
    "\<not> (\<exists>r\<in>set (t_paths (tbl (w_db w))). p_parent r = Some (p_id base) \<and> key (p_name r) = key n)"
    "stream (w_sock w) = concat (map bytes_of_command [request CMD_TYPE_LOGIN (u @ CHR '':'' # pw), request CMD_TYPE_MKDIR n,
       request CMD_TYPE_CD n, request CMD_TYPE_PWD [], request CMD_TYPE_CD ''..'', request CMD_TYPE_PWD []])"
  shows "\<exists>w' i. handle_request env fd w = Some w' \<and>
    tx_out (w_sock w') = tx_out (w_sock w) @ concat (map reply_bytes [msg_login_ok, msg_mkdir_ok, msg_entered, ''/'' @ n, msg_up, ''/'']) \<and>
    adds_path (tbl (w_db w)) (tbl (w_db w')) (new_path (u_id row) (Some (p_id base)) n (''/'' @ n) CHR ''d'' None i)"
proof -
  let ?s1 = "\<lparr>s_path = ''/'', s_user = u_id row, s_dir = p_id base\<rparr>"
  let ?rest = "bytes_of_command (request CMD_TYPE_CD n) @ bytes_of_command (request CMD_TYPE_PWD []) @
      bytes_of_command (request CMD_TYPE_CD ''..'') @ bytes_of_command (request CMD_TYPE_PWD []) @ []"
  have nul: "NUL \<notin> set n" "NUL \<notin> set (u @ CHR '':'' # pw)" "length (u @ CHR '':'' # pw) \<le> 255" "length n \<le> 255"
    using assms(5,8,9,11,20,23) by (simp_all add: clean_text_def)
  have st: "stream (w_sock w) = bytes_of_command (request CMD_TYPE_LOGIN (u @ CHR '':'' # pw)) @ bytes_of_command (request CMD_TYPE_MKDIR n) @ ?rest"
    unfolding assms(26) by (simp only: list.map concat.simps append_assoc)
  obtain w1 where w1: "session_loop env fd initial_session w = session_loop env fd ?s1 w1" "w_conn w1 = Some c" "open_sock (w_sock w1)"
    "stream (w_sock w1) = bytes_of_command (request CMD_TYPE_MKDIR n) @ ?rest"
    "tx_out (w_sock w1) = tx_out (w_sock w) @ reply_bytes msg_login_ok" "tbl (w_db w1) = tbl (w_db w)"
    using session_replies [OF replies_login [OF assms(2,4-19)] request_ok(1) [OF nul(2,3)] assms(1,3) st] by blast
  have s1: "s_user ?s1 \<in> u_id ` set (t_users (tbl (w_db w1)))" "s_dir ?s1 \<in> p_id ` set (t_paths (tbl (w_db w1)))"
    "tables_ok key (tbl (w_db w1))" "ids_left (map p_id (t_paths (tbl (w_db w1))))"
    "\<not> (\<exists>r\<in>set (t_paths (tbl (w_db w1))). p_parent r = Some (s_dir ?s1) \<and> key (p_name r) = key n)"
    using assms(4,12,15,24,25) unfolding w1(6) by (simp_all add: image_iff) blast+
  have n0: "n \<noteq> []" using assms(21) by simp
  obtain w2 i where w2: "session_loop env fd ?s1 w1 = session_loop env fd ?s1 w2" "w_conn w2 = Some c" "open_sock (w_sock w2)"
    "stream (w_sock w2) = ?rest" "tx_out (w_sock w2) = tx_out (w_sock w1) @ reply_bytes msg_mkdir_ok" "tables_ok key (tbl (w_db w2))"
    "adds_path (tbl (w_db w)) (tbl (w_db w2)) (new_path (u_id row) (Some (p_id base)) n (''/'' @ n) CHR ''d'' None i)"
    using session_replies [OF replies_mkdir [OF s1(3,1,2) assms(20) n0 assms(23) s1(4,5)] request_ok(1) [OF nul(1,4)] w1(2,3,4)]
    unfolding w1(6) session.select_convs by blast
  define R where "R = new_path (u_id row) (Some (p_id base)) n (''/'' @ n) CHR ''d'' None i"
  have rows: "t_paths (tbl (w_db w2)) = t_paths (tbl (w_db w)) @ [R]" using adds_path_rows [OF w2(7)] by (simp add: R_def)
  have want: "\<forall>r\<in>set (t_paths (tbl (w_db w2))). wanted key (s_dir ?s1) n 1 r \<longleftrightarrow> r = R"
    using assms(25) by (auto simp: rows child_of_def R_def new_path_def)
  have mem: "R \<in> set (t_paths (tbl (w_db w2)))" by (simp add: rows)
  have len: "s_path ?s1 \<noteq> []" "length (s_path ?s1) + length n + 2 \<le> 512" "s_user ?s1 \<noteq> - 1"
    using assms(23) tables_ok_id_range(1) [OF assms(4,12)] by auto
  obtain w3 where "session_loop env fd ?s1 w2 = Some w3" "tbl (w_db w3) = tbl (w_db w2)"
    "tx_out (w_sock w3) = tx_out (w_sock w2) @ concat (map reply_bytes [msg_entered, ''/'' @ n, msg_up, ''/''])"
    using walk [OF w2(2,3,6) len(3) mem want assms(20-23) len(1,2) w2(4), of fd] by (auto simp: join_path_def)
  with w1(1,5) w2(1,5,7) show ?thesis
    by (intro exI [of _ w3] exI [of _ i]) (simp add: handle_request_def)
qed

end

text \<open>On a database that answers, over any segmentation of the input, a whole session does what it says:
  a registered user with a root directory logs in, makes a directory under a new name, enters it,
  asks where they are, goes up and asks again; the six replies are, in order, success, success,
  success, the path of the new directory, success and the root, and one row has been added to the
  table of paths, below the user's root.\<close>

lemma session_tour:
  assumes "sql_available env tbl key digest" "w_conn w = Some c" "0 \<le> fd" "open_sock (w_sock w)" "tables_ok key (tbl (w_db w))"
    "clean_text u" "CHR '':'' \<notin> set u" "0 < length u" "length u \<le> 63" "clean_text pw" "0 < length pw" "length pw \<le> 127"
    "row \<in> set (t_users (tbl (w_db w)))" "u_name row = u" "u_hash row = digest (pw @ u_salt row)"
    "base \<in> set (t_paths (tbl (w_db w)))" "p_user base = u_id row" "p_parent base = None" "p_type base = CHR ''d''"
    "\<forall>r\<in>set (t_paths (tbl (w_db w))). p_user r = u_id row \<and> p_parent r = None \<longrightarrow> r = base"
    "clean_text n" "n \<notin> {[], ''.'', ''..'', ''/''}" "CHR ''/'' \<notin> set n" "length n \<le> 200" "ids_left (map p_id (t_paths (tbl (w_db w))))"
    "\<not> (\<exists>r\<in>set (t_paths (tbl (w_db w))). p_parent r = Some (p_id base) \<and> key (p_name r) = key n)"
    "stream (w_sock w) = concat (map bytes_of_command [request CMD_TYPE_LOGIN (u @ CHR '':'' # pw), request CMD_TYPE_MKDIR n,
       request CMD_TYPE_CD n, request CMD_TYPE_PWD [], request CMD_TYPE_CD ''..'', request CMD_TYPE_PWD []])"
  shows "\<exists>w' i. handle_request env fd w = Some w' \<and>
    tx_out (w_sock w') = tx_out (w_sock w) @ concat (map reply_bytes [msg_login_ok, msg_mkdir_ok, msg_entered, ''/'' @ n, msg_up, ''/'']) \<and>
    adds_path (tbl (w_db w)) (tbl (w_db w')) (new_path (u_id row) (Some (p_id base)) n (''/'' @ n) CHR ''d'' None i)"
  by (rule sql_available.tour [OF assms])

lemma session_tour_instance:
  "\<exists>w'. handle_request (ref_env id) 5 (world_of one_user (map bytes_of_command [request CMD_TYPE_LOGIN (''ann'' @ CHR '':'' # ''pw''),
      request CMD_TYPE_MKDIR ''docs'', request CMD_TYPE_CD ''docs'', request CMD_TYPE_PWD [], request CMD_TYPE_CD ''..'', request CMD_TYPE_PWD []])) = Some w' \<and>
    tx_out (w_sock w') = concat (map reply_bytes [msg_login_ok, msg_mkdir_ok, msg_entered, ''/docs'', msg_up, ''/''])"
proof -
  let ?W = "world_of one_user (map bytes_of_command [request CMD_TYPE_LOGIN (''ann'' @ CHR '':'' # ''pw''),
      request CMD_TYPE_MKDIR ''docs'', request CMD_TYPE_CD ''docs'', request CMD_TYPE_PWD [], request CMD_TYPE_CD ''..'', request CMD_TYPE_PWD []])"
  let ?row = "\<lparr>u_id = 1, u_name = ''ann'', u_hash = ref_digest ''pw42'', u_salt = ''42''\<rparr>"
  let ?base = "new_path 1 None ''/'' ''/'' CHR ''d'' None 5"
  have c: "clean_text ''ann''" "clean_text ''pw''" "clean_text ''docs''" by (simp_all add: clean_text_def sq_def)
  have w: "w_conn ?W = Some 7" "open_sock (w_sock ?W)" "w_db ?W = one_user" "tx_out (w_sock ?W) = []"
    "stream (w_sock ?W) = concat (map bytes_of_command [request CMD_TYPE_LOGIN (''ann'' @ CHR '':'' # ''pw''),
      request CMD_TYPE_MKDIR ''docs'', request CMD_TYPE_CD ''docs'', request CMD_TYPE_PWD [], request CMD_TYPE_CD ''..'', request CMD_TYPE_PWD []])"
    by (simp_all only: world_of_simps)
  have r: "?row \<in> set (t_users one_user)" "?base \<in> set (t_paths one_user)" "ids_left (map p_id (t_paths one_user))"
    "p_user ?base = u_id ?row" "p_parent ?base = None" "p_type ?base = CHR ''d''"
    "\<forall>r\<in>set (t_paths one_user). p_user r = u_id ?row \<and> p_parent r = None \<longrightarrow> r = ?base"
    "\<not> (\<exists>r\<in>set (t_paths one_user). p_parent r = Some (p_id ?base) \<and> id (p_name r) = id ''docs'')"
    by (simp_all add: one_user_def no_tables_def new_path_def ids_left_def)
  have h: "u_hash ?row = ref_digest (''pw'' @ u_salt ?row)" by simp
  have g: "(0 :: int) \<le> 5" "CHR '':'' \<notin> set ''ann''" "0 < length ''ann''" "length ''ann'' \<le> 63" "0 < length ''pw''" "length ''pw'' \<le> 127"
    "u_name ?row = ''ann''" "''docs'' \<notin> {[], ''.'', ''..'', ''/''}" "CHR ''/'' \<notin> set ''docs''" "length ''docs'' \<le> 200" by simp_all
  show ?thesis
    using session_tour [OF ref_available [of id] w(1) g(1) w(2), unfolded w(3,4), OF one_user_ok c(1) g(2-4) c(2) g(5,6) r(1) g(7) h
        r(2,4-7) c(3) g(8-10) r(3,8) w(5)]
    unfolding append_Nil by (auto simp only: append_Cons append_Nil)
qed

end
