(* ===== verification/Transfer_Laws.thy ===== *)
theory Transfer_Laws
  imports Scenario
begin

text \<open>
  Uploads and downloads on a database that answers, a socket that takes everything and a file system
  on which no call fails: what is stored, what is sent.
\<close>

section \<open>Receiving\<close>

lemma recv_upload_all:
  assumes "n \<le> length (stream k)"
  shows "\<exists>segs. recv_upload n acc k = (acc @ take n (stream k), k\<lparr>rx_segs := segs\<rparr>) \<and> concat segs = drop n (stream k)"
  using assms
proof (induction n acc k rule: recv_upload.induct)
  case (1 n acc k)
  show ?case
  proof (cases "n = 0")
    case True
    then show ?thesis by (intro exI [of _ "rx_segs k"]) (simp add: recv_upload.simps stream_def)
  next
    case False
    define once where "once = (if n < BUFFER_SIZE then n else BUFFER_SIZE)"
    obtain r d k1 where o: "os_recv k once = (r, d, k1)" using prod_cases3 by blast
    have pos: "0 < once" "once \<le> n" using False by (simp_all add: once_def BUFFER_SIZE_def)
    have ne: "stream k \<noteq> []" using False "1.prems" by auto
    note rx = os_recv_data [OF o pos(1) ne]
    have le: "nat r = length d" "length d \<le> n" using rx(2,5) pos(2) by simp_all
    have k1: "k1\<lparr>rx_segs := segs\<rparr> = k\<lparr>rx_segs := segs\<rparr>" for segs by (subst rx(7)) simp
    have "\<not> r \<le> 0" using rx(1) by simp
    moreover have "n - nat r \<le> length (stream k1)" using "1.prems" le rx(6) by simp
    ultimately obtain segs where "recv_upload (n - nat r) (acc @ d) k1 =
        ((acc @ d) @ take (n - nat r) (stream k1), k1\<lparr>rx_segs := segs\<rparr>)" "concat segs = drop (n - nat r) (stream k1)"
      using "1.IH" [OF False once_def o [symmetric] refl] by blast
    moreover have "recv_upload n acc k = recv_upload (n - nat r) (acc @ d) k1"
      using False o \<open>\<not> r \<le> 0\<close> unfolding once_def by (simp add: recv_upload.simps [of n acc k] Let_def)
    moreover have "take n (stream k) = d @ take (n - nat r) (stream k1)" "drop n (stream k) = drop (n - nat r) (stream k1)"
      using le unfolding rx(6) by simp_all
    ultimately show ?thesis unfolding k1 by (intro exI [of _ segs]) simp
  qed
qed

lemma recv_upload_short:
  assumes "length (stream k) < n"
  shows "\<exists>segs. recv_upload n acc k = (acc @ stream k, k\<lparr>rx_segs := segs\<rparr>)"
  using assms
proof (induction n acc k rule: recv_upload.induct)
  case (1 n acc k)
  define once where "once = (if n < BUFFER_SIZE then n else BUFFER_SIZE)"
  have pos: "0 < once" "once \<le> n" "n \<noteq> 0" using "1.prems" by (simp_all add: once_def BUFFER_SIZE_def)
  obtain r d k1 where o: "os_recv k once = (r, d, k1)" using prod_cases3 by blast
  show ?case
  proof (cases "stream k = []")
    case True
    with o have "\<not> 0 < r" "k1 = k\<lparr>rx_segs := []\<rparr>" by (auto simp: os_recv_end split: if_splits)
    with True pos(3) o show ?thesis
      unfolding once_def by (intro exI [of _ "[]"]) (simp add: recv_upload.simps [of n acc k] Let_def)
  next
    case False
    note rx = os_recv_data [OF o pos(1) False]
    have k1: "k1\<lparr>rx_segs := segs\<rparr> = k\<lparr>rx_segs := segs\<rparr>" for segs by (subst rx(7)) simp
    have "\<not> r \<le> 0" using rx(1) by simp
    moreover have "length (stream k1) < n - nat r" using "1.prems" rx(2) unfolding rx(6) by simp
    ultimately obtain segs where "recv_upload (n - nat r) (acc @ d) k1 = ((acc @ d) @ stream k1, k1\<lparr>rx_segs := segs\<rparr>)"
      using "1.IH" [OF pos(3) once_def o [symmetric] refl] by blast
    moreover have "recv_upload n acc k = recv_upload (n - nat r) (acc @ d) k1"
      using pos(3) o \<open>\<not> r \<le> 0\<close> unfolding once_def by (simp add: recv_upload.simps [of n acc k] Let_def)
    ultimately show ?thesis unfolding k1 rx(6) by (intro exI [of _ segs]) simp
  qed
qed

section \<open>Paths of stored files\<close>

lemma physical_path: "length h \<le> 64 \<Longrightarrow> gen_physical_path 512 h = STORAGE_DIR @ ''/'' @ h"
  by (simp add: gen_physical_path_def STORAGE_DIR_def snprintf_str_def)

lemma dir_of_stored: "CHR ''/'' \<notin> set h \<Longrightarrow> dir_of (STORAGE_DIR @ ''/'' @ h) = STORAGE_DIR"
proof -
  assume "CHR ''/'' \<notin> set h"
  then have "dropWhile (\<lambda>c. c \<noteq> CHR ''/'') (rev h @ CHR ''/'' # rev STORAGE_DIR) = CHR ''/'' # rev STORAGE_DIR"
    by (subst dropWhile_append2) auto
  then show ?thesis by (simp add: dir_of_def)
qed

lemma ensure_storage_ok:
  assumes "w_faults w = []" "w_fs w STORAGE_DIR \<in> {None, Some Directory}"
  shows "ensure_storage_dir w = (0, w\<lparr>w_fs := (w_fs w)(STORAGE_DIR \<mapsto> Directory)\<rparr>)"
  using assms by (auto simp: ensure_storage_dir_def fun_upd_idem)

lemma open_trunc_ok:
  assumes "w_faults w = []" "w_fs w p \<noteq> Some Directory" "w_fs w (dir_of p) = Some Directory"
  shows "open_trunc p w = (True, w\<lparr>w_fs := (w_fs w)(p \<mapsto> Regular [])\<rparr>)"
  using assms by (simp add: open_trunc_def)

section \<open>Download\<close>

text \<open>The packet that announces a file of \<open>len\<close> bytes: its size, its digest, the number of blocks.\<close>

definition gets_header :: "string \<Rightarrow> string \<Rightarrow> nat \<Rightarrow> file_packet" where
  "gets_header n sha len = (init_file_packet (cmd_code CMD_TYPE_GETS) (Some n) (word_of_nat len) 0)
     \<lparr>fp_hash := sha @ replicate (HASH_LEN - length sha) NUL, fp_offset := word_of_nat (block_count len)\<rparr>"

definition download_bytes :: "string \<Rightarrow> string \<Rightarrow> string \<Rightarrow> string" where
  "download_bytes n sha s = bytes_of_file (gets_header n sha (length s)) @
     concat (map bytes_of_block (file_blocks sha s 0 (block_count (length s))))"

lemma send_file_open:
  "open_sock (w_sock w) \<Longrightarrow> send_file_packet (w_sock w) p = (0, w_sock (sent (bytes_of_file p) w))"
  by (simp add: send_file_packet_def send_full_open sent_def)

context sql_available begin

lemma gets_send_exact:
  assumes "open_sock (w_sock w)" "w_faults w = []" "w_fs w fd = Some (Regular s)" "length sha \<le> 64"
    "sz = word_of_nat (length s)" "length s \<le> 2147483647 * BLOCK_SIZE" "t_xfers (tbl (w_db w)) = []" "c_range pid"
  shows "\<exists>d. gets_send env c pid (Some n) fd sha sz w = Some (sent (download_bytes n sha s) (w\<lparr>w_db := d\<rparr>)) \<and> tbl d = tbl (w_db w)"
proof -
  let ?n = "block_count (length s)"
  have len: "unat sz = length s" using assms(6) unfolding assms(5) by (intro unat_word64) (simp add: BLOCK_SIZE_def)
  have n: "calculate_total_blocks sz = int ?n" using total_blocks_exact [of sz] assms(6) len by simp
  have cr: "snd (db_run (dao_create_transfer_record env (Some c) pid 0 (int ?n) (Some ''downloading'')) w) = w"
    by (simp add: db_run_def dao_create_transfer_record_def)
  obtain d2 where d2: "get_sequence env (Some c) pid w = Some ((- 1, None), w\<lparr>w_db := d2\<rparr>)" "tbl d2 = tbl (w_db w)"
    using get_sequence_none [OF assms(7,8), of c] by auto
  let ?h = "gets_header n sha (length s)"
  let ?w3 = "sent (bytes_of_file ?h) (w\<lparr>w_db := d2\<rparr>)"
  have snd: "send_file_packet (w_sock (w\<lparr>w_db := d2\<rparr>)) ?h = (0, w_sock ?w3)"
    using assms(1) send_file_open [of "w\<lparr>w_db := d2\<rparr>"] by simp
  have w3: "(w\<lparr>w_db := d2\<rparr>)\<lparr>w_sock := w_sock ?w3\<rparr> = ?w3" by (simp add: sent_def)
  obtain d4 where d4: "gets_loop env c pid fd sha sz (int ?n) (int 0) ?w3 =
      Some (sent (concat (map bytes_of_block (file_blocks sha s 0 ?n))) (?w3\<lparr>w_db := d4\<rparr>))"
  proof (rule exE [OF gets_loop_open [of ?w3 fd s sha sz ?n 0 env c pid]])
    show "open_sock (w_sock ?w3)" "w_faults ?w3 = []" "w_fs ?w3 fd = Some (Regular s)" using assms(1-3) by simp_all
    show "length s = unat sz" "unat sz \<le> 2147483647 * BLOCK_SIZE" using len assms(6) by simp_all
    show "?n = block_count (unat sz)" using len by simp
  qed (use assms(4) in simp_all)
  obtain w4 where "gets_loop env c pid fd sha sz (int ?n) (int 0) ?w3 = Some w4" "tbl (w_db w4) = tbl (w_db w)"
    using gets_loop_ok [of ?w3 pid sha sz "int ?n" "int 0" c fd] assms(4,6-8) len n d2(2) by auto
  with d4 have t4: "tbl d4 = tbl (w_db w)" by auto
  let ?w4 = "sent (concat (map bytes_of_block (file_blocks sha s 0 ?n))) (?w3\<lparr>w_db := d4\<rparr>)"
  obtain d5 where d5: "get_sequence env (Some c) pid ?w4 = Some ((- 1, None), ?w4\<lparr>w_db := d5\<rparr>)" "tbl d5 = tbl (w_db w)"
    using get_sequence_none [of ?w4 pid c] assms(7,8) t4 by auto
  have h: "hash_field sha = Some (sha @ replicate (HASH_LEN - length sha) NUL)" using assms(4) by (simp add: hash_field_def)
  have hd: "(init_file_packet (cmd_code CMD_TYPE_GETS) (Some n) sz 0)
      \<lparr>fp_hash := sha @ replicate (HASH_LEN - length sha) NUL, fp_offset := word_of_nat ?n\<rparr> = ?h"
    unfolding gets_header_def assms(5) by simp
  have "gets_send env c pid (Some n) fd sha sz w = Some (?w4\<lparr>w_db := d5\<rparr>)"
    unfolding gets_send_def Let_def n cr d2(1) using d4 d5(1) snd
    by (simp add: h hd w3 del: HASH_LEN_def cmd_code.simps)
  moreover have "?w4\<lparr>w_db := d5\<rparr> = sent (download_bytes n sha s) (w\<lparr>w_db := d5\<rparr>)"
    by (simp add: sent_def download_bytes_def)
  ultimately show ?thesis using d5(2) by metis
qed

lemma handle_gets_exact:
  assumes "w_conn w = Some c" "open_sock (w_sock w)" "w_faults w = []" "store_ok key (tbl (w_db w))"
    "c_range (s_user s)" "0 < s_user s" "clean_text n" "n \<noteq> []" "length n \<le> 255"
    "R \<in> set (t_paths (tbl (w_db w)))" "wanted key (s_dir s) n 0 R" "p_user R = s_user s"
    "\<forall>r\<in>set (t_paths (tbl (w_db w))). wanted key (s_dir s) n 0 r \<longrightarrow> r = R"
    "F \<in> set (t_files (tbl (w_db w)))" "p_file R = Some (f_id F)"
    "w_fs w (gen_physical_path 512 (f_sha F)) = Some (Regular x)" "length x = f_size F"
  shows "\<exists>d. handle_gets env s (Some n) w = Some (sent (download_bytes n (f_sha F) x) (w\<lparr>w_db := d\<rparr>)) \<and> tbl d = tbl (w_db w)"
proof -
  let ?t = "tbl (w_db w)"
  have ok: "tables_ok key ?t" "t_xfers ?t = []" using assms(4) by (simp_all add: store_ok_def)
  have sz: "f_size F \<le> 2147483647 * BLOCK_SIZE" "length (f_sha F) \<le> 64"
    using assms(4,14) ok(1) by (auto simp: store_ok_def tables_ok_def)
  have "p_parent R = Some (s_dir s)" using assms(11) by (simp add: child_of_def)
  then have "s_dir s \<in> p_id ` set (t_paths ?t)" using ok(1) assms(10) unfolding tables_ok_def by fastforce
  then have dir: "c_range (s_dir s)" "0 < s_dir s" using tables_ok_id_range(2) [OF ok(1)] by auto
  have pid: "0 < p_id R" "c_range (p_id R)" using tables_ok_id_range(2) [OF ok(1) assms(10)] by simp_all
  have ex: "\<exists>r\<in>set (t_paths ?t). wanted key (s_dir s) n 0 r" using assms(10,11) by blast
  obtain q d1 where d1: "dao_find_child_id env (Some c) (s_dir s) (Some n) 0 (w_db w) = Some (q, d1)" "tbl d1 = ?t"
    "\<exists>r\<in>set (t_paths ?t). wanted key (s_dir s) n 0 r \<and> p_id r = q"
    using find_child_exact [OF ok(1) dir assms(7,9), of c 0] unfolding if_P [OF ex] by blast
  then have q: "q = p_id R" using assms(13) by blast
  have ty: "p_type R = CHR ''f''" using assms(11) by simp
  obtain z d2 where d2: "dao_get_file_info env (Some c) (s_user s) (p_id R) d1 = Some (0, Some (f_sha F, z), d2)" "tbl d2 = ?t"
    "unat z = f_size F"
    using file_info_exact [of d1 "s_user s" "p_id R" R F c] assms(5,6,10,12,14,15) ok(1) pid ty d1(2) by auto
  have z: "z = word_of_nat (length x)" unfolding assms(17) d2(3) [symmetric] by simp
  let ?w2 = "w\<lparr>w_db := d2\<rparr>"
  have len: "length x \<le> 2147483647 * BLOCK_SIZE" using sz(1) assms(17) by simp
  obtain d where d: "gets_send env c (p_id R) (Some n) (gen_physical_path 512 (f_sha F)) (f_sha F) z ?w2 =
      Some (sent (download_bytes n (f_sha F) x) (?w2\<lparr>w_db := d\<rparr>))" "tbl d = ?t"
    using gets_send_exact [of ?w2 "gen_physical_path 512 (f_sha F)" x "f_sha F" z "p_id R" c n] assms(2,3,16) sz(2) z len ok(2) d2(2) pid(2)
    by auto
  have "open_read (gen_physical_path 512 (f_sha F)) ?w2 = (True, ?w2)" using assms(3,16) by (simp add: open_read_def)
  with assms(1,8) d1(1) q pid(1) d2(1) d show ?thesis
    by (auto simp: handle_gets_def get_thread_db_conn_def db_call_def Let_def)
qed

end

section \<open>Upload\<close>

lemma sint_word64: "k < 2 ^ 63 \<Longrightarrow> sint (word_of_nat k :: 64 word) = int k"
  by transfer (simp add: signed_take_bit_int_eq_self)

text \<open>The packet with which a client announces a file.\<close>

definition upload_info :: "string \<Rightarrow> string \<Rightarrow> nat \<Rightarrow> file_packet" where
  "upload_info fn h len = (init_file_packet (cmd_code CMD_TYPE_PUTS) (Some fn) (word_of_nat len) 0)\<lparr>fp_hash := h @ [NUL]\<rparr>"

lemma recv_upload_info:
  assumes "NUL \<notin> set fn" "length h = 64" "NUL \<notin> set h" "stream k = bytes_of_file (upload_info fn h len) @ rest"
  shows "\<exists>segs p. recv_file_packet k = (352, Some p, k\<lparr>rx_segs := segs\<rparr>) \<and> concat segs = rest \<and>
    array_string (fp_hash p) = Some h \<and> fp_file_size p = word_of_nat len"
proof -
  let ?p = "upload_info fn h len"
  have wf: "wf_file ?p"
    using assms(2) wf_init_file [of "cmd_code CMD_TYPE_PUTS" "Some fn" "word_of_nat len" 0]
    by (simp add: wf_file_def upload_info_def)
  have l: "sint (fp_data_len ?p) = int (length (take 255 fn))"
    using init_file_Some(2) [OF assms(1), of "cmd_code CMD_TYPE_PUTS" "word_of_nat len" 0] by (simp add: upload_info_def del: cmd_code.simps)
  then have ok: "\<not> (sint (fp_data_len ?p) < 0 \<or> int FILE_NAME_LEN \<le> sint (fp_data_len ?p))" by simp
  obtain segs where "concat segs = rest" "recv_file_packet k =
      (352, Some (?p\<lparr>fp_file_name := (fp_file_name ?p)[FILE_NAME_LEN - 1 := NUL]\<rparr>), k\<lparr>rx_segs := segs\<rparr>)"
    using recv_file_framed [OF assms(4) wf] unfolding if_not_P [OF ok] by blast
  moreover have "array_string (h @ [NUL]) = Some h" using assms(3) cstr_append_nul [OF assms(3), of "[]"] by (simp add: array_string_def)
  ultimately show ?thesis
    by (intro exI [of _ segs] exI [of _ "?p\<lparr>fp_file_name := (fp_file_name ?p)[FILE_NAME_LEN - 1 := NUL]\<rparr>"] conjI)
      (simp_all add: upload_info_def init_file_packet_def Let_def del: cmd_code.simps)
qed

context sql_available begin

text \<open>The two rows of a new file.\<close>

lemma stored_rows:
  assumes "tables_ok key (tbl d)" "usr \<in> u_id ` set (t_users (tbl d))" "par \<in> p_id ` set (t_paths (tbl d))"
    "clean_text n" "length n \<le> 190" "ids_left (map p_id (t_paths (tbl d)))" "ids_left (map f_id (t_files (tbl d)))"
    "\<not> (\<exists>row\<in>set (t_paths (tbl d)). p_parent row = Some par \<and> key (p_name row) = key n)"
    "clean_text h" "length h = 64" "last h \<noteq> CHR '' ''" "unat sz < 2 ^ 63"
    "\<not> (\<exists>f\<in>set (t_files (tbl d)). key (f_sha f) = key h)"
  shows "\<exists>fid d1 pid d2. dao_insert_file env (Some c) (Some h) sz d = (fid, d1) \<and> 0 < fid \<and>
    dao_insert_path env (Some c) usr par (Some n) fid (''/'' @ n) d1 = (pid, d2) \<and> 0 < pid \<and> tables_ok key (tbl d2) \<and>
    tbl d2 = (tbl d)\<lparr>t_files := t_files (tbl d) @ [\<lparr>f_id = fid, f_sha = h, f_size = unat sz\<rparr>],
      t_paths := t_paths (tbl d) @ [new_path usr (Some par) n (''/'' @ n) CHR ''f'' (Some fid) pid]\<rparr>"
proof -
  have r: "c_range usr" "0 < usr" "c_range par" "0 < par"
    using tables_ok_id_range(1,2) [OF assms(1)] assms(2,3) by auto
  have h: "length h \<le> 64" "h = [] \<or> last h \<noteq> CHR '' ''" using assms(10,11) by simp_all
  have "\<not> violates key (Ins_file h (unat sz)) (tbl d)" using assms(7,13) by simp
  then obtain fid d1 where d1: "dao_insert_file env (Some c) (Some h) sz d = (fid, d1)" "tables_ok key (tbl d1)"
    "0 < fid" "c_range fid" "tbl d1 = (tbl d)\<lparr>t_files := t_files (tbl d) @ [\<lparr>f_id = fid, f_sha = h, f_size = unat sz\<rparr>]\<rparr>"
    using insert_file_exact [OF assms(1,9) h assms(12), of c] by blast
  have "\<not> path_violates key (tbl d1) usr (Some par) n (Some fid)"
    using assms(2,3,6,8) d1(5) by (auto simp: path_violates_def)
  then obtain pid d2 where d2: "dao_insert_path env (Some c) usr par (Some n) fid (''/'' @ n) d1 = (pid, d2)"
    "tables_ok key (tbl d2)" "adds_path (tbl d1) (tbl d2) (new_path usr (Some par) n (''/'' @ n) CHR ''f'' (Some fid) pid)"
    using insert_path_exact [OF d1(2) r(1,3) d1(4) r(2,4) d1(3) assms(4,5), of c] by auto
  have "0 < pid" using d2(3) by (simp add: adds_path_def new_path_def)
  moreover have "tbl d2 = (tbl d)\<lparr>t_files := t_files (tbl d) @ [\<lparr>f_id = fid, f_sha = h, f_size = unat sz\<rparr>],
      t_paths := t_paths (tbl d) @ [new_path usr (Some par) n (''/'' @ n) CHR ''f'' (Some fid) pid]\<rparr>"
    using d2(3) d1(5) by (simp add: adds_path_def)
  ultimately show ?thesis using d1(1,3) d2(1,2) by blast
qed

end

text \<open>The reception, once the file is open: the answer, the contents, and what is left of the input.\<close>

lemma puts_receive_open:
  assumes "open_sock (w_sock w)" "w_faults w = []" "0 < length x" "length x < 2 ^ 63" "stream (w_sock w) = x @ rest"
  shows "\<exists>segs. concat segs = rest \<and> puts_receive env c s n fd h (word_of_nat (length x)) w =
    puts_record env c s n h (word_of_nat (length x))
      (sent (bytes_of_file (init_file_packet (cmd_code CMD_TYPE_PUTS) (Some n) (word_of_nat (length x)) 0))
        (w\<lparr>w_fs := (w_fs w)(fd \<mapsto> Regular x), w_sock := (w_sock w)\<lparr>rx_segs := segs\<rparr>\<rparr>))"
proof -
  let ?sz = "word_of_nat (length x) :: 64 word"
  let ?a = "bytes_of_file (init_file_packet (cmd_code CMD_TYPE_PUTS) (Some n) ?sz 0)"
  have z: "sint ?sz = int (length x)" "unat ?sz = length x" using sint_word64 [OF assms(4)] unat_word64 assms(4) by simp_all
  let ?w1 = "sent ?a w"
  have snd: "send_file_packet (w_sock w) (init_file_packet (cmd_code CMD_TYPE_PUTS) (Some n) ?sz 0) = (0, w_sock ?w1)"
    using send_file_open [OF assms(1)] .
  have w1: "w\<lparr>w_sock := w_sock ?w1\<rparr> = ?w1" by (simp add: sent_def)
  let ?w2 = "?w1\<lparr>w_fs := (w_fs w)(fd \<mapsto> Regular (replicate (length x) NUL))\<rparr>"
  have ft: "os_ftruncate fd ?sz ?w1 = (0, ?w2)" using z assms(2) by (simp add: os_ftruncate_def)
  have "length x \<le> length (stream (w_sock ?w2))" using assms(5) by simp
  then obtain segs where ru: "recv_upload (length x) [] (w_sock ?w2) = (x, (w_sock ?w2)\<lparr>rx_segs := segs\<rparr>)" "concat segs = rest"
    using recv_upload_all [of "length x" "w_sock ?w2" "[]"] assms(5) by auto
  have "puts_receive env c s n fd h ?sz w = puts_record env c s n h ?sz
      (?w2\<lparr>w_sock := (w_sock ?w2)\<lparr>rx_segs := segs\<rparr>, w_fs := (w_fs ?w2)(fd \<mapsto> Regular x)\<rparr>)"
    unfolding puts_receive_def snd using ft ru(1) z assms(2) by (simp add: w1 Let_def del: cmd_code.simps)
  moreover have "?w2\<lparr>w_sock := (w_sock ?w2)\<lparr>rx_segs := segs\<rparr>, w_fs := (w_fs ?w2)(fd \<mapsto> Regular x)\<rparr> =
      sent ?a (w\<lparr>w_fs := (w_fs w)(fd \<mapsto> Regular x), w_sock := (w_sock w)\<lparr>rx_segs := segs\<rparr>\<rparr>)"
    by (simp add: sent_def)
  ultimately show ?thesis using ru(2) by metis
qed

text \<open>The same when the input ends early.\<close>

lemma puts_receive_short:
  assumes "open_sock (w_sock w)" "w_faults w = []" "stream (w_sock w) = x" "length x < len" "len < 2 ^ 63"
  shows "\<exists>segs. puts_receive env c s n fd h (word_of_nat len) w =
    sent (bytes_of_file (init_file_packet (cmd_code CMD_TYPE_PUTS) (Some n) (word_of_nat len) 0) @ reply_bytes msg_interrupted)
      (w\<lparr>w_fs := (w_fs w)(fd \<mapsto> Regular (x @ replicate (len - length x) NUL)), w_sock := (w_sock w)\<lparr>rx_segs := segs\<rparr>\<rparr>)"
proof -
  let ?sz = "word_of_nat len :: 64 word"
  let ?a = "bytes_of_file (init_file_packet (cmd_code CMD_TYPE_PUTS) (Some n) ?sz 0)"
  have z: "sint ?sz = int len" "unat ?sz = len" using sint_word64 [OF assms(5)] unat_word64 assms(5) by simp_all
  let ?w1 = "sent ?a w"
  have snd: "send_file_packet (w_sock w) (init_file_packet (cmd_code CMD_TYPE_PUTS) (Some n) ?sz 0) = (0, w_sock ?w1)"
    using send_file_open [OF assms(1)] .
  have w1: "w\<lparr>w_sock := w_sock ?w1\<rparr> = ?w1" by (simp add: sent_def)
  let ?w2 = "?w1\<lparr>w_fs := (w_fs w)(fd \<mapsto> Regular (replicate len NUL))\<rparr>"
  have ft: "os_ftruncate fd ?sz ?w1 = (0, ?w2)" using z assms(2) by (simp add: os_ftruncate_def)
  obtain segs where ru: "recv_upload len [] (w_sock ?w2) = (x, (w_sock ?w2)\<lparr>rx_segs := segs\<rparr>)"
    using recv_upload_short [of "w_sock ?w2" len "[]"] assms(3,4) by auto
  let ?w3 = "?w2\<lparr>w_sock := (w_sock ?w2)\<lparr>rx_segs := segs\<rparr>, w_fs := (w_fs ?w2)(fd \<mapsto> Regular (x @ replicate (len - length x) NUL))\<rparr>"
  have "puts_receive env c s n fd h ?sz w = say msg_interrupted ?w3"
    unfolding puts_receive_def snd using ft ru z assms(2,4) by (simp add: w1 Let_def del: cmd_code.simps)
  also have "\<dots> = sent (reply_bytes msg_interrupted) ?w3"
    using assms(1) by (intro say_open) (simp add: open_sock_def sent_def)
  finally show ?thesis by (intro exI [of _ segs]) (simp add: sent_def del: cmd_code.simps)
qed

end
