(* ===== verification/Client_Laws.thy ===== *)
theory Client_Laws
  imports Client Scenario Transfer_Laws
begin

text \<open>
  What the client's helpers do on a socket that takes everything and files that can be read and
  written (\<open>c_ready\<close>), and the command loop on a list of plain commands.
\<close>

definition c_ready :: "client \<Rightarrow> bool" where
  "c_ready w \<longleftrightarrow> open_sock (c_sock w) \<and> c_faults w = [] \<and> c_caps w = []"

text \<open>The client after it has sent \<open>b\<close>.\<close>

definition c_sent :: "string \<Rightarrow> client \<Rightarrow> client" where
  "c_sent b w = w\<lparr>c_sock := (c_sock w)\<lparr>tx_out := tx_out (c_sock w) @ b\<rparr>\<rparr>"

definition c_left :: "string list \<Rightarrow> client \<Rightarrow> client" where
  "c_left segs w = w\<lparr>c_sock := (c_sock w)\<lparr>rx_segs := segs\<rparr>\<rparr>"

lemma c_sent_simps [simp]:
  "c_fs (c_sent b w) = c_fs w" "c_ready (c_sent b w) = c_ready w" "stream (c_sock (c_sent b w)) = stream (c_sock w)"
  "tx_out (c_sock (c_sent b w)) = tx_out (c_sock w) @ b" "c_stdout (c_sent b w) = c_stdout w" "c_stderr (c_sent b w) = c_stderr w"
  "c_faults (c_sent b w) = c_faults w" "c_caps (c_sent b w) = c_caps w" "open_sock (c_sock (c_sent b w)) = open_sock (c_sock w)"
  by (simp_all add: c_sent_def c_ready_def open_sock_def stream_def)

lemma c_left_simps [simp]:
  "c_fs (c_left segs w) = c_fs w" "c_ready (c_left segs w) = c_ready w" "stream (c_sock (c_left segs w)) = concat segs"
  "tx_out (c_sock (c_left segs w)) = tx_out (c_sock w)" "c_stdout (c_left segs w) = c_stdout w" "c_stderr (c_left segs w) = c_stderr w"
  "c_faults (c_left segs w) = c_faults w" "c_caps (c_left segs w) = c_caps w" "open_sock (c_sock (c_left segs w)) = open_sock (c_sock w)"
  by (simp_all add: c_left_def c_ready_def open_sock_def stream_def)

lemma c_print_simps [simp]:
  "c_fs (c_print s w) = c_fs w" "c_ready (c_print s w) = c_ready w" "c_sock (c_print s w) = c_sock w"
  "c_stdout (c_print s w) = c_stdout w @ s" "c_stderr (c_print s w) = c_stderr w"
  by (simp_all add: c_print_def c_ready_def)

lemma c_ready_fs [simp]: "c_ready (w\<lparr>c_fs := f\<rparr>) = c_ready w"
  by (simp add: c_ready_def)

lemma c_send_file: "open_sock (c_sock w) \<Longrightarrow> send_file_packet (c_sock w) p = (0, c_sock (c_sent (bytes_of_file p) w))"
  by (simp add: send_file_packet_def send_full_open c_sent_def)

lemma c_send_command: "open_sock (c_sock w) \<Longrightarrow> send_command_packet (c_sock w) p = (0, c_sock (c_sent (bytes_of_command p) w))"
  by (simp add: send_command_packet_def send_full_open c_sent_def)

lemma c_sock_eta [simp]: "w\<lparr>c_sock := c_sock (c_sent b w)\<rparr> = c_sent b w" "w\<lparr>c_sock := c_sock (c_left segs w)\<rparr> = c_left segs w"
  by (simp_all add: c_sent_def c_left_def)

section \<open>Local files\<close>

lemma put_at_append: "put_at (pos + length a) b (put_at pos a s) = put_at pos (a @ b) s"
proof -
  define P where "P = take pos s @ replicate (pos - length s) NUL"
  have l: "length P = pos" by (simp add: P_def)
  have e: "put_at pos x s = P @ x @ drop (pos + length x) s" for x by (simp add: put_at_def P_def)
  have "put_at (pos + length a) b (P @ a @ drop (pos + length a) s) = P @ (a @ b) @ drop (pos + length (a @ b)) s"
    using l by (simp add: put_at_def ac_simps)
  then show ?thesis by (simp only: e)
qed

lemma put_at_Nil [simp]: "pos \<le> length s \<Longrightarrow> put_at pos [] s = s"
  by (simp add: put_at_def)

lemma put_at_0 [simp]: "put_at 0 d [] = d"
  by (simp add: put_at_def)

lemma length_put_at: "pos \<le> length s \<Longrightarrow> pos + length d \<le> length (put_at pos d s)"
  by (simp add: put_at_def)

text \<open>However the kernel cuts the writes, \<open>write_file_full\<close> writes the whole buffer or fails after a prefix of it.\<close>

lemma write_loop_spec:
  assumes "write_loop path pos buf k w = (r, w')" "k \<le> length buf" "c_fs w path = Some (Regular (put_at pos (take k buf) s))"
  shows "\<exists>n. n \<le> length buf \<and> (r = 0 \<and> n = length buf \<or> r = - 1 \<and> n < length buf) \<and> c_sock w' = c_sock w \<and>
    c_fs w' = (c_fs w)(path \<mapsto> Regular (put_at pos (take n buf) s))"
  using assms
proof (induction path pos buf k w arbitrary: r w' rule: write_loop.induct)
  case (1 path pos buf k w)
  show ?case
  proof (cases "k < length buf")
    case False
    with "1.prems" show ?thesis by (intro exI [of _ k]) (simp add: write_loop.simps [of path pos buf k w] fun_upd_idem)
  next
    case True
    obtain c w1 where c: "c_cap (length (drop k buf)) w = (c, w1)" by force
    then have w1: "c_fs w1 = c_fs w" "c_sock w1 = c_sock w" "c \<le> int (length (drop k buf))"
      by (auto simp: c_cap_def split: list.splits)
    show ?thesis
    proof (cases "c \<le> 0")
      case neg: True
      then have "write_loop path pos buf k w = (- 1, w1)" using True c by (simp add: write_loop.simps [of path pos buf k w] c_write_def)
      with "1.prems" True w1 show ?thesis by (intro exI [of _ k]) (simp add: fun_upd_idem)
    next
      case pos: False
      let ?w2 = "w1\<lparr>c_fs := (c_fs w1)(path \<mapsto> Regular (put_at (pos + k) (take (nat c) (drop k buf)) (content_of (c_fs w1) path)))\<rparr>"
      have wr: "c_write path (pos + k) (drop k buf) w = (c, ?w2)" using c pos by (simp add: c_write_def)
      then have eq: "write_loop path pos buf (k + nat c) ?w2 = (r, w')"
        using "1.prems"(1) True pos by (simp add: write_loop.simps [of path pos buf k w])
      have k: "k + nat c \<le> length buf" using w1(3) pos True by simp
      have "put_at (pos + k) (take (nat c) (drop k buf)) (put_at pos (take k buf) s) = put_at pos (take k buf @ take (nat c) (drop k buf)) s"
        using put_at_append [of pos "take k buf"] True by simp
      then have "c_fs ?w2 path = Some (Regular (put_at pos (take (k + nat c) buf) s))"
        using "1.prems"(3) w1(1) by (simp add: content_of_def take_add)
      from "1.IH" [OF True wr [symmetric] pos eq k this] show ?thesis using w1 by (auto simp del: fun_upd_apply)
    qed
  qed
qed

lemma write_file_full_ready:
  assumes "c_caps w = []" "c_fs w path = Some (Regular s)" "buf \<noteq> []"
  shows "write_file_full path pos buf w = (0, w\<lparr>c_fs := (c_fs w)(path \<mapsto> Regular (put_at pos buf s))\<rparr>)"
  using assms
  by (simp add: write_file_full_def write_loop.simps [of path pos buf 0] write_loop.simps [of path pos buf "length buf"]
      c_write_def c_cap_def content_of_def)

section \<open>Transfers\<close>

lemma client_gets_loop_ready:
  assumes "c_ready w" "stream (c_sock w) = y @ rest" "c_fs w path = Some (Regular s)" "pos \<le> length s"
  shows "\<exists>segs. client_gets_loop path pos (length y) w =
    (Received, c_left segs (w\<lparr>c_fs := (c_fs w)(path \<mapsto> Regular (put_at pos y s))\<rparr>)) \<and> concat segs = rest"
  using assms
proof (induction "length y" arbitrary: y pos s w rule: less_induct)
  case less
  show ?case
  proof (cases "y = []")
    case True
    then show ?thesis using less.prems
      by (intro exI [of _ "rx_segs (c_sock w)"]) (simp add: client_gets_loop.simps c_left_def stream_def fun_upd_idem)
  next
    case False
    define n where "n = (if length y < CLIENT_BUFFER_SIZE then length y else CLIENT_BUFFER_SIZE)"
    have n: "0 < n" "n \<le> length y" using False by (auto simp: n_def CLIENT_BUFFER_SIZE_def)
    let ?a = "take n y" and ?b = "drop n y"
    have st: "stream (c_sock w) = ?a @ ?b @ rest" and la: "length ?a = n" using less.prems(2) n by simp_all
    obtain segs1 where r: "recv_full (c_sock w) n = (int n, ?a, (c_sock w)\<lparr>rx_segs := segs1\<rparr>)" "concat segs1 = ?b @ rest"
      using recv_full_ok [OF st, unfolded la] n(1) by blast
    let ?w1 = "c_left segs1 w"
    let ?w2 = "?w1\<lparr>c_fs := (c_fs w)(path \<mapsto> Regular (put_at pos ?a s))\<rparr>"
    have wf: "write_file_full path pos ?a ?w1 = (0, ?w2)"
      using write_file_full_ready [of ?w1 path s ?a pos] less.prems(1,3) n False by (auto simp: c_ready_def)
    have step: "client_gets_loop path pos (length y) w = client_gets_loop path (pos + n) (length ?b) ?w2"
      using False r(1) n(1) wf
      by (simp add: client_gets_loop.simps [of path pos "length y" w] n_def [symmetric] Let_def c_left_def)
    have sm: "length ?b < length y" using n by simp
    have "c_ready ?w2" "stream (c_sock ?w2) = ?b @ rest" "c_fs ?w2 path = Some (Regular (put_at pos ?a s))"
      "pos + n \<le> length (put_at pos ?a s)"
      using less.prems(1,4) r(2) length_put_at [OF less.prems(4), of ?a] la by simp_all
    from less.hyps [OF sm this] obtain segs where "client_gets_loop path (pos + n) (length ?b) ?w2 =
      (Received, c_left segs (?w2\<lparr>c_fs := (c_fs ?w2)(path \<mapsto> Regular (put_at (pos + n) ?b (put_at pos ?a s)))\<rparr>))" "concat segs = rest"
      by blast
    moreover have "put_at (pos + n) ?b (put_at pos ?a s) = put_at pos y s" using put_at_append [of pos ?a ?b s] la by simp
    ultimately show ?thesis using step by (intro exI [of _ segs]) (simp add: c_left_def)
  qed
qed

lemma client_puts_loop_ready:
  assumes "c_ready w" "c_fs w arg = Some (Regular x)" "pos \<le> length x"
  shows "client_puts_loop arg pos (int (length x - pos)) w = (False, c_sent (drop pos x) w)"
  using assms
proof (induction "length x - pos" arbitrary: pos w rule: less_induct)
  case less
  show ?case
  proof (cases "pos = length x")
    case True
    then show ?thesis by (simp add: client_puts_loop.simps c_sent_def)
  next
    case False
    define n where "n = (if length x - pos < CLIENT_BUFFER_SIZE then length x - pos else CLIENT_BUFFER_SIZE)"
    have n: "0 < n" "pos + n \<le> length x" using False less.prems(3) by (auto simp: n_def CLIENT_BUFFER_SIZE_def)
    have once: "(if int (length x - pos) < int CLIENT_BUFFER_SIZE then nat (int (length x - pos)) else CLIENT_BUFFER_SIZE) = n"
      by (simp add: n_def)
    let ?a = "take n (drop pos x)"
    have rd: "c_read arg pos n w = (int n, ?a, w)" using less.prems(1,2) n(2) by (simp add: c_read_def c_cap_def c_ready_def)
    have snd: "send_full (c_sock w) ?a = (0, c_sock (c_sent ?a w))" using less.prems(1) by (simp add: c_ready_def send_full_open c_sent_def)
    have pos: "int (length x - pos) > 0" using False less.prems(3) by simp
    have step: "client_puts_loop arg pos (int (length x - pos)) w = client_puts_loop arg (pos + n) (int (length x - (pos + n))) (c_sent ?a w)"
      using pos n unfolding client_puts_loop.simps [of arg pos "int (length x - pos)" w] once Let_def
      by (simp add: rd snd algebra_simps of_nat_diff)
    have "length x - (pos + n) < length x - pos" using n by simp
    from less.hyps [OF this] less.prems n(2)
    have "client_puts_loop arg (pos + n) (int (length x - (pos + n))) (c_sent ?a w) = (False, c_sent (drop (pos + n) x) (c_sent ?a w))" by simp
    moreover have "?a @ drop (pos + n) x = drop pos x" by (metis append_take_drop_id drop_drop add.commute)
    ultimately show ?thesis using step by (simp add: c_sent_def)
  qed
qed

lemma recv_server_reply_ok:
  assumes "stream (c_sock w) = reply_bytes m @ rest" "NUL \<notin> set m" "length m \<le> 255"
  shows "\<exists>segs. recv_server_reply w = c_print (m @ [CHR 0x0A]) (c_left segs w) \<and> concat segs = rest"
proof -
  let ?p = "init_command_packet (cmd_code CMD_TYPE_REPLY) (Some m)"
  have p: "packet_ok ?p" "argument ?p = m" using packet_ok_init [OF assms(2)] assms(3) by simp_all
  then have "wf_command ?p" by (simp add: packet_ok_def)
  from recv_command_framed [OF assms(1) [unfolded reply_bytes_def] this] p(1) obtain segs where
    "concat segs = rest" "recv_command_packet (c_sock w) = (264, Some (terminated ?p), (c_sock w)\<lparr>rx_segs := segs\<rparr>)"
    unfolding packet_ok_def terminated_def by (metis not_le)
  then show ?thesis using p(2) by (intro exI [of _ segs]) (simp add: recv_server_reply_def argument_def c_left_def)
qed

section \<open>What is typed\<close>

definition is_word :: "string \<Rightarrow> bool" where
  "is_word s \<longleftrightarrow> s \<noteq> [] \<and> (\<forall>c\<in>set s. \<not> is_space c)"

lemma scan_word_word:
  assumes "is_word a" "length a \<le> n" "rest = [] \<or> is_space (hd rest)"
  shows "scan_word n (a @ rest) = (a, rest)"
proof -
  have "dropWhile is_space (a @ rest) = a @ rest" using assms(1) by (cases a) (auto simp: is_word_def)
  moreover have "takeWhile (\<lambda>c. \<not> is_space c) (a @ rest) = a"
    using assms(1,3) by (cases rest) (auto simp: is_word_def takeWhile_append)
  ultimately show ?thesis using assms(2) by (simp add: scan_word_def)
qed

lemma scan_command_two:
  assumes "is_word a" "length a \<le> 99" "is_word b" "length b \<le> 199"
  shows "scan_command (a @ CHR '' '' # b) = (a, b)"
proof -
  have "is_space CHR '' ''" by (simp add: is_space_def)
  then have "scan_word 99 (a @ CHR '' '' # b) = (a, CHR '' '' # b)" using scan_word_word [OF assms(1,2)] by simp
  moreover have "scan_word 199 (CHR '' '' # b) = scan_word 199 b" by (simp add: scan_word_def is_space_def)
  moreover have "scan_word 199 b = (b, [])" using scan_word_word [OF assms(3,4), of "[]"] by simp
  ultimately show ?thesis by (simp add: scan_command_def)
qed

lemma scan_command_one: "is_word a \<Longrightarrow> length a \<le> 99 \<Longrightarrow> scan_command a = (a, [])"
  using scan_word_word [of a 99 "[]"] by (simp add: scan_command_def scan_word_def)

text \<open>A line the client turns into one command packet.\<close>

definition plain_line :: "string \<Rightarrow> cmd_type \<Rightarrow> string \<Rightarrow> bool" where
  "plain_line l t arg \<longleftrightarrow> CHR 0x0A \<notin> set l \<and> NUL \<notin> set l \<and> length l \<le> 510 \<and>
     l \<noteq> ''quit'' \<and> l \<noteq> ''exit'' \<and> t \<notin> {CMD_TYPE_INVALID, CMD_TYPE_GETS, CMD_TYPE_PUTS} \<and>
     (\<exists>cmd. scan_command l = (cmd, arg) \<and> get_cmd_type (Some cmd) = t \<and> (arg = [] \<longrightarrow> cmd \<notin> {''cd'', ''rm'', ''mkdir''}))"

lemma plain_line_nonempty: "plain_line l t arg \<Longrightarrow> l \<noteq> []"
  by (auto simp: plain_line_def scan_command_def scan_word_def get_cmd_type_def)

lemma process_plain:
  assumes "plain_line l t arg" "c_ready w" "stream (c_sock w) = reply_bytes m @ rest" "NUL \<notin> set m" "length m \<le> 255"
  shows "\<exists>segs. process_command env l w = c_print (m @ [CHR 0x0A]) (c_left segs (c_sent (bytes_of_command (request t arg)) w)) \<and> concat segs = rest"
proof -
  obtain cmd where cmd: "scan_command l = (cmd, arg)" "get_cmd_type (Some cmd) = t" "arg = [] \<longrightarrow> cmd \<notin> {''cd'', ''rm'', ''mkdir''}"
    "t \<notin> {CMD_TYPE_INVALID, CMD_TYPE_GETS, CMD_TYPE_PUTS}"
    using assms(1) unfolding plain_line_def by blast
  have known: "get_cmd_type (Some ''gets'') = CMD_TYPE_GETS" "get_cmd_type (Some ''puts'') = CMD_TYPE_PUTS"
    by (simp_all add: get_cmd_type_def)
  have no: "cmd \<noteq> ''gets''" "cmd \<noteq> ''puts''" using cmd(2,4) known by blast+
  have "open_sock (c_sock w)" using assms(2) by (simp add: c_ready_def)
  note send = c_send_command [OF this]
  have "\<not> ((cmd = ''cd'' \<or> cmd = ''rm'' \<or> cmd = ''mkdir'') \<and> arg = [])" using cmd(3) by blast
  moreover have "t \<noteq> CMD_TYPE_INVALID" "t \<noteq> CMD_TYPE_GETS" "t \<noteq> CMD_TYPE_PUTS" using cmd(4) by blast+
  ultimately have "process_command env l w = recv_server_reply (c_sent (bytes_of_command (request t arg)) w)"
    unfolding process_command_def cmd(1) prod.case Let_def cmd(2) using no
    by (simp only: prod.case send c_sock_eta simp_thms if_False) simp
  then show ?thesis using recv_server_reply_ok [OF _ assms(4,5), of "c_sent (bytes_of_command (request t arg)) w" rest] assms(3) by simp
qed

text \<open>A list of such lines, each with its answer, and \<open>quit\<close>.\<close>

definition typed_lines :: "(string \<times> cmd_type \<times> string \<times> string) list \<Rightarrow> string" where
  "typed_lines xs = concat (map (\<lambda>(l, t, a, m). l @ [CHR 0x0A]) xs) @ ''quit'' @ [CHR 0x0A]"

lemma client_loop_line:
  assumes "CHR 0x0A \<notin> set l" "NUL \<notin> set l" "length l \<le> 510"
  shows "client_loop env (l @ CHR 0x0A # rest) w =
    (if l = ''quit'' \<or> l = ''exit'' then c_print txt_bye (c_print ''> '' w)
     else if l = [] then client_loop env rest (c_print ''> '' w)
     else client_loop env rest (process_command env l (c_print ''> '' w)))"
proof -
  have "fgets_chunk 511 (l @ CHR 0x0A # rest) = (l @ [CHR 0x0A], rest)" using assms(1,3) by (intro fgets_chunk_line) auto
  moreover have "cstr (l @ [CHR 0x0A]) = l @ [CHR 0x0A]" using assms(2) by (intro cstr_id) simp
  moreover have "takeWhile (\<lambda>c. c \<noteq> CHR 0x0A) (l @ [CHR 0x0A]) = l" using assms(1) by (induction l) auto
  ultimately show ?thesis by (simp add: client_loop.simps [of env "l @ CHR 0x0A # rest" w] Let_def)
qed

lemma client_lines:
  assumes "\<forall>(l, t, a, m)\<in>set xs. plain_line l t a \<and> NUL \<notin> set m \<and> length m \<le> 255" "c_ready w"
    "stream (c_sock w) = concat (map (\<lambda>(l, t, a, m). reply_bytes m) xs)"
  shows "\<exists>w'. client_loop env (typed_lines xs) w = w' \<and> c_fs w' = c_fs w \<and>
    tx_out (c_sock w') = tx_out (c_sock w) @ concat (map (\<lambda>(l, t, a, m). bytes_of_command (request t a)) xs) \<and>
    c_stdout w' = c_stdout w @ concat (map (\<lambda>(l, t, a, m). ''> '' @ m @ [CHR 0x0A]) xs) @ ''> '' @ txt_bye"
  using assms
proof (induction xs arbitrary: w)
  case Nil
  have "client_loop env (typed_lines []) w = c_print txt_bye (c_print ''> '' w)"
    using client_loop_line [of "''quit''" env "[]" w] by (simp add: typed_lines_def)
  then show ?case by simp
next
  case (Cons x xs)
  obtain l t a m where x: "x = (l, t, a, m)" by (cases x) auto
  have pl: "plain_line l t a" "NUL \<notin> set m" "length m \<le> 255" using Cons.prems(1) x by simp_all
  have l: "CHR 0x0A \<notin> set l" "NUL \<notin> set l" "length l \<le> 510" "l \<noteq> ''quit''" "l \<noteq> ''exit''" "l \<noteq> []"
    using pl(1) plain_line_nonempty [OF pl(1)] by (simp_all add: plain_line_def)
  let ?w1 = "c_print ''> '' w"
  have st: "c_ready ?w1" "stream (c_sock ?w1) = reply_bytes m @ concat (map (\<lambda>(l, t, a, m). reply_bytes m) xs)"
    using Cons.prems(2,3) x by simp_all
  obtain segs where p: "process_command env l ?w1 = c_print (m @ [CHR 0x0A]) (c_left segs (c_sent (bytes_of_command (request t a)) ?w1))"
    "concat segs = concat (map (\<lambda>(l, t, a, m). reply_bytes m) xs)"
    using process_plain [OF pl(1) st pl(2,3)] by blast
  let ?w2 = "c_print (m @ [CHR 0x0A]) (c_left segs (c_sent (bytes_of_command (request t a)) ?w1))"
  have step: "client_loop env (typed_lines (x # xs)) w = client_loop env (typed_lines xs) ?w2"
    using client_loop_line [OF l(1-3), of env "typed_lines xs" w] l(4-6) p(1) by (simp add: typed_lines_def x)
  have "c_ready ?w2" "stream (c_sock ?w2) = concat (map (\<lambda>(l, t, a, m). reply_bytes m) xs)" using Cons.prems(2) p(2) by simp_all
  from Cons.IH [OF _ this] Cons.prems(1) show ?case unfolding step by (simp add: x)
qed

end
