(* ===== verification/Client_Transfer.thy ===== *)
theory Client_Transfer
  imports Client_Laws
begin

text \<open>The client's \<open>puts\<close> and \<open>gets\<close> from end to end, on a socket and files that work.\<close>

lemma digest_field: "length h = 64 \<Longrightarrow> strncpy_zeroed HASH_LEN (HASH_LEN - 1) h = h @ [NUL]"
  by (simp add: strncpy_zeroed_def)

lemma recv_answer_packet:
  assumes "stream k = bytes_of_file (p\<lparr>fp_hash := hh, fp_offset := off\<rparr>) @ rest" "p = init_file_packet t (Some n) sz off0" "NUL \<notin> set n" "length hh = HASH_LEN"
  shows "\<exists>segs q. recv_file_packet k = (352, Some q, k\<lparr>rx_segs := segs\<rparr>) \<and> concat segs = rest \<and> fp_file_size q = sz \<and> fp_offset q = off"
proof -
  let ?q = "p\<lparr>fp_hash := hh, fp_offset := off\<rparr>"
  have wf: "wf_file ?q" using wf_init_file [of t "Some n" sz off0] assms(2,4) by (simp add: wf_file_def)
  have "sint (fp_data_len ?q) = int (length (take 255 n))" using init_file_Some(2) [OF assms(3), of t sz off0] assms(2) by simp
  then have ok: "\<not> (sint (fp_data_len ?q) < 0 \<or> int FILE_NAME_LEN \<le> sint (fp_data_len ?q))" by simp
  obtain segs where segs: "concat segs = rest" "recv_file_packet k =
      (352, Some (?q\<lparr>fp_file_name := (fp_file_name ?q)[FILE_NAME_LEN - 1 := NUL]\<rparr>), k\<lparr>rx_segs := segs\<rparr>)"
    using recv_file_framed [OF assms(1) wf] unfolding if_not_P [OF ok] by blast
  have "fp_file_size p = sz" by (simp add: assms(2) init_file_packet_def Let_def)
  with segs show ?thesis
    by (intro exI [of _ segs] exI [of _ "?q\<lparr>fp_file_name := (fp_file_name ?q)[FILE_NAME_LEN - 1 := NUL]\<rparr>"]) simp
qed

section \<open>Upload\<close>

text \<open>The client has announced its file.\<close>

lemma client_puts_announces:
  assumes "c_ready w" "c_fs w arg = Some (Regular x)"
    "env_popen (ce_sha env) (sha_command arg) x = Some (Some (h @ r))" "length h = 64" "NUL \<notin> set h"
  shows "client_puts env arg w = client_puts_file arg (int (length x))
    (c_sent (bytes_of_command (request CMD_TYPE_PUTS arg) @ bytes_of_file (upload_info arg h (length x))) w)"
proof -
  have rd: "open_sock (c_sock w)" "c_faults w = []" using assms(1) by (simp_all add: c_ready_def)
  let ?b1 = "bytes_of_command (request CMD_TYPE_PUTS arg)" and ?b2 = "bytes_of_file (upload_info arg h (length x))"
  let ?w1 = "c_sent ?b1 w"
  let ?w2 = "c_sent ?b2 ?w1"
  have o: "c_open_read arg w = (True, w)" using assms(2) rd(2) by (simp add: c_open_read_def c_answer_def)
  have st: "c_stat env arg w = (Some (length x), w)" using assms(2) rd(2) by (simp add: c_stat_def c_answer_def)
  have sha: "get_file_sha256 (ce_sha env) arg (content_of (c_fs ?w1) arg) = (0, Some h)"
    using assms(2,3) cstr_take_prefix [OF assms(5,4)] by (simp add: get_file_sha256_def content_of_def)
  have s1: "send_command_packet (c_sock w) (request CMD_TYPE_PUTS arg) = (0, c_sock ?w1)" by (rule c_send_command [OF rd(1)])
  have s2: "send_file_packet (c_sock ?w1) (upload_info arg h (length x)) = (0, c_sock ?w2)" by (rule c_send_file) (simp add: rd(1))
  have up: "(init_file_packet (cmd_code CMD_TYPE_PUTS) (Some arg) (word_of_nat (length x)) 0)
      \<lparr>fp_hash := strncpy_zeroed HASH_LEN (HASH_LEN - 1) h\<rparr> = upload_info arg h (length x)"
    unfolding upload_info_def digest_field [OF assms(4)] ..
  have "?w2 = c_sent (?b1 @ ?b2) w" by (simp add: c_sent_def)
  moreover have "client_puts env arg w = client_puts_file arg (int (length x)) ?w2"
    unfolding client_puts_def o st Let_def prod.case option.case bool.case s1 c_sock_eta sha up s2
    by (simp del: HASH_LEN_def)
  ultimately show ?thesis by simp
qed

lemma client_puts_ready:
  assumes "c_ready w" "c_fs w arg = Some (Regular x)" "length x < 2 ^ 63" "NUL \<notin> set n"
    "env_popen (ce_sha env) (sha_command arg) x = Some (Some (h @ r))" "length h = 64" "NUL \<notin> set h"
    "stream (c_sock w) = bytes_of_file (init_file_packet (cmd_code CMD_TYPE_PUTS) (Some n) sz 0) @ reply_bytes m @ rest"
    "NUL \<notin> set m" "length m \<le> 255"
  shows "\<exists>segs. client_puts env arg w = c_print (m @ [CHR 0x0A]) (c_left segs (c_sent
      (bytes_of_command (request CMD_TYPE_PUTS arg) @ bytes_of_file (upload_info arg h (length x)) @ x) w)) \<and> concat segs = rest"
proof -
  let ?w2 = "c_sent (bytes_of_command (request CMD_TYPE_PUTS arg) @ bytes_of_file (upload_info arg h (length x))) w"
  note a = client_puts_announces [OF assms(1,2,5-7)]
  have P: "(init_file_packet (cmd_code CMD_TYPE_PUTS) (Some n) sz 0)\<lparr>fp_hash := replicate HASH_LEN NUL, fp_offset := 0\<rparr> =
      init_file_packet (cmd_code CMD_TYPE_PUTS) (Some n) sz 0"
    by (simp add: init_file_packet_def Let_def del: cmd_code.simps HASH_LEN_def FILE_NAME_LEN_def)
  have "stream (c_sock ?w2) = bytes_of_file ((init_file_packet (cmd_code CMD_TYPE_PUTS) (Some n) sz 0)
      \<lparr>fp_hash := replicate HASH_LEN NUL, fp_offset := 0\<rparr>) @ reply_bytes m @ rest"
    unfolding P using assms(8) by simp
  from recv_answer_packet [OF this refl assms(4) length_replicate] obtain segs1 q where
    q: "recv_file_packet (c_sock ?w2) = (352, Some q, (c_sock ?w2)\<lparr>rx_segs := segs1\<rparr>)" "concat segs1 = reply_bytes m @ rest" "fp_offset q = 0"
    by blast
  let ?w3 = "c_left segs1 ?w2"
  have w3: "?w2\<lparr>c_sock := (c_sock ?w2)\<lparr>rx_segs := segs1\<rparr>\<rparr> = ?w3" by (simp add: c_left_def)
  have "client_puts_loop arg 0 (int (length x)) ?w3 = (False, c_sent x ?w3)"
    using client_puts_loop_ready [of ?w3 arg x 0] assms(1,2) by simp
  then have b: "client_puts_file arg (int (length x)) ?w2 = recv_server_reply (c_sent x ?w3)"
    unfolding client_puts_file_def q(1) Let_def prod.case w3 by (simp add: q(3))
  have "stream (c_sock (c_sent x ?w3)) = reply_bytes m @ rest" using q(2) by simp
  from recv_server_reply_ok [OF this assms(9,10)] obtain segs where
    "recv_server_reply (c_sent x ?w3) = c_print (m @ [CHR 0x0A]) (c_left segs (c_sent x ?w3))" "concat segs = rest" by blast
  then show ?thesis unfolding a b by (intro exI [of _ segs]) (simp add: c_left_def c_sent_def)
qed

section \<open>Download\<close>

lemma c_dir_of_download: "CHR ''/'' \<notin> set n \<Longrightarrow> c_dir_of (''./downloads/'' @ n) = ''./downloads''"
proof -
  assume "CHR ''/'' \<notin> set n"
  then have "dropWhile (\<lambda>c. c \<noteq> CHR ''/'') (rev n @ rev ''./downloads/'') = dropWhile (\<lambda>c. c \<noteq> CHR ''/'') (rev ''./downloads/'')"
    by (intro dropWhile_append2) auto
  then show ?thesis by (simp add: c_dir_of_def)
qed

text \<open>A file that is not there yet is received from its beginning, as many bytes as announced, whatever
  bytes they are.\<close>

lemma client_gets_ready:
  assumes "c_ready w" "c_fs w n = None" "c_fs w ''./downloads'' = Some Directory" "c_fs w (''./downloads/'' @ n) \<noteq> Some Directory"
    "NUL \<notin> set n" "CHR ''/'' \<notin> set n" "length n \<le> 199" "y \<noteq> []" "length y < 2 ^ 63" "length h \<le> 64"
    "stream (c_sock w) = bytes_of_file (gets_header n h (length y)) @ y @ rest"
  shows "\<exists>segs. client_gets env n w = c_print (txt_gets_done @ n @ '' ('' @ int_to_dec (int (length y)) @ txt_bytes)
      (c_left segs (c_sent (bytes_of_command (request CMD_TYPE_GETS n) @
         bytes_of_file (init_file_packet (cmd_code CMD_TYPE_GETS) (Some n) (word_of_nat (length y)) 0))
        (w\<lparr>c_fs := (c_fs w)(''./downloads/'' @ n \<mapsto> Regular y)\<rparr>))) \<and> concat segs = rest"
proof -
  have rd: "open_sock (c_sock w)" "c_faults w = []" using assms(1) by (simp_all add: c_ready_def)
  let ?b1 = "bytes_of_command (request CMD_TYPE_GETS n)"
  let ?b2 = "bytes_of_file (init_file_packet (cmd_code CMD_TYPE_GETS) (Some n) (word_of_nat (length y)) 0)"
  define p where "p = ''./downloads/'' @ n"
  let ?w1 = "c_sent ?b1 w"
  have s1: "send_command_packet (c_sock w) (request CMD_TYPE_GETS n) = (0, c_sock ?w1)" by (rule c_send_command [OF rd(1)])
  have "length (h @ replicate (HASH_LEN - length h) NUL) = HASH_LEN" using assms(10) by simp
  moreover have "stream (c_sock ?w1) = bytes_of_file ((init_file_packet (cmd_code CMD_TYPE_GETS) (Some n) (word_of_nat (length y)) 0)
     \<lparr>fp_hash := h @ replicate (HASH_LEN - length h) NUL, fp_offset := word_of_nat (block_count (length y))\<rparr>) @ y @ rest"
    using assms(11) by (simp add: gets_header_def)
  ultimately obtain segs1 q where q: "recv_file_packet (c_sock ?w1) = (352, Some q, (c_sock ?w1)\<lparr>rx_segs := segs1\<rparr>)"
    "concat segs1 = y @ rest" "fp_file_size q = word_of_nat (length y)"
    using recv_answer_packet [OF _ refl assms(5)] by blast
  let ?w2 = "c_left segs1 ?w1"
  let ?w3 = "c_sent ?b2 ?w2"
  have w2: "w\<lparr>c_sock := (c_sock ?w1)\<lparr>rx_segs := segs1\<rparr>\<rparr> = ?w2" by (simp add: c_left_def c_sent_def)
  have sz: "sint (fp_file_size q) = int (length y)" unfolding q(3) by (rule sint_word64 [OF assms(9)])
  have st: "c_stat env n ?w2 = (None, ?w2)" using assms(2) by (simp add: c_stat_def)
  have off: "request_offset None (int (length y)) = 0" using assms(8) by (simp add: request_offset_def)
  have s2: "send_file_packet (c_sock ?w2) (init_file_packet (cmd_code CMD_TYPE_GETS) (Some n) (fp_file_size q) 0) = (0, c_sock ?w3)"
    unfolding q(3) using c_send_file [of ?w2] rd(1) by simp
  have dp: "download_path n = p" using assms(7) by (simp add: p_def download_path_def snprintf_str_def)
  define w4 where "w4 = (if c_fs ?w3 p = None then ?w3\<lparr>c_fs := (c_fs ?w3)(p \<mapsto> Regular [])\<rparr> else ?w3)"
  have o: "c_open_write p ?w3 = (True, w4)"
    using assms(3,4) rd(2) c_dir_of_download [OF assms(6)] by (simp add: c_open_write_def c_answer_def w4_def p_def)
  have a: "client_gets env n w = client_gets_file n p (int (length y)) 0 w4"
    unfolding client_gets_def s1 prod.case q(1) Let_def w2 by (simp add: sz st off s2 dp o del: cmd_code.simps)
  have w4: "c_ready w4" "stream (c_sock w4) = y @ rest" using assms(1) q(2) by (simp_all add: w4_def)
  let ?w5 = "w4\<lparr>c_fs := (c_fs w4)(p \<mapsto> Regular [])\<rparr>"
  have t: "c_truncate p w4 = (True, ?w5)" using w4(1) by (simp add: c_truncate_def c_answer_def c_ready_def)
  obtain segs where l: "client_gets_loop p 0 (length y) ?w5 =
      (Received, c_left segs (?w5\<lparr>c_fs := (c_fs ?w5)(p \<mapsto> Regular (put_at 0 y []))\<rparr>))" "concat segs = rest"
    using client_gets_loop_ready [of ?w5 y rest p "[]" 0] w4 by auto
  have "?w5\<lparr>c_fs := (c_fs ?w5)(p \<mapsto> Regular (put_at 0 y []))\<rparr> = ?w3\<lparr>c_fs := (c_fs w)(p \<mapsto> Regular y)\<rparr>"
    by (simp add: w4_def)
  with l t have b: "client_gets_file n p (int (length y)) 0 w4 =
      c_print (txt_gets_done @ n @ '' ('' @ int_to_dec (int (length y)) @ txt_bytes) (c_left segs (?w3\<lparr>c_fs := (c_fs w)(p \<mapsto> Regular y)\<rparr>))"
    by (simp add: client_gets_file_def)
  show ?thesis unfolding a b p_def [symmetric] using l(2) by (intro exI [of _ segs]) (simp add: c_left_def c_sent_def)
qed

end
