(* ===== verification/Transfer_Props.thy ===== *)
theory Transfer_Props
  imports Transfer_Laws
begin

text \<open>Properties of uploads and downloads (\<open>src/server/file_transfer.c\<close>).\<close>

section \<open>Upload and download\<close>

context sql_available begin

text \<open>A new file that can be created is opened, and its reception begins.\<close>

lemma puts_reaches:
  assumes "w_conn w = Some c" "w_faults w = []" "tables_ok key (tbl (w_db w))"
    "w_fs w STORAGE_DIR \<in> {None, Some Directory}" "w_fs w (STORAGE_DIR @ ''/'' @ h) \<noteq> Some Directory" "n \<noteq> []"
    "clean_text h" "length h = 64"
    "dir_of (STORAGE_DIR @ ''/'' @ h) = STORAGE_DIR \<or> w_fs w (dir_of (STORAGE_DIR @ ''/'' @ h)) = Some Directory"
    "\<not> (\<exists>f\<in>set (t_files (tbl (w_db w))). key (f_sha f) = key h)" "0 < len" "len < 2 ^ 63" "NUL \<notin> set fn"
    "stream (w_sock w) = bytes_of_file (upload_info fn h len) @ rest"
  shows "\<exists>d1 segs. handle_puts env s (Some n) w = Some (puts_receive env c s n (STORAGE_DIR @ ''/'' @ h) h (word_of_nat len)
      (w\<lparr>w_db := d1, w_fs := (w_fs w)(STORAGE_DIR \<mapsto> Directory, STORAGE_DIR @ ''/'' @ h \<mapsto> Regular []),
        w_sock := (w_sock w)\<lparr>rx_segs := segs\<rparr>\<rparr>)) \<and> concat segs = rest \<and> tbl d1 = tbl (w_db w)"
proof -
  let ?p = "STORAGE_DIR @ ''/'' @ h"
  have z: "(word_of_nat len :: 64 word) \<noteq> 0" using unat_word64 [of len] assms(11,12) by auto
  let ?w1 = "w\<lparr>w_fs := (w_fs w)(STORAGE_DIR \<mapsto> Directory)\<rparr>"
  have e: "ensure_storage_dir w = (0, ?w1)" by (rule ensure_storage_ok [OF assms(2,4)])
  have nul: "NUL \<notin> set h" using assms(7) by (simp add: clean_text_def)
  obtain segs pk where rc: "recv_file_packet (w_sock w) = (352, Some pk, (w_sock w)\<lparr>rx_segs := segs\<rparr>)" "concat segs = rest"
    "array_string (fp_hash pk) = Some h" "fp_file_size pk = word_of_nat len"
    using recv_upload_info [OF assms(13,8) nul assms(14)] by blast
  obtain d1 where d1: "dao_find_file_by_hash env (Some c) (Some h) (w_db w) = Some (- 1, d1)" "tbl d1 = tbl (w_db w)"
    using find_file_exact [OF assms(3,7), of c] assms(8) unfolding if_not_P [OF assms(10)] by auto
  let ?w3 = "?w1\<lparr>w_sock := (w_sock w)\<lparr>rx_segs := segs\<rparr>, w_db := d1\<rparr>"
  have ph: "gen_physical_path 512 h = ?p" using physical_path assms(8) by simp
  have ne: "?p \<noteq> STORAGE_DIR" by (simp add: STORAGE_DIR_def)
  have ot: "open_trunc ?p ?w3 = (True, ?w3\<lparr>w_fs := (w_fs ?w3)(?p \<mapsto> Regular [])\<rparr>)"
    using assms(2,5,9) ne by (intro open_trunc_ok) auto
  have "handle_puts env s (Some n) w = Some (puts_receive env c s n ?p h (word_of_nat len) (?w3\<lparr>w_fs := (w_fs ?w3)(?p \<mapsto> Regular [])\<rparr>))"
    using assms(1,6,8) z ot unfolding handle_puts_def e by (simp add: get_thread_db_conn_def rc Let_def ph d1(1) db_call_def)
  moreover have "?w3\<lparr>w_fs := (w_fs ?w3)(?p \<mapsto> Regular [])\<rparr> =
      w\<lparr>w_db := d1, w_fs := (w_fs w)(STORAGE_DIR \<mapsto> Directory, ?p \<mapsto> Regular []), w_sock := (w_sock w)\<lparr>rx_segs := segs\<rparr>\<rparr>"
    by (rule world.equality) simp_all
  ultimately show ?thesis using rc(2) d1(2) by metis
qed

lemma handle_puts_exact:
  assumes "w_conn w = Some c" "open_sock (w_sock w)" "w_faults w = []" "tables_ok key (tbl (w_db w))"
    "w_fs w STORAGE_DIR \<in> {None, Some Directory}" "w_fs w (STORAGE_DIR @ ''/'' @ h) \<noteq> Some Directory"
    "s_user s \<in> u_id ` set (t_users (tbl (w_db w)))" "s_dir s \<in> p_id ` set (t_paths (tbl (w_db w)))"
    "clean_text n" "n \<noteq> []" "length n \<le> 190" "ids_left (map p_id (t_paths (tbl (w_db w))))" "ids_left (map f_id (t_files (tbl (w_db w))))"
    "\<not> (\<exists>r\<in>set (t_paths (tbl (w_db w))). p_parent r = Some (s_dir s) \<and> key (p_name r) = key n)"
    "clean_text h" "length h = 64" "last h \<noteq> CHR '' ''"
    "dir_of (STORAGE_DIR @ ''/'' @ h) = STORAGE_DIR \<or> w_fs w (dir_of (STORAGE_DIR @ ''/'' @ h)) = Some Directory"
    "\<not> (\<exists>f\<in>set (t_files (tbl (w_db w))). key (f_sha f) = key h)"
    "0 < length x" "length x < 2 ^ 63" "NUL \<notin> set fn"
    "stream (w_sock w) = bytes_of_file (upload_info fn h (length x)) @ x @ rest"
  shows "\<exists>d segs fid pid. handle_puts env s (Some n) w =
      Some (sent (bytes_of_file (init_file_packet (cmd_code CMD_TYPE_PUTS) (Some n) (word_of_nat (length x)) 0) @ reply_bytes msg_upload_ok)
        (w\<lparr>w_db := d, w_fs := (w_fs w)(STORAGE_DIR \<mapsto> Directory, STORAGE_DIR @ ''/'' @ h \<mapsto> Regular x),
          w_sock := (w_sock w)\<lparr>rx_segs := segs\<rparr>\<rparr>)) \<and> concat segs = rest \<and> tables_ok key (tbl d) \<and>
      tbl d = (tbl (w_db w))\<lparr>t_files := t_files (tbl (w_db w)) @ [\<lparr>f_id = fid, f_sha = h, f_size = length x\<rparr>],
        t_paths := t_paths (tbl (w_db w)) @ [new_path (s_user s) (Some (s_dir s)) n (''/'' @ n) CHR ''f'' (Some fid) pid]\<rparr>"
proof -
  let ?t = "tbl (w_db w)"
  let ?p = "STORAGE_DIR @ ''/'' @ h"
  let ?sz = "word_of_nat (length x) :: 64 word"
  have z: "unat ?sz = length x" using unat_word64 [of "length x"] assms(21) by simp
  obtain d1 segs1 where r: "handle_puts env s (Some n) w = Some (puts_receive env c s n ?p h ?sz
      (w\<lparr>w_db := d1, w_fs := (w_fs w)(STORAGE_DIR \<mapsto> Directory, ?p \<mapsto> Regular []), w_sock := (w_sock w)\<lparr>rx_segs := segs1\<rparr>\<rparr>))"
      "concat segs1 = x @ rest" "tbl d1 = ?t"
    using puts_reaches [OF assms(1,3-6,10,15,16,18-23)] by blast
  let ?w4 = "w\<lparr>w_db := d1, w_fs := (w_fs w)(STORAGE_DIR \<mapsto> Directory, ?p \<mapsto> Regular []), w_sock := (w_sock w)\<lparr>rx_segs := segs1\<rparr>\<rparr>"
  let ?a = "bytes_of_file (init_file_packet (cmd_code CMD_TYPE_PUTS) (Some n) ?sz 0)"
  have w4: "open_sock (w_sock ?w4)" "w_faults ?w4 = []" "stream (w_sock ?w4) = x @ rest"
    using assms(2,3) r(2) by (simp_all add: open_sock_def stream_def)
  obtain segs where pr: "concat segs = rest" "puts_receive env c s n ?p h ?sz ?w4 =
    puts_record env c s n h ?sz (sent ?a (?w4\<lparr>w_fs := (w_fs ?w4)(?p \<mapsto> Regular x), w_sock := (w_sock ?w4)\<lparr>rx_segs := segs\<rparr>\<rparr>))"
    using puts_receive_open [OF w4(1,2) assms(20,21) w4(3)] by blast
  obtain fid d2 pid d3 where d3: "dao_insert_file env (Some c) (Some h) ?sz d1 = (fid, d2)" "0 < fid"
    "dao_insert_path env (Some c) (s_user s) (s_dir s) (Some n) fid (''/'' @ n) d2 = (pid, d3)" "0 < pid" "tables_ok key (tbl d3)"
    "tbl d3 = ?t\<lparr>t_files := t_files ?t @ [\<lparr>f_id = fid, f_sha = h, f_size = length x\<rparr>],
        t_paths := t_paths ?t @ [new_path (s_user s) (Some (s_dir s)) n (''/'' @ n) CHR ''f'' (Some fid) pid]\<rparr>"
    using stored_rows [of d1 "s_user s" "s_dir s" n h ?sz c, unfolded r(3), OF assms(4,7-9,11-17) _ assms(19)] z assms(21) by auto
  have v: "snprintf_str 512 (''/'' @ n) = ''/'' @ n" using assms(11) by (simp add: snprintf_str_def)
  have rec: "puts_record env c s n h ?sz W = say msg_upload_ok (W\<lparr>w_db := d3\<rparr>)" if "w_db W = d1" for W
    unfolding puts_record_def Let_def v using that d3(1-4) by (simp add: db_run_def)
  let ?w5 = "sent ?a (?w4\<lparr>w_fs := (w_fs ?w4)(?p \<mapsto> Regular x), w_sock := (w_sock ?w4)\<lparr>rx_segs := segs\<rparr>\<rparr>)"
  have "handle_puts env s (Some n) w = Some (say msg_upload_ok (?w5\<lparr>w_db := d3\<rparr>))"
    unfolding r(1) pr(2) by (rule arg_cong [where f = Some], rule rec) simp
  moreover have "open_sock (w_sock (?w5\<lparr>w_db := d3\<rparr>))" using assms(2) by (simp add: open_sock_def sent_def)
  then have "say msg_upload_ok (?w5\<lparr>w_db := d3\<rparr>) = sent (?a @ reply_bytes msg_upload_ok)
        (w\<lparr>w_db := d3, w_fs := (w_fs w)(STORAGE_DIR \<mapsto> Directory, ?p \<mapsto> Regular x), w_sock := (w_sock w)\<lparr>rx_segs := segs\<rparr>\<rparr>)"
    by (simp add: say_open) (simp add: sent_def)
  ultimately show ?thesis using pr(1) d3(5,6)
    by (intro exI [of _ d3] exI [of _ segs] exI [of _ fid] exI [of _ pid]) simp
qed

lemma upload_download_exact:
  assumes "w_conn w = Some c" "open_sock (w_sock w)" "w_faults w = []" "store_ok key (tbl (w_db w))"
    "w_fs w STORAGE_DIR \<in> {None, Some Directory}" "w_fs w (STORAGE_DIR @ ''/'' @ h) \<noteq> Some Directory"
    "s_user s \<in> u_id ` set (t_users (tbl (w_db w)))" "s_dir s \<in> p_id ` set (t_paths (tbl (w_db w)))"
    "clean_text n" "n \<noteq> []" "length n \<le> 190" "ids_left (map p_id (t_paths (tbl (w_db w))))" "ids_left (map f_id (t_files (tbl (w_db w))))"
    "\<not> (\<exists>r\<in>set (t_paths (tbl (w_db w))). p_parent r = Some (s_dir s) \<and> key (p_name r) = key n)"
    "clean_text h" "length h = 64" "last h \<noteq> CHR '' ''" "CHR ''/'' \<notin> set h"
    "\<not> (\<exists>f\<in>set (t_files (tbl (w_db w))). key (f_sha f) = key h)"
    "0 < length x" "length x \<le> 2147483647 * BLOCK_SIZE" "NUL \<notin> set fn"
    "stream (w_sock w) = bytes_of_file (upload_info fn h (length x)) @ x @ rest"
  shows "\<exists>w1 w2 bs. handle_puts env s (Some n) w = Some w1 \<and> w_fs w1 (STORAGE_DIR @ ''/'' @ h) = Some (Regular x) \<and>
    stream (w_sock w1) = rest \<and> tx_out (w_sock w1) = tx_out (w_sock w) @
      bytes_of_file (init_file_packet (cmd_code CMD_TYPE_PUTS) (Some n) (word_of_nat (length x)) 0) @ reply_bytes msg_upload_ok \<and>
    handle_gets env s (Some n) w1 = Some w2 \<and>
    tx_out (w_sock w2) = tx_out (w_sock w1) @ bytes_of_file (gets_header n h (length x)) @ concat (map bytes_of_block bs) \<and>
    length bs = block_count (length x) \<and> concat (map (\<lambda>b. take (unat (bp_block_size b)) (bp_block_data b)) bs) = x"
proof -
  let ?t = "tbl (w_db w)"
  have ok: "tables_ok key ?t" using assms(4) by (simp add: store_ok_def)
  have lt: "length x < 2 ^ 63" using assms(21) by (simp add: BLOCK_SIZE_def)
  have dir: "dir_of (STORAGE_DIR @ ''/'' @ h) = STORAGE_DIR \<or> w_fs w (dir_of (STORAGE_DIR @ ''/'' @ h)) = Some Directory"
    using dir_of_stored [OF assms(18)] by blast
  let ?a = "bytes_of_file (init_file_packet (cmd_code CMD_TYPE_PUTS) (Some n) (word_of_nat (length x)) 0) @ reply_bytes msg_upload_ok"
  obtain d segs fid pid where p: "handle_puts env s (Some n) w = Some (sent ?a
        (w\<lparr>w_db := d, w_fs := (w_fs w)(STORAGE_DIR \<mapsto> Directory, STORAGE_DIR @ ''/'' @ h \<mapsto> Regular x),
          w_sock := (w_sock w)\<lparr>rx_segs := segs\<rparr>\<rparr>))" "concat segs = rest" "tables_ok key (tbl d)"
      "tbl d = ?t\<lparr>t_files := t_files ?t @ [\<lparr>f_id = fid, f_sha = h, f_size = length x\<rparr>],
        t_paths := t_paths ?t @ [new_path (s_user s) (Some (s_dir s)) n (''/'' @ n) CHR ''f'' (Some fid) pid]\<rparr>"
    using handle_puts_exact [OF assms(1-3) ok assms(5-17) dir assms(19,20) lt assms(22,23)] by blast
  let ?w1 = "sent ?a (w\<lparr>w_db := d, w_fs := (w_fs w)(STORAGE_DIR \<mapsto> Directory, STORAGE_DIR @ ''/'' @ h \<mapsto> Regular x),
          w_sock := (w_sock w)\<lparr>rx_segs := segs\<rparr>\<rparr>)"
  define R where "R = new_path (s_user s) (Some (s_dir s)) n (''/'' @ n) CHR ''f'' (Some fid) pid"
  define F where "F = \<lparr>f_id = fid, f_sha = h, f_size = length x\<rparr>"
  have R: "p_type R = CHR ''f''" "p_parent R = Some (s_dir s)" "\<not> p_tomb R" "p_name R = n" "p_user R = s_user s" "p_file R = Some (f_id F)"
    by (simp_all add: R_def F_def new_path_def)
  have rows: "t_paths (tbl d) = t_paths ?t @ [R]" "t_files (tbl d) = t_files ?t @ [F]" "t_xfers (tbl d) = t_xfers ?t"
    using p(4) by (simp_all add: R_def F_def)
  have u: "c_range (s_user s)" "0 < s_user s" using tables_ok_id_range(1) [OF ok] assms(7) by auto
  have w1: "w_conn ?w1 = Some c" "open_sock (w_sock ?w1)" "w_faults ?w1 = []" "w_db ?w1 = d"
    "w_fs ?w1 (gen_physical_path 512 (f_sha F)) = Some (Regular x)"
    using assms(1-3,16) by (simp_all add: open_sock_def sent_def F_def physical_path)
  have st: "store_ok key (tbl d)" using assms(4,21) p(3) rows by (auto simp: store_ok_def F_def)
  have want: "wanted key (s_dir s) n 0 R" using R by (simp add: child_of_def)
  have only: "\<forall>r\<in>set (t_paths (tbl d)). wanted key (s_dir s) n 0 r \<longrightarrow> r = R" using assms(14) by (auto simp: rows child_of_def)
  have n: "length n \<le> 255" using assms(11) by simp
  have mem: "R \<in> set (t_paths (tbl d))" "F \<in> set (t_files (tbl d))" "length x = f_size F" by (simp_all add: rows F_def)
  obtain d' where g: "handle_gets env s (Some n) ?w1 = Some (sent (download_bytes n (f_sha F) x) (?w1\<lparr>w_db := d'\<rparr>))"
    using handle_gets_exact [of ?w1 c s n R F x, unfolded w1(4), OF w1(1-3) st u assms(9,10) n mem(1) want R(5) only mem(2) R(6) w1(5) mem(3)]
    by blast
  have le: "length x \<le> block_count (length x) * BLOCK_SIZE" using block_count_bounds by simp
  have pay: "concat (map (\<lambda>b. take (unat (bp_block_size b)) (bp_block_data b)) (file_blocks h x 0 (block_count (length x)))) = x"
    "length (file_blocks h x 0 (block_count (length x))) = block_count (length x)"
    unfolding blocks_payload pieces_whole [OF le] by (simp_all add: file_blocks_def)
  show ?thesis
    by (rule exI [of _ ?w1], rule exI [of _ "sent (download_bytes n (f_sha F) x) (?w1\<lparr>w_db := d'\<rparr>)"],
        rule exI [of _ "file_blocks h x 0 (block_count (length x))"])
      (use p(1,2) g pay in \<open>simp add: download_bytes_def F_def stream_def sent_def\<close>)
qed

end

text \<open>C10: on a database that answers, a file of any contents up to \<open>2 ^ 31 - 1\<close> blocks, uploaded under a new
  digest and a new name, is stored below the storage directory, announced and confirmed, with the
  input read up to its last byte and no further; a download under the same name then sends a header
  with its size, digest and number of blocks, and blocks whose contents, put together, are the file.
  The digest is whatever the client claims: nothing relates it to the contents.\<close>

theorem upload_download:
  assumes "sql_available env tbl key digest" "w_conn w = Some c" "open_sock (w_sock w)" "w_faults w = []" "store_ok key (tbl (w_db w))"
    "w_fs w STORAGE_DIR \<in> {None, Some Directory}" "w_fs w (STORAGE_DIR @ ''/'' @ h) \<noteq> Some Directory"
    "s_user s \<in> u_id ` set (t_users (tbl (w_db w)))" "s_dir s \<in> p_id ` set (t_paths (tbl (w_db w)))"
    "clean_text n" "n \<noteq> []" "length n \<le> 190" "ids_left (map p_id (t_paths (tbl (w_db w))))" "ids_left (map f_id (t_files (tbl (w_db w))))"
    "\<not> (\<exists>r\<in>set (t_paths (tbl (w_db w))). p_parent r = Some (s_dir s) \<and> key (p_name r) = key n)"
    "clean_text h" "length h = 64" "last h \<noteq> CHR '' ''" "CHR ''/'' \<notin> set h"
    "\<not> (\<exists>f\<in>set (t_files (tbl (w_db w))). key (f_sha f) = key h)"
    "0 < length x" "length x \<le> 2147483647 * BLOCK_SIZE" "NUL \<notin> set fn"
    "stream (w_sock w) = bytes_of_file (upload_info fn h (length x)) @ x @ rest"
  shows "\<exists>w1 w2 bs. handle_puts env s (Some n) w = Some w1 \<and> w_fs w1 (STORAGE_DIR @ ''/'' @ h) = Some (Regular x) \<and>
    stream (w_sock w1) = rest \<and> tx_out (w_sock w1) = tx_out (w_sock w) @
      bytes_of_file (init_file_packet (cmd_code CMD_TYPE_PUTS) (Some n) (word_of_nat (length x)) 0) @ reply_bytes msg_upload_ok \<and>
    handle_gets env s (Some n) w1 = Some w2 \<and>
    tx_out (w_sock w2) = tx_out (w_sock w1) @ bytes_of_file (gets_header n h (length x)) @ concat (map bytes_of_block bs) \<and>
    length bs = block_count (length x) \<and> concat (map (\<lambda>b. take (unat (bp_block_size b)) (bp_block_data b)) bs) = x"
  by (rule sql_available.upload_download_exact [OF assms])

text \<open>A digest and an announced file for the instances.\<close>

lemma ref_hash_ok:
  "length (ref_digest x) = 64 \<and> clean_text (ref_digest x) \<and> last (ref_digest x) \<noteq> CHR '' '' \<and> CHR ''/'' \<notin> set (ref_digest x)"
proof -
  have h: "length (ref_digest x) = 64" "list_all hex_digit (ref_digest x)" using ref_digest_hex by blast+
  have no: "hex_digit c \<Longrightarrow> c \<noteq> CHR '' '' \<and> c \<noteq> CHR ''/''" for c by (auto simp: hex_digit_def)
  have "last (ref_digest x) \<in> set (ref_digest x)" using h(1) by (intro last_in_set) auto
  with h(2) no have "last (ref_digest x) \<noteq> CHR '' ''" by (auto simp: list_all_iff)
  moreover have "CHR ''/'' \<notin> set (ref_digest x)" using h(2) no by (auto simp: list_all_iff)
  ultimately show ?thesis using h hex_clean by blast
qed

lemma one_user_store: "store_ok id one_user"
  using one_user_ok [of id] by (simp add: store_ok_def one_user_def no_tables_def)

theorem upload_download_witness:
  "\<exists>w1 w2 bs. handle_puts (ref_env id) \<lparr>s_path = ''/'', s_user = 1, s_dir = 5\<rparr> (Some ''a.txt'')
      (world_of one_user [bytes_of_file (upload_info ''a.txt'' (ref_digest ''hi'') 2) @ ''hi'']) = Some w1 \<and>
    handle_gets (ref_env id) \<lparr>s_path = ''/'', s_user = 1, s_dir = 5\<rparr> (Some ''a.txt'') w1 = Some w2 \<and>
    tx_out (w_sock w2) = tx_out (w_sock w1) @ bytes_of_file (gets_header ''a.txt'' (ref_digest ''hi'') 2) @ concat (map bytes_of_block bs) \<and>
    concat (map (\<lambda>b. take (unat (bp_block_size b)) (bp_block_data b)) bs) = ''hi''"
proof -
  let ?h = "ref_digest ''hi''"
  let ?W = "world_of one_user [bytes_of_file (upload_info ''a.txt'' ?h 2) @ ''hi'']"
  let ?s = "\<lparr>s_path = ''/'', s_user = 1, s_dir = 5\<rparr>"
  have w: "w_conn ?W = Some 7" "open_sock (w_sock ?W)" "w_faults ?W = []" "w_db ?W = one_user" "w_fs ?W = (\<lambda>p. None)"
    "stream (w_sock ?W) = bytes_of_file (upload_info ''a.txt'' ?h (length ''hi'')) @ ''hi'' @ []"
    by (simp_all add: numeral_2_eq_2)
  have g: "w_fs ?W STORAGE_DIR \<in> {None, Some Directory}" "w_fs ?W (STORAGE_DIR @ ''/'' @ ?h) \<noteq> Some Directory"
    "s_user ?s \<in> u_id ` set (t_users one_user)" "s_dir ?s \<in> p_id ` set (t_paths one_user)" "clean_text ''a.txt''"
    "''a.txt'' \<noteq> []" "length ''a.txt'' \<le> 190" "ids_left (map p_id (t_paths one_user))" "ids_left (map f_id (t_files one_user))"
    "\<not> (\<exists>r\<in>set (t_paths one_user). p_parent r = Some (s_dir ?s) \<and> id (p_name r) = id ''a.txt'')"
    "\<not> (\<exists>f\<in>set (t_files one_user). id (f_sha f) = id ?h)" "0 < length ''hi''" "length ''hi'' \<le> 2147483647 * BLOCK_SIZE" "NUL \<notin> set ''a.txt''"
    by (simp_all add: one_user_def no_tables_def new_path_def ids_left_def clean_text_def sq_def BLOCK_SIZE_def)
  note h = conjunct1 [OF ref_hash_ok] conjunct1 [OF conjunct2 [OF ref_hash_ok]] conjunct1 [OF conjunct2 [OF conjunct2 [OF ref_hash_ok]]]
    conjunct2 [OF conjunct2 [OF conjunct2 [OF ref_hash_ok]]]
  show ?thesis
    using upload_download [OF ref_available [of id] w(1-3), unfolded w(4), OF one_user_store g(1-10) h(2,1,3,4) g(11-14) w(6)]
    by (auto simp: numeral_2_eq_2)
qed

section \<open>Uploads that go wrong\<close>

text \<open>C28: the client's digest becomes part of a path unchecked: a "digest" of 64 bytes that begins with two
  dots and a slash makes the server create a file outside its storage directory or overwrite, with
  any contents, one that is there.\<close>

theorem storage_escape:
  assumes "sql_available env tbl key digest" "w_conn w = Some c" "open_sock (w_sock w)" "w_faults w = []" "tables_ok key (tbl (w_db w))"
    "w_fs w STORAGE_DIR \<in> {None, Some Directory}" "w_fs w ''./storage/..'' = Some Directory"
    "w_fs w (''./storage/../'' @ f) \<noteq> Some Directory"
    "s_user s \<in> u_id ` set (t_users (tbl (w_db w)))" "s_dir s \<in> p_id ` set (t_paths (tbl (w_db w)))"
    "clean_text n" "n \<noteq> []" "length n \<le> 190" "ids_left (map p_id (t_paths (tbl (w_db w))))" "ids_left (map f_id (t_files (tbl (w_db w))))"
    "\<not> (\<exists>r\<in>set (t_paths (tbl (w_db w))). p_parent r = Some (s_dir s) \<and> key (p_name r) = key n)"
    "clean_text f" "length f = 61" "last f \<noteq> CHR '' ''" "CHR ''/'' \<notin> set f"
    "\<not> (\<exists>r\<in>set (t_files (tbl (w_db w))). key (f_sha r) = key (''../'' @ f))"
    "0 < length x" "length x < 2 ^ 63" "NUL \<notin> set fn"
    "stream (w_sock w) = bytes_of_file (upload_info fn (''../'' @ f) (length x)) @ x @ rest"
  shows "\<exists>w1. handle_puts env s (Some n) w = Some w1 \<and> w_fs w1 (''./storage/../'' @ f) = Some (Regular x)"
proof -
  let ?h = "''../'' @ f"
  have p: "STORAGE_DIR @ ''/'' @ ?h = ''./storage/../'' @ f" by (simp add: STORAGE_DIR_def)
  have "f \<noteq> []" using assms(18) by auto
  then have h: "clean_text ?h" "length ?h = 64" "last ?h \<noteq> CHR '' ''"
    using assms(17-19) by (simp_all add: clean_text_def sq_def)
  have "dropWhile (\<lambda>c. c \<noteq> CHR ''/'') (rev f @ rev ''./storage/../'') = rev ''./storage/../''"
    using assms(20) by (subst dropWhile_append2) auto
  then have "dir_of (''./storage/../'' @ f) = ''./storage/..''" unfolding dir_of_def rev_append by simp
  then have dir: "dir_of (STORAGE_DIR @ ''/'' @ ?h) = STORAGE_DIR \<or> w_fs w (dir_of (STORAGE_DIR @ ''/'' @ ?h)) = Some Directory"
    unfolding p using assms(7) by simp
  have nd: "w_fs w (STORAGE_DIR @ ''/'' @ ?h) \<noteq> Some Directory" unfolding p by (rule assms(8))
  show ?thesis
    using sql_available.handle_puts_exact [OF assms(1-6) nd assms(9-16) h dir assms(21-25)] unfolding p by auto
qed

theorem storage_escape_witness:
  "\<exists>w1. handle_puts (ref_env id) \<lparr>s_path = ''/'', s_user = 1, s_dir = 5\<rparr> (Some ''a'')
      ((world_of one_user [bytes_of_file (upload_info ''a'' (''../'' @ replicate 61 (CHR ''x'')) 2) @ ''hi''])
         \<lparr>w_fs := [''./storage/..'' \<mapsto> Directory, ''./storage/../'' @ replicate 61 (CHR ''x'') \<mapsto> Regular ''old'']\<rparr>) = Some w1 \<and>
    w_fs w1 (''./storage/../'' @ replicate 61 (CHR ''x'')) = Some (Regular ''hi'')"
proof -
  define f where "f = replicate 61 (CHR ''x'')"
  let ?W = "(world_of one_user [bytes_of_file (upload_info ''a'' (''../'' @ f) 2) @ ''hi''])
         \<lparr>w_fs := [''./storage/..'' \<mapsto> Directory, ''./storage/../'' @ f \<mapsto> Regular ''old'']\<rparr>"
  let ?s = "\<lparr>s_path = ''/'', s_user = 1, s_dir = 5\<rparr>"
  have f: "clean_text f" "length f = 61" "last f \<noteq> CHR '' ''" "CHR ''/'' \<notin> set f" "f \<noteq> []"
    by (auto simp: f_def clean_text_def sq_def)
  have w: "w_conn ?W = Some 7" "open_sock (w_sock ?W)" "w_faults ?W = []" "w_db ?W = one_user"
    "w_fs ?W STORAGE_DIR \<in> {None, Some Directory}" "w_fs ?W ''./storage/..'' = Some Directory" "w_fs ?W (''./storage/../'' @ f) \<noteq> Some Directory"
    "stream (w_sock ?W) = bytes_of_file (upload_info ''a'' (''../'' @ f) (length ''hi'')) @ ''hi'' @ []"
    using f(5) by (simp_all add: STORAGE_DIR_def numeral_2_eq_2)
  have g: "s_user ?s \<in> u_id ` set (t_users one_user)" "s_dir ?s \<in> p_id ` set (t_paths one_user)" "clean_text ''a''"
    "''a'' \<noteq> []" "length ''a'' \<le> 190" "ids_left (map p_id (t_paths one_user))" "ids_left (map f_id (t_files one_user))"
    "\<not> (\<exists>r\<in>set (t_paths one_user). p_parent r = Some (s_dir ?s) \<and> id (p_name r) = id ''a'')"
    "\<not> (\<exists>r\<in>set (t_files one_user). id (f_sha r) = id (''../'' @ f))" "0 < length ''hi''" "length ''hi'' < 2 ^ 63" "NUL \<notin> set ''a''"
    by (simp_all add: one_user_def no_tables_def new_path_def ids_left_def clean_text_def sq_def)
  show ?thesis
    unfolding f_def [symmetric]
    using storage_escape [OF ref_available [of id] w(1-3), unfolded w(4), OF one_user_ok w(5-7) g(1-8) f(1-4) g(9-12) w(8)] by auto
qed

text \<open>C39: an upload whose input ends early is answered as interrupted, and leaves the bytes that came, filled
  up with zeros to the announced size, under the announced digest, whatever stood there before, but no
  row: nothing of the progress the message speaks of is recorded.\<close>

theorem upload_interrupted:
  assumes "sql_available env tbl key digest" "w_conn w = Some c" "open_sock (w_sock w)" "w_faults w = []" "tables_ok key (tbl (w_db w))"
    "w_fs w STORAGE_DIR \<in> {None, Some Directory}" "w_fs w (STORAGE_DIR @ ''/'' @ h) \<noteq> Some Directory" "n \<noteq> []"
    "clean_text h" "length h = 64" "CHR ''/'' \<notin> set h" "\<not> (\<exists>f\<in>set (t_files (tbl (w_db w))). key (f_sha f) = key h)"
    "length x < len" "len < 2 ^ 63" "NUL \<notin> set fn" "stream (w_sock w) = bytes_of_file (upload_info fn h len) @ x"
  shows "\<exists>w1. handle_puts env s (Some n) w = Some w1 \<and> tbl (w_db w1) = tbl (w_db w) \<and>
    w_fs w1 (STORAGE_DIR @ ''/'' @ h) = Some (Regular (x @ replicate (len - length x) NUL)) \<and>
    tx_out (w_sock w1) = tx_out (w_sock w) @
      bytes_of_file (init_file_packet (cmd_code CMD_TYPE_PUTS) (Some n) (word_of_nat len) 0) @ reply_bytes msg_interrupted"
proof -
  let ?p = "STORAGE_DIR @ ''/'' @ h"
  have dir: "dir_of ?p = STORAGE_DIR \<or> w_fs w (dir_of ?p) = Some Directory" using dir_of_stored [OF assms(11)] by blast
  have pos: "0 < len" using assms(13) by simp
  obtain d1 segs where r: "handle_puts env s (Some n) w = Some (puts_receive env c s n ?p h (word_of_nat len)
      (w\<lparr>w_db := d1, w_fs := (w_fs w)(STORAGE_DIR \<mapsto> Directory, ?p \<mapsto> Regular []), w_sock := (w_sock w)\<lparr>rx_segs := segs\<rparr>\<rparr>))"
      "concat segs = x" "tbl d1 = tbl (w_db w)"
    using sql_available.puts_reaches [OF assms(1,2,4-10) dir assms(12) pos assms(14-16)] by blast
  let ?w4 = "w\<lparr>w_db := d1, w_fs := (w_fs w)(STORAGE_DIR \<mapsto> Directory, ?p \<mapsto> Regular []), w_sock := (w_sock w)\<lparr>rx_segs := segs\<rparr>\<rparr>"
  have "open_sock (w_sock ?w4)" "w_faults ?w4 = []" "stream (w_sock ?w4) = x"
    using assms(3,4) r(2) by (simp_all add: open_sock_def stream_def)
  from puts_receive_short [OF this assms(13,14)] r(3) show ?thesis unfolding r(1) by fastforce
qed

theorem upload_interrupted_witness:
  "\<exists>w1. handle_puts (ref_env id) \<lparr>s_path = ''/'', s_user = 1, s_dir = 5\<rparr> (Some ''a.txt'')
      (world_of one_user [bytes_of_file (upload_info ''a.txt'' (ref_digest ''hi'') 5) @ ''hi'']) = Some w1 \<and>
    w_fs w1 (STORAGE_DIR @ ''/'' @ ref_digest ''hi'') = Some (Regular (''hi'' @ [NUL, NUL, NUL])) \<and> w_db w1 = one_user"
proof -
  let ?h = "ref_digest ''hi''"
  let ?W = "world_of one_user [bytes_of_file (upload_info ''a.txt'' ?h 5) @ ''hi'']"
  have w: "w_conn ?W = Some 7" "open_sock (w_sock ?W)" "w_faults ?W = []" "w_db ?W = one_user"
    "w_fs ?W STORAGE_DIR \<in> {None, Some Directory}" "w_fs ?W (STORAGE_DIR @ ''/'' @ ?h) \<noteq> Some Directory"
    "stream (w_sock ?W) = bytes_of_file (upload_info ''a.txt'' ?h 5) @ ''hi''" by simp_all
  have g: "''a.txt'' \<noteq> []" "\<not> (\<exists>f\<in>set (t_files one_user). id (f_sha f) = id ?h)" "length ''hi'' < 5" "(5 :: nat) < 2 ^ 63" "NUL \<notin> set ''a.txt''"
    by (simp_all add: one_user_def no_tables_def)
  note h = conjunct1 [OF ref_hash_ok] conjunct1 [OF conjunct2 [OF ref_hash_ok]] conjunct2 [OF conjunct2 [OF conjunct2 [OF ref_hash_ok]]]
  have "replicate (5 - length ''hi'') NUL = [NUL, NUL, NUL]" by (simp add: numeral_3_eq_3)
  then show ?thesis
    using upload_interrupted [OF ref_available [of id] w(1-3), unfolded w(4), OF one_user_ok w(5,6) g(1) h(2,1,3) g(2-5) w(7)]
    by (auto simp only: append_Cons append_Nil)
qed

section \<open>Blocks\<close>

text \<open>C32: for sizes up to \<open>2 ^ 31 - 1\<close> blocks the number of blocks the code computes is the exact one: the
  blocks before the last are full and lie inside the file, and the last one, whose size is computed
  by a subtraction of unsigned longs cast to int, takes between 1 byte and a whole block, exactly up
  to the end.\<close>

theorem block_arithmetic:
  assumes "0 < unat sz" "unat sz \<le> 2147483647 * BLOCK_SIZE"
  shows "0 < calculate_total_blocks sz \<and> (calculate_total_blocks sz - 1) * int BLOCK_SIZE < uint sz \<and>
    1 \<le> last_block_size sz ((calculate_total_blocks sz - 1) * int BLOCK_SIZE) \<and>
    last_block_size sz ((calculate_total_blocks sz - 1) * int BLOCK_SIZE) \<le> int BLOCK_SIZE \<and>
    (calculate_total_blocks sz - 1) * int BLOCK_SIZE + last_block_size sz ((calculate_total_blocks sz - 1) * int BLOCK_SIZE) = uint sz"
proof -
  define n where "n = block_count (unat sz)"
  have n: "calculate_total_blocks sz = int n" using total_blocks_exact [OF assms(2)] by (simp add: n_def)
  have b: "0 < n" "(n - 1) * BLOCK_SIZE < unat sz" using block_count_bounds [of "unat sz"] assms(1) by (auto simp: n_def)
  note l = last_block_exact [OF assms n_def]
  have off: "(int n - 1) * int BLOCK_SIZE = int ((n - 1) * BLOCK_SIZE)" using b(1) by (cases n) auto
  have u: "uint sz = int (unat sz)" by simp
  show ?thesis
    unfolding n l(1) u using b l(2,3) unfolding off by linarith
qed

theorem block_arithmetic_witness:
  "0 < calculate_total_blocks 5 \<and> last_block_size 5 ((calculate_total_blocks 5 - 1) * int BLOCK_SIZE) \<le> int BLOCK_SIZE"
  using block_arithmetic [of 5] by (simp add: BLOCK_SIZE_def)

end
