(* ===== verification/Client_Props.thy ===== *)
theory Client_Props
  imports Client_Transfer Transfer_Props
begin

text \<open>
  The client and the server together. In each property the input of either side is exactly what the
  other side sends, so that both equations together describe a closed loop.
\<close>

section \<open>A session as the user sees it\<close>

lemma plain_line_two:
  assumes "is_word cmd" "length cmd \<le> 99" "is_word a" "length a \<le> 199" "NUL \<notin> set cmd" "NUL \<notin> set a"
    "get_cmd_type (Some cmd) = t" "t \<notin> {CMD_TYPE_INVALID, CMD_TYPE_GETS, CMD_TYPE_PUTS}"
  shows "plain_line (cmd @ CHR '' '' # a) t a"
proof -
  have nl: "CHR 0x0A \<notin> set x" "CHR '' '' \<notin> set x" if "is_word x" for x using that by (auto simp: is_word_def is_space_def)
  have "l \<noteq> ''quit'' \<and> l \<noteq> ''exit''" if "CHR '' '' \<in> set l" for l using that by auto
  from this [of "cmd @ CHR '' '' # a"] have "cmd @ CHR '' '' # a \<noteq> ''quit''" "cmd @ CHR '' '' # a \<noteq> ''exit''" by simp_all
  then show ?thesis
    using assms nl [OF assms(1)] nl [OF assms(3)] scan_command_two [OF assms(1-4)] by (auto simp: plain_line_def is_word_def)
qed

lemma plain_line_pwd: "plain_line ''pwd'' CMD_TYPE_PWD []"
proof -
  have "scan_command ''pwd'' = (''pwd'', [])" by (rule scan_command_one) (simp_all add: is_word_def is_space_def)
  then show ?thesis by (simp add: plain_line_def get_cmd_type_def)
qed

definition tour_lines :: "string \<Rightarrow> string \<Rightarrow> string \<Rightarrow> (string \<times> cmd_type \<times> string \<times> string) list" where
  "tour_lines u pw n =
     [(''login '' @ u @ CHR '':'' # pw, CMD_TYPE_LOGIN, u @ CHR '':'' # pw, msg_login_ok),
      (''mkdir '' @ n, CMD_TYPE_MKDIR, n, msg_mkdir_ok), (''cd '' @ n, CMD_TYPE_CD, n, msg_entered),
      (''pwd'', CMD_TYPE_PWD, [], ''/'' @ n), (''cd ..'', CMD_TYPE_CD, ''..'', msg_up), (''pwd'', CMD_TYPE_PWD, [], ''/'')]"

lemma tour_lines_ok:
  assumes "is_word u" "is_word pw" "is_word n" "length u \<le> 63" "length pw \<le> 127" "length n \<le> 190"
    "NUL \<notin> set u" "NUL \<notin> set pw" "NUL \<notin> set n"
  shows "\<forall>(l, t, a, m)\<in>set (tour_lines u pw n). plain_line l t a \<and> NUL \<notin> set m \<and> length m \<le> 255"
proof -
  have k: "is_word ''login''" "is_word ''mkdir''" "is_word ''cd''" "is_word ''..''" "is_word (u @ CHR '':'' # pw)"
    using assms(1,2) by (auto simp: is_word_def is_space_def)
  have t: "get_cmd_type (Some ''login'') = CMD_TYPE_LOGIN" "get_cmd_type (Some ''mkdir'') = CMD_TYPE_MKDIR" "get_cmd_type (Some ''cd'') = CMD_TYPE_CD"
    by (simp_all add: get_cmd_type_def)
  have "plain_line (''login'' @ CHR '' '' # (u @ CHR '':'' # pw)) CMD_TYPE_LOGIN (u @ CHR '':'' # pw)"
    using assms k(5) by (intro plain_line_two k(1) t(1)) simp_all
  moreover have "plain_line (''mkdir'' @ CHR '' '' # n) CMD_TYPE_MKDIR n" "plain_line (''cd'' @ CHR '' '' # n) CMD_TYPE_CD n"
    using assms by (intro plain_line_two k(2,3) t(2,3); simp)+
  moreover have "plain_line (''cd'' @ CHR '' '' # ''..'') CMD_TYPE_CD ''..''" by (intro plain_line_two k(3,4) t(3)) simp_all
  moreover have "NUL \<notin> set m \<and> length m \<le> 255" if "m \<in> {msg_login_ok, msg_mkdir_ok, msg_entered, msg_up}" for m
    using that by (auto simp: msg_defs)
  ultimately show ?thesis using plain_line_pwd assms(6,9) unfolding tour_lines_def by simp
qed

text \<open>Typed into the client, a log-in, a directory made and entered, and two questions for the place
  become the packets of the whole session; the server's answers come back on the user's screen in
  order, each after a prompt; and the server has added the one row. What either side receives is
  exactly what the other sends.\<close>

lemma client_tour:
  assumes "sql_available env tbl key digest" "w_conn w = Some c" "0 \<le> fd" "open_sock (w_sock w)" "tables_ok key (tbl (w_db w))"
    "clean_text u" "CHR '':'' \<notin> set u" "0 < length u" "length u \<le> 63" "clean_text pw" "0 < length pw" "length pw \<le> 127"
    "row \<in> set (t_users (tbl (w_db w)))" "u_name row = u" "u_hash row = digest (pw @ u_salt row)"
    "base \<in> set (t_paths (tbl (w_db w)))" "p_user base = u_id row" "p_parent base = None" "p_type base = CHR ''d''"
    "\<forall>r\<in>set (t_paths (tbl (w_db w))). p_user r = u_id row \<and> p_parent r = None \<longrightarrow> r = base"
    "clean_text n" "n \<notin> {[], ''.'', ''..'', ''/''}" "CHR ''/'' \<notin> set n" "length n \<le> 190" "ids_left (map p_id (t_paths (tbl (w_db w))))"
    "\<not> (\<exists>r\<in>set (t_paths (tbl (w_db w))). p_parent r = Some (p_id base) \<and> key (p_name r) = key n)"
    "is_word u" "is_word pw" "is_word n" "c_ready cw" "tx_out (c_sock cw) = []" "tx_out (w_sock w) = []"
    "stream (w_sock w) = concat (map (\<lambda>(l, t, a, m). bytes_of_command (request t a)) (tour_lines u pw n))"
    "stream (c_sock cw) = concat (map (\<lambda>(l, t, a, m). reply_bytes m) (tour_lines u pw n))"
  shows "\<exists>cw' w' i. client_loop cenv (typed_lines (tour_lines u pw n)) cw = cw' \<and> handle_request env fd w = Some w' \<and>
    tx_out (c_sock cw') = stream (w_sock w) \<and> tx_out (w_sock w') = stream (c_sock cw) \<and>
    c_stdout cw' = c_stdout cw @ ''> '' @ msg_login_ok @ ''\<newline>> '' @ msg_mkdir_ok @ ''\<newline>> '' @ msg_entered @ ''\<newline>> /'' @ n @
      ''\<newline>> '' @ msg_up @ ''\<newline>> /\<newline>> '' @ txt_bye \<and>
    adds_path (tbl (w_db w)) (tbl (w_db w')) (new_path (u_id row) (Some (p_id base)) n (''/'' @ n) CHR ''d'' None i)"
proof -
  have nul: "NUL \<notin> set u" "NUL \<notin> set pw" "NUL \<notin> set n" using assms(6,10,21) by (simp_all add: clean_text_def)
  obtain cw' where cw: "client_loop cenv (typed_lines (tour_lines u pw n)) cw = cw'" "tx_out (c_sock cw') = stream (w_sock w)"
    "c_stdout cw' = c_stdout cw @ concat (map (\<lambda>(l, t, a, m). ''> '' @ m @ [CHR 0x0A]) (tour_lines u pw n)) @ ''> '' @ txt_bye"
    using client_lines [OF tour_lines_ok [OF assms(27-29,9,12,24) nul] assms(30,34), of cenv] assms(31,33) by auto
  have st: "stream (w_sock w) = concat (map bytes_of_command [request CMD_TYPE_LOGIN (u @ CHR '':'' # pw), request CMD_TYPE_MKDIR n,
       request CMD_TYPE_CD n, request CMD_TYPE_PWD [], request CMD_TYPE_CD ''..'', request CMD_TYPE_PWD []])"
    unfolding assms(33) tour_lines_def by simp
  have l: "length n \<le> 200" using assms(24) by simp
  obtain w' i where w': "handle_request env fd w = Some w'"
    "tx_out (w_sock w') = concat (map reply_bytes [msg_login_ok, msg_mkdir_ok, msg_entered, ''/'' @ n, msg_up, ''/''])"
    "adds_path (tbl (w_db w)) (tbl (w_db w')) (new_path (u_id row) (Some (p_id base)) n (''/'' @ n) CHR ''d'' None i)"
    using sql_available.tour [OF assms(1-23) l assms(25,26) st] assms(32) by auto
  have "tx_out (w_sock w') = stream (c_sock cw)" unfolding w'(2) assms(34) tour_lines_def by simp
  with cw w'(1,3) show ?thesis by (intro exI [of _ cw'] exI [of _ w'] exI [of _ i]) (simp add: tour_lines_def)
qed

text \<open>A client for the instances.\<close>

definition client_with :: "(string \<rightharpoonup> fs_entry) \<Rightarrow> string list \<Rightarrow> client" where
  "client_with fs segs =
     \<lparr>c_sock = \<lparr>rx_segs = segs, rx_fail = False, tx_caps = [], tx_out = []\<rparr>, c_fs = fs, c_faults = [], c_caps = [],
      c_stdout = [], c_stderr = []\<rparr>"

lemma client_with_simps [simp]:
  "c_ready (client_with fs segs)" "c_fs (client_with fs segs) = fs" "stream (c_sock (client_with fs segs)) = concat segs"
  "tx_out (c_sock (client_with fs segs)) = []" "c_stdout (client_with fs segs) = []"
  by (simp_all add: client_with_def c_ready_def open_sock_def stream_def)

text \<open>A client whose \<open>sha256sum\<close> is the reference digest.\<close>

definition demo_client_env :: client_env where
  "demo_client_env =
     \<lparr>ce_sha = \<lparr>env_mkstemp = None, env_write = (\<lambda>s. - 1), env_popen = (\<lambda>cmd x. Some (Some (ref_digest x @ ''  a.txt\<newline>'')))\<rparr>,
      ce_dir_size = 4096\<rparr>"

lemma client_tour_instance:
  "\<exists>cw' w'. client_loop demo_client_env (typed_lines (tour_lines ''ann'' ''pw'' ''docs''))
       (client_with (\<lambda>p. None) (map (\<lambda>(l, t, a, m). reply_bytes m) (tour_lines ''ann'' ''pw'' ''docs''))) = cw' \<and>
     handle_request (ref_env id) 5 (world_of one_user (map (\<lambda>(l, t, a, m). bytes_of_command (request t a)) (tour_lines ''ann'' ''pw'' ''docs''))) = Some w' \<and>
     c_stdout cw' = ''> '' @ msg_login_ok @ ''\<newline>> '' @ msg_mkdir_ok @ ''\<newline>> '' @ msg_entered @ ''\<newline>> /'' @ ''docs'' @
      ''\<newline>> '' @ msg_up @ ''\<newline>> /\<newline>> '' @ txt_bye"
proof -
  let ?W = "world_of one_user (map (\<lambda>(l, t, a, m). bytes_of_command (request t a)) (tour_lines ''ann'' ''pw'' ''docs''))"
  let ?C = "client_with (\<lambda>p. None) (map (\<lambda>(l, t, a, m). reply_bytes m) (tour_lines ''ann'' ''pw'' ''docs''))"
  let ?row = "\<lparr>u_id = 1, u_name = ''ann'', u_hash = ref_digest ''pw42'', u_salt = ''42''\<rparr>"
  let ?base = "new_path 1 None ''/'' ''/'' CHR ''d'' None 5"
  have c: "clean_text ''ann''" "clean_text ''pw''" "clean_text ''docs''" "is_word ''ann''" "is_word ''pw''" "is_word ''docs''"
    by (simp_all add: clean_text_def sq_def is_word_def is_space_def)
  have w: "w_conn ?W = Some 7" "open_sock (w_sock ?W)" "w_db ?W = one_user" "tx_out (w_sock ?W) = []"
    "stream (w_sock ?W) = concat (map (\<lambda>(l, t, a, m). bytes_of_command (request t a)) (tour_lines ''ann'' ''pw'' ''docs''))"
    by (simp_all only: world_of_simps)
  have cl: "c_ready ?C" "tx_out (c_sock ?C) = []" "c_stdout ?C = []"
    "stream (c_sock ?C) = concat (map (\<lambda>(l, t, a, m). reply_bytes m) (tour_lines ''ann'' ''pw'' ''docs''))"
    by (simp_all only: client_with_simps)
  have r: "?row \<in> set (t_users one_user)" "?base \<in> set (t_paths one_user)" "ids_left (map p_id (t_paths one_user))"
    "p_user ?base = u_id ?row" "p_parent ?base = None" "p_type ?base = CHR ''d''"
    "\<forall>r\<in>set (t_paths one_user). p_user r = u_id ?row \<and> p_parent r = None \<longrightarrow> r = ?base"
    "\<not> (\<exists>r\<in>set (t_paths one_user). p_parent r = Some (p_id ?base) \<and> id (p_name r) = id ''docs'')"
    by (simp_all add: one_user_def no_tables_def new_path_def ids_left_def)
  have h: "u_hash ?row = ref_digest (''pw'' @ u_salt ?row)" by simp
  have g: "(0 :: int) \<le> 5" "CHR '':'' \<notin> set ''ann''" "0 < length ''ann''" "length ''ann'' \<le> 63" "0 < length ''pw''" "length ''pw'' \<le> 127"
    "u_name ?row = ''ann''" "''docs'' \<notin> {[], ''.'', ''..'', ''/''}" "CHR ''/'' \<notin> set ''docs''" "length ''docs'' \<le> 190" by simp_all
  show ?thesis
    using client_tour [OF ref_available [of id] w(1) g(1) w(2), unfolded w(3), OF one_user_ok c(1) g(2-4) c(2) g(5,6) r(1) g(7) h
        r(2,4-7) c(3) g(8-10) r(3,8) c(4-6) cl(1,2) w(4,5) cl(4), of demo_client_env]
    unfolding cl(3) append_Nil by blast
qed

section \<open>Upload\<close>

lemma serve_transfer:
  assumes "s_user s \<noteq> - 1" "NUL \<notin> set n" "length n \<le> 255"
  shows "serve_command env fd (terminated (request CMD_TYPE_PUTS n)) s w = with_session s (handle_puts env s (Some n) w)"
    "serve_command env fd (terminated (request CMD_TYPE_GETS n)) s w = with_session s (handle_gets env s (Some n) w)"
  using assms request_ok(2,3) [OF assms(2,3)]
  by (simp_all add: serve_command_def get_packet_cmd_type_def Let_def cmd_code_inj del: cmd_code.simps)

lemma process_transfer:
  assumes "is_word n" "length n \<le> 199"
  shows "process_command env (''puts '' @ n) w = client_puts env n w" "process_command env (''gets '' @ n) w = client_gets env n w"
proof -
  have k: "is_word ''puts''" "is_word ''gets''" by (simp_all add: is_word_def is_space_def)
  have "scan_command (''puts'' @ CHR '' '' # n) = (''puts'', n)" "scan_command (''gets'' @ CHR '' '' # n) = (''gets'', n)"
    by (intro scan_command_two k assms; simp)+
  moreover have "n \<noteq> []" using assms(1) by (simp add: is_word_def)
  ultimately show "process_command env (''puts '' @ n) w = client_puts env n w" "process_command env (''gets '' @ n) w = client_gets env n w"
    by (simp_all add: process_command_def get_cmd_type_def)
qed

text \<open>C8: a file uploaded with the client arrives: the client sends the command, the announcement with the
  digest \<open>sha256sum\<close> gave it, and the contents, and the server, in whatever portions these arrive,
  reads them all, stores exactly the contents of the local file under the digest, adds the rows of the
  file and of its name, and answers so that the client ends with the message that says so. What either
  side receives is exactly what the other sends.\<close>

theorem client_upload:
  assumes "sql_available env tbl key digest" "w_conn w = Some c" "open_sock (w_sock w)" "w_faults w = []" "tables_ok key (tbl (w_db w))"
    "w_fs w STORAGE_DIR \<in> {None, Some Directory}" "w_fs w (STORAGE_DIR @ ''/'' @ h) \<noteq> Some Directory"
    "s_user s \<in> u_id ` set (t_users (tbl (w_db w)))" "s_dir s \<in> p_id ` set (t_paths (tbl (w_db w)))"
    "clean_text n" "is_word n" "length n \<le> 190" "ids_left (map p_id (t_paths (tbl (w_db w))))" "ids_left (map f_id (t_files (tbl (w_db w))))"
    "\<not> (\<exists>r\<in>set (t_paths (tbl (w_db w))). p_parent r = Some (s_dir s) \<and> key (p_name r) = key n)"
    "clean_text h" "length h = 64" "last h \<noteq> CHR '' ''" "CHR ''/'' \<notin> set h" "\<not> (\<exists>f\<in>set (t_files (tbl (w_db w))). key (f_sha f) = key h)"
    "c_ready cw" "c_fs cw n = Some (Regular x)" "0 < length x" "length x < 2 ^ 63"
    "env_popen (ce_sha cenv) (sha_command n) x = Some (Some (h @ r))" "tx_out (c_sock cw) = []" "tx_out (w_sock w) = []"
    "stream (w_sock w) = bytes_of_command (request CMD_TYPE_PUTS n) @ bytes_of_file (upload_info n h (length x)) @ x"
    "stream (c_sock cw) = bytes_of_file (init_file_packet (cmd_code CMD_TYPE_PUTS) (Some n) (word_of_nat (length x)) 0) @ reply_bytes msg_upload_ok"
  shows "\<exists>cw' w' fid pid. process_command cenv (''puts '' @ n) cw = cw' \<and> session_loop env fd s w = Some w' \<and>
    tx_out (c_sock cw') = stream (w_sock w) \<and> tx_out (w_sock w') = stream (c_sock cw) \<and>
    w_fs w' (STORAGE_DIR @ ''/'' @ h) = Some (Regular x) \<and> c_stdout cw' = c_stdout cw @ msg_upload_ok @ [CHR 0x0A] \<and>
    tbl (w_db w') = (tbl (w_db w))\<lparr>t_files := t_files (tbl (w_db w)) @ [\<lparr>f_id = fid, f_sha = h, f_size = length x\<rparr>],
        t_paths := t_paths (tbl (w_db w)) @ [new_path (s_user s) (Some (s_dir s)) n (''/'' @ n) CHR ''f'' (Some fid) pid]\<rparr>"
proof -
  have nul: "NUL \<notin> set n" "NUL \<notin> set h" "n \<noteq> []" "length n \<le> 199" "length n \<le> 255"
    using assms(10-12,16) by (simp_all add: clean_text_def is_word_def)
  have m: "NUL \<notin> set msg_upload_ok" "length msg_upload_ok \<le> 255" by (simp_all add: msg_defs)
  have st: "stream (c_sock cw) = bytes_of_file (init_file_packet (cmd_code CMD_TYPE_PUTS) (Some n) (word_of_nat (length x)) 0) @ reply_bytes msg_upload_ok @ []"
    using assms(29) by simp
  obtain segs where cp: "client_puts cenv n cw = c_print (msg_upload_ok @ [CHR 0x0A]) (c_left segs (c_sent
      (bytes_of_command (request CMD_TYPE_PUTS n) @ bytes_of_file (upload_info n h (length x)) @ x) cw))"
    using client_puts_ready [OF assms(21,22,24) nul(1) assms(25,17) nul(2) st m] by blast
  obtain segs1 where s1: "concat segs1 = bytes_of_file (upload_info n h (length x)) @ x" "session_loop env fd s w =
    (case serve_command env fd (terminated (request CMD_TYPE_PUTS n)) s (w\<lparr>w_sock := (w_sock w)\<lparr>rx_segs := segs1\<rparr>\<rparr>) of
       None \<Rightarrow> None | Some (s', w2) \<Rightarrow> session_loop env fd s' w2)"
    using session_loop_step [OF assms(28) request_ok(1) [OF nul(1,5)]] by blast
  let ?w1 = "w\<lparr>w_sock := (w_sock w)\<lparr>rx_segs := segs1\<rparr>\<rparr>"
  have w1: "w_conn ?w1 = Some c" "open_sock (w_sock ?w1)" "w_faults ?w1 = []" "w_db ?w1 = w_db w" "w_fs ?w1 = w_fs w"
    "stream (w_sock ?w1) = bytes_of_file (upload_info n h (length x)) @ x @ []"
    using assms(2-4) s1(1) by (simp_all add: open_sock_def stream_def)
  have u: "s_user s \<noteq> - 1" using tables_ok_id_range(1) [OF assms(5)] assms(8) by force
  have dir: "dir_of (STORAGE_DIR @ ''/'' @ h) = STORAGE_DIR \<or> w_fs w (dir_of (STORAGE_DIR @ ''/'' @ h)) = Some Directory"
    using dir_of_stored [OF assms(19)] by blast
  obtain d segs2 fid pid where p: "handle_puts env s (Some n) ?w1 =
      Some (sent (bytes_of_file (init_file_packet (cmd_code CMD_TYPE_PUTS) (Some n) (word_of_nat (length x)) 0) @ reply_bytes msg_upload_ok)
        (?w1\<lparr>w_db := d, w_fs := (w_fs w)(STORAGE_DIR \<mapsto> Directory, STORAGE_DIR @ ''/'' @ h \<mapsto> Regular x),
          w_sock := (w_sock ?w1)\<lparr>rx_segs := segs2\<rparr>\<rparr>))" "concat segs2 = []"
      "tbl d = (tbl (w_db w))\<lparr>t_files := t_files (tbl (w_db w)) @ [\<lparr>f_id = fid, f_sha = h, f_size = length x\<rparr>],
        t_paths := t_paths (tbl (w_db w)) @ [new_path (s_user s) (Some (s_dir s)) n (''/'' @ n) CHR ''f'' (Some fid) pid]\<rparr>"
    using sql_available.handle_puts_exact [OF assms(1) w1(1-3), unfolded w1(4,5), OF assms(5-10) nul(3) assms(12-18) dir assms(20,23,24) nul(1) w1(6)]
    by blast
  let ?w2 = "sent (bytes_of_file (init_file_packet (cmd_code CMD_TYPE_PUTS) (Some n) (word_of_nat (length x)) 0) @ reply_bytes msg_upload_ok)
        (?w1\<lparr>w_db := d, w_fs := (w_fs w)(STORAGE_DIR \<mapsto> Directory, STORAGE_DIR @ ''/'' @ h \<mapsto> Regular x),
          w_sock := (w_sock ?w1)\<lparr>rx_segs := segs2\<rparr>\<rparr>)"
  have l: "session_loop env fd s w = session_loop env fd s ?w2"
    unfolding s1(2) serve_transfer(1) [OF u nul(1,5)] p(1) by (simp add: with_session_def)
  have "stream (w_sock ?w2) = []" using p(2) by (simp add: stream_def)
  then obtain segs3 where e: "session_loop env fd s ?w2 = Some (?w2\<lparr>w_sock := (w_sock ?w2)\<lparr>rx_segs := segs3\<rparr>\<rparr>)"
    using session_loop_end by blast
  let ?w3 = "?w2\<lparr>w_sock := (w_sock ?w2)\<lparr>rx_segs := segs3\<rparr>\<rparr>"
  have w3: "w_db ?w3 = d" "tx_out (w_sock ?w3) = stream (c_sock cw)" "w_fs ?w3 (STORAGE_DIR @ ''/'' @ h) = Some (Regular x)"
    using assms(27,29) by (simp_all del: cmd_code.simps)
  have w4: "tbl (w_db ?w3) = (tbl (w_db w))\<lparr>t_files := t_files (tbl (w_db w)) @ [\<lparr>f_id = fid, f_sha = h, f_size = length x\<rparr>],
        t_paths := t_paths (tbl (w_db w)) @ [new_path (s_user s) (Some (s_dir s)) n (''/'' @ n) CHR ''f'' (Some fid) pid]\<rparr>"
    unfolding w3(1) by (rule p(3))
  show ?thesis
    unfolding process_transfer(1) [OF assms(11) nul(4)] l e cp
    by (rule exI, rule exI, rule exI [of _ fid], rule exI [of _ pid], intro conjI)
      (rule refl, rule refl, use assms(26,28) in \<open>simp del: cmd_code.simps\<close>, rule w3, rule w3, simp, rule w4)
qed

theorem client_upload_witness:
  "\<exists>cw' w'. process_command demo_client_env ''puts a.txt'' (client_with [''a.txt'' \<mapsto> Regular ''hi'']
      [bytes_of_file (init_file_packet (cmd_code CMD_TYPE_PUTS) (Some ''a.txt'') (word_of_nat (length ''hi'')) 0) @ reply_bytes msg_upload_ok]) = cw' \<and>
    session_loop (ref_env id) 5 \<lparr>s_path = ''/'', s_user = 1, s_dir = 5\<rparr> (world_of one_user
      [bytes_of_command (request CMD_TYPE_PUTS ''a.txt'') @ bytes_of_file (upload_info ''a.txt'' (ref_digest ''hi'') (length ''hi'')) @ ''hi'']) = Some w' \<and>
    w_fs w' (STORAGE_DIR @ ''/'' @ ref_digest ''hi'') = Some (Regular ''hi'') \<and> c_stdout cw' = msg_upload_ok @ [CHR 0x0A]"
proof -
  let ?h = "ref_digest ''hi''"
  let ?s = "\<lparr>s_path = ''/'', s_user = 1, s_dir = 5\<rparr>"
  let ?W = "world_of one_user [bytes_of_command (request CMD_TYPE_PUTS ''a.txt'') @ bytes_of_file (upload_info ''a.txt'' ?h (length ''hi'')) @ ''hi'']"
  let ?C = "client_with [''a.txt'' \<mapsto> Regular ''hi'']
      [bytes_of_file (init_file_packet (cmd_code CMD_TYPE_PUTS) (Some ''a.txt'') (word_of_nat (length ''hi'')) 0) @ reply_bytes msg_upload_ok]"
  have w: "w_conn ?W = Some 7" "open_sock (w_sock ?W)" "w_faults ?W = []" "w_db ?W = one_user" "w_fs ?W = (\<lambda>p. None)" "tx_out (w_sock ?W) = []"
    "stream (w_sock ?W) = bytes_of_command (request CMD_TYPE_PUTS ''a.txt'') @ bytes_of_file (upload_info ''a.txt'' ?h (length ''hi'')) @ ''hi''"
    by (simp_all only: world_of_simps concat.simps append_Nil2)
  have cl: "c_ready ?C" "c_fs ?C ''a.txt'' = Some (Regular ''hi'')" "tx_out (c_sock ?C) = []" "c_stdout ?C = []"
    "stream (c_sock ?C) = bytes_of_file (init_file_packet (cmd_code CMD_TYPE_PUTS) (Some ''a.txt'') (word_of_nat (length ''hi'')) 0) @ reply_bytes msg_upload_ok"
    by (simp_all only: client_with_simps concat.simps append_Nil2 fun_upd_same)
  have g: "w_fs ?W STORAGE_DIR \<in> {None, Some Directory}" "w_fs ?W (STORAGE_DIR @ ''/'' @ ?h) \<noteq> Some Directory"
    "s_user ?s \<in> u_id ` set (t_users one_user)" "s_dir ?s \<in> p_id ` set (t_paths one_user)" "clean_text ''a.txt''"
    "is_word ''a.txt''" "length ''a.txt'' \<le> 190" "ids_left (map p_id (t_paths one_user))" "ids_left (map f_id (t_files one_user))"
    "\<not> (\<exists>r\<in>set (t_paths one_user). p_parent r = Some (s_dir ?s) \<and> id (p_name r) = id ''a.txt'')"
    "\<not> (\<exists>f\<in>set (t_files one_user). id (f_sha f) = id ?h)" "0 < length ''hi''" "length ''hi'' < 2 ^ 63"
    by (simp_all add: one_user_def no_tables_def new_path_def ids_left_def clean_text_def sq_def is_word_def is_space_def w(5))
  have e: "env_popen (ce_sha demo_client_env) (sha_command ''a.txt'') ''hi'' = Some (Some (?h @ ''  a.txt\<newline>''))"
    by (simp add: demo_client_env_def)
  note h = conjunct1 [OF ref_hash_ok] conjunct1 [OF conjunct2 [OF ref_hash_ok]] conjunct1 [OF conjunct2 [OF conjunct2 [OF ref_hash_ok]]]
    conjunct2 [OF conjunct2 [OF conjunct2 [OF ref_hash_ok]]]
  show ?thesis
    using client_upload [OF ref_available [of id] w(1-3), unfolded w(4), OF one_user_ok g(1-10) h(2,1,3,4) g(11) cl(1,2) g(12,13) e cl(3) w(6,7) cl(5)]
    unfolding cl(4) by auto
qed

section \<open>Download\<close>

lemma wf_file_block: "length sha \<le> 64 \<Longrightarrow> length data \<le> MAX_BLOCK_DATA \<Longrightarrow> wf_block (file_block sha i data)"
  by (simp add: wf_block_def file_block_def)

lemma hd_block: "\<exists>r. bytes_of_block (file_block sha i data) = CHR 0x04 # r"
proof -
  have "char_of (4 :: nat) = CHR 0x04" using char_of_char [of "CHR 0x04", where 'a = nat] by simp
  then have "le_bytes (Suc 3) 4 = CHR 0x04 # le_bytes 3 0" unfolding le_bytes.simps(2) by simp
  then show ?thesis by (simp add: bytes_of_block_def file_block_def)
qed

lemma length_block_stream:
  assumes "length sha \<le> 64"
  shows "length (concat (map bytes_of_block (file_blocks sha x a b))) = (b - a) * sizeof_block_packet"
proof -
  have "length (bytes_of_block (file_block sha i (cut_at off BLOCK_SIZE x))) = sizeof_block_packet" for i off
    by (intro length_bytes_of_block wf_file_block assms) (simp add: cut_at_def BLOCK_SIZE_def MAX_BLOCK_DATA_def)
  then show ?thesis by (simp add: length_concat file_blocks_def o_def sum_list_triv)
qed

lemma block_stream:
  assumes "length sha \<le> 64" "0 < length x" "B = concat (map bytes_of_block (file_blocks sha x 0 (block_count (length x))))"
  shows "\<exists>r. B = CHR 0x04 # r" "length x < length B"
proof -
  have n: "0 < block_count (length x)" "length x \<le> block_count (length x) * BLOCK_SIZE"
    using block_count_bounds [of "length x"] assms(2) by auto
  have "block_count (length x) * BLOCK_SIZE < block_count (length x) * sizeof_block_packet"
    using n(1) by (intro mult_strict_left_mono) (simp_all add: BLOCK_SIZE_def sizeof_block_packet_def)
  from order.strict_trans1 [OF n(2) this] show "length x < length B" unfolding assms(3) length_block_stream [OF assms(1)] by simp
  have "[0..<block_count (length x)] = 0 # [Suc 0..<block_count (length x)]" using n(1) by (rule upt_conv_Cons)
  then show "\<exists>r. B = CHR 0x04 # r" using hd_block [of sha 0 "cut_at 0 BLOCK_SIZE x"] unfolding assms(3) file_blocks_def by force
qed

text \<open>C9: the two programs do not agree on what a download is. The server sends its blocks with their
  headers; the client takes the announced number of bytes from the socket as the contents. So every
  file that does not happen to begin with the byte 4 arrives with other contents, reported as a
  success; the rest of the blocks stays in the client's input, where the next command looks for its
  answer; and the packet in which the client says where to start stays in the server's input, which
  the server takes for a command.\<close>

theorem download_garbled:
  assumes "sql_available env tbl key digest" "w_conn w = Some c" "open_sock (w_sock w)" "w_faults w = []" "store_ok key (tbl (w_db w))"
    "c_range (s_user s)" "0 < s_user s" "clean_text n" "is_word n" "CHR ''/'' \<notin> set n" "length n \<le> 199"
    "R \<in> set (t_paths (tbl (w_db w)))" "wanted key (s_dir s) n 0 R" "p_user R = s_user s"
    "\<forall>r\<in>set (t_paths (tbl (w_db w))). wanted key (s_dir s) n 0 r \<longrightarrow> r = R"
    "F \<in> set (t_files (tbl (w_db w)))" "p_file R = Some (f_id F)"
    "w_fs w (gen_physical_path 512 (f_sha F)) = Some (Regular x)" "length x = f_size F" "0 < length x" "hd x \<noteq> CHR 0x04"
    "c_ready cw" "c_fs cw n = None" "c_fs cw ''./downloads'' = Some Directory" "c_fs cw (''./downloads/'' @ n) \<noteq> Some Directory"
    "tx_out (c_sock cw) = []" "tx_out (w_sock w) = []"
    "stream (w_sock w) = bytes_of_command (request CMD_TYPE_GETS n) @
       bytes_of_file (init_file_packet (cmd_code CMD_TYPE_GETS) (Some n) (word_of_nat (length x)) 0)"
    "stream (c_sock cw) = download_bytes n (f_sha F) x"
  shows "\<exists>cw' w' y. process_command cenv (''gets '' @ n) cw = cw' \<and> session_loop env fd s w = session_loop env fd s w' \<and>
    tx_out (c_sock cw') = stream (w_sock w) \<and> tx_out (w_sock w') = stream (c_sock cw) \<and>
    c_stdout cw' = c_stdout cw @ txt_gets_done @ n @ '' ('' @ int_to_dec (int (length x)) @ txt_bytes \<and>
    c_fs cw' (''./downloads/'' @ n) = Some (Regular y) \<and> length y = length x \<and> y \<noteq> x \<and> stream (c_sock cw') \<noteq> [] \<and>
    stream (w_sock w') = bytes_of_file (init_file_packet (cmd_code CMD_TYPE_GETS) (Some n) (word_of_nat (length x)) 0)"
proof -
  define B where "B = concat (map bytes_of_block (file_blocks (f_sha F) x 0 (block_count (length x))))"
  define y where "y = take (length x) B"
  have nul: "NUL \<notin> set n" "n \<noteq> []" "length n \<le> 255" using assms(8,9,11) by (simp_all add: clean_text_def is_word_def)
  have sz: "f_size F \<le> 2147483647 * BLOCK_SIZE" "length (f_sha F) \<le> 64"
    using assms(5,16) by (auto simp: store_ok_def tables_ok_def)
  note B = block_stream [OF sz(2) assms(20) B_def]
  have y: "length y = length x" "y \<noteq> []" "length y < 2 ^ 63" "hd y = CHR 0x04"
    using B assms(19,20) sz(1) by (auto simp: y_def BLOCK_SIZE_def take_Cons')
  have split: "B = y @ drop (length x) B" by (simp add: y_def)
  have st: "stream (c_sock cw) = bytes_of_file (gets_header n (f_sha F) (length y)) @ y @ drop (length x) B"
    unfolding assms(29) download_bytes_def B_def [symmetric] y(1) using split by simp
  obtain segs where cg: "client_gets cenv n cw = c_print (txt_gets_done @ n @ '' ('' @ int_to_dec (int (length y)) @ txt_bytes)
      (c_left segs (c_sent (bytes_of_command (request CMD_TYPE_GETS n) @
         bytes_of_file (init_file_packet (cmd_code CMD_TYPE_GETS) (Some n) (word_of_nat (length y)) 0))
        (cw\<lparr>c_fs := (c_fs cw)(''./downloads/'' @ n \<mapsto> Regular y)\<rparr>)))" "concat segs = drop (length x) B"
    using client_gets_ready [OF assms(22-25) nul(1) assms(10,11) y(2,3) sz(2) st] by blast
  obtain segs1 where s1: "concat segs1 = bytes_of_file (init_file_packet (cmd_code CMD_TYPE_GETS) (Some n) (word_of_nat (length x)) 0)"
    "session_loop env fd s w =
    (case serve_command env fd (terminated (request CMD_TYPE_GETS n)) s (w\<lparr>w_sock := (w_sock w)\<lparr>rx_segs := segs1\<rparr>\<rparr>) of
       None \<Rightarrow> None | Some (s', w2) \<Rightarrow> session_loop env fd s' w2)"
    using session_loop_step [OF assms(28) request_ok(1) [OF nul(1,3)]] by blast
  let ?w1 = "w\<lparr>w_sock := (w_sock w)\<lparr>rx_segs := segs1\<rparr>\<rparr>"
  have w1: "w_conn ?w1 = Some c" "open_sock (w_sock ?w1)" "w_faults ?w1 = []" "w_db ?w1 = w_db w" "w_fs ?w1 = w_fs w"
    using assms(2-4) by (simp_all add: open_sock_def)
  obtain d where g: "handle_gets env s (Some n) ?w1 = Some (sent (download_bytes n (f_sha F) x) (?w1\<lparr>w_db := d\<rparr>))"
    using sql_available.handle_gets_exact [OF assms(1) w1(1-3), unfolded w1(4,5), OF assms(5-8) nul(2,3) assms(12-19)] by blast
  let ?w2 = "sent (download_bytes n (f_sha F) x) (?w1\<lparr>w_db := d\<rparr>)"
  have u: "s_user s \<noteq> - 1" using assms(7) by simp
  have l: "session_loop env fd s w = session_loop env fd s ?w2"
    unfolding s1(2) serve_transfer(2) [OF u nul(1,3)] g by (simp add: with_session_def)
  have ne: "y \<noteq> x" using y(4) assms(21) by auto
  let ?cw = "c_print (txt_gets_done @ n @ '' ('' @ int_to_dec (int (length y)) @ txt_bytes)
      (c_left segs (c_sent (bytes_of_command (request CMD_TYPE_GETS n) @
         bytes_of_file (init_file_packet (cmd_code CMD_TYPE_GETS) (Some n) (word_of_nat (length y)) 0))
        (cw\<lparr>c_fs := (c_fs cw)(''./downloads/'' @ n \<mapsto> Regular y)\<rparr>)))"
  have c: "stream (c_sock ?cw) \<noteq> []" using B(2) cg(2) by simp
  have w2: "stream (w_sock ?w2) = bytes_of_file (init_file_packet (cmd_code CMD_TYPE_GETS) (Some n) (word_of_nat (length x)) 0)"
    "tx_out (w_sock ?w2) = stream (c_sock cw)"
    using s1(1) assms(27,29) by (simp_all add: stream_def del: cmd_code.simps)
  show ?thesis
    unfolding process_transfer(2) [OF assms(9,11)] cg(1)
    by (rule exI, rule exI [of _ ?w2], rule exI [of _ y], intro conjI)
      (rule refl, rule l, use assms(26,28) y(1) in \<open>simp del: cmd_code.simps\<close>, rule w2, use assms(26,28) y(1) in \<open>simp del: cmd_code.simps\<close>, use assms(26,28) y(1) in \<open>simp del: cmd_code.simps\<close>, rule y(1), rule ne, rule c, rule w2)
qed

text \<open>The user of the instances with one file.\<close>

definition one_file :: tables where
  "one_file = one_user\<lparr>
     t_files := [\<lparr>f_id = 3, f_sha = ref_digest ''hi'', f_size = 2\<rparr>],
     t_paths := t_paths one_user @ [new_path 1 (Some 5) ''a.txt'' ''/a.txt'' CHR ''f'' (Some 3) 6]\<rparr>"

lemma one_file_store: "store_ok id one_file"
proof -
  have "tables_ok id one_file"
    using ref_digest_hex by (simp add: tables_ok_def ids_ok_def one_file_def one_user_def no_tables_def new_path_def)
  then show ?thesis by (simp add: store_ok_def one_file_def one_user_def no_tables_def BLOCK_SIZE_def)
qed

theorem download_garbled_witness:
  "\<exists>cw' y. process_command demo_client_env ''gets a.txt''
      (client_with [''./downloads'' \<mapsto> Directory] [download_bytes ''a.txt'' (ref_digest ''hi'') ''hi'']) = cw' \<and>
    c_stdout cw' = txt_gets_done @ ''a.txt (2'' @ txt_bytes \<and> c_fs cw' ''./downloads/a.txt'' = Some (Regular y) \<and> y \<noteq> ''hi''"
proof -
  let ?h = "ref_digest ''hi''"
  let ?s = "\<lparr>s_path = ''/'', s_user = 1, s_dir = 5\<rparr>"
  let ?R = "new_path 1 (Some 5) ''a.txt'' ''/a.txt'' CHR ''f'' (Some 3) 6"
  let ?F = "\<lparr>f_id = 3, f_sha = ref_digest ''hi'', f_size = 2\<rparr>"
  let ?C = "client_with [''./downloads'' \<mapsto> Directory] [download_bytes ''a.txt'' ?h ''hi'']"
  let ?W = "(world_of one_file [bytes_of_command (request CMD_TYPE_GETS ''a.txt''),
       bytes_of_file (init_file_packet (cmd_code CMD_TYPE_GETS) (Some ''a.txt'') (word_of_nat (length ''hi'')) 0)])
     \<lparr>w_fs := [gen_physical_path 512 ?h \<mapsto> Regular ''hi'']\<rparr>"
  have w: "w_conn ?W = Some 7" "open_sock (w_sock ?W)" "w_faults ?W = []" "w_db ?W = one_file" "tx_out (w_sock ?W) = []"
    "w_fs ?W (gen_physical_path 512 (f_sha ?F)) = Some (Regular ''hi'')"
    "stream (w_sock ?W) = bytes_of_command (request CMD_TYPE_GETS ''a.txt'') @
       bytes_of_file (init_file_packet (cmd_code CMD_TYPE_GETS) (Some ''a.txt'') (word_of_nat (length ''hi'')) 0)"
    by (simp_all del: cmd_code.simps)
  have cl: "c_ready ?C" "c_fs ?C ''a.txt'' = None" "c_fs ?C ''./downloads'' = Some Directory" "c_fs ?C (''./downloads/'' @ ''a.txt'') \<noteq> Some Directory"
    "tx_out (c_sock ?C) = []" "stream (c_sock ?C) = download_bytes ''a.txt'' (f_sha ?F) ''hi''"
    by simp_all
  have r: "?R \<in> set (t_paths one_file)" "wanted id (s_dir ?s) ''a.txt'' 0 ?R" "p_user ?R = s_user ?s"
    "\<forall>r\<in>set (t_paths one_file). wanted id (s_dir ?s) ''a.txt'' 0 r \<longrightarrow> r = ?R" "?F \<in> set (t_files one_file)" "p_file ?R = Some (f_id ?F)"
    by (simp_all add: one_file_def one_user_def no_tables_def new_path_def child_of_def)
  have g: "c_range (s_user ?s)" "0 < s_user ?s" "clean_text ''a.txt''" "is_word ''a.txt''" "CHR ''/'' \<notin> set ''a.txt''" "length ''a.txt'' \<le> 199"
    "length ''hi'' = f_size ?F" "0 < length ''hi''" "hd ''hi'' \<noteq> CHR 0x04"
    by (simp_all add: c_range_def clean_text_def sq_def is_word_def is_space_def)
  have d: "int_to_dec (int (length ''hi'')) = ''2''"
    using char_of_char [of "CHR ''2''", where 'a = nat] by (simp add: int_to_dec_def nat_to_dec.simps)
  have o: "c_stdout ?C = []" by simp
  show ?thesis
    using download_garbled [OF ref_available [of id] w(1-3), unfolded w(4), OF one_file_store g(1-6) r(1-6) w(6) g(7-9) cl(1-5) w(5,7) cl(6), of demo_client_env 5]
    unfolding d o by auto
qed

end
