(* ===== verification/Instant_Upload.thy ===== *)
theory Instant_Upload
  imports Client_Props
begin

text \<open>
  The instant upload: when a file with the announced digest is there, the server adds a name for it
  and does not ask for the contents (\<open>handle_puts\<close>, the branch before the file is created).
\<close>

context sql_available begin

lemma find_stored:
  assumes "tables_ok key (tbl d)" "F \<in> set (t_files (tbl d))" "clean_text (f_sha F)" "length (f_sha F) = 64"
  shows "\<exists>d'. dao_find_file_by_hash env (Some c) (Some (f_sha F)) d = Some (f_id F, d') \<and> tbl d' = tbl d"
proof -
  have inj: "f = F" if "f \<in> set (t_files (tbl d))" "key (f_sha f) = key (f_sha F)" for f
    using assms(1,2) that unfolding tables_ok_def distinct_map by (blast dest: inj_onD)
  have ex: "\<exists>f\<in>set (t_files (tbl d)). key (f_sha f) = key (f_sha F)" using assms(2) by blast
  obtain q d' where "dao_find_file_by_hash env (Some c) (Some (f_sha F)) d = Some (q, d')" "tbl d' = tbl d"
    "\<exists>f\<in>set (t_files (tbl d)). key (f_sha f) = key (f_sha F) \<and> f_id f = q"
    using find_file_exact [OF assms(1,3), of c] assms(4) unfolding if_P [OF ex] by auto
  with inj show ?thesis by blast
qed

lemma handle_puts_instant:
  assumes "w_conn w = Some c" "open_sock (w_sock w)" "w_faults w = []" "tables_ok key (tbl (w_db w))"
    "w_fs w STORAGE_DIR \<in> {None, Some Directory}"
    "s_user s \<in> u_id ` set (t_users (tbl (w_db w)))" "s_dir s \<in> p_id ` set (t_paths (tbl (w_db w)))"
    "clean_text n" "n \<noteq> []" "length n \<le> 190" "ids_left (map p_id (t_paths (tbl (w_db w))))"
    "\<not> (\<exists>r\<in>set (t_paths (tbl (w_db w))). p_parent r = Some (s_dir s) \<and> key (p_name r) = key n)"
    "F \<in> set (t_files (tbl (w_db w)))" "clean_text (f_sha F)" "length (f_sha F) = 64" "0 < len" "len < 2 ^ 63" "NUL \<notin> set fn"
    "stream (w_sock w) = bytes_of_file (upload_info fn (f_sha F) len) @ rest"
  shows "\<exists>d segs pid. handle_puts env s (Some n) w = Some (sent (reply_bytes msg_instant)
        (w\<lparr>w_db := d, w_fs := (w_fs w)(STORAGE_DIR \<mapsto> Directory), w_sock := (w_sock w)\<lparr>rx_segs := segs\<rparr>\<rparr>)) \<and>
      concat segs = rest \<and> tables_ok key (tbl d) \<and>
      adds_path (tbl (w_db w)) (tbl d) (new_path (s_user s) (Some (s_dir s)) n (''/'' @ n) CHR ''f'' (Some (f_id F)) pid)"
proof -
  let ?h = "f_sha F"
  have z: "(word_of_nat len :: 64 word) \<noteq> 0" using unat_word64 [of len] assms(16,17) by auto
  let ?w1 = "w\<lparr>w_fs := (w_fs w)(STORAGE_DIR \<mapsto> Directory)\<rparr>"
  have e: "ensure_storage_dir w = (0, ?w1)" by (rule ensure_storage_ok [OF assms(3,5)])
  have nul: "NUL \<notin> set ?h" using assms(14) by (simp add: clean_text_def)
  obtain segs pk where rc: "recv_file_packet (w_sock w) = (352, Some pk, (w_sock w)\<lparr>rx_segs := segs\<rparr>)" "concat segs = rest"
    "array_string (fp_hash pk) = Some ?h" "fp_file_size pk = word_of_nat len"
    using recv_upload_info [OF assms(18,15) nul assms(19)] by blast
  obtain d1 where d1: "dao_find_file_by_hash env (Some c) (Some ?h) (w_db w) = Some (f_id F, d1)" "tbl d1 = tbl (w_db w)"
    using find_stored [OF assms(4,13-15)] by blast
  have r: "c_range (s_user s)" "0 < s_user s" "c_range (s_dir s)" "0 < s_dir s" "c_range (f_id F)" "0 < f_id F"
    using tables_ok_id_range [OF assms(4)] assms(6,7,13) by auto
  have "\<not> path_violates key (tbl d1) (s_user s) (Some (s_dir s)) n (Some (f_id F))"
    using assms(6,7,11-13) d1(2) by (auto simp: path_violates_def)
  then obtain pid d2 where d2: "dao_insert_path env (Some c) (s_user s) (s_dir s) (Some n) (f_id F) (''/'' @ n) d1 = (pid, d2)"
    "tables_ok key (tbl d2)" "adds_path (tbl d1) (tbl d2) (new_path (s_user s) (Some (s_dir s)) n (''/'' @ n) CHR ''f'' (Some (f_id F)) pid)"
    using insert_path_exact [OF assms(4) [folded d1(2)] r(1,3,5,2,4,6) assms(8,10), of c] by auto
  have pid: "0 < pid" using d2(3) by (simp add: adds_path_def new_path_def)
  have v: "snprintf_str 512 (''/'' @ n) = ''/'' @ n" using assms(10) by (simp add: snprintf_str_def)
  let ?w4 = "?w1\<lparr>w_sock := (w_sock w)\<lparr>rx_segs := segs\<rparr>, w_db := d2\<rparr>"
  have "handle_puts env s (Some n) w = Some (say msg_instant ?w4)"
    using assms(1,9,15) z pid r(6) unfolding handle_puts_def e
    by (simp add: get_thread_db_conn_def rc Let_def d1(1) d2(1) [simplified] db_call_def db_run_def v [simplified])
  moreover have "say msg_instant ?w4 = sent (reply_bytes msg_instant)
      (w\<lparr>w_db := d2, w_fs := (w_fs w)(STORAGE_DIR \<mapsto> Directory), w_sock := (w_sock w)\<lparr>rx_segs := segs\<rparr>\<rparr>)"
    using assms(2) by (simp add: say_open open_sock_def) (simp add: sent_def)
  ultimately show ?thesis using rc(2) d2(2,3) d1(2)
    by (intro exI [of _ d2] exI [of _ segs] exI [of _ pid]) simp
qed

end

section \<open>The digest is all it takes\<close>

text \<open>C25: whoever knows the digest of a stored file can have the file: announcing the digest under a new name,
  with any size and without a byte of the contents, gives the user a name for the stored file, and a
  download under that name sends its contents, whoever uploaded them.\<close>

theorem digest_grants_access:
  assumes "sql_available env tbl key digest" "w_conn w = Some c" "open_sock (w_sock w)" "w_faults w = []" "store_ok key (tbl (w_db w))"
    "w_fs w STORAGE_DIR \<in> {None, Some Directory}" "s_user s \<in> u_id ` set (t_users (tbl (w_db w)))" "s_dir s \<in> p_id ` set (t_paths (tbl (w_db w)))"
    "clean_text n" "n \<noteq> []" "length n \<le> 190" "ids_left (map p_id (t_paths (tbl (w_db w))))"
    "\<not> (\<exists>r\<in>set (t_paths (tbl (w_db w))). p_parent r = Some (s_dir s) \<and> key (p_name r) = key n)"
    "F \<in> set (t_files (tbl (w_db w)))" "clean_text (f_sha F)" "length (f_sha F) = 64" "0 < len" "len < 2 ^ 63" "NUL \<notin> set fn"
    "w_fs w (STORAGE_DIR @ ''/'' @ f_sha F) = Some (Regular x)" "length x = f_size F"
    "stream (w_sock w) = bytes_of_file (upload_info fn (f_sha F) len)"
  shows "\<exists>w1 w2. handle_puts env s (Some n) w = Some w1 \<and> tx_out (w_sock w1) = tx_out (w_sock w) @ reply_bytes msg_instant \<and>
    stream (w_sock w1) = [] \<and> handle_gets env s (Some n) w1 = Some w2 \<and>
    tx_out (w_sock w2) = tx_out (w_sock w1) @ download_bytes n (f_sha F) x"
proof -
  let ?t = "tbl (w_db w)"
  have ok: "tables_ok key ?t" using assms(5) by (simp add: store_ok_def)
  have st: "stream (w_sock w) = bytes_of_file (upload_info fn (f_sha F) len) @ []" using assms(22) by simp
  obtain d segs pid where p: "handle_puts env s (Some n) w = Some (sent (reply_bytes msg_instant)
        (w\<lparr>w_db := d, w_fs := (w_fs w)(STORAGE_DIR \<mapsto> Directory), w_sock := (w_sock w)\<lparr>rx_segs := segs\<rparr>\<rparr>))"
      "concat segs = []" "tables_ok key (tbl d)"
      "adds_path ?t (tbl d) (new_path (s_user s) (Some (s_dir s)) n (''/'' @ n) CHR ''f'' (Some (f_id F)) pid)"
    using sql_available.handle_puts_instant [OF assms(1-4) ok assms(6-19) st] by blast
  let ?w1 = "sent (reply_bytes msg_instant) (w\<lparr>w_db := d, w_fs := (w_fs w)(STORAGE_DIR \<mapsto> Directory), w_sock := (w_sock w)\<lparr>rx_segs := segs\<rparr>\<rparr>)"
  define R where "R = new_path (s_user s) (Some (s_dir s)) n (''/'' @ n) CHR ''f'' (Some (f_id F)) pid"
  have R: "p_type R = CHR ''f''" "p_parent R = Some (s_dir s)" "\<not> p_tomb R" "p_name R = n" "p_user R = s_user s" "p_file R = Some (f_id F)"
    by (simp_all add: R_def new_path_def)
  have rows: "t_paths (tbl d) = t_paths ?t @ [R]" "t_files (tbl d) = t_files ?t" "t_xfers (tbl d) = t_xfers ?t"
    using p(4) by (simp_all add: adds_path_def R_def)
  have u: "c_range (s_user s)" "0 < s_user s" using tables_ok_id_range(1) [OF ok] assms(7) by auto
  have ne: "STORAGE_DIR @ ''/'' @ f_sha F \<noteq> STORAGE_DIR" by simp
  have w1: "w_conn ?w1 = Some c" "open_sock (w_sock ?w1)" "w_faults ?w1 = []" "w_db ?w1 = d"
    "w_fs ?w1 (gen_physical_path 512 (f_sha F)) = Some (Regular x)"
    using assms(2-4,16,20) ne by (simp_all add: open_sock_def sent_def physical_path)
  have st1: "store_ok key (tbl d)" using assms(5) p(3) rows by (auto simp: store_ok_def)
  have want: "wanted key (s_dir s) n 0 R" using R by (simp add: child_of_def)
  have only: "\<forall>r\<in>set (t_paths (tbl d)). wanted key (s_dir s) n 0 r \<longrightarrow> r = R" using assms(13) by (auto simp: rows child_of_def)
  have n: "length n \<le> 255" using assms(11) by simp
  have mem: "R \<in> set (t_paths (tbl d))" "F \<in> set (t_files (tbl d))" using assms(14) by (simp_all add: rows)
  obtain d' where g: "handle_gets env s (Some n) ?w1 = Some (sent (download_bytes n (f_sha F) x) (?w1\<lparr>w_db := d'\<rparr>))"
    using sql_available.handle_gets_exact [OF assms(1), of ?w1 c s n R F x, unfolded w1(4),
        OF w1(1-3) st1 u assms(9,10) n mem(1) want R(5) only mem(2) R(6) w1(5) assms(21)] by blast
  show ?thesis
    by (rule exI [of _ ?w1], rule exI [of _ "sent (download_bytes n (f_sha F) x) (?w1\<lparr>w_db := d'\<rparr>)"])
      (use p(1,2) g in \<open>simp add: stream_def sent_def\<close>)
qed

text \<open>Ann has a file, Bob a directory of his own.\<close>

definition ann_and_bob :: tables where
  "ann_and_bob = one_file\<lparr>t_users := t_users one_file @ [bob],
     t_paths := t_paths one_file @ [new_path 2 None ''/'' ''/'' CHR ''d'' None 7]\<rparr>"

abbreviation ann_file :: file_row where
  "ann_file \<equiv> \<lparr>f_id = 3, f_sha = ref_digest ''hi'', f_size = 2\<rparr>"

lemma ann_and_bob_store: "store_ok id ann_and_bob"
proof -
  have "tables_ok id ann_and_bob"
    using ref_digest_hex by (simp add: tables_ok_def ids_ok_def ann_and_bob_def bob_def one_file_def one_user_def no_tables_def new_path_def)
  then show ?thesis by (simp add: store_ok_def ann_and_bob_def one_file_def one_user_def no_tables_def BLOCK_SIZE_def)
qed

lemma bob_context:
  "(2 :: int) \<in> u_id ` set (t_users ann_and_bob)" "(7 :: int) \<in> p_id ` set (t_paths ann_and_bob)" "ids_left (map p_id (t_paths ann_and_bob))"
  "\<not> (\<exists>r\<in>set (t_paths ann_and_bob). p_parent r = Some 7 \<and> id (p_name r) = id ''b.txt'')"
  "ann_file \<in> set (t_files ann_and_bob)"
  by (simp_all add: ann_and_bob_def bob_def one_file_def one_user_def no_tables_def new_path_def ids_left_def)

abbreviation bob_session :: session where
  "bob_session \<equiv> \<lparr>s_path = ''/'', s_user = 2, s_dir = 7\<rparr>"

lemma name_b: "clean_text ''b.txt''" "''b.txt'' \<noteq> []" "length ''b.txt'' \<le> 190" "NUL \<notin> set ''b.txt''" "is_word ''b.txt''"
  by (simp_all add: clean_text_def sq_def is_word_def is_space_def)

theorem digest_grants_access_witness:
  "\<exists>w1 w2. handle_puts (ref_env id) bob_session (Some ''b.txt'')
      ((world_of ann_and_bob [bytes_of_file (upload_info ''b.txt'' (ref_digest ''hi'') 9)])
         \<lparr>w_fs := [STORAGE_DIR @ ''/'' @ ref_digest ''hi'' \<mapsto> Regular ''hi'']\<rparr>) = Some w1 \<and>
    handle_gets (ref_env id) bob_session (Some ''b.txt'') w1 = Some w2 \<and>
    tx_out (w_sock w2) = reply_bytes msg_instant @ download_bytes ''b.txt'' (ref_digest ''hi'') ''hi''"
proof -
  let ?W = "(world_of ann_and_bob [bytes_of_file (upload_info ''b.txt'' (ref_digest ''hi'') 9)])
         \<lparr>w_fs := [STORAGE_DIR @ ''/'' @ ref_digest ''hi'' \<mapsto> Regular ''hi'']\<rparr>"
  have w: "w_conn ?W = Some 7" "open_sock (w_sock ?W)" "w_faults ?W = []" "w_db ?W = ann_and_bob" "tx_out (w_sock ?W) = []"
    "w_fs ?W STORAGE_DIR \<in> {None, Some Directory}" "w_fs ?W (STORAGE_DIR @ ''/'' @ f_sha ann_file) = Some (Regular ''hi'')"
    "stream (w_sock ?W) = bytes_of_file (upload_info ''b.txt'' (f_sha ann_file) 9)"
    by simp_all
  have g: "s_user bob_session \<in> u_id ` set (t_users ann_and_bob)" "s_dir bob_session \<in> p_id ` set (t_paths ann_and_bob)"
    "\<not> (\<exists>r\<in>set (t_paths ann_and_bob). p_parent r = Some (s_dir bob_session) \<and> id (p_name r) = id ''b.txt'')"
    using bob_context(1,2,4) by simp_all
  have h: "clean_text (f_sha ann_file)" "length (f_sha ann_file) = 64" using ref_hash_ok by simp_all
  have l: "(0 :: nat) < 9" "(9 :: nat) < 2 ^ 63" "length ''hi'' = f_size ann_file" by simp_all
  show ?thesis
    using digest_grants_access [OF ref_available [of id] w(1-3), unfolded w(4), OF ann_and_bob_store w(6) g(1,2) name_b(1-3) bob_context(3) g(3)
        bob_context(5) h l(1,2) name_b(4) w(7) l(3) w(8)] by (auto simp: w(5))
qed

section \<open>The client waits for more\<close>

lemma client_puts_stalls:
  assumes "c_ready w" "c_fs w arg = Some (Regular x)"
    "env_popen (ce_sha env) (sha_command arg) x = Some (Some (h @ r))" "length h = 64" "NUL \<notin> set h" "length (stream (c_sock w)) < 352"
  shows "client_puts env arg w = c_print txt_no_offset (c_left [] (c_sent
    (bytes_of_command (request CMD_TYPE_PUTS arg) @ bytes_of_file (upload_info arg h (length x))) w))"
proof -
  let ?w1 = "c_sent (bytes_of_command (request CMD_TYPE_PUTS arg) @ bytes_of_file (upload_info arg h (length x))) w"
  have "recv_full (c_sock ?w1) sizeof_file_packet =
      (if rx_fail (c_sock ?w1) then - 1 else 0, stream (c_sock w), (c_sock ?w1)\<lparr>rx_segs := []\<rparr>)"
    using recv_loop_short [of "[]" 352 "c_sock ?w1"] assms(6) by (simp add: recv_full_def sizeof_file_packet_def)
  then show ?thesis unfolding client_puts_announces [OF assms(1-5)]
    by (simp add: client_puts_file_def recv_file_packet_def c_left_def)
qed

text \<open>C26: an instant upload with the client of this repository: the server adds the name and confirms with
  one command packet; the client waits for a file packet, which is longer, so that whenever the
  connection ends it reports that no answer came. What either side receives is exactly what the other
  sends: neither will ever send more.\<close>

theorem instant_upload_stalls:
  assumes "sql_available env tbl key digest" "w_conn w = Some c" "open_sock (w_sock w)" "w_faults w = []" "tables_ok key (tbl (w_db w))"
    "w_fs w STORAGE_DIR \<in> {None, Some Directory}" "s_user s \<in> u_id ` set (t_users (tbl (w_db w)))" "s_dir s \<in> p_id ` set (t_paths (tbl (w_db w)))"
    "clean_text n" "is_word n" "length n \<le> 190" "ids_left (map p_id (t_paths (tbl (w_db w))))"
    "\<not> (\<exists>r\<in>set (t_paths (tbl (w_db w))). p_parent r = Some (s_dir s) \<and> key (p_name r) = key n)"
    "F \<in> set (t_files (tbl (w_db w)))" "clean_text (f_sha F)" "length (f_sha F) = 64"
    "c_ready cw" "c_fs cw n = Some (Regular x)" "0 < length x" "length x < 2 ^ 63"
    "env_popen (ce_sha cenv) (sha_command n) x = Some (Some (f_sha F @ r))" "tx_out (c_sock cw) = []" "tx_out (w_sock w) = []"
    "stream (w_sock w) = bytes_of_command (request CMD_TYPE_PUTS n) @ bytes_of_file (upload_info n (f_sha F) (length x))"
    "stream (c_sock cw) = reply_bytes msg_instant"
  shows "\<exists>cw' w' pid. process_command cenv (''puts '' @ n) cw = cw' \<and> session_loop env fd s w = Some w' \<and>
    tx_out (c_sock cw') = stream (w_sock w) \<and> tx_out (w_sock w') = stream (c_sock cw) \<and>
    c_stdout cw' = c_stdout cw @ txt_no_offset \<and>
    adds_path (tbl (w_db w)) (tbl (w_db w')) (new_path (s_user s) (Some (s_dir s)) n (''/'' @ n) CHR ''f'' (Some (f_id F)) pid)"
proof -
  have nul: "NUL \<notin> set n" "NUL \<notin> set (f_sha F)" "n \<noteq> []" "length n \<le> 199" "length n \<le> 255"
    using assms(9-11,15) by (simp_all add: clean_text_def is_word_def)
  have short: "length (stream (c_sock cw)) < 352"
    unfolding assms(25) reply_bytes_def using length_bytes_of_command [OF wf_init_command] by (simp add: sizeof_command_packet_def)
  note cp = client_puts_stalls [OF assms(17,18,21,16) nul(2) short]
  obtain segs1 where s1: "concat segs1 = bytes_of_file (upload_info n (f_sha F) (length x))" "session_loop env fd s w =
    (case serve_command env fd (terminated (request CMD_TYPE_PUTS n)) s (w\<lparr>w_sock := (w_sock w)\<lparr>rx_segs := segs1\<rparr>\<rparr>) of
       None \<Rightarrow> None | Some (s', w2) \<Rightarrow> session_loop env fd s' w2)"
    using session_loop_step [OF assms(24) request_ok(1) [OF nul(1,5)]] by blast
  let ?w1 = "w\<lparr>w_sock := (w_sock w)\<lparr>rx_segs := segs1\<rparr>\<rparr>"
  have w1: "w_conn ?w1 = Some c" "open_sock (w_sock ?w1)" "w_faults ?w1 = []" "w_db ?w1 = w_db w" "w_fs ?w1 = w_fs w"
    "stream (w_sock ?w1) = bytes_of_file (upload_info n (f_sha F) (length x)) @ []"
    using assms(2-4) s1(1) by (simp_all add: open_sock_def stream_def)
  have u: "s_user s \<noteq> - 1" using tables_ok_id_range(1) [OF assms(5)] assms(7) by force
  obtain d segs2 pid where p: "handle_puts env s (Some n) ?w1 = Some (sent (reply_bytes msg_instant)
        (?w1\<lparr>w_db := d, w_fs := (w_fs w)(STORAGE_DIR \<mapsto> Directory), w_sock := (w_sock ?w1)\<lparr>rx_segs := segs2\<rparr>\<rparr>))" "concat segs2 = []"
      "adds_path (tbl (w_db w)) (tbl d) (new_path (s_user s) (Some (s_dir s)) n (''/'' @ n) CHR ''f'' (Some (f_id F)) pid)"
    using sql_available.handle_puts_instant [OF assms(1) w1(1-3), unfolded w1(4,5), OF assms(5-9) nul(3) assms(11-16,19,20) nul(1) w1(6)]
    by blast
  let ?w2 = "sent (reply_bytes msg_instant)
        (?w1\<lparr>w_db := d, w_fs := (w_fs w)(STORAGE_DIR \<mapsto> Directory), w_sock := (w_sock ?w1)\<lparr>rx_segs := segs2\<rparr>\<rparr>)"
  have l: "session_loop env fd s w = session_loop env fd s ?w2"
    unfolding s1(2) serve_transfer(1) [OF u nul(1,5)] p(1) by (simp add: with_session_def)
  have "stream (w_sock ?w2) = []" using p(2) by (simp add: stream_def)
  then obtain segs3 where e: "session_loop env fd s ?w2 = Some (?w2\<lparr>w_sock := (w_sock ?w2)\<lparr>rx_segs := segs3\<rparr>\<rparr>)"
    using session_loop_end by blast
  let ?w3 = "?w2\<lparr>w_sock := (w_sock ?w2)\<lparr>rx_segs := segs3\<rparr>\<rparr>"
  have w3: "w_db ?w3 = d" "tx_out (w_sock ?w3) = stream (c_sock cw)" using assms(23,25) by simp_all
  have w4: "adds_path (tbl (w_db w)) (tbl (w_db ?w3)) (new_path (s_user s) (Some (s_dir s)) n (''/'' @ n) CHR ''f'' (Some (f_id F)) pid)"
    unfolding w3(1) by (rule p(3))
  show ?thesis
    unfolding process_transfer(1) [OF assms(10) nul(4)] l e cp
    by (rule exI, rule exI, rule exI [of _ pid], intro conjI)
      (rule refl, rule refl, use assms(22,24) in \<open>simp del: cmd_code.simps\<close>, rule w3, simp, rule w4)
qed

theorem instant_upload_stalls_witness:
  "\<exists>cw' w'. process_command demo_client_env ''puts b.txt'' (client_with [''b.txt'' \<mapsto> Regular ''hi''] [reply_bytes msg_instant]) = cw' \<and>
    session_loop (ref_env id) 5 bob_session (world_of ann_and_bob
      [bytes_of_command (request CMD_TYPE_PUTS ''b.txt''), bytes_of_file (upload_info ''b.txt'' (ref_digest ''hi'') (length ''hi''))]) = Some w' \<and>
    c_stdout cw' = txt_no_offset \<and> tx_out (w_sock w') = reply_bytes msg_instant"
proof -
  let ?W = "world_of ann_and_bob [bytes_of_command (request CMD_TYPE_PUTS ''b.txt''), bytes_of_file (upload_info ''b.txt'' (ref_digest ''hi'') (length ''hi''))]"
  let ?C = "client_with [''b.txt'' \<mapsto> Regular ''hi''] [reply_bytes msg_instant]"
  have w: "w_conn ?W = Some 7" "open_sock (w_sock ?W)" "w_faults ?W = []" "w_db ?W = ann_and_bob" "tx_out (w_sock ?W) = []"
    "w_fs ?W STORAGE_DIR \<in> {None, Some Directory}"
    "stream (w_sock ?W) = bytes_of_command (request CMD_TYPE_PUTS ''b.txt'') @ bytes_of_file (upload_info ''b.txt'' (f_sha ann_file) (length ''hi''))"
    by (simp_all del: cmd_code.simps)
  have cl: "c_ready ?C" "c_fs ?C ''b.txt'' = Some (Regular ''hi'')" "tx_out (c_sock ?C) = []" "c_stdout ?C = []" "stream (c_sock ?C) = reply_bytes msg_instant"
    by simp_all
  have g: "s_user bob_session \<in> u_id ` set (t_users ann_and_bob)" "s_dir bob_session \<in> p_id ` set (t_paths ann_and_bob)"
    "\<not> (\<exists>r\<in>set (t_paths ann_and_bob). p_parent r = Some (s_dir bob_session) \<and> id (p_name r) = id ''b.txt'')"
    using bob_context(1,2,4) by simp_all
  have h: "clean_text (f_sha ann_file)" "length (f_sha ann_file) = 64" using ref_hash_ok by simp_all
  have ok: "tables_ok id ann_and_bob" using ann_and_bob_store by (simp add: store_ok_def)
  have l: "0 < length ''hi''" "length ''hi'' < 2 ^ 63" by simp_all
  have e: "env_popen (ce_sha demo_client_env) (sha_command ''b.txt'') ''hi'' = Some (Some (f_sha ann_file @ ''  a.txt\<newline>''))"
    by (simp add: demo_client_env_def)
  show ?thesis
    using instant_upload_stalls [OF ref_available [of id] w(1-3), unfolded w(4), OF ok w(6) g(1,2) name_b(1,5,3) bob_context(3) g(3)
        bob_context(5) h cl(1,2) l e cl(3) w(5,7) cl(5), of 5] unfolding cl(4,5) by auto
qed

end
