(* ===== verification/Drive.thy ===== *)
theory Drive
  imports Scenario
begin

text \<open>
  What the directory commands promise, without tables: an abstract drive. It knows for every folder
  and every name, as the collation compares names, what is there: nothing, a folder, a file, or the
  trace of something removed; for every folder where it lies; which ids have been given; and where the
  user is. \<open>drive_of\<close> reads the drive off the tables and the session; the lemmas say how it changes
  when a row is added or marked as deleted.
\<close>

section \<open>The abstract drive\<close>

datatype slot = Free | Gone | Folder string int | Plain string int

record drive =
  dr_slots :: "int \<Rightarrow> string \<Rightarrow> slot"
  dr_parent :: "int \<Rightarrow> int option"
  dr_ids :: "int set"
  dr_root :: "int option"
  dr_here :: int
  dr_path :: string

datatype drive_cmd = Mkdir string | Rm string | Cd string | Up | Home | Pwd | Ls

text \<open>What stands under a name in the folder the user is in, and the drive with something else there.\<close>

definition here_slot :: "(string \<Rightarrow> string) \<Rightarrow> drive \<Rightarrow> string \<Rightarrow> slot" where
  "here_slot key D n = dr_slots D (dr_here D) (key n)"

definition put_slot :: "(string \<Rightarrow> string) \<Rightarrow> string \<Rightarrow> slot \<Rightarrow> drive \<Rightarrow> drive" where
  "put_slot key n s D = D\<lparr>dr_slots := (dr_slots D)(dr_here D := (dr_slots D (dr_here D))(key n := s))\<rparr>"

definition shown_names :: "drive \<Rightarrow> string set" where
  "shown_names D = {m. \<exists>k i. dr_slots D (dr_here D) k \<in> {Folder m i, Plain m i}}"

text \<open>A command, the answer, the drive afterwards. An id is anything not given before; when the ids are used
  up nothing can be made. The listing has every name once, in some order, as many as fit the buffer of
  4096 bytes.\<close>

inductive drive_step :: "(string \<Rightarrow> string) \<Rightarrow> drive \<Rightarrow> drive_cmd \<Rightarrow> string \<Rightarrow> drive \<Rightarrow> bool" for key D where
  mkdir_new: "here_slot key D n = Free \<Longrightarrow> \<forall>j\<in>dr_ids D. j < 2147483647 \<Longrightarrow> i \<notin> dr_ids D \<Longrightarrow>
    drive_step key D (Mkdir n) msg_mkdir_ok
      ((put_slot key n (Folder n i) D)\<lparr>dr_parent := (dr_parent D)(i \<mapsto> dr_here D), dr_ids := insert i (dr_ids D)\<rparr>)"
| mkdir_full: "here_slot key D n = Free \<Longrightarrow> j \<in> dr_ids D \<Longrightarrow> 2147483647 \<le> j \<Longrightarrow> drive_step key D (Mkdir n) msg_mkdir_failed D"
| mkdir_again: "here_slot key D n = Folder m i \<Longrightarrow> drive_step key D (Mkdir n) msg_dir_exists D"
| mkdir_taken: "here_slot key D n = Gone \<or> here_slot key D n = Plain m i \<Longrightarrow> drive_step key D (Mkdir n) msg_mkdir_failed D"
| rm_there: "here_slot key D n = Folder m i \<or> here_slot key D n = Plain m i \<Longrightarrow>
    drive_step key D (Rm n) msg_rm_ok ((put_slot key n Gone D)\<lparr>dr_parent := (dr_parent D)(i := None)\<rparr>)"
| rm_none: "here_slot key D n = Free \<or> here_slot key D n = Gone \<Longrightarrow> drive_step key D (Rm n) msg_no_entry D"
| cd_there: "here_slot key D n = Folder m i \<Longrightarrow>
    drive_step key D (Cd n) msg_entered (D\<lparr>dr_here := i, dr_path := join_path (dr_path D) n\<rparr>)"
| cd_none: "\<forall>m i. here_slot key D n \<noteq> Folder m i \<Longrightarrow> drive_step key D (Cd n) msg_no_dir D"
| up: "dr_parent D (dr_here D) = Some i \<Longrightarrow> drive_step key D Up msg_up (D\<lparr>dr_here := i, dr_path := up_path (dr_path D)\<rparr>)"
| up_top: "dr_parent D (dr_here D) = None \<Longrightarrow> drive_step key D Up msg_at_root D"
| home: "dr_root D = Some i \<Longrightarrow> drive_step key D Home msg_to_root (D\<lparr>dr_here := i, dr_path := ''/''\<rparr>)"
| home_none: "dr_root D = None \<Longrightarrow> drive_step key D Home msg_no_root D"
| pwd: "drive_step key D Pwd (dr_path D) D"
| ls: "set ns = shown_names D \<Longrightarrow> distinct (map key ns) \<Longrightarrow> drive_step key D Ls (listing (fitting 4096 5 ns)) D"

inductive_cases drive_step_cases [elim]:
  "drive_step key D (Mkdir n) b D'" "drive_step key D (Rm n) b D'" "drive_step key D (Cd n) b D'" "drive_step key D Ls b D'"

inductive_simps drive_step_pwd: "drive_step key D Pwd b D'"

inductive drive_run :: "(string \<Rightarrow> string) \<Rightarrow> drive \<Rightarrow> drive_cmd list \<Rightarrow> string list \<Rightarrow> drive \<Rightarrow> bool" for key where
  Nil: "drive_run key D [] [] D"
| Cons: "drive_step key D c b D1 \<Longrightarrow> drive_run key D1 cs bs D' \<Longrightarrow> drive_run key D (c # cs) (b # bs) D'"

section \<open>The drive of the tables\<close>

definition row_slot :: "path_row \<Rightarrow> slot" where
  "row_slot r = (if p_tomb r then Gone else if p_type r = CHR ''d'' then Folder (p_name r) (p_id r) else Plain (p_name r) (p_id r))"

definition drive_of :: "(string \<Rightarrow> string) \<Rightarrow> tables \<Rightarrow> session \<Rightarrow> drive" where
  "drive_of key t s =
     \<lparr>dr_slots = (\<lambda>f k. case List.find (\<lambda>r. p_parent r = Some f \<and> key (p_name r) = k) (t_paths t) of None \<Rightarrow> Free | Some r \<Rightarrow> row_slot r),
      dr_parent = (\<lambda>i. case List.find (\<lambda>r. p_id r = i \<and> \<not> p_tomb r) (t_paths t) of None \<Rightarrow> None | Some r \<Rightarrow> p_parent r),
      dr_ids = set (map p_id (t_paths t)),
      dr_root = map_option p_id (List.find (\<lambda>r. p_user r = s_user s \<and> p_parent r = None \<and> p_type r = CHR ''d'') (t_paths t)),
      dr_here = s_dir s, dr_path = s_path s\<rparr>"

text \<open>What a session on the tables needs for its drive: folders of one user hold rows of this user, the user
  is in a folder of their own and has at most one root.\<close>

definition drive_ok :: "(string \<Rightarrow> string) \<Rightarrow> tables \<Rightarrow> session \<Rightarrow> bool" where
  "drive_ok key t s \<longleftrightarrow> tables_ok key t \<and> family t \<and> (\<exists>q\<in>set (t_paths t). p_id q = s_dir s \<and> p_user q = s_user s) \<and>
     (\<forall>q\<in>set (t_paths t). \<forall>r\<in>set (t_paths t). p_parent q = None \<and> p_parent r = None \<and> p_user q = s_user s \<and> p_user r = s_user s \<longrightarrow> q = r) \<and>
     s_path s \<noteq> []"

lemma find_snoc: "List.find P (xs @ [r]) = (case List.find P xs of None \<Rightarrow> if P r then Some r else None | Some y \<Rightarrow> Some y)"
  by (induction xs) auto

lemma find_map: "List.find P (map f xs) = map_option f (List.find (\<lambda>x. P (f x)) xs)"
  by (induction xs) auto

lemma find_only:
  assumes "x \<in> set xs" "P x" "\<And>y. y \<in> set xs \<Longrightarrow> P y \<Longrightarrow> y = x"
  shows "List.find P xs = Some x"
proof -
  obtain y where y: "List.find P xs = Some y" using assms(1,2) by (cases "List.find P xs") (auto simp: find_None_iff)
  then have "y \<in> set xs \<and> P y" by (auto simp: find_Some_iff)
  with assms(3) y show ?thesis by blast
qed

lemma find_member: "List.find P xs = Some x \<Longrightarrow> x \<in> set xs \<and> P x"
  by (auto simp: find_Some_iff)

lemma find_no: "List.find P xs = None \<longleftrightarrow> (\<forall>x\<in>set xs. \<not> P x)"
  by (auto simp: find_None_iff)

text \<open>A folder has one row per name.\<close>

lemma child_unique:
  assumes "tables_ok key t" "family t" "r \<in> set (t_paths t)" "q \<in> set (t_paths t)"
    "p_parent r = Some f" "p_parent q = Some f" "key (p_name r) = key (p_name q)"
  shows "r = q"
proof -
  have "f \<in> p_id ` set (t_paths t)" using assms(1,3,5) unfolding tables_ok_def by fastforce
  then obtain z where z: "z \<in> set (t_paths t)" "p_id z = f" by blast
  then have "p_user z = p_user r" "p_user z = p_user q" using assms(2-6) unfolding family_def by blast+
  then have "p_user r = p_user q" by simp
  moreover have "inj_on (\<lambda>r. (p_user r, p_parent r, key (p_name r))) (set (filter (\<lambda>r. p_parent r \<noteq> None) (t_paths t)))"
    using assms(1) unfolding tables_ok_def distinct_map by blast
  ultimately show ?thesis using assms(3-7) by (auto dest: inj_onD)
qed

lemma slot_row:
  assumes "tables_ok key t" "family t" "r \<in> set (t_paths t)" "p_parent r = Some f"
  shows "dr_slots (drive_of key t s) f (key (p_name r)) = row_slot r"
proof -
  have "List.find (\<lambda>x. p_parent x = Some f \<and> key (p_name x) = key (p_name r)) (t_paths t) = Some r"
    using assms child_unique [OF assms(1,2) _ assms(3) _ assms(4)] by (intro find_only) auto
  then show ?thesis by (simp add: drive_of_def)
qed

lemma slot_cases:
  "dr_slots (drive_of key t s) f k = Free \<and> (\<forall>r\<in>set (t_paths t). \<not> (p_parent r = Some f \<and> key (p_name r) = k)) \<or>
   (\<exists>r\<in>set (t_paths t). p_parent r = Some f \<and> key (p_name r) = k \<and> dr_slots (drive_of key t s) f k = row_slot r)"
proof (cases "List.find (\<lambda>r. p_parent r = Some f \<and> key (p_name r) = k) (t_paths t)")
  case None
  then have "dr_slots (drive_of key t s) f k = Free" by (simp add: drive_of_def)
  with None show ?thesis by (simp add: find_no)
next
  case (Some r)
  then show ?thesis using find_member [OF Some] by (auto simp: drive_of_def)
qed

lemma row_slot_not_free [simp]: "row_slot r \<noteq> Free" "Free \<noteq> row_slot r"
  by (simp_all add: row_slot_def)

lemma slot_free: "dr_slots (drive_of key t s) f k = Free \<longleftrightarrow> (\<forall>r\<in>set (t_paths t). \<not> (p_parent r = Some f \<and> key (p_name r) = k))"
  using slot_cases [of key t s f k] by (metis row_slot_not_free(1))

text \<open>What a name in a folder shows, in terms of the rows the handlers look for.\<close>

lemma slot_folder:
  assumes "tables_ok key t" "family t"
  shows "dr_slots (drive_of key t s) f (key n) = Folder m i \<longleftrightarrow>
    (\<exists>r\<in>set (t_paths t). wanted key f n 1 r \<and> p_name r = m \<and> p_id r = i)"
proof
  assume "\<exists>r\<in>set (t_paths t). wanted key f n 1 r \<and> p_name r = m \<and> p_id r = i"
  then obtain r where "r \<in> set (t_paths t)" "child_of key f n r" "p_type r = CHR ''d''" "p_name r = m" "p_id r = i" by auto
  with slot_row [OF assms, of r f s] show "dr_slots (drive_of key t s) f (key n) = Folder m i"
    by (simp add: child_of_def row_slot_def)
next
  assume "dr_slots (drive_of key t s) f (key n) = Folder m i"
  with slot_cases [of key t s f "key n"] show "\<exists>r\<in>set (t_paths t). wanted key f n 1 r \<and> p_name r = m \<and> p_id r = i"
    by (auto simp: row_slot_def child_of_def split: if_splits)
qed

lemma slot_live:
  assumes "tables_ok key t" "family t"
  shows "(dr_slots (drive_of key t s) f (key n) = Folder m i \<or> dr_slots (drive_of key t s) f (key n) = Plain m i) \<longleftrightarrow>
    (\<exists>r\<in>set (t_paths t). child_of key f n r \<and> p_name r = m \<and> p_id r = i)"
proof
  assume "\<exists>r\<in>set (t_paths t). child_of key f n r \<and> p_name r = m \<and> p_id r = i"
  then obtain r where "r \<in> set (t_paths t)" "child_of key f n r" "p_name r = m" "p_id r = i" by blast
  with slot_row [OF assms, of r f s] show "dr_slots (drive_of key t s) f (key n) = Folder m i \<or> dr_slots (drive_of key t s) f (key n) = Plain m i"
    by (simp add: child_of_def row_slot_def)
next
  assume "dr_slots (drive_of key t s) f (key n) = Folder m i \<or> dr_slots (drive_of key t s) f (key n) = Plain m i"
  with slot_cases [of key t s f "key n"] show "\<exists>r\<in>set (t_paths t). child_of key f n r \<and> p_name r = m \<and> p_id r = i"
    by (auto simp: row_slot_def child_of_def split: if_splits)
qed

section \<open>How the drive changes\<close>

text \<open>A new row under a free name.\<close>

lemma drive_of_add:
  assumes "adds_path t t' (new_path u (Some (s_dir s)) n p CHR ''d'' None i)" "dr_slots (drive_of key t s) (s_dir s) (key n) = Free"
  shows "drive_of key t' s = (put_slot key n (Folder n i) (drive_of key t s))
    \<lparr>dr_parent := (dr_parent (drive_of key t s))(i \<mapsto> s_dir s), dr_ids := insert i (dr_ids (drive_of key t s))\<rparr>"
proof -
  let ?r = "new_path u (Some (s_dir s)) n p CHR ''d'' None i"
  have t': "t_paths t' = t_paths t @ [?r]" "i \<notin> p_id ` set (t_paths t)" using assms(1) by (simp_all add: adds_path_def new_path_def)
  have r: "p_parent ?r = Some (s_dir s)" "p_name ?r = n" "p_id ?r = i" "\<not> p_tomb ?r" "row_slot ?r = Folder n i"
    by (simp_all add: new_path_def row_slot_def)
  have sl: "dr_slots (drive_of key t' s) f k = (if f = s_dir s \<and> k = key n then Folder n i else dr_slots (drive_of key t s) f k)" for f k
  proof (cases "f = s_dir s \<and> k = key n")
    case True
    then have "List.find (\<lambda>r. p_parent r = Some f \<and> key (p_name r) = k) (t_paths t) = None"
      using assms(2) by (simp add: slot_free find_no)
    with True show ?thesis by (simp add: drive_of_def t'(1) find_snoc r)
  next
    case False
    then show ?thesis by (auto simp: drive_of_def t'(1) find_snoc r split: option.splits)
  qed
  have pa: "dr_parent (drive_of key t' s) j = (if j = i then Some (s_dir s) else dr_parent (drive_of key t s) j)" for j
  proof (cases "j = i")
    case True
    then have "List.find (\<lambda>r. p_id r = j \<and> \<not> p_tomb r) (t_paths t) = None" using t'(2) by (auto simp: find_no)
    with True show ?thesis by (simp add: drive_of_def t'(1) find_snoc r)
  next
    case False
    then show ?thesis by (auto simp: drive_of_def t'(1) find_snoc r split: option.splits)
  qed
  have "dr_slots (drive_of key t' s) = (dr_slots (drive_of key t s))(s_dir s := (dr_slots (drive_of key t s) (s_dir s))(key n := Folder n i))"
    by (auto simp: sl fun_eq_iff)
  moreover have "dr_parent (drive_of key t' s) = (dr_parent (drive_of key t s))(i \<mapsto> s_dir s)" by (auto simp: pa fun_eq_iff)
  moreover have "dr_root (drive_of key t' s) = dr_root (drive_of key t s)" by (simp add: drive_of_def t'(1) find_snoc r split: option.splits)
  moreover have "dr_ids (drive_of key t' s) = insert i (dr_ids (drive_of key t s))" by (simp add: drive_of_def t'(1) r(3))
  moreover have "dr_here (drive_of key t s') = s_dir s'" "dr_path (drive_of key t s') = s_path s'" for t s' by (simp_all add: drive_of_def)
  ultimately show ?thesis by (intro drive.equality) (simp_all add: put_slot_def)
qed

text \<open>A row marked as deleted.\<close>

lemma drive_of_tomb:
  assumes "tables_ok key t" "family t" "r \<in> set (t_paths t)" "p_parent r = Some (s_dir s)" "key (p_name r) = key n"
    "t' = t\<lparr>t_paths := map (tombed (\<lambda>x. p_id x = p_id r \<and> p_user x = p_user r)) (t_paths t)\<rparr>"
  shows "drive_of key t' s = (put_slot key n Gone (drive_of key t s))\<lparr>dr_parent := (dr_parent (drive_of key t s))(p_id r := None)\<rparr>"
proof -
  let ?f = "tombed (\<lambda>x. p_id x = p_id r \<and> p_user x = p_user r)"
  have tp: "t_paths t' = map ?f (t_paths t)" using assms(6) by simp
  have same: "x \<in> set (t_paths t) \<Longrightarrow> p_id x = p_id r \<longleftrightarrow> x = r" for x using paths_unique [OF assms(1) _ assms(3)] by auto
  have other: "x \<in> set (t_paths t) \<Longrightarrow> x \<noteq> r \<Longrightarrow> row_slot (?f x) = row_slot x" for x
    using same [of x] by (simp add: row_slot_def)
  have sl: "dr_slots (drive_of key t' s) g k = (if g = s_dir s \<and> k = key n then Gone else dr_slots (drive_of key t s) g k)" for g k
  proof -
    let ?P = "\<lambda>r. p_parent r = Some g \<and> key (p_name r) = k"
    have e: "dr_slots (drive_of key t' s) g k = (case List.find ?P (t_paths t) of None \<Rightarrow> Free | Some x \<Rightarrow> row_slot (?f x))"
      by (simp add: drive_of_def assms(6) find_map split: option.splits)
    show ?thesis
    proof (cases "g = s_dir s \<and> k = key n")
      case True
      have u: "y = r" if "y \<in> set (t_paths t)" "?P y" for y
        by (rule child_unique [OF assms(1,2) that(1) assms(3) _ assms(4)]) (use that(2) True assms(5) in simp_all)
      have "?P r" using True assms(4,5) by simp
      then have "List.find ?P (t_paths t) = Some r" by (rule find_only [OF assms(3) _ u])
      then show ?thesis unfolding e if_P [OF True] by (simp add: row_slot_def)
    next
      case False
      have "x \<in> set (t_paths t) \<and> x \<noteq> r" if "List.find ?P (t_paths t) = Some x" for x
        using find_member [OF that] False assms(4,5) by auto
      with other show ?thesis unfolding e if_not_P [OF False] by (auto simp: drive_of_def split: option.splits)
    qed
  qed
  have pa: "dr_parent (drive_of key t' s) j = (if j = p_id r then None else dr_parent (drive_of key t s) j)" for j
  proof -
    have "(p_id (?f x) = j \<and> \<not> p_tomb (?f x)) = (j \<noteq> p_id r \<and> p_id x = j \<and> \<not> p_tomb x)" if "x \<in> set (t_paths t)" for x
      using same [OF that] by auto
    then have "List.find (\<lambda>x. p_id (?f x) = j \<and> \<not> p_tomb (?f x)) (t_paths t) = List.find (\<lambda>x. j \<noteq> p_id r \<and> p_id x = j \<and> \<not> p_tomb x) (t_paths t)"
      by (intro find_cong) simp_all
    then have "List.find (\<lambda>x. p_id x = j \<and> \<not> p_tomb x) (t_paths t') =
        map_option ?f (List.find (\<lambda>x. j \<noteq> p_id r \<and> p_id x = j \<and> \<not> p_tomb x) (t_paths t))"
      unfolding tp find_map by (rule arg_cong)
    then have e: "dr_parent (drive_of key t' s) j = (case List.find (\<lambda>x. j \<noteq> p_id r \<and> p_id x = j \<and> \<not> p_tomb x) (t_paths t) of
        None \<Rightarrow> None | Some x \<Rightarrow> p_parent x)"
      by (simp add: drive_of_def split: option.split)
    have "List.find (\<lambda>x. False) (t_paths t) = None" by (simp add: find_no)
    then show ?thesis unfolding e by (simp add: drive_of_def)
  qed
  have "dr_slots (drive_of key t' s) = (dr_slots (drive_of key t s))(s_dir s := (dr_slots (drive_of key t s) (s_dir s))(key n := Gone))"
    by (auto simp: sl fun_eq_iff)
  moreover have "dr_parent (drive_of key t' s) = (dr_parent (drive_of key t s))(p_id r := None)" by (auto simp: pa fun_eq_iff)
  moreover have "dr_root (drive_of key t' s) = dr_root (drive_of key t s)" by (simp add: drive_of_def assms(6) find_map option.map_comp o_def)
  moreover have "dr_ids (drive_of key t' s) = dr_ids (drive_of key t s)" by (simp add: drive_of_def assms(6) image_image)
  moreover have "dr_here (drive_of key t s') = s_dir s'" "dr_path (drive_of key t s') = s_path s'" for t s' by (simp_all add: drive_of_def)
  ultimately show ?thesis by (intro drive.equality) (simp_all add: put_slot_def)
qed

text \<open>Moving about changes the place only.\<close>

lemma drive_of_move [simp]:
  "drive_of key t (s\<lparr>s_dir := i, s_path := p\<rparr>) = (drive_of key t s)\<lparr>dr_here := i, dr_path := p\<rparr>"
  by (simp add: drive_of_def)

lemma drive_of_here [simp]: "dr_here (drive_of key t s) = s_dir s" "dr_path (drive_of key t s) = s_path s"
  by (simp_all add: drive_of_def)

section \<open>What a session keeps\<close>

lemma drive_ok_ids:
  assumes "drive_ok key t s"
  shows "tables_ok key t" "family t" "s_user s \<in> u_id ` set (t_users t)" "s_dir s \<in> p_id ` set (t_paths t)"
    "c_range (s_user s)" "0 < s_user s" "c_range (s_dir s)" "0 < s_dir s" "s_user s \<noteq> - 1" "s_path s \<noteq> []"
proof -
  show ok: "tables_ok key t" "family t" "s_path s \<noteq> []" using assms by (simp_all add: drive_ok_def)
  obtain q where q: "q \<in> set (t_paths t)" "p_id q = s_dir s" "p_user q = s_user s" using assms by (auto simp: drive_ok_def)
  then show u: "s_user s \<in> u_id ` set (t_users t)" and d: "s_dir s \<in> p_id ` set (t_paths t)"
    using path_user [OF ok(1) q(1)] by (simp, metis imageI)
  show "c_range (s_user s)" "0 < s_user s" "c_range (s_dir s)" "0 < s_dir s"
    using u d tables_ok_id_range [OF ok(1)] by auto
  then show "s_user s \<noteq> - 1" by simp
qed

text \<open>The rows in the folder the user is in are the user's.\<close>

lemma child_user:
  assumes "drive_ok key t s" "r \<in> set (t_paths t)" "p_parent r = Some (s_dir s)"
  shows "p_user r = s_user s"
proof -
  obtain q where "q \<in> set (t_paths t)" "p_id q = s_dir s" "p_user q = s_user s" using assms(1) by (auto simp: drive_ok_def)
  with assms(2,3) drive_ok_ids(2) [OF assms(1)] show ?thesis unfolding family_def by metis
qed

lemma drive_ok_add:
  assumes "drive_ok key t s" "adds_path t t' (new_path (s_user s) (Some (s_dir s)) n p ty fl i)" "tables_ok key t'"
  shows "drive_ok key t' s"
proof -
  let ?r = "new_path (s_user s) (Some (s_dir s)) n p ty fl i"
  have t': "t_paths t' = t_paths t @ [?r]" "i \<notin> p_id ` set (t_paths t)" using assms(2) by (simp_all add: adds_path_def new_path_def)
  have r: "p_parent ?r = Some (s_dir s)" "p_user ?r = s_user s" "p_id ?r = i" by (simp_all add: new_path_def)
  note ok = drive_ok_ids [OF assms(1)]
  obtain q where q: "q \<in> set (t_paths t)" "p_id q = s_dir s" "p_user q = s_user s" using assms(1) by (auto simp: drive_ok_def)
  have par: "x \<in> set (t_paths t) \<Longrightarrow> p_parent x \<noteq> Some i" for x using ok(1) t'(2) unfolding tables_ok_def by fastforce
  have own: "p_user x = s_user s" if "x \<in> set (t_paths t)" "p_id x = s_dir s" for x
    using paths_unique [OF ok(1) that(1) q(1)] that(2) q(2,3) by simp
  have si: "s_dir s \<noteq> i" using ok(4) t'(2) by auto
  have "family t'"
    unfolding family_def t'(1)
  proof (intro ballI impI)
    fix x y
    assume x: "x \<in> set (t_paths t @ [?r])" and y: "y \<in> set (t_paths t @ [?r])" and p: "p_parent x = Some (p_id y)"
    consider "x \<in> set (t_paths t)" "y \<in> set (t_paths t)" | "x \<in> set (t_paths t)" "y = ?r" | "x = ?r" "y \<in> set (t_paths t)" | "x = ?r" "y = ?r"
      using x y by auto
    then show "p_user y = p_user x"
    proof cases
      case 1
      then show ?thesis using ok(2) p unfolding family_def by blast
    next
      case 2
      then show ?thesis using par p r(3) by simp
    next
      case 3
      then show ?thesis using own p r(1,2) by simp
    next
      case 4
      then show ?thesis by simp
    qed
  qed
  then show ?thesis using assms(1,3) q r by (auto simp: drive_ok_def t'(1))
qed

lemma drive_ok_tomb:
  assumes "drive_ok key t s" "t' = t\<lparr>t_paths := map (tombed P) (t_paths t)\<rparr>" "tables_ok key t'"
  shows "drive_ok key t' s"
proof -
  have "t_paths t' = map (tombed P) (t_paths t)" using assms(2) by simp
  then show ?thesis using assms(1,3) unfolding drive_ok_def family_def by (auto; metis)
qed

lemma drive_ok_move:
  assumes "drive_ok key t s" "r \<in> set (t_paths t)" "p_user r = s_user s" "p \<noteq> []"
  shows "drive_ok key t (s\<lparr>s_dir := p_id r, s_path := p\<rparr>)"
  using assms by (auto simp: drive_ok_def)

text \<open>The names \<open>ls\<close> shows.\<close>

lemma child_names_shown:
  assumes "drive_ok key t s"
  shows "set (child_names t (s_user s) (s_dir s)) = shown_names (drive_of key t s)" "distinct (map key (child_names t (s_user s) (s_dir s)))"
proof -
  let ?P = "\<lambda>r. p_user r = s_user s \<and> p_parent r = Some (s_dir s) \<and> \<not> p_tomb r"
  note ok = drive_ok_ids [OF assms]
  show "set (child_names t (s_user s) (s_dir s)) = shown_names (drive_of key t s)"
  proof (intro set_eqI iffI)
    fix m
    assume "m \<in> set (child_names t (s_user s) (s_dir s))"
    then obtain r where r: "r \<in> set (t_paths t)" "p_parent r = Some (s_dir s)" "\<not> p_tomb r" "p_name r = m" by (auto simp: child_names_def)
    with slot_row [OF ok(1,2) r(1,2)] have "dr_slots (drive_of key t s) (s_dir s) (key m) \<in> {Folder m (p_id r), Plain m (p_id r)}"
      by (simp add: row_slot_def)
    then show "m \<in> shown_names (drive_of key t s)" unfolding shown_names_def by auto
  next
    fix m
    assume "m \<in> shown_names (drive_of key t s)"
    then obtain k i where k: "dr_slots (drive_of key t s) (s_dir s) k \<in> {Folder m i, Plain m i}" unfolding shown_names_def by auto
    with slot_cases [of key t s "s_dir s" k] obtain r where r: "r \<in> set (t_paths t)" "p_parent r = Some (s_dir s)" "row_slot r \<in> {Folder m i, Plain m i}"
      by auto
    then have "\<not> p_tomb r" "p_name r = m" by (auto simp: row_slot_def split: if_splits)
    with r(1,2) child_user [OF assms r(1,2)] show "m \<in> set (child_names t (s_user s) (s_dir s))" by (auto simp: child_names_def)
  qed
  have "distinct (map p_id (t_paths t))" using ok(1) by (simp add: tables_ok_def ids_ok_def)
  then have dis: "distinct (filter ?P (t_paths t))" by (simp add: distinct_map)
  have inj: "inj_on (\<lambda>r. key (p_name r)) (set (filter ?P (t_paths t)))"
  proof (rule inj_onI)
    fix r q
    assume a: "r \<in> set (filter ?P (t_paths t))" "q \<in> set (filter ?P (t_paths t))" "key (p_name r) = key (p_name q)"
    then have m: "r \<in> set (t_paths t)" "q \<in> set (t_paths t)" "p_parent r = Some (s_dir s)" "p_parent q = Some (s_dir s)" by simp_all
    show "r = q" by (rule child_unique [OF ok(1,2) m a(3)])
  qed
  have "map key (child_names t (s_user s) (s_dir s)) = map (\<lambda>r. key (p_name r)) (filter ?P (t_paths t))"
    unfolding child_names_def map_map o_def ..
  then show "distinct (map key (child_names t (s_user s) (s_dir s)))" using dis inj by (simp only: distinct_map simp_thms)
qed

lemma up_path_shorter: "p \<noteq> [] \<Longrightarrow> up_path p \<noteq> [] \<and> length (up_path p) \<le> length p"
proof -
  assume p: "p \<noteq> []"
  define u where "u = rev (dropWhile (\<lambda>c. c \<noteq> CHR ''/'') (rev p))"
  have u: "up_path p = (if length u > 1 then butlast u else ''/'')" by (simp add: up_path_def u_def Let_def)
  have l: "length u \<le> length p" using length_dropWhile_le [of "\<lambda>c. c \<noteq> CHR ''/''" "rev p"] by (simp add: u_def)
  show ?thesis
  proof (cases "length u > 1")
    case True
    then have "0 < length (butlast u)" by simp
    then have "butlast u \<noteq> []" by (metis length_greater_0_conv)
    moreover have "length (butlast u) \<le> length p" using l by simp
    ultimately show ?thesis unfolding u if_P [OF True] by blast
  next
    case False
    have "1 \<le> length p" using p by (cases p) simp_all
    then show ?thesis unfolding u if_not_P [OF False] by simp
  qed
qed

end
