(* ===== verification/Drive_Refines.thy ===== *)
theory Drive_Refines
  imports Drive
begin

text \<open>
  The directory commands of a session, from packet to packet, implement the abstract drive.
\<close>

section \<open>Single commands\<close>

fun drive_packet :: "drive_cmd \<Rightarrow> command_packet" where
  "drive_packet (Mkdir n) = request CMD_TYPE_MKDIR n"
| "drive_packet (Rm n) = request CMD_TYPE_RM n"
| "drive_packet (Cd n) = request CMD_TYPE_CD n"
| "drive_packet Up = request CMD_TYPE_CD ''..''"
| "drive_packet Home = request CMD_TYPE_CD ''/''"
| "drive_packet Pwd = request CMD_TYPE_PWD []"
| "drive_packet Ls = request CMD_TYPE_LS []"

text \<open>The names the commands may have, which commands only look, and how much a command lets the path grow.\<close>

fun drive_cmd_ok :: "drive_cmd \<Rightarrow> bool" where
  "drive_cmd_ok (Mkdir n) \<longleftrightarrow> clean_text n \<and> n \<noteq> [] \<and> length n \<le> 200"
| "drive_cmd_ok (Rm n) \<longleftrightarrow> clean_text n \<and> n \<noteq> [] \<and> length n \<le> 255"
| "drive_cmd_ok (Cd n) \<longleftrightarrow> clean_text n \<and> n \<notin> {[], ''.'', ''..'', ''/''} \<and> length n \<le> 255"
| "drive_cmd_ok c \<longleftrightarrow> True"

fun looks :: "drive_cmd \<Rightarrow> bool" where
  "looks (Mkdir n) \<longleftrightarrow> False"
| "looks (Rm n) \<longleftrightarrow> False"
| "looks c \<longleftrightarrow> True"

fun path_growth :: "drive_cmd \<Rightarrow> nat" where
  "path_growth (Cd n) = length n + 1"
| "path_growth c = 0"

lemma drive_packet_ok: "drive_cmd_ok c \<Longrightarrow> packet_ok (drive_packet c)"
  by (cases c) (auto intro!: request_ok(1) simp: clean_text_def simp del: cmd_code.simps)

text \<open>A request reaches its handler.\<close>

lemma serve_drive:
  assumes "s_user s \<noteq> - 1" "NUL \<notin> set n" "length n \<le> 255"
  shows "serve_command env fd (terminated (request CMD_TYPE_MKDIR n)) s w = with_session s (handle_mkdir env s (Some n) w)"
    "serve_command env fd (terminated (request CMD_TYPE_RM n)) s w = with_session s (handle_rm env s (Some n) w)"
    "serve_command env fd (terminated (request CMD_TYPE_CD n)) s w = handle_cd env s (Some n) w"
    "serve_command env fd (terminated (request CMD_TYPE_LS n)) s w = with_session s (handle_ls env s w)"
  using assms(1) by (simp_all add: serve_command_def get_packet_cmd_type_def request_ok [OF assms(2,3)] cmd_code_inj Let_def del: cmd_code.simps)

text \<open>Everything that belongs to other users is as before.\<close>

definition others_kept :: "int \<Rightarrow> tables \<Rightarrow> tables \<Rightarrow> bool" where
  "others_kept u t t' \<longleftrightarrow>
     filter (\<lambda>r. p_user r \<noteq> u) (t_paths t') = filter (\<lambda>r. p_user r \<noteq> u) (t_paths t) \<and> t' = t\<lparr>t_paths := t_paths t'\<rparr>"

lemma others_kept_refl [simp]: "others_kept u t t"
  by (simp add: others_kept_def)

lemma others_kept_trans [trans]: "others_kept u t t1 \<Longrightarrow> others_kept u t1 t2 \<Longrightarrow> others_kept u t t2"
  unfolding others_kept_def by (cases t; cases t1; cases t2) simp

lemma others_add: "adds_path t t' (new_path u par n p ty fl i) \<Longrightarrow> others_kept u t t'"
  by (simp add: others_kept_def adds_path_def new_path_def)

lemma others_tomb: "others_kept u t (t\<lparr>t_paths := map (tombed (\<lambda>x. p_id x = i \<and> p_user x = u)) (t_paths t)\<rparr>)"
proof -
  have "filter (\<lambda>r. p_user r \<noteq> u) (map (tombed (\<lambda>x. p_id x = i \<and> p_user x = u)) rows) = filter (\<lambda>r. p_user r \<noteq> u) rows" for rows
    by (induction rows) (auto simp: tombed_def)
  then show ?thesis by (simp add: others_kept_def)
qed

text \<open>\<open>c\<close> can be done in \<open>s\<close> on \<open>d\<close>: an answer, a session and a database after which the drive has made the step.\<close>

definition drive_done :: "'d dao_env \<Rightarrow> ('d \<Rightarrow> tables) \<Rightarrow> (string \<Rightarrow> string) \<Rightarrow> int \<Rightarrow> nat \<Rightarrow> drive_cmd \<Rightarrow> session \<Rightarrow> 'd \<Rightarrow> bool" where
  "drive_done env tbl key fd c cmd s d \<longleftrightarrow>
     (\<exists>b s'. length (s_path s') \<le> length (s_path s) + path_growth cmd \<and> s_user s' = s_user s \<and>
       replies env fd c (drive_packet cmd) s d s' (reply_bytes b)
         (\<lambda>d'. drive_ok key (tbl d') s' \<and> drive_step key (drive_of key (tbl d) s) cmd b (drive_of key (tbl d') s') \<and>
           others_kept (s_user s) (tbl d) (tbl d') \<and> (looks cmd \<longrightarrow> tbl d' = tbl d)))"

lemma drive_doneI:
  assumes "length (s_path s') \<le> length (s_path s) + path_growth cmd"
    "\<And>w :: 'd world. w_conn w = Some c \<Longrightarrow> open_sock (w_sock w) \<Longrightarrow> w_db w = d \<Longrightarrow>
      serve_command env fd (terminated (drive_packet cmd)) s w = Some (s', say b (w\<lparr>w_db := d'\<rparr>))"
    "drive_ok key (tbl d') s'" "drive_step key (drive_of key (tbl d) s) cmd b (drive_of key (tbl d') s')"
    "s_user s' = s_user s \<and> others_kept (s_user s) (tbl d) (tbl d') \<and> (looks cmd \<longrightarrow> tbl d' = tbl d)"
  shows "drive_done env tbl key fd c cmd s d"
proof -
  have "replies env fd c (drive_packet cmd) s d s' (reply_bytes b)
      (\<lambda>d'. drive_ok key (tbl d') s' \<and> drive_step key (drive_of key (tbl d) s) cmd b (drive_of key (tbl d') s') \<and>
        others_kept (s_user s) (tbl d) (tbl d') \<and> (looks cmd \<longrightarrow> tbl d' = tbl d))"
    unfolding replies_def
  proof (intro allI impI, elim conjE)
    fix w :: "'d world"
    assume w: "w_conn w = Some c" "open_sock (w_sock w)" "w_db w = d"
    then have "serve_command env fd (terminated (drive_packet cmd)) s w = Some (s', sent (reply_bytes b) (w\<lparr>w_db := d'\<rparr>))"
      using assms(2) [OF w] by (simp add: say_open)
    with assms(3-5) show "\<exists>d'. serve_command env fd (terminated (drive_packet cmd)) s w = Some (s', sent (reply_bytes b) (w\<lparr>w_db := d'\<rparr>)) \<and>
      drive_ok key (tbl d') s' \<and> drive_step key (drive_of key (tbl d) s) cmd b (drive_of key (tbl d') s') \<and>
      others_kept (s_user s) (tbl d) (tbl d') \<and> (looks cmd \<longrightarrow> tbl d' = tbl d)" by blast
  qed
  with assms(1,5) show ?thesis unfolding drive_done_def by blast
qed

context sql_available begin

lemma list_dir_exact:
  assumes "c_range uid" "c_range dir" "5 < len" "0 < uid" "0 < dir"
  shows "\<exists>res d'. dao_list_dir env (Some c) uid dir len d = Some (0, res, d') \<and> tbl d' = tbl d \<and>
    (\<exists>ns. mset ns = mset (child_names (tbl d) uid dir) \<and> res = listing (fitting len 5 ns))"
proof -
  have g: "goes 512 (List_dir uid dir)"
    using assms by (intro goes_small) (simp_all add: clean_stmt_def)
  obtain rep d1 where q: "dao_execute_query env c (snprintf_str 512 (render (List_dir uid dir))) d = (rep, d1)" by fastforce
  then obtain rows i where rows: "rep = Query_ok (Some rows) i" using exec_answers [OF g q] by auto
  obtain r res d' where r: "dao_list_dir env (Some c) uid dir len d = Some (r, res, d')" "tbl d' = tbl d"
    "r = - 1 \<or> r = 0 \<and> (\<exists>ns. mset ns = mset (child_names (tbl d) uid dir) \<and> res = listing (fitting len 5 ns))"
    using list_dir_ok [OF assms(1-3), of c d] by blast
  have "r = 0"
    using r(1) q rows assms(3-5) by (auto simp: dao_list_dir_def render_folds Let_def split: if_splits option.splits prod.splits)
  with r show ?thesis by auto
qed

lemma get_parent_total:
  assumes "tables_ok key (tbl d)" "c_range i" "0 < i"
  shows "\<exists>r d'. dao_get_parent_id env (Some c) i d = (r, d') \<and> tbl d' = tbl d \<and>
    (case List.find (\<lambda>x. p_id x = i \<and> \<not> p_tomb x) (t_paths (tbl d)) of
       None \<Rightarrow> r = - 1 | Some x \<Rightarrow> (case p_parent x of None \<Rightarrow> r = - 1 | Some j \<Rightarrow> r = j \<and> 0 < j))"
proof -
  obtain r d' where r: "dao_get_parent_id env (Some c) i d = (r, d')" "tbl d' = tbl d"
    "r = - 1 \<or> (\<exists>row\<in>set (t_paths (tbl d)). p_id row = i \<and> p_parent row = Some r \<and> \<not> p_tomb row)"
    using get_parent_ok [OF assms(1,2), of c] by blast
  show ?thesis
  proof (cases "List.find (\<lambda>x. p_id x = i \<and> \<not> p_tomb x) (t_paths (tbl d))")
    case None
    then have "r = - 1" using r(3) by (auto simp: find_no)
    with r(1,2) None show ?thesis by simp
  next
    case (Some x)
    then have x: "x \<in> set (t_paths (tbl d))" "p_id x = i" "\<not> p_tomb x" using find_member by fastforce+
    show ?thesis
    proof (cases "p_parent x")
      case None
      have "y = x" if "y \<in> set (t_paths (tbl d))" "p_id y = i" for y using paths_unique [OF assms(1) that(1) x(1)] that(2) x(2) by simp
      with r Some None show ?thesis by auto
    next
      case (Some j)
      then have "j \<in> p_id ` set (t_paths (tbl d))" using assms(1) x(1) unfolding tables_ok_def by fastforce
      then have "0 < j" using tables_ok_id_range(2) [OF assms(1)] by auto
      moreover obtain d2 where "dao_get_parent_id env (Some c) i d = (j, d2)" "tbl d2 = tbl d"
        using get_parent_exact [OF assms(1) x(1) Some x(3), of c] x(2) by auto
      ultimately show ?thesis using Some \<open>List.find _ _ = Some x\<close> by auto
    qed
  qed
qed

text \<open>One command, every branch.\<close>

lemma mkdir_done:
  assumes "drive_ok key (tbl d) s" "clean_text n" "n \<noteq> []" "length n \<le> 200"
  shows "drive_done env tbl key fd c (Mkdir n) s d"
proof -
  let ?t = "tbl d"
  let ?D = "drive_of key ?t s"
  note ok = drive_ok_ids [OF assms(1)]
  have nul: "NUL \<notin> set n" "length n \<le> 255" using assms(2,4) by (simp_all add: clean_text_def)
  obtain r d' where r: "dao_create_dir env (Some c) (s_user s) (s_dir s) (Some n) d = Some (r, d')"
    "if \<exists>row\<in>set (t_paths ?t). child_of key (s_dir s) n row \<and> p_type row = CHR ''d'' then r = 0 \<and> tbl d' = ?t
     else if path_violates key ?t (s_user s) (Some (s_dir s)) n None then r = - 1 \<and> tbl d' = ?t
     else adds_path ?t (tbl d') (new_path (s_user s) (Some (s_dir s)) n (''/'' @ n) CHR ''d'' None r)"
    using create_dir_exact [OF ok(1,5,7,6,8) assms(2,4), of c] by blast
  have serve: "serve_command env fd (terminated (drive_packet (Mkdir n))) s w =
      Some (s, say (if r < 0 then msg_mkdir_failed else if r = 0 then msg_dir_exists else msg_mkdir_ok) (w\<lparr>w_db := d'\<rparr>))"
    if "w_conn w = Some c" "w_db w = d" for w
    using r(1) that assms(3)
    by (simp add: serve_drive(1) [OF ok(9) nul] with_session_def handle_mkdir_def get_thread_db_conn_def db_call_Some del: cmd_code.simps)
  have here: "here_slot key ?D n = dr_slots ?D (s_dir s) (key n)" by (simp add: here_slot_def)
  consider (again) "\<exists>row\<in>set (t_paths ?t). wanted key (s_dir s) n 1 row"
    | (fails) "\<not> (\<exists>row\<in>set (t_paths ?t). wanted key (s_dir s) n 1 row)" "path_violates key ?t (s_user s) (Some (s_dir s)) n None"
    | (makes) "\<not> (\<exists>row\<in>set (t_paths ?t). wanted key (s_dir s) n 1 row)" "\<not> path_violates key ?t (s_user s) (Some (s_dir s)) n None"
    by blast
  then show ?thesis
  proof cases
    case again
    then obtain row where row: "row \<in> set (t_paths ?t)" "wanted key (s_dir s) n 1 row" by blast
    then have sl: "here_slot key ?D n = Folder (p_name row) (p_id row)" unfolding here slot_folder [OF ok(1,2)] by blast
    have r0: "r = 0" "tbl d' = ?t" using r(2) again by simp_all
    show ?thesis
      by (rule drive_doneI [where s' = s and b = msg_dir_exists and d' = d'])
        (simp, use serve r0 in simp, use r0 assms(1) in simp, use r0 drive_step.mkdir_again [OF sl] in simp, use r0 in simp)
  next
    case fails
    then have r0: "r = - 1" "tbl d' = ?t" using r(2) by simp_all
    have st: "drive_step key ?D (Mkdir n) msg_mkdir_failed ?D"
    proof (cases "here_slot key ?D n")
      case Free
      then have "\<not> ids_left (map p_id (t_paths ?t))"
        using fails(2) ok(3,4) by (auto simp: here slot_free path_violates_def)
      then obtain j where "j \<in> dr_ids ?D" "2147483647 \<le> j" by (auto simp: ids_left_def drive_of_def list_all_iff not_less)
      with Free show ?thesis by (rule drive_step.mkdir_full)
    next
      case (Folder m i)
      then show ?thesis using fails(1) unfolding here slot_folder [OF ok(1,2)] by blast
    next
      case Gone
      then show ?thesis by (intro drive_step.mkdir_taken) simp
    next
      case (Plain m i)
      then show ?thesis by (intro drive_step.mkdir_taken) simp
    qed
    show ?thesis
      by (rule drive_doneI [where s' = s and b = msg_mkdir_failed and d' = d'])
        (simp, use serve r0 in simp, use r0 assms(1) in simp, use r0 st in simp, use r0 in simp)
  next
    case makes
    have ad: "adds_path ?t (tbl d') (new_path (s_user s) (Some (s_dir s)) n (''/'' @ n) CHR ''d'' None r)"
      using r(2) [unfolded if_not_P [OF makes(1) [unfolded wanted_simps]] if_not_P [OF makes(2)]] .
    have fr: "here_slot key ?D n = Free"
      using makes(2) child_user [OF assms(1)] by (auto simp: here slot_free path_violates_def)
    have ids: "\<forall>j\<in>dr_ids ?D. j < 2147483647" using makes(2) by (auto simp: path_violates_def ids_left_def list_all_iff drive_of_def)
    have rp: "0 < r" "r \<notin> dr_ids ?D" using ad by (simp_all add: adds_path_def new_path_def drive_of_def)
    have "tables_ok key (tbl d')" using create_dir_ok [OF ok(1,5,7) assms(2,4), of c] r(1) by auto
    note ok' = drive_ok_add [OF assms(1) ad this]
    note D' = drive_of_add [OF ad fr [unfolded here]]
    show ?thesis
      by (rule drive_doneI [where s' = s and b = msg_mkdir_ok and d' = d'])
        (simp, use serve rp in simp, rule ok', use drive_step.mkdir_new [OF fr ids rp(2)] in \<open>simp add: D'\<close>, use ad in \<open>simp add: others_add\<close>)
  qed
qed

lemma rm_done:
  assumes "drive_ok key (tbl d) s" "clean_text n" "n \<noteq> []" "length n \<le> 255"
  shows "drive_done env tbl key fd c (Rm n) s d"
proof -
  let ?t = "tbl d"
  let ?D = "drive_of key ?t s"
  note ok = drive_ok_ids [OF assms(1)]
  have nul: "NUL \<notin> set n" using assms(2) by (simp add: clean_text_def)
  have here: "here_slot key ?D n = dr_slots ?D (s_dir s) (key n)" by (simp add: here_slot_def)
  obtain q d1 where q: "dao_find_child_id env (Some c) (s_dir s) (Some n) (- 1) d = Some (q, d1)" "tbl d1 = ?t"
    "if \<exists>row\<in>set (t_paths ?t). child_of key (s_dir s) n row
     then \<exists>row\<in>set (t_paths ?t). child_of key (s_dir s) n row \<and> p_id row = q else q = - 1"
    using find_child_exact [OF ok(1,7,8) assms(2,4), of c "- 1"] unfolding wanted_simps by blast
  note serve = serve_drive(2) [OF ok(9) nul assms(4)]
  show ?thesis
  proof (cases "\<exists>row\<in>set (t_paths ?t). child_of key (s_dir s) n row")
    case True
    then obtain row where row: "row \<in> set (t_paths ?t)" "child_of key (s_dir s) n row" "p_id row = q" using q(3) by auto
    have par: "p_parent row = Some (s_dir s)" "key (p_name row) = key n" using row(2) by (simp_all add: child_of_def)
    have qr: "c_range q" "0 < q" using tables_ok_id_range(2) [OF ok(1) row(1)] row(3) by simp_all
    obtain d2 where d2: "dao_delete_entry env (Some c) (s_user s) q d1 = (0, d2)"
      "tbl d2 = ?t\<lparr>t_paths := map (tombed (\<lambda>x. p_id x = q \<and> p_user x = s_user s)) (t_paths ?t)\<rparr>"
      using delete_entry_exact [OF ok(5) qr(1) ok(6) qr(2), of c d1] q(2) by auto
    have "tables_ok key (tbl d1)" using ok(1) q(2) by simp
    then have "tables_ok key (tbl d2)" using delete_entry_ok [OF _ ok(5) qr(1), of d1 c] d2(1) by auto
    note ok' = drive_ok_tomb [OF assms(1) d2(2) this]
    note D' = drive_of_tomb [OF ok(1,2) row(1) par, unfolded row(3) child_user [OF assms(1) row(1) par(1)], OF d2(2)]
    have "here_slot key ?D n = Folder (p_name row) q \<or> here_slot key ?D n = Plain (p_name row) q"
      unfolding here slot_live [OF ok(1,2)] using row by blast
    note st = drive_step.rm_there [OF this]
    show ?thesis
      by (rule drive_doneI [where s' = s and b = msg_rm_ok and d' = d2])
        (simp, use q(1) d2(1) qr(2) assms(3) in \<open>simp add: serve with_session_def handle_rm_def get_thread_db_conn_def db_call_Some db_run_eq del: cmd_code.simps\<close>,
          rule ok', use st in \<open>simp add: D'\<close>, simp add: d2(2) others_tomb)
  next
    case False
    then have q1: "q = - 1" using q(3) by simp
    have "here_slot key ?D n \<noteq> Folder m i \<and> here_slot key ?D n \<noteq> Plain m i" for m i
      using False slot_live [OF ok(1,2), of s "s_dir s" n m i] unfolding here by blast
    then have "here_slot key ?D n = Free \<or> here_slot key ?D n = Gone" by (cases "here_slot key ?D n") auto
    note st = drive_step.rm_none [OF this]
    show ?thesis
      by (rule drive_doneI [where s' = s and b = msg_no_entry and d' = d1])
        (simp, use q(1) q1 assms(3) in \<open>simp add: serve with_session_def handle_rm_def get_thread_db_conn_def db_call_Some del: cmd_code.simps\<close>,
          use q(2) assms(1) in simp, use q(2) st in simp, use q(2) in simp)
  qed
qed

lemma cd_done:
  assumes "drive_ok key (tbl d) s" "clean_text n" "n \<notin> {[], ''.'', ''..'', ''/''}" "length n \<le> 255"
    "length (s_path s) + length n + 2 \<le> 512"
  shows "drive_done env tbl key fd c (Cd n) s d"
proof -
  let ?t = "tbl d"
  let ?D = "drive_of key ?t s"
  note ok = drive_ok_ids [OF assms(1)]
  have nul: "NUL \<notin> set n" using assms(2) by (simp add: clean_text_def)
  have here: "here_slot key ?D n = dr_slots ?D (s_dir s) (key n)" by (simp add: here_slot_def)
  obtain q d1 where q: "dao_find_child_id env (Some c) (s_dir s) (Some n) 1 d = Some (q, d1)" "tbl d1 = ?t"
    "if \<exists>row\<in>set (t_paths ?t). wanted key (s_dir s) n 1 row
     then \<exists>row\<in>set (t_paths ?t). wanted key (s_dir s) n 1 row \<and> p_id row = q else q = - 1"
    using find_child_exact [OF ok(1,7,8) assms(2,4), of c 1] by blast
  note serve = serve_drive(3) [OF ok(9) nul assms(4)]
  show ?thesis
  proof (cases "\<exists>row\<in>set (t_paths ?t). wanted key (s_dir s) n 1 row")
    case True
    then obtain row where row: "row \<in> set (t_paths ?t)" "wanted key (s_dir s) n 1 row" "p_id row = q"
      using q(3) unfolding if_P [OF True] by blast
    have qr: "0 < q" using tables_ok_id_range(2) [OF ok(1) row(1)] row(3) by simp
    have "p_user row = s_user s" using child_user [OF assms(1) row(1)] row(2) by (simp add: child_of_def)
    then have ok': "drive_ok key (tbl d1) (s\<lparr>s_dir := q, s_path := join_path (s_path s) n\<rparr>)"
      using drive_ok_move [OF assms(1) row(1), of "join_path (s_path s) n"] q(2) row(3) by (simp add: join_path_def)
    have "here_slot key ?D n = Folder (p_name row) q" unfolding here slot_folder [OF ok(1,2)] using row by blast
    note st = drive_step.cd_there [OF this]
    have "handle_cd env s (Some n) w = Some (s\<lparr>s_dir := q, s_path := join_path (s_path s) n\<rparr>, say msg_entered (w\<lparr>w_db := d1\<rparr>))"
      if "w_conn w = Some c" "w_db w = d" for w
      using q(1) qr assms(3,5) that by (simp add: handle_cd_def get_thread_db_conn_def db_call_Some Let_def cat_path_def join_path_def)
    note h = this [folded serve [where env = env and fd = fd]]
    show ?thesis
      by (rule drive_doneI [where s' = "s\<lparr>s_dir := q, s_path := join_path (s_path s) n\<rparr>" and b = msg_entered and d' = d1])
        (simp add: join_path_def, use h in \<open>simp del: cmd_code.simps\<close>, rule ok', use q(2) st in simp, use q(2) in simp)
  next
    case False
    then have q1: "q = - 1" using q(3) unfolding if_not_P [OF False] by simp
    have "\<forall>m i. here_slot key ?D n \<noteq> Folder m i" using False unfolding here slot_folder [OF ok(1,2)] by blast
    note st = drive_step.cd_none [OF this]
    show ?thesis
      by (rule drive_doneI [where s' = s and b = msg_no_dir and d' = d1])
        (simp, use q(1) q1 assms(3) in \<open>simp add: serve handle_cd_def get_thread_db_conn_def db_call_Some del: cmd_code.simps\<close>,
          use q(2) assms(1) in simp, use q(2) st in simp, use q(2) in simp)
  qed
qed

lemma up_done:
  assumes "drive_ok key (tbl d) s"
  shows "drive_done env tbl key fd c Up s d"
proof -
  let ?t = "tbl d"
  let ?D = "drive_of key ?t s"
  note ok = drive_ok_ids [OF assms(1)]
  have serve: "serve_command env fd (terminated (drive_packet Up)) s w = handle_cd env s (Some ''..'') w" for w
    using serve_drive(3) [OF ok(9), of "''..''"] by simp
  obtain r d1 where r: "dao_get_parent_id env (Some c) (s_dir s) d = (r, d1)" "tbl d1 = ?t"
    "case List.find (\<lambda>x. p_id x = s_dir s \<and> \<not> p_tomb x) (t_paths ?t) of
       None \<Rightarrow> r = - 1 | Some x \<Rightarrow> (case p_parent x of None \<Rightarrow> r = - 1 | Some j \<Rightarrow> r = j \<and> 0 < j)"
    using get_parent_total [OF ok(1,7,8), of c] by blast
  have pd: "dr_parent ?D (s_dir s) = None \<and> r = - 1 \<or> dr_parent ?D (s_dir s) = Some r \<and> 0 < r"
    using r(3) by (auto simp: drive_of_def split: option.splits)
  then show ?thesis
  proof
    assume p: "dr_parent ?D (s_dir s) = None \<and> r = - 1"
    then have st: "drive_step key ?D Up msg_at_root ?D" by (intro drive_step.up_top) simp
    show ?thesis
      by (rule drive_doneI [where s' = s and b = msg_at_root and d' = d1])
        (simp, use r(1) p in \<open>simp add: serve handle_cd_def get_thread_db_conn_def db_run_eq del: drive_packet.simps\<close>,
          use r(2) assms(1) in simp, use r(2) st in simp, use r(2) in simp)
  next
    assume p: "dr_parent ?D (s_dir s) = Some r \<and> 0 < r"
    then have st: "drive_step key ?D Up msg_up (?D\<lparr>dr_here := r, dr_path := up_path (s_path s)\<rparr>)"
      using drive_step.up [of ?D r key] by simp
    obtain x where x: "x \<in> set (t_paths ?t)" "p_id x = s_dir s" "p_parent x = Some r"
      using p by (auto simp: drive_of_def dest!: find_member split: option.splits)
    then have "r \<in> p_id ` set (t_paths ?t)" using ok(1) unfolding tables_ok_def by fastforce
    then obtain z where z: "z \<in> set (t_paths ?t)" "p_id z = r" by blast
    obtain q where "q \<in> set (t_paths ?t)" "p_id q = s_dir s" "p_user q = s_user s" using assms by (auto simp: drive_ok_def)
    then have "p_user x = s_user s" using paths_unique [OF ok(1) x(1), of q] x(2) by simp
    then have zu: "p_user z = s_user s" using ok(2) x z unfolding family_def by metis
    have up: "up_path (s_path s) \<noteq> []" "length (up_path (s_path s)) \<le> length (s_path s)"
      using up_path_shorter ok(10) by blast+
    have ok': "drive_ok key (tbl d1) (s\<lparr>s_dir := r, s_path := up_path (s_path s)\<rparr>)"
      using drive_ok_move [OF assms z(1) zu up(1)] z(2) r(2) by simp
    show ?thesis
      by (rule drive_doneI [where s' = "s\<lparr>s_dir := r, s_path := up_path (s_path s)\<rparr>" and b = msg_up and d' = d1])
        (use up(2) in simp, use r(1) p in \<open>simp add: serve handle_cd_def get_thread_db_conn_def db_run_eq del: drive_packet.simps\<close>,
          rule ok', use r(2) st in simp, use r(2) in simp)
  qed
qed

lemma home_done:
  assumes "drive_ok key (tbl d) s"
  shows "drive_done env tbl key fd c Home s d"
proof -
  let ?t = "tbl d"
  let ?D = "drive_of key ?t s"
  let ?P = "\<lambda>row. p_user row = s_user s \<and> p_parent row = None \<and> p_type row = CHR ''d''"
  note ok = drive_ok_ids [OF assms(1)]
  have serve: "serve_command env fd (terminated (drive_packet Home)) s w = handle_cd env s (Some ''/'') w" for w
    using serve_drive(3) [OF ok(9), of "''/''"] by simp
  obtain r d1 where r: "dao_get_root_dir_id env (Some c) (s_user s) d = Some (r, d1)" "tbl d1 = ?t"
    "if \<exists>row\<in>set (t_paths ?t). ?P row then \<exists>row\<in>set (t_paths ?t). ?P row \<and> p_id row = r else r = - 1"
    using get_root_exact [OF ok(1,5,6), of c] unfolding Let_def by blast
  show ?thesis
  proof (cases "\<exists>row\<in>set (t_paths ?t). ?P row")
    case True
    then obtain z where z: "z \<in> set (t_paths ?t)" "?P z" "p_id z = r" using r(3) unfolding if_P [OF True] by blast
    then have r0: "0 < r" using tables_ok_id_range(2) [OF ok(1)] by auto
    have "List.find ?P (t_paths ?t) = Some z"
      by (rule find_only [OF z(1), where P = ?P, OF z(2)]) (use assms z(1,2) in \<open>auto simp: drive_ok_def\<close>)
    then have "dr_root ?D = Some r" using z(3) by (simp add: drive_of_def)
    note st = drive_step.home [OF this]
    have zu: "p_user z = s_user s" using z(2) by simp
    have ok': "drive_ok key (tbl d1) (s\<lparr>s_dir := r, s_path := ''/''\<rparr>)"
      using drive_ok_move [OF assms z(1) zu, of "''/''"] z(3) r(2) by simp
    have l: "1 \<le> length (s_path s)" using ok(10) by (cases "s_path s") simp_all
    show ?thesis
      by (rule drive_doneI [where s' = "s\<lparr>s_dir := r, s_path := ''/''\<rparr>" and b = msg_to_root and d' = d1])
        (use l in simp, use r(1) r0 in \<open>simp add: serve handle_cd_def get_thread_db_conn_def db_call_Some del: drive_packet.simps\<close>,
          rule ok', use r(2) st in simp, use r(2) in simp)
  next
    case False
    then have r1: "r = - 1" using r(3) unfolding if_not_P [OF False] by simp
    have "List.find ?P (t_paths ?t) = None" using False by (simp add: find_no)
    then have "dr_root ?D = None" by (simp add: drive_of_def)
    note st = drive_step.home_none [OF this]
    show ?thesis
      by (rule drive_doneI [where s' = s and b = msg_no_root and d' = d1])
        (simp, use r(1) r1 in \<open>simp add: serve handle_cd_def get_thread_db_conn_def db_call_Some del: drive_packet.simps\<close>,
          use r(2) assms in simp, use r(2) st in simp, use r(2) in simp)
  qed
qed

lemma pwd_done:
  assumes "drive_ok key (tbl d) s"
  shows "drive_done env tbl key fd c Pwd s d"
proof -
  note ok = drive_ok_ids [OF assms(1)]
  have "replies env fd c (drive_packet Pwd) s d s (reply_bytes (s_path s)) (\<lambda>d'. d' = d)"
    using replies_pwd [OF ok(9)] by simp
  moreover have "drive_step key (drive_of key (tbl d) s) Pwd (s_path s) (drive_of key (tbl d) s)"
    using drive_step.pwd [of key "drive_of key (tbl d) s"] by simp
  ultimately show ?thesis using assms unfolding drive_done_def replies_def by (intro exI [of _ "s_path s"] exI [of _ s]) auto
qed

lemma ls_done:
  assumes "drive_ok key (tbl d) s"
  shows "drive_done env tbl key fd c Ls s d"
proof -
  let ?t = "tbl d"
  let ?D = "drive_of key ?t s"
  note ok = drive_ok_ids [OF assms(1)]
  obtain res d1 ns where r: "dao_list_dir env (Some c) (s_user s) (s_dir s) 4096 d = Some (0, res, d1)" "tbl d1 = ?t"
    and ns: "mset ns = mset (child_names ?t (s_user s) (s_dir s))" "res = listing (fitting 4096 5 ns)"
    using list_dir_exact [OF ok(5,7) _ ok(6,8), of 4096 c d] by auto
  note names = child_names_shown [OF assms]
  have "set ns = shown_names ?D" using ns(1) names(1) by (metis mset_eq_setD)
  moreover have "distinct (map key ns)" using ns(1) names(2) by (metis mset_eq_imp_distinct_iff mset_map)
  ultimately have st: "drive_step key ?D Ls res ?D" unfolding ns(2) by (rule drive_step.ls)
  have serve: "serve_command env fd (terminated (drive_packet Ls)) s w = with_session s (handle_ls env s w)" for w
    using serve_drive(4) [OF ok(9), of "[]"] by simp
  show ?thesis
    by (rule drive_doneI [where s' = s and b = res and d' = d1])
      (simp, use r(1) in \<open>simp add: serve with_session_def handle_ls_def get_thread_db_conn_def db_call_Some del: drive_packet.simps\<close>,
        use r(2) assms in simp, use r(2) st in simp, use r(2) in simp)
qed

lemma cmd_done:
  assumes "drive_ok key (tbl d) s" "drive_cmd_ok cmd" "length (s_path s) + path_growth cmd + 1 \<le> 512"
  shows "drive_done env tbl key fd c cmd s d"
  using assms mkdir_done rm_done cd_done up_done home_done pwd_done ls_done by (cases cmd) simp_all

section \<open>Whole sessions\<close>

lemma drive_session:
  assumes "drive_ok key (tbl (w_db w)) s" "list_all drive_cmd_ok cmds" "length (s_path s) + sum_list (map path_growth cmds) + 1 \<le> 512"
    "w_conn w = Some c" "open_sock (w_sock w)" "stream (w_sock w) = concat (map (\<lambda>x. bytes_of_command (drive_packet x)) cmds)"
  shows "\<exists>w' s' bs. session_loop env fd s w = Some w' \<and> tx_out (w_sock w') = tx_out (w_sock w) @ concat (map reply_bytes bs) \<and>
    drive_run key (drive_of key (tbl (w_db w)) s) cmds bs (drive_of key (tbl (w_db w')) s') \<and> drive_ok key (tbl (w_db w')) s' \<and>
    others_kept (s_user s) (tbl (w_db w)) (tbl (w_db w'))"
  using assms
proof (induction cmds arbitrary: s w)
  case Nil
  then have "stream (w_sock w) = []" by simp
  then obtain segs where "session_loop env fd s w = Some (w\<lparr>w_sock := (w_sock w)\<lparr>rx_segs := segs\<rparr>\<rparr>)" using session_loop_end by blast
  with Nil(1) show ?case
    by (intro exI [of _ "w\<lparr>w_sock := (w_sock w)\<lparr>rx_segs := segs\<rparr>\<rparr>"] exI [of _ s] exI [of _ "[]"]) (simp add: drive_run.Nil)
next
  case (Cons x xs s w)
  let ?d = "w_db w"
  have x: "drive_cmd_ok x" "length (s_path s) + path_growth x + 1 \<le> 512" using Cons.prems(2,3) by simp_all
  obtain b s1 where b: "length (s_path s1) \<le> length (s_path s) + path_growth x" "s_user s1 = s_user s"
    "replies env fd c (drive_packet x) s ?d s1 (reply_bytes b)
       (\<lambda>d'. drive_ok key (tbl d') s1 \<and> drive_step key (drive_of key (tbl ?d) s) x b (drive_of key (tbl d') s1) \<and>
         others_kept (s_user s) (tbl ?d) (tbl d') \<and> (looks x \<longrightarrow> tbl d' = tbl ?d))"
    using cmd_done [OF Cons.prems(1) x, of fd c] unfolding drive_done_def by blast
  have st: "stream (w_sock w) = bytes_of_command (drive_packet x) @ concat (map (\<lambda>x. bytes_of_command (drive_packet x)) xs)"
    using Cons.prems(6) by simp
  obtain w1 where w1: "session_loop env fd s w = session_loop env fd s1 w1" "w_conn w1 = Some c" "open_sock (w_sock w1)"
    "stream (w_sock w1) = concat (map (\<lambda>x. bytes_of_command (drive_packet x)) xs)" "tx_out (w_sock w1) = tx_out (w_sock w) @ reply_bytes b"
    "drive_ok key (tbl (w_db w1)) s1" "drive_step key (drive_of key (tbl ?d) s) x b (drive_of key (tbl (w_db w1)) s1)"
    "others_kept (s_user s) (tbl ?d) (tbl (w_db w1))"
    using session_replies [OF b(3) drive_packet_ok [OF x(1)] Cons.prems(4,5) st] by blast
  have xs: "list_all drive_cmd_ok xs" "length (s_path s1) + sum_list (map path_growth xs) + 1 \<le> 512"
    using Cons.prems(2,3) b(1) by simp_all
  obtain w' s' bs where w': "session_loop env fd s1 w1 = Some w'" "tx_out (w_sock w') = tx_out (w_sock w1) @ concat (map reply_bytes bs)"
    "drive_run key (drive_of key (tbl (w_db w1)) s1) xs bs (drive_of key (tbl (w_db w')) s')" "drive_ok key (tbl (w_db w')) s'"
    "others_kept (s_user s1) (tbl (w_db w1)) (tbl (w_db w'))"
    using Cons.IH [OF w1(6) xs w1(2-4)] by blast
  have kept: "others_kept (s_user s) (tbl ?d) (tbl (w_db w'))" using others_kept_trans [OF w1(8)] w'(5) b(2) by simp
  note run = drive_run.Cons [OF w1(7) w'(3)]
  show ?case
    by (intro exI [of _ w'] exI [of _ s'] exI [of _ "b # bs"]) (use w1(1,5) w'(1,2,4) run kept in simp)
qed

end

text \<open>C4: on any database that answers, a logged-in session of directory commands, read from the socket and
  answered on it, behaves like the abstract drive: whatever commands come, in whatever order and however
  often, the answers are those of one run of the drive that the tables show, and the tables afterwards
  show the drive this run ends with. The names are free of quotes, backslashes and NULs, and the path
  fits its array.\<close>

theorem drive_refines:
  assumes "sql_available env tbl key digest" "drive_ok key (tbl (w_db w)) s" "list_all drive_cmd_ok cmds"
    "length (s_path s) + sum_list (map path_growth cmds) + 1 \<le> 512" "w_conn w = Some c" "open_sock (w_sock w)"
    "stream (w_sock w) = concat (map (\<lambda>x. bytes_of_command (drive_packet x)) cmds)"
  shows "\<exists>w' s' bs. session_loop env fd s w = Some w' \<and> tx_out (w_sock w') = tx_out (w_sock w) @ concat (map reply_bytes bs) \<and>
    drive_run key (drive_of key (tbl (w_db w)) s) cmds bs (drive_of key (tbl (w_db w')) s') \<and> drive_ok key (tbl (w_db w')) s'"
  using sql_available.drive_session [OF assms] by blast

theorem drive_refines_witness:
  "\<exists>w' bs D. session_loop (ref_env id) 5 \<lparr>s_path = ''/'', s_user = 1, s_dir = 5\<rparr>
      (world_of one_user (map (\<lambda>x. bytes_of_command (drive_packet x)) [Mkdir ''docs'', Cd ''docs'', Up, Rm ''docs'', Mkdir ''docs''])) = Some w' \<and>
    tx_out (w_sock w') = concat (map reply_bytes bs) \<and>
    drive_run id (drive_of id one_user \<lparr>s_path = ''/'', s_user = 1, s_dir = 5\<rparr>) [Mkdir ''docs'', Cd ''docs'', Up, Rm ''docs'', Mkdir ''docs''] bs D"
proof -
  let ?cs = "[Mkdir ''docs'', Cd ''docs'', Up, Rm ''docs'', Mkdir ''docs'']"
  let ?s = "\<lparr>s_path = ''/'', s_user = 1, s_dir = 5\<rparr>"
  let ?W = "world_of one_user (map (\<lambda>x. bytes_of_command (drive_packet x)) ?cs)"
  have ok: "drive_ok id one_user ?s"
    using one_user_ok [of id] by (simp add: drive_ok_def family_def one_user_def no_tables_def new_path_def)
  have cs: "list_all drive_cmd_ok ?cs" "length (s_path ?s) + sum_list (map path_growth ?cs) + 1 \<le> 512"
    by (simp_all add: clean_text_def sq_def)
  have w: "w_conn ?W = Some 7" "open_sock (w_sock ?W)" "w_db ?W = one_user" "tx_out (w_sock ?W) = []"
    "stream (w_sock ?W) = concat (map (\<lambda>x. bytes_of_command (drive_packet x)) ?cs)"
    by (simp_all del: cmd_code.simps drive_packet.simps)
  from drive_refines [OF ref_available [of id], where w = ?W and s = ?s and cmds = ?cs and fd = 5, unfolded w(3), OF ok cs w(1,2,5)]
  show ?thesis unfolding w(4) by auto
qed

end
