(* ===== verification/Drive_Screen.thy ===== *)
theory Drive_Screen
  imports Drive_Refines Client_Props
begin

text \<open>
  The abstract drive from the user's side: what is typed into the client reaches the server, and the
  answers of the drive come back on the screen.
\<close>

section \<open>What is typed\<close>

fun drive_line :: "drive_cmd \<Rightarrow> string" where
  "drive_line (Mkdir n) = ''mkdir'' @ CHR '' '' # n"
| "drive_line (Rm n) = ''rm'' @ CHR '' '' # n"
| "drive_line (Cd n) = ''cd'' @ CHR '' '' # n"
| "drive_line Up = ''cd'' @ CHR '' '' # ''..''"
| "drive_line Home = ''cd'' @ CHR '' '' # ''/''"
| "drive_line Pwd = ''pwd''"
| "drive_line Ls = ''ls''"

fun drive_type :: "drive_cmd \<Rightarrow> cmd_type" where
  "drive_type (Mkdir n) = CMD_TYPE_MKDIR"
| "drive_type (Rm n) = CMD_TYPE_RM"
| "drive_type (Cd n) = CMD_TYPE_CD"
| "drive_type Up = CMD_TYPE_CD"
| "drive_type Home = CMD_TYPE_CD"
| "drive_type Pwd = CMD_TYPE_PWD"
| "drive_type Ls = CMD_TYPE_LS"

fun drive_arg :: "drive_cmd \<Rightarrow> string" where
  "drive_arg (Mkdir n) = n"
| "drive_arg (Rm n) = n"
| "drive_arg (Cd n) = n"
| "drive_arg Up = ''..''"
| "drive_arg Home = ''/''"
| "drive_arg Pwd = []"
| "drive_arg Ls = []"

text \<open>Names the client's \<open>sscanf\<close> reads as they are.\<close>

definition drive_word :: "drive_cmd \<Rightarrow> bool" where
  "drive_word c \<longleftrightarrow> (drive_arg c = [] \<or> is_word (drive_arg c) \<and> length (drive_arg c) \<le> 199)"

definition typed_commands :: "drive_cmd list \<Rightarrow> string" where
  "typed_commands cs = concat (map (\<lambda>c. drive_line c @ [CHR 0x0A]) cs) @ ''quit'' @ [CHR 0x0A]"

lemma drive_packet_request: "drive_packet c = request (drive_type c) (drive_arg c)"
  by (cases c) (simp_all del: cmd_code.simps)

lemma drive_line_plain:
  assumes "drive_cmd_ok c" "drive_word c"
  shows "plain_line (drive_line c) (drive_type c) (drive_arg c)"
proof -
  have t: "get_cmd_type (Some ''mkdir'') = CMD_TYPE_MKDIR" "get_cmd_type (Some ''rm'') = CMD_TYPE_RM" "get_cmd_type (Some ''cd'') = CMD_TYPE_CD"
    "get_cmd_type (Some ''ls'') = CMD_TYPE_LS"
    by (simp_all add: get_cmd_type_def)
  have k: "is_word ''mkdir''" "is_word ''rm''" "is_word ''cd''" "is_word ''..''" "is_word ''/''" "is_word ''ls''"
    by (simp_all add: is_word_def is_space_def)
  have ls: "plain_line ''ls'' CMD_TYPE_LS []"
    using scan_command_one [OF k(6)] t(4) by (simp add: plain_line_def)
  have up: "plain_line (''cd'' @ CHR '' '' # ''..'') CMD_TYPE_CD ''..''" "plain_line (''cd'' @ CHR '' '' # ''/'') CMD_TYPE_CD ''/''"
    by (intro plain_line_two k(3-5) t(3); simp)+
  show ?thesis
  proof (cases c)
    case (Mkdir n)
    with assms have "plain_line (''mkdir'' @ CHR '' '' # n) CMD_TYPE_MKDIR n"
      by (intro plain_line_two k(1) t(1)) (auto simp: drive_word_def clean_text_def)
    then show ?thesis by (simp add: Mkdir)
  next
    case (Rm n)
    with assms have "plain_line (''rm'' @ CHR '' '' # n) CMD_TYPE_RM n"
      by (intro plain_line_two k(2) t(2)) (auto simp: drive_word_def clean_text_def)
    then show ?thesis by (simp add: Rm)
  next
    case (Cd n)
    with assms have "plain_line (''cd'' @ CHR '' '' # n) CMD_TYPE_CD n"
      by (intro plain_line_two k(3) t(3)) (auto simp: drive_word_def clean_text_def)
    then show ?thesis by (simp add: Cd)
  qed (use up ls plain_line_pwd in simp_all)
qed

section \<open>What comes back\<close>

lemma reply_cut: "reply_bytes (take 255 m) = reply_bytes m"
  by (simp add: reply_bytes_def init_command_packet_def strncpy_zeroed_def)

lemma up_path_set: "set (up_path p) \<subseteq> insert CHR ''/'' (set p)"
proof -
  have "set (butlast (rev (dropWhile (\<lambda>c. c \<noteq> CHR ''/'') (rev p)))) \<subseteq> set p"
    using set_dropWhileD by (fastforce dest: in_set_butlastD)
  then show ?thesis by (auto simp: up_path_def Let_def)
qed

lemma drive_messages [simp]:
  "NUL \<notin> set msg_mkdir_ok" "NUL \<notin> set msg_mkdir_failed" "NUL \<notin> set msg_dir_exists" "NUL \<notin> set msg_rm_ok"
  "NUL \<notin> set msg_no_entry" "NUL \<notin> set msg_entered" "NUL \<notin> set msg_no_dir" "NUL \<notin> set msg_up"
  "NUL \<notin> set msg_at_root" "NUL \<notin> set msg_to_root" "NUL \<notin> set msg_no_root"
  by (simp_all add: msg_defs)

lemma put_slot_path [simp]: "dr_path (put_slot key n s D) = dr_path D"
  by (simp add: put_slot_def)

lemma join_path_text: "NUL \<notin> set p \<Longrightarrow> NUL \<notin> set n \<Longrightarrow> NUL \<notin> set (join_path p n)"
  by (simp add: join_path_def)

lemma up_path_text: "NUL \<notin> set p \<Longrightarrow> NUL \<notin> set (up_path p)"
  using up_path_set [of p] by auto

text \<open>A drive whose names and path are C strings.\<close>

definition drive_texts :: "drive \<Rightarrow> bool" where
  "drive_texts D \<longleftrightarrow> NUL \<notin> set (dr_path D) \<and>
     (\<forall>f k m i. dr_slots D f k = Folder m i \<or> dr_slots D f k = Plain m i \<longrightarrow> NUL \<notin> set m)"

lemma listing_text: "NUL \<notin> \<Union> (set ` set ns) \<Longrightarrow> NUL \<notin> set (listing (fitting len used ns))"
proof -
  assume a: "NUL \<notin> \<Union> (set ` set ns)"
  let ?F = "fitting len used ns"
  have "NUL \<notin> set (entries_text ?F)" using a fitting_set [of len used ns] by (auto simp: entries_text_def)
  then have "NUL \<notin> set (butlast (entries_text ?F))" by (auto dest: in_set_butlastD)
  then show ?thesis by (simp add: listing_def)
qed

lemma drive_texts_put:
  assumes "drive_texts D" "\<forall>m i. x = Folder m i \<or> x = Plain m i \<longrightarrow> NUL \<notin> set m"
  shows "drive_texts (put_slot key n x D)"
  using assms by (simp add: drive_texts_def put_slot_def)

lemma drive_texts_more [simp]:
  "drive_texts (D\<lparr>dr_parent := p\<rparr>) = drive_texts D" "drive_texts (D\<lparr>dr_ids := js\<rparr>) = drive_texts D"
  "drive_texts (D\<lparr>dr_here := h\<rparr>) = drive_texts D" "drive_texts D \<Longrightarrow> NUL \<notin> set q \<Longrightarrow> drive_texts (D\<lparr>dr_path := q\<rparr>)"
  by (auto simp: drive_texts_def)

lemma answer_text:
  assumes "drive_step key D c b D'" "drive_cmd_ok c" "drive_texts D"
  shows "NUL \<notin> set b \<and> drive_texts D'"
  using assms
proof (induction rule: drive_step.induct)
  case (ls ns)
  then have "NUL \<notin> \<Union> (set ` set ns)" by (auto simp: shown_names_def drive_texts_def)
  with ls show ?case by (simp add: listing_text)
next
  case pwd
  then show ?case by (simp add: drive_texts_def)
next
  case (cd_there n m i)
  then have "NUL \<notin> set (join_path (dr_path D) n)" by (intro join_path_text) (simp_all add: drive_texts_def clean_text_def)
  with cd_there show ?case by simp
next
  case (up i)
  then have "NUL \<notin> set (up_path (dr_path D))" by (intro up_path_text) (simp add: drive_texts_def)
  with up show ?case by simp
qed (simp_all add: drive_texts_put clean_text_def)

lemma run_text:
  "drive_run key D cs bs D' \<Longrightarrow> list_all drive_cmd_ok cs \<Longrightarrow> drive_texts D \<Longrightarrow>
    length bs = length cs \<and> (\<forall>b\<in>set bs. NUL \<notin> set b)"
proof (induction rule: drive_run.induct)
  case (Cons D c b D1 cs bs D')
  then have "drive_cmd_ok c" by auto
  with answer_text [OF Cons.hyps(1)] Cons.prems(2) have "NUL \<notin> set b" "drive_texts D1" by blast+
  with Cons.IH Cons.prems show ?case by simp
qed simp

lemma drive_texts_of:
  assumes "NUL \<notin> set (s_path s)" "\<forall>r\<in>set (t_paths t). NUL \<notin> set (p_name r)"
  shows "drive_texts (drive_of key t s)"
proof -
  have "NUL \<notin> set m" if "dr_slots (drive_of key t s) f k = Folder m i \<or> dr_slots (drive_of key t s) f k = Plain m i" for f k m i
    using slot_cases [of key t s f k] that assms(2) by (auto simp: row_slot_def split: if_splits)
  then show ?thesis using assms(1) unfolding drive_texts_def by (auto simp: drive_of_def)
qed

text \<open>The lines of the client's lemma.\<close>

definition screen_lines :: "drive_cmd list \<Rightarrow> string list \<Rightarrow> (string \<times> cmd_type \<times> string \<times> string) list" where
  "screen_lines cs bs = map (\<lambda>(c, b). (drive_line c, drive_type c, drive_arg c, take 255 b)) (zip cs bs)"

lemma screen_lines_maps:
  assumes "length bs = length cs"
  shows "typed_lines (screen_lines cs bs) = typed_commands cs"
    "concat (map (\<lambda>(l, t, a, m). bytes_of_command (request t a)) (screen_lines cs bs)) = concat (map (\<lambda>c. bytes_of_command (drive_packet c)) cs)"
    "concat (map (\<lambda>(l, t, a, m). reply_bytes m) (screen_lines cs bs)) = concat (map reply_bytes bs)"
    "concat (map (\<lambda>(l, t, a, m). ''> '' @ m @ [CHR 0x0A]) (screen_lines cs bs)) = concat (map (\<lambda>b. ''> '' @ take 255 b @ [CHR 0x0A]) bs)"
  using assms
  by (induction bs cs rule: list_induct2)
    (simp_all add: screen_lines_def typed_lines_def typed_commands_def drive_packet_request reply_cut del: cmd_code.simps)

text \<open>C5: the drive on the screen: the user of the client types any directory commands, \<open>ls\<close> among them, in
  which a name is one word of at most 199 bytes (the client's \<open>sscanf\<close> would read no more of it) without
  quotes and backslashes, and then \<open>quit\<close>; the path stays below 512 bytes. The server, reading exactly the
  bytes the client sends, answers as the abstract drive does; and the client, reading exactly these
  answers, shows each of them after a prompt, cut to 255 bytes.\<close>

theorem drive_on_screen:
  assumes "sql_available env tbl key digest" "drive_ok key (tbl (w_db w)) s" "list_all drive_cmd_ok cmds" "list_all drive_word cmds"
    "NUL \<notin> set (s_path s)" "\<forall>r\<in>set (t_paths (tbl (w_db w))). NUL \<notin> set (p_name r)"
    "length (s_path s) + sum_list (map path_growth cmds) + 1 \<le> 512"
    "w_conn w = Some c" "open_sock (w_sock w)" "tx_out (w_sock w) = []"
    "stream (w_sock w) = concat (map (\<lambda>x. bytes_of_command (drive_packet x)) cmds)"
  shows "\<exists>w' s' bs. session_loop env fd s w = Some w' \<and>
    drive_run key (drive_of key (tbl (w_db w)) s) cmds bs (drive_of key (tbl (w_db w')) s') \<and>
    (\<forall>cw. c_ready cw \<and> tx_out (c_sock cw) = [] \<and> stream (c_sock cw) = tx_out (w_sock w') \<longrightarrow>
      tx_out (c_sock (client_loop cenv (typed_commands cmds) cw)) = stream (w_sock w) \<and>
      c_stdout (client_loop cenv (typed_commands cmds) cw) =
        c_stdout cw @ concat (map (\<lambda>b. ''> '' @ take 255 b @ [CHR 0x0A]) bs) @ ''> '' @ txt_bye)"
proof -
  obtain w' s' bs where w': "session_loop env fd s w = Some w'" "tx_out (w_sock w') = concat (map reply_bytes bs)"
    "drive_run key (drive_of key (tbl (w_db w)) s) cmds bs (drive_of key (tbl (w_db w')) s')"
    using sql_available.drive_session [OF assms(1-3,7-9,11), of fd] assms(10) by auto
  have bs: "length bs = length cmds" "\<forall>b\<in>set bs. NUL \<notin> set b" using run_text [OF w'(3) assms(3) drive_texts_of [OF assms(5,6)]] by simp_all
  have plain: "\<forall>(l, t, a, m)\<in>set (screen_lines cmds bs). plain_line l t a \<and> NUL \<notin> set m \<and> length m \<le> 255"
  proof -
    have "plain_line (drive_line x) (drive_type x) (drive_arg x) \<and> NUL \<notin> set (take 255 b)" if "(x, b) \<in> set (zip cmds bs)" for x b
      using that assms(3,4) bs(2) drive_line_plain by (auto simp: list_all_iff dest: set_zip_leftD set_zip_rightD in_set_takeD)
    then show ?thesis by (auto simp: screen_lines_def)
  qed
  note lines = screen_lines_maps [OF bs(1)]
  have "tx_out (c_sock (client_loop cenv (typed_commands cmds) cw)) = stream (w_sock w) \<and>
      c_stdout (client_loop cenv (typed_commands cmds) cw) =
        c_stdout cw @ concat (map (\<lambda>b. ''> '' @ take 255 b @ [CHR 0x0A]) bs) @ ''> '' @ txt_bye"
    if "c_ready cw" "tx_out (c_sock cw) = []" "stream (c_sock cw) = tx_out (w_sock w')" for cw
    using client_lines [OF plain that(1), unfolded lines, of cenv] that(2,3) w'(2) assms(11) by auto
  with w'(1,3) show ?thesis by blast
qed

theorem drive_on_screen_witness:
  "\<exists>w' bs. session_loop (ref_env id) 5 \<lparr>s_path = ''/'', s_user = 1, s_dir = 5\<rparr>
      (world_of one_user (map (\<lambda>x. bytes_of_command (drive_packet x)) [Mkdir ''docs'', Ls, Cd ''docs'', Pwd])) = Some w' \<and>
    c_stdout (client_loop demo_client_env (typed_commands [Mkdir ''docs'', Ls, Cd ''docs'', Pwd]) (client_with (\<lambda>p. None) [tx_out (w_sock w')])) =
      concat (map (\<lambda>b. ''> '' @ take 255 b @ [CHR 0x0A]) bs) @ ''> '' @ txt_bye"
proof -
  let ?cs = "[Mkdir ''docs'', Ls, Cd ''docs'', Pwd]"
  let ?s = "\<lparr>s_path = ''/'', s_user = 1, s_dir = 5\<rparr>"
  let ?W = "world_of one_user (map (\<lambda>x. bytes_of_command (drive_packet x)) ?cs)"
  have ok: "drive_ok id one_user ?s"
    using one_user_ok [of id] by (simp add: drive_ok_def family_def one_user_def no_tables_def new_path_def)
  have cs: "list_all drive_cmd_ok ?cs" "list_all drive_word ?cs" "NUL \<notin> set (s_path ?s)"
    "\<forall>r\<in>set (t_paths one_user). NUL \<notin> set (p_name r)" "length (s_path ?s) + sum_list (map path_growth ?cs) + 1 \<le> 512"
    by (simp_all add: clean_text_def sq_def drive_word_def is_word_def is_space_def one_user_def new_path_def)
  have w: "w_conn ?W = Some 7" "open_sock (w_sock ?W)" "w_db ?W = one_user" "tx_out (w_sock ?W) = []"
    "stream (w_sock ?W) = concat (map (\<lambda>x. bytes_of_command (drive_packet x)) ?cs)"
    by (simp_all del: cmd_code.simps drive_packet.simps)
  obtain w' s' bs where r: "session_loop (ref_env id) 5 ?s ?W = Some w'"
    "\<forall>cw. c_ready cw \<and> tx_out (c_sock cw) = [] \<and> stream (c_sock cw) = tx_out (w_sock w') \<longrightarrow>
      tx_out (c_sock (client_loop demo_client_env (typed_commands ?cs) cw)) = stream (w_sock ?W) \<and>
      c_stdout (client_loop demo_client_env (typed_commands ?cs) cw) =
        c_stdout cw @ concat (map (\<lambda>b. ''> '' @ take 255 b @ [CHR 0x0A]) bs) @ ''> '' @ txt_bye"
    using drive_on_screen [OF ref_available [of id], where w = ?W and s = ?s and cmds = ?cs and fd = 5 and cenv = demo_client_env,
        unfolded w(3), OF ok cs w(1,2,4,5)] by blast
  let ?C = "client_with (\<lambda>p. None) [tx_out (w_sock w')]"
  have "c_ready ?C" "tx_out (c_sock ?C) = []" "stream (c_sock ?C) = tx_out (w_sock w')" "c_stdout ?C = []" by simp_all
  with r show ?thesis by (metis append_Nil)
qed

end
