(* ===== verification/Drive_Isolation.thy ===== *)
theory Drive_Isolation
  imports Drive_Refines
begin

text \<open>
  What a session of directory commands leaves to the other users: all their rows, and so their drives.
\<close>

section \<open>The drive of another user\<close>

lemma find_filter:
  assumes "\<And>x. x \<in> set xs \<Longrightarrow> P x \<Longrightarrow> Q x"
  shows "List.find P (filter Q xs) = List.find P xs"
  using assms by (induction xs) auto

text \<open>Two tables with the same rows of a user answer every question about these rows alike.\<close>

lemma others_find:
  assumes "others_kept u t t'" "\<And>r. r \<in> set (t_paths t) \<union> set (t_paths t') \<Longrightarrow> P r \<Longrightarrow> p_user r \<noteq> u"
  shows "List.find P (t_paths t') = List.find P (t_paths t)"
proof -
  have "List.find P (filter (\<lambda>r. p_user r \<noteq> u) (t_paths t')) = List.find P (t_paths t')"
    "List.find P (filter (\<lambda>r. p_user r \<noteq> u) (t_paths t)) = List.find P (t_paths t)"
    using assms(2) by (intro find_filter; simp)+
  then show ?thesis using assms(1) by (simp add: others_kept_def)
qed

lemma others_rows:
  assumes "others_kept u t t'" "p_user r \<noteq> u"
  shows "r \<in> set (t_paths t') \<longleftrightarrow> r \<in> set (t_paths t)"
proof -
  have "set (filter (\<lambda>r. p_user r \<noteq> u) (t_paths t')) = set (filter (\<lambda>r. p_user r \<noteq> u) (t_paths t))"
    using assms(1) by (simp add: others_kept_def)
  with assms(2) show ?thesis by (auto simp: set_eq_iff)
qed

text \<open>So a session of another user stays in its place.\<close>

lemma others_drive_ok:
  assumes "others_kept u t t'" "drive_ok key t s" "s_user s \<noteq> u" "tables_ok key t'" "family t'"
  shows "drive_ok key t' s"
proof -
  note rows = others_rows [OF assms(1)]
  obtain q where q: "q \<in> set (t_paths t)" "p_id q = s_dir s" "p_user q = s_user s" using assms(2) unfolding drive_ok_def by blast
  have one: "\<And>q r. q \<in> set (t_paths t) \<Longrightarrow> r \<in> set (t_paths t) \<Longrightarrow> p_parent q = None \<Longrightarrow> p_parent r = None \<Longrightarrow>
      p_user q = s_user s \<Longrightarrow> p_user r = s_user s \<Longrightarrow> q = r" and path: "s_path s \<noteq> []"
    using assms(2) unfolding drive_ok_def by blast+
  have q': "q \<in> set (t_paths t')" using q(1,3) rows [of q] assms(3) by simp
  have one': "q = r" if "q \<in> set (t_paths t')" "r \<in> set (t_paths t')" "p_parent q = None" "p_parent r = None"
      "p_user q = s_user s" "p_user r = s_user s" for q r
    using one [of q r] that rows [of q] rows [of r] assms(3) by simp
  show ?thesis unfolding drive_ok_def using assms(4,5) q' q(2,3) one' path by blast
qed

text \<open>And the folders of this user, their entries, their place and the root are as they were.\<close>

definition same_folder :: "int \<Rightarrow> drive \<Rightarrow> drive \<Rightarrow> bool" where
  "same_folder f D D' \<longleftrightarrow> dr_slots D' f = dr_slots D f \<and> dr_parent D' f = dr_parent D f"

lemma others_folder:
  assumes "others_kept u t t'" "tables_ok key t" "family t" "tables_ok key t'" "family t'" "r \<in> set (t_paths t)" "p_user r \<noteq> u"
  shows "same_folder (p_id r) (drive_of key t s) (drive_of key t' s)"
proof -
  have r': "r \<in> set (t_paths t')" using others_rows [OF assms(1,7)] assms(6) by simp
  have child: "p_user x \<noteq> u" if "x \<in> set (t_paths t) \<union> set (t_paths t')" "p_parent x = Some (p_id r)" for x
    using that assms(3,5,6,7) r' unfolding family_def by (metis Un_iff)
  have self: "p_user x \<noteq> u" if "x \<in> set (t_paths t) \<union> set (t_paths t')" "p_id x = p_id r" for x
    using that paths_unique [OF assms(2) _ assms(6)] paths_unique [OF assms(4) _ r'] assms(7) by (metis Un_iff)
  have "List.find (\<lambda>x. p_parent x = Some (p_id r) \<and> key (p_name x) = k) (t_paths t') =
      List.find (\<lambda>x. p_parent x = Some (p_id r) \<and> key (p_name x) = k) (t_paths t)" for k
    by (rule others_find [OF assms(1)]) (use child in blast)
  moreover have "List.find (\<lambda>x. p_id x = p_id r \<and> \<not> p_tomb x) (t_paths t') = List.find (\<lambda>x. p_id x = p_id r \<and> \<not> p_tomb x) (t_paths t)"
    by (rule others_find [OF assms(1)]) (use self in blast)
  ultimately show ?thesis by (simp add: same_folder_def drive_of_def)
qed

lemma others_root:
  assumes "others_kept u t t'" "s_user s \<noteq> u"
  shows "dr_root (drive_of key t' s) = dr_root (drive_of key t s)"
proof -
  have "List.find (\<lambda>r. p_user r = s_user s \<and> p_parent r = None \<and> p_type r = CHR ''d'') (t_paths t') =
      List.find (\<lambda>r. p_user r = s_user s \<and> p_parent r = None \<and> p_type r = CHR ''d'') (t_paths t)"
    by (rule others_find [OF assms(1)]) (use assms(2) in auto)
  then show ?thesis by (simp add: drive_of_def)
qed

section \<open>Sessions of two users\<close>

text \<open>C6: two users do not see each other: on any database that answers, a session of directory commands of one user leaves
  every row of the others, all user accounts and all stored files as they are; a session that another
  user has in the meantime is still in its place, and its folders hold what they held.\<close>

theorem sessions_isolated:
  assumes "sql_available env tbl key digest" "drive_ok key (tbl (w_db w)) s" "list_all drive_cmd_ok cmds"
    "length (s_path s) + sum_list (map path_growth cmds) + 1 \<le> 512" "w_conn w = Some c" "open_sock (w_sock w)"
    "stream (w_sock w) = concat (map (\<lambda>x. bytes_of_command (drive_packet x)) cmds)"
    "drive_ok key (tbl (w_db w)) s2" "s_user s2 \<noteq> s_user s"
  shows "\<exists>w'. session_loop env fd s w = Some w' \<and> others_kept (s_user s) (tbl (w_db w)) (tbl (w_db w')) \<and>
    drive_ok key (tbl (w_db w')) s2 \<and> dr_root (drive_of key (tbl (w_db w')) s2) = dr_root (drive_of key (tbl (w_db w)) s2) \<and>
    (\<forall>r\<in>set (t_paths (tbl (w_db w))). p_user r = s_user s2 \<longrightarrow>
      same_folder (p_id r) (drive_of key (tbl (w_db w)) s2) (drive_of key (tbl (w_db w')) s2))"
proof -
  obtain w' s' where w': "session_loop env fd s w = Some w'" "drive_ok key (tbl (w_db w')) s'"
    "others_kept (s_user s) (tbl (w_db w)) (tbl (w_db w'))"
    using sql_available.drive_session [OF assms(1-7), of fd] by blast
  note ok = drive_ok_ids(1,2) [OF assms(2)] drive_ok_ids(1,2) [OF w'(2)]
  have "same_folder (p_id r) (drive_of key (tbl (w_db w)) s2) (drive_of key (tbl (w_db w')) s2)"
    if "r \<in> set (t_paths (tbl (w_db w)))" "p_user r = s_user s2" for r
    using others_folder [OF w'(3) ok that(1)] that(2) assms(9) by simp
  with w' others_drive_ok [OF w'(3) assms(8,9) ok(3,4)] others_root [OF w'(3) assms(9), of key] show ?thesis by blast
qed

definition two_users :: tables where
  "two_users = one_user\<lparr>
     t_users := t_users one_user @ [\<lparr>u_id = 2, u_name = ''bob'', u_hash = ref_digest ''pw43'', u_salt = ''43''\<rparr>],
     t_paths := t_paths one_user @ [new_path 2 None ''/'' ''/'' CHR ''d'' None 6]\<rparr>"

theorem sessions_isolated_witness:
  "\<exists>w'. session_loop (ref_env id) 5 \<lparr>s_path = ''/'', s_user = 1, s_dir = 5\<rparr>
      (world_of two_users (map (\<lambda>x. bytes_of_command (drive_packet x)) [Mkdir ''docs'', Rm ''docs''])) = Some w' \<and>
    drive_ok id (w_db w') \<lparr>s_path = ''/'', s_user = 2, s_dir = 6\<rparr> \<and>
    same_folder 6 (drive_of id two_users \<lparr>s_path = ''/'', s_user = 2, s_dir = 6\<rparr>)
      (drive_of id (w_db w') \<lparr>s_path = ''/'', s_user = 2, s_dir = 6\<rparr>)"
proof -
  let ?cs = "[Mkdir ''docs'', Rm ''docs'']"
  let ?s = "\<lparr>s_path = ''/'', s_user = 1, s_dir = 5\<rparr>" and ?s2 = "\<lparr>s_path = ''/'', s_user = 2, s_dir = 6\<rparr>"
  let ?W = "world_of two_users (map (\<lambda>x. bytes_of_command (drive_packet x)) ?cs)"
  have t: "tables_ok id two_users"
    using ref_digest_hex by (simp add: tables_ok_def ids_ok_def two_users_def one_user_def no_tables_def new_path_def)
  have ok: "drive_ok id two_users ?s" "drive_ok id two_users ?s2"
    using t by (simp_all add: drive_ok_def family_def two_users_def one_user_def no_tables_def new_path_def)
  have cs: "list_all drive_cmd_ok ?cs" "length (s_path ?s) + sum_list (map path_growth ?cs) + 1 \<le> 512"
    by (simp_all add: clean_text_def sq_def)
  have w: "w_conn ?W = Some 7" "open_sock (w_sock ?W)" "w_db ?W = two_users"
    "stream (w_sock ?W) = concat (map (\<lambda>x. bytes_of_command (drive_packet x)) ?cs)"
    by (simp_all del: cmd_code.simps drive_packet.simps)
  have r: "new_path 2 None ''/'' ''/'' CHR ''d'' None 6 \<in> set (t_paths two_users)" "s_user ?s2 \<noteq> s_user ?s"
    by (simp_all add: two_users_def)
  from sessions_isolated [OF ref_available [of id], where w = ?W and s = ?s and cmds = ?cs and fd = 5 and ?s2.0 = ?s2, unfolded w(3),
      OF ok(1) cs w(1,2,4) ok(2) r(2)] r(1)
  show ?thesis by (fastforce simp: new_path_def)
qed

end
