(* ===== verification/Drive_Busy.thy ===== *)
theory Drive_Busy
  imports Drive_Isolation
begin

text \<open>
  The abstract drive of one user while others are at work. Before every statement of the session the
  database may do anything that leaves the rows of this user alone; the session still behaves like the
  drive that the user's own rows show, except that ids may run out unseen.
\<close>

section \<open>A database with others at work\<close>

text \<open>\<open>bz_others\<close> holds what the others do before each of the next statements.\<close>

record 'd busy_db =
  bz_db :: 'd
  bz_others :: "('d \<Rightarrow> 'd) list"

definition meddled :: "'d busy_db \<Rightarrow> 'd" where
  "meddled x = (case bz_others x of [] \<Rightarrow> bz_db x | f # fs \<Rightarrow> f (bz_db x))"

definition left_with :: "'d busy_db \<Rightarrow> 'd \<Rightarrow> 'd busy_db" where
  "left_with x d = \<lparr>bz_db = d, bz_others = tl (bz_others x)\<rparr>"

definition busy :: "'d dao_env \<Rightarrow> 'd busy_db dao_env" where
  "busy env =
     \<lparr>my_query = (\<lambda>c q x. case my_query env c q (meddled x) of (rep, d) \<Rightarrow> (rep, left_with x d)),
      wall_clock = (\<lambda>x. case wall_clock env (bz_db x) of (n, d) \<Rightarrow> (n, x\<lparr>bz_db := d\<rparr>)),
      sha_calls = (\<lambda>x. case sha_calls env (bz_db x) of (s, d) \<Rightarrow> (s, x\<lparr>bz_db := d\<rparr>))\<rparr>"

lemma left_with_simps [simp]: "bz_db (left_with x d) = d" "bz_others (left_with x d) = tl (bz_others x)"
  by (simp_all add: left_with_def)

text \<open>A function that sends one statement does what it does on the database the others have left.\<close>

lemma query_busy: "dao_execute_query (busy env) c q x = (case dao_execute_query env c q (meddled x) of (rep, d) \<Rightarrow> (rep, left_with x d))"
  by (simp add: dao_execute_query_def busy_def)

lemma fetch_first_busy: "fetch_first (busy env) c q x = (case fetch_first env c q (meddled x) of (f, d) \<Rightarrow> (f, left_with x d))"
  by (auto simp: fetch_first_def query_busy split: prod.splits my_reply.splits option.splits list.splits)

lemma fetch_id_busy: "fetch_id (busy env) c q x = map_option (\<lambda>(r, d). (r, left_with x d)) (fetch_id env c q (meddled x))"
  by (auto simp: fetch_id_def fetch_first_busy option.map_comp o_def split: prod.splits fetched.splits)

lemma run_stmt_busy: "run_stmt (busy env) c q f x = (case run_stmt env c q f (meddled x) of (r, d) \<Rightarrow> (r, left_with x d))"
  by (auto simp: run_stmt_def query_busy split: prod.splits my_reply.splits)

lemma find_child_busy:
  "0 < par \<Longrightarrow> dao_find_child_id (busy env) (Some c) par (Some n) k x =
    map_option (\<lambda>(r, d). (r, left_with x d)) (dao_find_child_id env (Some c) par (Some n) k (meddled x))"
  by (simp add: dao_find_child_id_def fetch_id_busy Let_def)

lemma get_root_busy:
  "0 < uid \<Longrightarrow> dao_get_root_dir_id (busy env) (Some c) uid x =
    map_option (\<lambda>(r, d). (r, left_with x d)) (dao_get_root_dir_id env (Some c) uid (meddled x))"
  by (simp add: dao_get_root_dir_id_def fetch_id_busy Let_def)

lemma get_parent_busy:
  "0 < i \<Longrightarrow> dao_get_parent_id (busy env) (Some c) i x =
    (case dao_get_parent_id env (Some c) i (meddled x) of (r, d) \<Rightarrow> (r, left_with x d))"
  by (auto simp: dao_get_parent_id_def fetch_first_busy split: prod.splits fetched.splits option.splits)

lemma delete_busy:
  "0 < uid \<Longrightarrow> 0 < i \<Longrightarrow> dao_delete_entry (busy env) (Some c) uid i x =
    (case dao_delete_entry env (Some c) uid i (meddled x) of (r, d) \<Rightarrow> (r, left_with x d))"
  by (simp add: dao_delete_entry_def run_stmt_busy)

lemma list_dir_busy:
  "0 < uid \<Longrightarrow> 0 < dir \<Longrightarrow> 5 < len \<Longrightarrow> dao_list_dir (busy env) (Some c) uid dir len x =
    map_option (\<lambda>(r, res, d). (r, res, left_with x d)) (dao_list_dir env (Some c) uid dir len (meddled x))"
  by (auto simp: dao_list_dir_def query_busy Let_def split: prod.splits my_reply.splits option.splits)

section \<open>Handlers that send one statement\<close>

definition on_db :: "'e \<Rightarrow> 'd world \<Rightarrow> 'e world" where
  "on_db d w = \<lparr>w_conn = w_conn w, w_db = d, w_sock = w_sock w, w_fs = w_fs w, w_faults = w_faults w\<rparr>"

lemma on_db_simps [simp]:
  "w_conn (on_db d w) = w_conn w" "w_db (on_db d w) = d" "w_sock (on_db d w) = w_sock w"
  "on_db e (on_db d w) = on_db e w"
  by (simp_all add: on_db_def)

lemma on_db_update: "w\<lparr>w_db := d\<rparr> = on_db d w"
  by (simp add: on_db_def)

lemma say_on_db: "say m (on_db d w) = on_db d (say m w)"
  by (simp add: say_def on_db_def)

text \<open>The outcome of a handler on the database as the others have left it, seen from the busy database.\<close>

definition lifted :: "'d busy_db \<Rightarrow> ('d world \<Rightarrow> (session \<times> 'd world) ub) \<Rightarrow> 'd busy_db world \<Rightarrow> (session \<times> 'd busy_db world) ub" where
  "lifted x h w = map_option (\<lambda>(s', w'). (s', on_db (left_with x (w_db w')) w')) (h (on_db (meddled x) w))"

lemmas on_dbs = on_db_update say_on_db get_thread_db_conn_def db_run_def db_call_def lifted_def

lemma handle_cd_busy:
  assumes "w_conn w = Some c" "0 < s_user s" "0 < s_dir s" "n \<noteq> []" "n \<noteq> ''.''"
  shows "handle_cd (busy env) s (Some n) w = lifted (w_db w) (handle_cd env s (Some n)) w"
proof -
  consider (up) "n = ''..''" | (home) "n = ''/''" | (child) "n \<noteq> ''..''" "n \<noteq> ''/''" by blast
  then show ?thesis
  proof cases
    case up
    then show ?thesis using assms
      by (auto simp: on_dbs handle_cd_def get_parent_busy split: prod.split)
  next
    case home
    then show ?thesis using assms
      by (auto simp: on_dbs handle_cd_def get_root_busy split: prod.split option.split)
  next
    case child
    show ?thesis
    proof (cases "dao_find_child_id env (Some c) (s_dir s) (Some n) 1 (meddled (w_db w))")
      case None
      then show ?thesis using assms child by (simp add: on_dbs handle_cd_def find_child_busy)
    next
      case (Some q)
      obtain i d where "q = (i, d)" by fastforce
      with Some show ?thesis using assms child
        by (simp add: on_dbs handle_cd_def find_child_busy Let_def split: option.split)
    qed
  qed
qed

lemma handle_ls_busy:
  assumes "w_conn w = Some c" "0 < s_user s" "0 < s_dir s"
  shows "with_session s (handle_ls (busy env) s w) = lifted (w_db w) (\<lambda>w. with_session s (handle_ls env s w)) w"
proof (cases "dao_list_dir env (Some c) (s_user s) (s_dir s) 4096 (meddled (w_db w))")
  case None
  then show ?thesis using assms by (simp add: on_dbs with_session_def handle_ls_def list_dir_busy)
next
  case (Some q)
  obtain r res d where "q = (r, res, d)" using prod_cases3 by blast
  with Some show ?thesis using assms by (simp add: on_dbs with_session_def handle_ls_def list_dir_busy)
qed

lemma replies_lifted:
  assumes "replies env fd c p s (meddled x) s' b P"
    "\<And>w. w_conn w = Some c \<Longrightarrow> w_db w = x \<Longrightarrow> serve_command (busy env) fd (terminated p) s w = lifted x (serve_command env fd (terminated p) s) w"
  shows "replies (busy env) fd c p s x s' b (\<lambda>y. \<exists>d. y = left_with x d \<and> P d)"
  unfolding replies_def
proof (intro allI impI, elim conjE)
  fix w :: "'a busy_db world"
  assume w: "w_conn w = Some c" "open_sock (w_sock w)" "w_db w = x"
  let ?v = "on_db (meddled x) w"
  obtain d where d: "serve_command env fd (terminated p) s ?v = Some (s', sent b (?v\<lparr>w_db := d\<rparr>))" "P d"
    using assms(1) [unfolded replies_def, rule_format, of ?v] w by auto
  then have "serve_command (busy env) fd (terminated p) s w = Some (s', sent b (w\<lparr>w_db := left_with x d\<rparr>))"
    using assms(2) [OF w(1,3)] by (simp add: lifted_def on_db_def sent_def)
  with d(2) show "\<exists>y. serve_command (busy env) fd (terminated p) s w = Some (s', sent b (w\<lparr>w_db := y\<rparr>)) \<and> (\<exists>d. y = left_with x d \<and> P d)"
    by blast
qed

section \<open>The drive of one user\<close>

text \<open>What a user's own rows show.\<close>

definition rows_of :: "int \<Rightarrow> tables \<Rightarrow> tables" where
  "rows_of u t = t\<lparr>t_paths := filter (\<lambda>r. p_user r = u) (t_paths t)\<rparr>"

definition my_drive :: "(string \<Rightarrow> string) \<Rightarrow> tables \<Rightarrow> session \<Rightarrow> drive" where
  "my_drive key t s = drive_of key (rows_of (s_user s) t) s"

lemma rows_of_simps [simp]:
  "t_paths (rows_of u t) = filter (\<lambda>r. p_user r = u) (t_paths t)" "t_users (rows_of u t) = t_users t"
  "t_files (rows_of u t) = t_files t"
  by (simp_all add: rows_of_def)

lemma drive_of_paths: "t_paths t' = t_paths t \<Longrightarrow> drive_of key t' s = drive_of key t s"
  by (simp add: drive_of_def)

lemma my_drive_cong: "t_paths (rows_of (s_user s) t') = t_paths (rows_of (s_user s) t) \<Longrightarrow> my_drive key t' s = my_drive key t s"
  unfolding my_drive_def by (rule drive_of_paths)

lemma my_drive_here [simp]: "dr_here (my_drive key t s) = s_dir s" "dr_path (my_drive key t s) = s_path s"
  by (simp_all add: my_drive_def)

lemma my_drive_move: "my_drive key t (s\<lparr>s_dir := i, s_path := p\<rparr>) = (my_drive key t s)\<lparr>dr_here := i, dr_path := p\<rparr>"
  by (simp add: my_drive_def)

lemma rows_of_ok:
  assumes "drive_ok key t s"
  shows "drive_ok key (rows_of (s_user s) t) s"
proof -
  note ok = drive_ok_ids [OF assms]
  have par: "i \<in> p_id ` set (t_paths (rows_of (s_user s) t))" if "r \<in> set (t_paths t)" "p_user r = s_user s" "p_parent r = Some i" for r i
  proof -
    have "i \<in> p_id ` set (t_paths t)" using ok(1) that(1,3) unfolding tables_ok_def by fastforce
    then obtain q where q: "q \<in> set (t_paths t)" "p_id q = i" by blast
    then have "p_user q = s_user s" using ok(2) that unfolding family_def by metis
    with q show ?thesis by auto
  qed
  have dist: "distinct (map f (filter P xs)) \<Longrightarrow> distinct (map f (filter P (filter Q xs)))" for f :: "path_row \<Rightarrow> 'b" and P Q xs
    by (induction xs) auto
  have "ids_ok (map p_id (t_paths (rows_of (s_user s) t)))"
    using ok(1) by (auto simp: tables_ok_def ids_ok_def distinct_map_filter list_all_iff)
  moreover have "distinct (map (\<lambda>r. (p_user r, p_parent r, key (p_name r))) (filter (\<lambda>r. p_parent r \<noteq> None) (t_paths (rows_of (s_user s) t))))"
    unfolding rows_of_simps by (rule dist) (use ok(1) in \<open>simp add: tables_ok_def\<close>)
  moreover have "length (p_name r) \<le> 255 \<and> p_user r \<in> u_id ` set (t_users (rows_of (s_user s) t)) \<and>
      (case p_parent r of None \<Rightarrow> True | Some i \<Rightarrow> i \<in> p_id ` set (t_paths (rows_of (s_user s) t))) \<and>
      (case p_file r of None \<Rightarrow> True | Some i \<Rightarrow> i \<in> f_id ` set (t_files (rows_of (s_user s) t)))"
    if "r \<in> set (t_paths (rows_of (s_user s) t))" for r
  proof -
    have r: "r \<in> set (t_paths t)" "p_user r = s_user s" using that by simp_all
    have "length (p_name r) \<le> 255 \<and> p_user r \<in> u_id ` set (t_users t) \<and>
        (case p_file r of None \<Rightarrow> True | Some i \<Rightarrow> i \<in> f_id ` set (t_files t))"
      using ok(1) r(1) unfolding tables_ok_def by blast
    with par [OF r] show ?thesis unfolding rows_of_simps(2,3) by (cases "p_parent r") (simp_all del: rows_of_simps)
  qed
  ultimately have "tables_ok key (rows_of (s_user s) t)"
    using ok(1) unfolding tables_ok_def rows_of_simps(2,3) by blast
  then show ?thesis using assms unfolding drive_ok_def family_def by auto
qed

text \<open>The folders of the user look the same from both sides.\<close>

lemma my_folder:
  assumes "drive_ok key t s" "q \<in> set (t_paths t)" "p_user q = s_user s"
  shows "same_folder (p_id q) (drive_of key t s) (my_drive key t s)"
proof -
  note ok = drive_ok_ids [OF assms(1)]
  have child: "p_user x = s_user s" if "x \<in> set (t_paths t)" "p_parent x = Some (p_id q)" for x
    using that ok(2) assms(2,3) unfolding family_def by metis
  have self: "p_user x = s_user s" if "x \<in> set (t_paths t)" "p_id x = p_id q" for x
    using paths_unique [OF ok(1) that(1) assms(2) that(2)] assms(3) by simp
  have "List.find (\<lambda>x. p_parent x = Some (p_id q) \<and> key (p_name x) = k) (filter (\<lambda>r. p_user r = s_user s) (t_paths t)) =
      List.find (\<lambda>x. p_parent x = Some (p_id q) \<and> key (p_name x) = k) (t_paths t)" for k
    by (rule find_filter) (use child in blast)
  moreover have "List.find (\<lambda>x. p_id x = p_id q \<and> \<not> p_tomb x) (filter (\<lambda>r. p_user r = s_user s) (t_paths t)) =
      List.find (\<lambda>x. p_id x = p_id q \<and> \<not> p_tomb x) (t_paths t)"
    by (rule find_filter) (use self in blast)
  ultimately show ?thesis by (simp add: same_folder_def drive_of_def my_drive_def)
qed

lemma my_view:
  assumes "drive_ok key t s"
  shows "dr_slots (my_drive key t s) (s_dir s) = dr_slots (drive_of key t s) (s_dir s)"
    "dr_parent (my_drive key t s) (s_dir s) = dr_parent (drive_of key t s) (s_dir s)"
    "dr_root (my_drive key t s) = dr_root (drive_of key t s)"
proof -
  obtain q where "q \<in> set (t_paths t)" "p_id q = s_dir s" "p_user q = s_user s" using assms by (auto simp: drive_ok_def)
  then show "dr_slots (my_drive key t s) (s_dir s) = dr_slots (drive_of key t s) (s_dir s)"
    "dr_parent (my_drive key t s) (s_dir s) = dr_parent (drive_of key t s) (s_dir s)"
    using my_folder [OF assms, of q] by (simp_all add: same_folder_def)
  have "List.find (\<lambda>r. p_user r = s_user s \<and> p_parent r = None \<and> p_type r = CHR ''d'') (filter (\<lambda>r. p_user r = s_user s) (t_paths t)) =
      List.find (\<lambda>r. p_user r = s_user s \<and> p_parent r = None \<and> p_type r = CHR ''d'') (t_paths t)"
    by (rule find_filter) blast
  then show "dr_root (my_drive key t s) = dr_root (drive_of key t s)" by (simp add: drive_of_def my_drive_def)
qed

text \<open>A step of the whole drive that changes no table is a step of the user's own.\<close>

lemma my_step:
  assumes "drive_ok key t s" "drive_step key (drive_of key t s) cmd b (drive_of key t s')" "looks cmd" "s_user s' = s_user s"
  shows "drive_step key (my_drive key t s) cmd b (my_drive key t s')"
proof -
  let ?D = "drive_of key t s" and ?M = "my_drive key t s"
  note v = my_view [OF assms(1)]
  have here: "here_slot key ?M n = here_slot key ?D n" for n by (simp add: here_slot_def v(1))
  have shown: "shown_names ?M = shown_names ?D" by (simp add: shown_names_def v(1))
  have place: "my_drive key t s' = ?M\<lparr>dr_here := s_dir s', dr_path := s_path s'\<rparr>"
    using assms(4) by (simp add: my_drive_def drive_of_def)
  have at: "s_dir s' = dr_here X" "s_path s' = dr_path X" if "drive_of key t s' = X" for X using that by auto
  have still: "my_drive key t s' = ?M" if "drive_of key t s' = ?D" using at [OF that] place by (simp add: my_drive_def drive_of_def)
  from assms(2,3) show ?thesis
  proof (cases rule: drive_step.cases)
    case (cd_there n m i)
    then show ?thesis using drive_step.cd_there [of key ?M n m i] here at [OF cd_there(3)] place by simp
  next
    case (cd_none n)
    then show ?thesis using drive_step.cd_none [of key ?M n] here still by simp
  next
    case (up i)
    then show ?thesis using drive_step.up [of ?M i key] v(2) at [OF up(3)] place by simp
  next
    case up_top
    then show ?thesis using drive_step.up_top [of ?M key] v(2) still by simp
  next
    case (home i)
    then show ?thesis using drive_step.home [of ?M i key] v(3) at [OF home(3)] place by simp
  next
    case home_none
    then show ?thesis using drive_step.home_none [of ?M key] v(3) still by simp
  next
    case pwd
    then show ?thesis using drive_step.pwd [of key ?M] still by simp
  next
    case (ls ns)
    then show ?thesis using drive_step.ls [of ns ?M key] shown still by simp
  qed simp_all
qed

section \<open>The others\<close>

text \<open>What the others may do: anything that keeps the tables in order and the rows of \<open>u\<close> as they are.\<close>

definition polite :: "(string \<Rightarrow> string) \<Rightarrow> ('d \<Rightarrow> tables) \<Rightarrow> int \<Rightarrow> ('d \<Rightarrow> 'd) \<Rightarrow> bool" where
  "polite key tbl u f \<longleftrightarrow>
     (\<forall>d. tables_ok key (tbl d) \<and> family (tbl d) \<longrightarrow>
        tables_ok key (tbl (f d)) \<and> family (tbl (f d)) \<and> t_paths (rows_of u (tbl (f d))) = t_paths (rows_of u (tbl d)))"

definition busy_ok :: "(string \<Rightarrow> string) \<Rightarrow> ('d \<Rightarrow> tables) \<Rightarrow> session \<Rightarrow> 'd busy_db \<Rightarrow> bool" where
  "busy_ok key tbl s x \<longleftrightarrow> drive_ok key (tbl (bz_db x)) s \<and> (\<forall>f\<in>set (bz_others x). polite key tbl (s_user s) f)"

lemma drive_ok_rows:
  assumes "drive_ok key t s" "tables_ok key t'" "family t'" "t_paths (rows_of (s_user s) t') = t_paths (rows_of (s_user s) t)"
  shows "drive_ok key t' s"
proof -
  have rows: "r \<in> set (t_paths t') \<longleftrightarrow> r \<in> set (t_paths t)" if "p_user r = s_user s" for r
    using arg_cong [OF assms(4), of set] that by (auto simp: set_eq_iff)
  obtain q where q: "q \<in> set (t_paths t)" "p_id q = s_dir s" "p_user q = s_user s" using assms(1) unfolding drive_ok_def by blast
  have "q \<in> set (t_paths t')" using q rows by simp
  moreover have "q = r" if "q \<in> set (t_paths t')" "r \<in> set (t_paths t')" "p_parent q = None" "p_parent r = None"
      "p_user q = s_user s" "p_user r = s_user s" for q r
    using assms(1) that rows unfolding drive_ok_def by blast
  ultimately show ?thesis using assms(1-3) q(2,3) unfolding drive_ok_def by blast
qed

lemma meddled_ok:
  assumes "busy_ok key tbl s x"
  shows "drive_ok key (tbl (meddled x)) s"
    "t_paths (rows_of (s_user s) (tbl (meddled x))) = t_paths (rows_of (s_user s) (tbl (bz_db x)))"
    "my_drive key (tbl (meddled x)) s = my_drive key (tbl (bz_db x)) s"
proof -
  have ok: "drive_ok key (tbl (bz_db x)) s" using assms by (simp add: busy_ok_def)
  have "tables_ok key (tbl (meddled x)) \<and> family (tbl (meddled x)) \<and>
      t_paths (rows_of (s_user s) (tbl (meddled x))) = t_paths (rows_of (s_user s) (tbl (bz_db x)))"
  proof (cases "bz_others x")
    case Nil
    then show ?thesis using drive_ok_ids(1,2) [OF ok] by (simp add: meddled_def)
  next
    case (Cons f fs)
    then have "polite key tbl (s_user s) f" using assms by (simp add: busy_ok_def)
    then show ?thesis using drive_ok_ids(1,2) [OF ok] Cons unfolding polite_def by (simp add: meddled_def)
  qed
  then show "drive_ok key (tbl (meddled x)) s"
    and rows: "t_paths (rows_of (s_user s) (tbl (meddled x))) = t_paths (rows_of (s_user s) (tbl (bz_db x)))"
    using drive_ok_rows [OF ok] by blast+
  show "my_drive key (tbl (meddled x)) s = my_drive key (tbl (bz_db x)) s" by (rule my_drive_cong [OF rows])
qed

lemma left_ok: "busy_ok key tbl s x \<Longrightarrow> drive_ok key (tbl d) s' \<Longrightarrow> s_user s' = s_user s \<Longrightarrow> busy_ok key tbl s' (left_with x d)"
  by (cases "bz_others x") (auto simp: busy_ok_def)

end
