(* ===== verification/Drive_Among_Others.thy ===== *)
theory Drive_Among_Others
  imports Drive_Busy
begin

text \<open>
  The directory commands of a session implement the drive of its user, whatever the other users do to
  the database between any two of its statements.
\<close>

section \<open>Commands\<close>

text \<open>The steps of the drive, and one more: a directory may fail to be made because the ids are used up, which the user's
  own rows do not show.\<close>

inductive busy_step :: "(string \<Rightarrow> string) \<Rightarrow> drive \<Rightarrow> drive_cmd \<Rightarrow> string \<Rightarrow> drive \<Rightarrow> bool" for key D where
  calm: "drive_step key D c b D' \<Longrightarrow> busy_step key D c b D'"
| crowded: "here_slot key D n = Free \<Longrightarrow> busy_step key D (Mkdir n) msg_mkdir_failed D"

inductive busy_run :: "(string \<Rightarrow> string) \<Rightarrow> drive \<Rightarrow> drive_cmd list \<Rightarrow> string list \<Rightarrow> drive \<Rightarrow> bool" for key where
  Nil: "busy_run key D [] [] D"
| Cons: "busy_step key D c b D1 \<Longrightarrow> busy_run key D1 cs bs D' \<Longrightarrow> busy_run key D (c # cs) (b # bs) D'"

definition busy_done :: "'d dao_env \<Rightarrow> ('d \<Rightarrow> tables) \<Rightarrow> (string \<Rightarrow> string) \<Rightarrow> int \<Rightarrow> nat \<Rightarrow> drive_cmd \<Rightarrow> session \<Rightarrow> 'd busy_db \<Rightarrow> bool" where
  "busy_done env tbl key fd c cmd s x \<longleftrightarrow>
     (\<exists>b s'. length (s_path s') \<le> length (s_path s) + path_growth cmd \<and>
       replies (busy env) fd c (drive_packet cmd) s x s' (reply_bytes b)
         (\<lambda>y. busy_ok key tbl s' y \<and> busy_step key (my_drive key (tbl (bz_db x)) s) cmd b (my_drive key (tbl (bz_db y)) s')))"

lemma busy_doneI:
  assumes "length (s_path s') \<le> length (s_path s) + path_growth cmd"
    "\<And>w :: 'd busy_db world. w_conn w = Some c \<Longrightarrow> open_sock (w_sock w) \<Longrightarrow> w_db w = x \<Longrightarrow>
      serve_command (busy env) fd (terminated (drive_packet cmd)) s w = Some (s', say b (w\<lparr>w_db := y\<rparr>))"
    "busy_ok key tbl s' y" "busy_step key (my_drive key (tbl (bz_db x)) s) cmd b (my_drive key (tbl (bz_db y)) s')"
  shows "busy_done env tbl key fd c cmd s x"
proof -
  have "replies (busy env) fd c (drive_packet cmd) s x s' (reply_bytes b)
      (\<lambda>y. busy_ok key tbl s' y \<and> busy_step key (my_drive key (tbl (bz_db x)) s) cmd b (my_drive key (tbl (bz_db y)) s'))"
    unfolding replies_def
  proof (intro allI impI, elim conjE)
    fix w :: "'d busy_db world"
    assume w: "w_conn w = Some c" "open_sock (w_sock w)" "w_db w = x"
    then have "serve_command (busy env) fd (terminated (drive_packet cmd)) s w = Some (s', sent (reply_bytes b) (w\<lparr>w_db := y\<rparr>))"
      using assms(2) [OF w] by (simp add: say_open)
    with assms(3,4) show "\<exists>y. serve_command (busy env) fd (terminated (drive_packet cmd)) s w = Some (s', sent (reply_bytes b) (w\<lparr>w_db := y\<rparr>)) \<and>
      busy_ok key tbl s' y \<and> busy_step key (my_drive key (tbl (bz_db x)) s) cmd b (my_drive key (tbl (bz_db y)) s')" by blast
  qed
  with assms(1) show ?thesis unfolding busy_done_def by blast
qed

lemma replies_weaken: "replies env fd c p s d s' b P \<Longrightarrow> (\<And>d. P d \<Longrightarrow> Q d) \<Longrightarrow> replies env fd c p s d s' b Q"
  unfolding replies_def by blast

text \<open>The packets that only look.\<close>

lemma serve_looks_busy:
  assumes "looks cmd" "cmd \<noteq> Pwd" "drive_cmd_ok cmd" "w_conn w = Some c" "s_user s \<noteq> - 1" "0 < s_user s" "0 < s_dir s"
  shows "serve_command (busy env) fd (terminated (drive_packet cmd)) s w = lifted (w_db w) (serve_command env fd (terminated (drive_packet cmd)) s) w"
proof (cases cmd)
  case (Cd n)
  then have n: "NUL \<notin> set n" "length n \<le> 255" "n \<noteq> []" "n \<noteq> ''.''" using assms(3) by (simp_all add: clean_text_def)
  show ?thesis
    using handle_cd_busy [OF assms(4,6,7) n(3,4), of env] Cd
    by (simp add: lifted_def serve_drive(3) [OF assms(5) n(1,2)] del: cmd_code.simps)
next
  case Up
  show ?thesis
    using handle_cd_busy [OF assms(4,6,7), of "''..''" env] Up
    by (simp add: lifted_def serve_drive(3) [OF assms(5), of "''..''"] del: cmd_code.simps)
next
  case Home
  show ?thesis
    using handle_cd_busy [OF assms(4,6,7), of "''/''" env] Home
    by (simp add: lifted_def serve_drive(3) [OF assms(5), of "''/''"] del: cmd_code.simps)
next
  case Ls
  show ?thesis
    using handle_ls_busy [OF assms(4,6,7), of env] Ls
    by (simp add: lifted_def serve_drive(4) [OF assms(5), of "[]"] del: cmd_code.simps)
qed (use assms(1,2) in simp_all)

text \<open>The steps that change a table, seen on the user's own rows.\<close>

lemma made_step:
  assumes "adds_path t t' (new_path (s_user s) (Some (s_dir s)) n (''/'' @ n) CHR ''d'' None i)"
    "\<not> path_violates key t (s_user s) (Some (s_dir s)) n None"
  shows "drive_step key (my_drive key t s) (Mkdir n) msg_mkdir_ok (my_drive key t' s)"
proof -
  let ?R = "rows_of (s_user s)"
  let ?D = "drive_of key (?R t) s"
  have ad: "adds_path (?R t) (?R t') (new_path (s_user s) (Some (s_dir s)) n (''/'' @ n) CHR ''d'' None i)"
    using assms(1) by (auto simp: adds_path_def rows_of_def new_path_def)
  have free: "dr_slots ?D (s_dir s) (key n) = Free" using assms(2) by (auto simp: slot_free path_violates_def)
  have ids: "\<forall>j\<in>dr_ids ?D. j < 2147483647" using assms(2) by (auto simp: path_violates_def ids_left_def list_all_iff drive_of_def)
  have new: "i \<notin> dr_ids ?D" using ad by (simp add: adds_path_def new_path_def drive_of_def)
  have "here_slot key ?D n = Free" using free by (simp add: here_slot_def)
  from drive_step.mkdir_new [OF this ids new] show ?thesis by (simp add: my_drive_def drive_of_add [OF ad free])
qed

lemma not_made_step:
  assumes "\<forall>a i. here_slot key D n \<noteq> Folder a i"
  shows "busy_step key D (Mkdir n) msg_mkdir_failed D"
proof (cases "here_slot key D n = Free")
  case True
  then show ?thesis by (rule busy_step.crowded)
next
  case False
  with assms obtain a i where "here_slot key D n = Gone \<or> here_slot key D n = Plain a i" by (cases "here_slot key D n") auto
  then show ?thesis by (intro busy_step.calm drive_step.mkdir_taken)
qed

lemma removed_step:
  assumes "drive_ok key t s" "row \<in> set (t_paths t)" "child_of key (s_dir s) n row"
    "t' = t\<lparr>t_paths := map (tombed (\<lambda>x. p_id x = p_id row \<and> p_user x = s_user s)) (t_paths t)\<rparr>"
  shows "drive_step key (my_drive key t s) (Rm n) msg_rm_ok (my_drive key t' s)"
proof -
  let ?R = "rows_of (s_user s)"
  have par: "p_parent row = Some (s_dir s)" "key (p_name row) = key n" using assms(3) by (simp_all add: child_of_def)
  have user: "p_user row = s_user s" by (rule child_user [OF assms(1,2) par(1)])
  have mine: "row \<in> set (t_paths (?R t))" using assms(2) user by simp
  have tomb: "?R t' = (?R t)\<lparr>t_paths := map (tombed (\<lambda>x. p_id x = p_id row \<and> p_user x = p_user row)) (t_paths (?R t))\<rparr>"
    unfolding assms(4) rows_of_def user by (simp add: filter_map o_def)
  note ok = drive_ok_ids(1,2) [OF rows_of_ok [OF assms(1)]]
  have "dr_slots (drive_of key (?R t) s) (s_dir s) (key n) = Folder (p_name row) (p_id row) \<or>
      dr_slots (drive_of key (?R t) s) (s_dir s) (key n) = Plain (p_name row) (p_id row)"
    unfolding slot_live [OF ok] using mine assms(3) by blast
  then have "here_slot key (my_drive key t s) n = Folder (p_name row) (p_id row) \<or>
      here_slot key (my_drive key t s) n = Plain (p_name row) (p_id row)"
    by (simp add: here_slot_def my_drive_def)
  from drive_step.rm_there [OF this] show ?thesis by (simp add: my_drive_def drive_of_tomb [OF ok mine par tomb])
qed

text \<open>What a look-up has found is what stands under the name, and it is still there for the next statement.\<close>

lemma my_slot:
  assumes "drive_ok key t s"
  shows "here_slot key (my_drive key t s) n = Folder a i \<longleftrightarrow> (\<exists>row\<in>set (t_paths t). wanted key (s_dir s) n 1 row \<and> p_name row = a \<and> p_id row = i)"
    "(here_slot key (my_drive key t s) n = Folder a i \<or> here_slot key (my_drive key t s) n = Plain a i) \<longleftrightarrow>
      (\<exists>row\<in>set (t_paths t). child_of key (s_dir s) n row \<and> p_name row = a \<and> p_id row = i)"
  using slot_folder [OF drive_ok_ids(1,2) [OF assms], of s "s_dir s" n a i] slot_live [OF drive_ok_ids(1,2) [OF assms], of s "s_dir s" n a i]
  by (simp_all add: here_slot_def my_view(1) [OF assms])

lemma still_there:
  assumes "t_paths (rows_of (s_user s) t') = t_paths (rows_of (s_user s) t)" "row \<in> set (t_paths t)" "p_user row = s_user s"
  shows "row \<in> set (t_paths t')"
  using arg_cong [OF assms(1), of set] assms(2,3) by (auto simp: set_eq_iff)

context sql_available begin

lemma looks_busy:
  assumes "busy_ok key tbl s x" "drive_cmd_ok cmd" "length (s_path s) + path_growth cmd + 1 \<le> 512" "looks cmd" "cmd \<noteq> Pwd"
  shows "busy_done env tbl key fd c cmd s x"
proof -
  note m = meddled_ok [OF assms(1)]
  note ok = drive_ok_ids [OF m(1)]
  obtain b s' where b: "length (s_path s') \<le> length (s_path s) + path_growth cmd" "s_user s' = s_user s"
    "replies env fd c (drive_packet cmd) s (meddled x) s' (reply_bytes b)
       (\<lambda>d. drive_ok key (tbl d) s' \<and> drive_step key (drive_of key (tbl (meddled x)) s) cmd b (drive_of key (tbl d) s') \<and>
         others_kept (s_user s) (tbl (meddled x)) (tbl d) \<and> (looks cmd \<longrightarrow> tbl d = tbl (meddled x)))"
    using cmd_done [OF m(1) assms(2,3), of fd c] unfolding drive_done_def by blast
  have "replies (busy env) fd c (drive_packet cmd) s x s' (reply_bytes b) (\<lambda>y. \<exists>d. y = left_with x d \<and>
       drive_ok key (tbl d) s' \<and> drive_step key (drive_of key (tbl (meddled x)) s) cmd b (drive_of key (tbl d) s') \<and>
         others_kept (s_user s) (tbl (meddled x)) (tbl d) \<and> (looks cmd \<longrightarrow> tbl d = tbl (meddled x)))"
    by (rule replies_lifted [OF b(3)]) (use serve_looks_busy [OF assms(4,5,2) _ ok(9,6,8)] in auto)
  then have "replies (busy env) fd c (drive_packet cmd) s x s' (reply_bytes b)
      (\<lambda>y. busy_ok key tbl s' y \<and> busy_step key (my_drive key (tbl (bz_db x)) s) cmd b (my_drive key (tbl (bz_db y)) s'))"
  proof (rule replies_weaken, elim exE conjE)
    fix y d
    assume y: "y = left_with x d" and d: "drive_ok key (tbl d) s'" "drive_step key (drive_of key (tbl (meddled x)) s) cmd b (drive_of key (tbl d) s')"
      "looks cmd \<longrightarrow> tbl d = tbl (meddled x)"
    have t: "tbl d = tbl (meddled x)" using d(3) assms(4) by simp
    have "drive_step key (my_drive key (tbl (meddled x)) s) cmd b (my_drive key (tbl (meddled x)) s')"
      using my_step [OF m(1) _ assms(4) b(2)] d(2) unfolding t by blast
    then have "busy_step key (my_drive key (tbl (bz_db x)) s) cmd b (my_drive key (tbl (bz_db y)) s')"
      unfolding m(3) y left_with_simps t by (rule busy_step.calm)
    moreover have "busy_ok key tbl s' y" unfolding y by (rule left_ok [OF assms(1) d(1) b(2)])
    ultimately show "busy_ok key tbl s' y \<and> busy_step key (my_drive key (tbl (bz_db x)) s) cmd b (my_drive key (tbl (bz_db y)) s')" by blast
  qed
  with b(1) show ?thesis unfolding busy_done_def by blast
qed

text \<open>The look-up that \<open>mkdir\<close> and \<open>rm\<close> begin with.\<close>

lemma find_busy:
  assumes "busy_ok key tbl s x" "clean_text n" "length n \<le> 255"
  shows "\<exists>q d. dao_find_child_id (busy env) (Some c) (s_dir s) (Some n) k x = Some (q, left_with x d) \<and> tbl d = tbl (meddled x) \<and>
    busy_ok key tbl s (left_with x d) \<and>
    (if \<exists>row\<in>set (t_paths (tbl d)). wanted key (s_dir s) n k row
     then \<exists>row\<in>set (t_paths (tbl d)). wanted key (s_dir s) n k row \<and> p_id row = q else q = - 1)"
proof -
  note m = meddled_ok [OF assms(1)]
  note ok = drive_ok_ids [OF m(1)]
  obtain q d where q: "dao_find_child_id env (Some c) (s_dir s) (Some n) k (meddled x) = Some (q, d)" "tbl d = tbl (meddled x)"
    "if \<exists>row\<in>set (t_paths (tbl (meddled x))). wanted key (s_dir s) n k row
     then \<exists>row\<in>set (t_paths (tbl (meddled x))). wanted key (s_dir s) n k row \<and> p_id row = q else q = - 1"
    using find_child_exact [OF ok(1,7,8) assms(2,3), of c k] by blast
  have "busy_ok key tbl s (left_with x d)" using left_ok [OF assms(1), of d s] m(1) q(2) by simp
  with q show ?thesis by (intro exI [of _ q] exI [of _ d]) (simp add: find_child_busy [OF ok(8)])
qed

lemma create_busy:
  assumes "busy_ok key tbl s x" "clean_text n" "length n \<le> 200"
  shows "\<exists>r y. dao_create_dir (busy env) (Some c) (s_user s) (s_dir s) (Some n) x = Some (r, y) \<and> busy_ok key tbl s y \<and>
    busy_step key (my_drive key (tbl (bz_db x)) s) (Mkdir n)
      (if r < 0 then msg_mkdir_failed else if r = 0 then msg_dir_exists else msg_mkdir_ok) (my_drive key (tbl (bz_db y)) s)"
proof -
  let ?M = "my_drive key (tbl (bz_db x)) s"
  note m = meddled_ok [OF assms(1)]
  note ok = drive_ok_ids [OF m(1)]
  have l: "length n \<le> 255" using assms(3) by simp
  obtain q d1 where q: "dao_find_child_id (busy env) (Some c) (s_dir s) (Some n) 1 x = Some (q, left_with x d1)" "tbl d1 = tbl (meddled x)"
    "busy_ok key tbl s (left_with x d1)"
    "if \<exists>row\<in>set (t_paths (tbl d1)). wanted key (s_dir s) n 1 row
     then \<exists>row\<in>set (t_paths (tbl d1)). wanted key (s_dir s) n 1 row \<and> p_id row = q else q = - 1"
    using find_busy [OF assms(1,2) l, of c 1] by blast
  let ?x1 = "left_with x d1"
  let ?t = "tbl (meddled ?x1)"
  note m1 = meddled_ok [OF q(3)]
  have M: "my_drive key (tbl d1) s = ?M" "my_drive key ?t s = ?M" using m(3) m1(3) q(2) by simp_all
  have folder: "here_slot key ?M n = Folder a i \<longleftrightarrow> (\<exists>row\<in>set (t_paths (tbl d1)). wanted key (s_dir s) n 1 row \<and> p_name row = a \<and> p_id row = i)" for a i
    using my_slot(1) [OF m(1)] m(3) q(2) by simp
  let ?st = "Ins_dir (s_user s) (s_dir s) n (''/'' @ n)"
  have p: "snprintf_str 512 (''/'' @ n) = ''/'' @ n" using assms(3) by (simp add: snprintf_str_def)
  have g: "goes 512 ?st"
    using assms(2,3) clean_text_prefix [of n 512] p ok(5,7) by (intro goesI) (simp_all add: clean_stmt_def lits_Ins_dir)
  obtain r d3 where r: "run_stmt env c (snprintf_str 512 (render ?st)) c_int (meddled ?x1) = (r, d3)"
    "if violates key ?st ?t then r = - 1 \<and> tbl d3 = ?t
     else \<exists>i. r = c_int i \<and> tbl d3 = apply_stmt ?st i ?t \<and>
       (\<forall>is. used_ids ?st ?t = Some is \<longrightarrow> i \<notin> set is \<and> 0 < i \<and> i \<le> 2147483647)"
    using run_stmt_exact [OF g, of c c_int "meddled ?x1"] by auto
  have create: "dao_create_dir (busy env) (Some c) (s_user s) (s_dir s) (Some n) x = Some (if q > 0 then (0, ?x1) else (r, left_with ?x1 d3))"
    using q(1) r(1) p ok(6,8) by (simp add: dao_create_dir_def render_folds run_stmt_busy Let_def)
  show ?thesis
  proof (cases "\<exists>row\<in>set (t_paths (tbl d1)). wanted key (s_dir s) n 1 row")
    case again: True
    then obtain row where row: "row \<in> set (t_paths (tbl d1))" "wanted key (s_dir s) n 1 row" "p_id row = q"
      using q(4) unfolding if_P [OF again] by blast
    then have q0: "0 < q" using tables_ok_id_range(2) [OF ok(1)] q(2) by auto
    have "here_slot key ?M n = Folder (p_name row) q" unfolding folder using row by blast
    from busy_step.calm [OF drive_step.mkdir_again [OF this]] create q0 q(3) M(1) show ?thesis by simp
  next
    case False
    then have no: "\<forall>a i. here_slot key ?M n \<noteq> Folder a i" and q1: "q = - 1" using folder q(4) by auto
    show ?thesis
    proof (cases "violates key ?st ?t")
      case True
      then have r0: "r = - 1" "tbl d3 = ?t" using r(2) by simp_all
      have "busy_ok key tbl s (left_with ?x1 d3)" using left_ok [OF q(3)] m1(1) r0(2) by simp
      with not_made_step [OF no] create q1 r0 M(2) show ?thesis by simp
    next
      case made: False
      have ad: "adds_path ?t (tbl d3) (new_path (s_user s) (Some (s_dir s)) n (''/'' @ n) CHR ''d'' None r)"
        using r(2) [unfolded if_not_P [OF made]] by (auto simp: adds_path_def new_path_def)
      have r0: "0 < r" using ad by (simp add: adds_path_def new_path_def)
      have "tables_ok key (tbl d3)" using run_stmt_tables_ok [OF g r(1) drive_ok_ids(1) [OF m1(1)]] .
      then have "busy_ok key tbl s (left_with ?x1 d3)" using left_ok [OF q(3) drive_ok_add [OF m1(1) ad]] by simp
      moreover have "\<not> path_violates key ?t (s_user s) (Some (s_dir s)) n None" using made by simp
      note busy_step.calm [OF made_step [OF ad this], unfolded M(2)]
      ultimately show ?thesis using create q1 r0 by simp
    qed
  qed
qed

lemma mkdir_busy:
  assumes "busy_ok key tbl s x" "clean_text n" "n \<noteq> []" "length n \<le> 200"
  shows "busy_done env tbl key fd c (Mkdir n) s x"
proof -
  note ok = drive_ok_ids [OF meddled_ok(1) [OF assms(1)]]
  have nul: "NUL \<notin> set n" "length n \<le> 255" using assms(2,4) by (simp_all add: clean_text_def)
  obtain r y where r: "dao_create_dir (busy env) (Some c) (s_user s) (s_dir s) (Some n) x = Some (r, y)" "busy_ok key tbl s y"
    "busy_step key (my_drive key (tbl (bz_db x)) s) (Mkdir n)
      (if r < 0 then msg_mkdir_failed else if r = 0 then msg_dir_exists else msg_mkdir_ok) (my_drive key (tbl (bz_db y)) s)"
    using create_busy [OF assms(1,2,4), of c] by blast
  show ?thesis
    by (rule busy_doneI [OF _ _ r(2,3)])
      (simp, use r(1) assms(3) in \<open>simp add: serve_drive(1) [OF ok(9) nul] with_session_def handle_mkdir_def get_thread_db_conn_def db_call_Some del: cmd_code.simps\<close>)
qed

lemma rm_busy:
  assumes "busy_ok key tbl s x" "clean_text n" "n \<noteq> []" "length n \<le> 255"
  shows "busy_done env tbl key fd c (Rm n) s x"
proof -
  let ?M = "my_drive key (tbl (bz_db x)) s"
  note m = meddled_ok [OF assms(1)]
  note ok = drive_ok_ids [OF m(1)]
  have nul: "NUL \<notin> set n" using assms(2) by (simp add: clean_text_def)
  obtain q d1 where q: "dao_find_child_id (busy env) (Some c) (s_dir s) (Some n) (- 1) x = Some (q, left_with x d1)" "tbl d1 = tbl (meddled x)"
    "busy_ok key tbl s (left_with x d1)"
    "if \<exists>row\<in>set (t_paths (tbl d1)). child_of key (s_dir s) n row
     then \<exists>row\<in>set (t_paths (tbl d1)). child_of key (s_dir s) n row \<and> p_id row = q else q = - 1"
    using find_busy [OF assms(1,2,4), of c "- 1"] unfolding wanted_simps by blast
  let ?x1 = "left_with x d1"
  let ?t = "tbl (meddled ?x1)"
  note m1 = meddled_ok [OF q(3)]
  note ok1 = drive_ok_ids [OF m1(1)]
  note serve = serve_drive(2) [OF ok(9) nul assms(4)]
  show ?thesis
  proof (cases "\<exists>row\<in>set (t_paths (tbl d1)). child_of key (s_dir s) n row")
    case True
    then obtain row where row: "row \<in> set (t_paths (tbl d1))" "child_of key (s_dir s) n row" "p_id row = q"
      using q(4) unfolding if_P [OF True] by blast
    have "p_user row = s_user s" using child_user [OF m(1)] row(1,2) q(2) by (simp add: child_of_def)
    then have row1: "row \<in> set (t_paths ?t)" using still_there [OF m1(2)] row(1) by simp
    have qr: "c_range q" "0 < q" using tables_ok_id_range(2) [OF ok(1), of row] row(1,3) q(2) by simp_all
    obtain d2 where d2: "dao_delete_entry env (Some c) (s_user s) q (meddled ?x1) = (0, d2)"
      "tbl d2 = ?t\<lparr>t_paths := map (tombed (\<lambda>x. p_id x = p_id row \<and> p_user x = s_user s)) (t_paths ?t)\<rparr>"
      using delete_entry_exact [OF ok1(5) qr(1) ok1(6) qr(2), of c "meddled ?x1"] row(3) by auto
    have "tables_ok key (tbl d2)" using delete_entry_ok [OF ok1(1,5) qr(1), of c] d2(1) by auto
    note ok2 = drive_ok_tomb [OF m1(1) d2(2) this]
    note st = busy_step.calm [OF removed_step [OF m1(1) row1 row(2) d2(2)], unfolded m1(3) left_with_simps q(2) m(3)]
    show ?thesis
      by (rule busy_doneI [where s' = s and b = msg_rm_ok and y = "left_with ?x1 d2"])
        (simp, use q(1) d2(1) qr(2) assms(3) ok(6) in \<open>simp add: serve with_session_def handle_rm_def get_thread_db_conn_def db_call_Some db_run_eq delete_busy del: cmd_code.simps\<close>,
          rule left_ok [OF q(3) ok2], simp, use st in simp)
  next
    case False
    then have q1: "q = - 1" using q(4) by simp
    have "here_slot key ?M n \<noteq> Folder a i \<and> here_slot key ?M n \<noteq> Plain a i" for a i
      using False my_slot(2) [OF m(1), of n a i] m(3) q(2) by auto
    then have "here_slot key ?M n = Free \<or> here_slot key ?M n = Gone" by (cases "here_slot key ?M n") auto
    note st = busy_step.calm [OF drive_step.rm_none [OF this]]
    show ?thesis
      by (rule busy_doneI [where s' = s and b = msg_no_entry and y = ?x1])
        (simp, use q(1) q1 assms(3) in \<open>simp add: serve with_session_def handle_rm_def get_thread_db_conn_def db_call_Some del: cmd_code.simps\<close>,
          rule q(3), use st m(3) q(2) in simp)
  qed
qed

lemma cmd_busy:
  assumes "busy_ok key tbl s x" "drive_cmd_ok cmd" "length (s_path s) + path_growth cmd + 1 \<le> 512"
  shows "busy_done env tbl key fd c cmd s x"
proof (cases cmd)
  case Pwd
  have ok: "drive_ok key (tbl (bz_db x)) s" using assms(1) by (simp add: busy_ok_def)
  have "replies (busy env) fd c (drive_packet Pwd) s x s (reply_bytes (s_path s)) (\<lambda>y. y = x)"
    using replies_pwd [OF drive_ok_ids(9) [OF ok]] by simp
  moreover have "busy_step key (my_drive key (tbl (bz_db x)) s) Pwd (s_path s) (my_drive key (tbl (bz_db x)) s)"
    using busy_step.calm [OF drive_step.pwd [of key "my_drive key (tbl (bz_db x)) s"]] by simp
  ultimately show ?thesis using assms(1) Pwd unfolding busy_done_def replies_def by (intro exI [of _ "s_path s"] exI [of _ s]) auto
qed (use assms looks_busy [OF assms] mkdir_busy rm_busy in simp_all)

text \<open>Whole sessions.\<close>

lemma busy_session:
  assumes "busy_ok key tbl s (w_db w)" "list_all drive_cmd_ok cmds" "length (s_path s) + sum_list (map path_growth cmds) + 1 \<le> 512"
    "w_conn w = Some c" "open_sock (w_sock w)" "stream (w_sock w) = concat (map (\<lambda>x. bytes_of_command (drive_packet x)) cmds)"
  shows "\<exists>w' s' bs. session_loop (busy env) fd s w = Some w' \<and> tx_out (w_sock w') = tx_out (w_sock w) @ concat (map reply_bytes bs) \<and>
    busy_run key (my_drive key (tbl (bz_db (w_db w))) s) cmds bs (my_drive key (tbl (bz_db (w_db w'))) s')"
  using assms
proof (induction cmds arbitrary: s w)
  case Nil
  then have "stream (w_sock w) = []" by simp
  then obtain segs where "session_loop (busy env) fd s w = Some (w\<lparr>w_sock := (w_sock w)\<lparr>rx_segs := segs\<rparr>\<rparr>)" using session_loop_end by blast
  then show ?case
    by (intro exI [of _ "w\<lparr>w_sock := (w_sock w)\<lparr>rx_segs := segs\<rparr>\<rparr>"] exI [of _ s] exI [of _ "[]"]) (simp add: busy_run.Nil)
next
  case (Cons x xs s w)
  have x: "drive_cmd_ok x" "length (s_path s) + path_growth x + 1 \<le> 512" using Cons.prems(2,3) by simp_all
  obtain b s1 where b: "length (s_path s1) \<le> length (s_path s) + path_growth x"
    "replies (busy env) fd c (drive_packet x) s (w_db w) s1 (reply_bytes b)
       (\<lambda>y. busy_ok key tbl s1 y \<and> busy_step key (my_drive key (tbl (bz_db (w_db w))) s) x b (my_drive key (tbl (bz_db y)) s1))"
    using cmd_busy [OF Cons.prems(1) x, of fd c] unfolding busy_done_def by blast
  have st: "stream (w_sock w) = bytes_of_command (drive_packet x) @ concat (map (\<lambda>x. bytes_of_command (drive_packet x)) xs)"
    using Cons.prems(6) by simp
  obtain w1 where w1: "session_loop (busy env) fd s w = session_loop (busy env) fd s1 w1" "w_conn w1 = Some c" "open_sock (w_sock w1)"
    "stream (w_sock w1) = concat (map (\<lambda>x. bytes_of_command (drive_packet x)) xs)" "tx_out (w_sock w1) = tx_out (w_sock w) @ reply_bytes b"
    "busy_ok key tbl s1 (w_db w1)" "busy_step key (my_drive key (tbl (bz_db (w_db w))) s) x b (my_drive key (tbl (bz_db (w_db w1))) s1)"
    using session_replies [OF b(2) drive_packet_ok [OF x(1)] Cons.prems(4,5) st] by blast
  have xs: "list_all drive_cmd_ok xs" "length (s_path s1) + sum_list (map path_growth xs) + 1 \<le> 512"
    using Cons.prems(2,3) b(1) by simp_all
  obtain w' s' bs where w': "session_loop (busy env) fd s1 w1 = Some w'" "tx_out (w_sock w') = tx_out (w_sock w1) @ concat (map reply_bytes bs)"
    "busy_run key (my_drive key (tbl (bz_db (w_db w1))) s1) xs bs (my_drive key (tbl (bz_db (w_db w'))) s')"
    using Cons.IH [OF w1(6) xs w1(2-4)] by blast
  note run = busy_run.Cons [OF w1(7) w'(3)]
  show ?case
    by (intro exI [of _ w'] exI [of _ s'] exI [of _ "b # bs"]) (use w1(1,5) w'(1,2) run in simp)
qed

end

text \<open>C7: the drive among others: on a database that answers, and that between any two statements of the session
  does whatever it likes to the rows of other users, a logged-in session of directory commands behaves
  like the abstract drive that the user's own rows show: every answer and the rows at the end are those
  of one run of it. Only a new directory may be refused for want of ids.\<close>

theorem drive_among_others:
  assumes "sql_available env tbl key digest" "drive_ok key (tbl (bz_db (w_db w))) s"
    "\<forall>f\<in>set (bz_others (w_db w)). polite key tbl (s_user s) f" "list_all drive_cmd_ok cmds"
    "length (s_path s) + sum_list (map path_growth cmds) + 1 \<le> 512" "w_conn w = Some c" "open_sock (w_sock w)"
    "stream (w_sock w) = concat (map (\<lambda>x. bytes_of_command (drive_packet x)) cmds)"
  shows "\<exists>w' s' bs. session_loop (busy env) fd s w = Some w' \<and> tx_out (w_sock w') = tx_out (w_sock w) @ concat (map reply_bytes bs) \<and>
    busy_run key (my_drive key (tbl (bz_db (w_db w))) s) cmds bs (my_drive key (tbl (bz_db (w_db w'))) s')"
proof -
  have "busy_ok key tbl s (w_db w)" using assms(2,3) by (simp add: busy_ok_def)
  from sql_available.busy_session [OF assms(1) this assms(4-8)] show ?thesis .
qed

text \<open>Who changes only the rows of one other user is polite, as the deletion of an entry by another user.\<close>

lemma polite_others_kept:
  assumes "\<And>d. tables_ok key (tbl d) \<Longrightarrow> family (tbl d) \<Longrightarrow> tables_ok key (tbl (f d)) \<and> family (tbl (f d)) \<and> others_kept v (tbl d) (tbl (f d))" "v \<noteq> u"
  shows "polite key tbl u f"
proof -
  have "filter (\<lambda>r. p_user r = u) xs = filter (\<lambda>r. p_user r = u) (filter (\<lambda>r. p_user r \<noteq> v) xs)" for xs
    using assms(2) by (induction xs) auto
  then have "t_paths (rows_of u t') = t_paths (rows_of u t)" if "others_kept v t t'" for t t'
    using that unfolding others_kept_def rows_of_simps by metis
  with assms(1) show ?thesis unfolding polite_def by blast
qed

lemma polite_delete:
  assumes "v \<noteq> u" "0 < v" "c_range v" "0 < i" "c_range i"
  shows "polite key (\<lambda>t. t) u (\<lambda>t. snd (dao_delete_entry (ref_env key) (Some c) v i t))"
proof (rule polite_others_kept [OF _ assms(1)])
  fix t :: tables
  assume t: "tables_ok key t" "family t"
  obtain t' where t': "dao_delete_entry (ref_env key) (Some c) v i t = (0, t')"
    "t' = t\<lparr>t_paths := map (tombed (\<lambda>x. p_id x = i \<and> p_user x = v)) (t_paths t)\<rparr>"
    using ref_available.delete_entry_exact [OF assms(3,5,2,4), where c = c and d = t and key = key] by auto
  have "tables_ok key t'" unfolding t'(2) by (rule tables_ok_tomb [OF t(1)])
  moreover have "family t'" using t(2) unfolding t'(2) family_def by auto
  ultimately show "tables_ok key (snd (dao_delete_entry (ref_env key) (Some c) v i t)) \<and>
      family (snd (dao_delete_entry (ref_env key) (Some c) v i t)) \<and> others_kept v t (snd (dao_delete_entry (ref_env key) (Some c) v i t))"
    using t'(1) others_tomb [of v t i] t'(2) by simp
qed

theorem drive_among_others_witness:
  "\<exists>w' s' bs. session_loop (busy (ref_env id)) 5 \<lparr>s_path = ''/'', s_user = 1, s_dir = 5\<rparr>
      (world_of \<lparr>bz_db = two_users, bz_others = [\<lambda>t. snd (dao_delete_entry (ref_env id) (Some 8) 2 6 t)]\<rparr>
        (map (\<lambda>x. bytes_of_command (drive_packet x)) [Mkdir ''docs'', Ls])) = Some w' \<and>
    busy_run id (my_drive id two_users \<lparr>s_path = ''/'', s_user = 1, s_dir = 5\<rparr>) [Mkdir ''docs'', Ls] bs (my_drive id (bz_db (w_db w')) s')"
proof -
  let ?cs = "[Mkdir ''docs'', Ls]"
  let ?s = "\<lparr>s_path = ''/'', s_user = 1, s_dir = 5\<rparr>"
  let ?x = "\<lparr>bz_db = two_users, bz_others = [\<lambda>t. snd (dao_delete_entry (ref_env id) (Some 8) 2 6 t)]\<rparr>"
  let ?W = "world_of ?x (map (\<lambda>x. bytes_of_command (drive_packet x)) ?cs)"
  have t: "tables_ok id two_users"
    using ref_digest_hex by (simp add: tables_ok_def ids_ok_def two_users_def one_user_def no_tables_def new_path_def)
  have ok: "drive_ok id (bz_db (w_db ?W)) ?s"
    using t by (simp add: drive_ok_def family_def two_users_def one_user_def no_tables_def new_path_def)
  have polite: "\<forall>f\<in>set (bz_others (w_db ?W)). polite id (\<lambda>t. t) (s_user ?s) f"
    using polite_delete [of 2 1 6 id 8] by (simp add: c_range_def)
  have cs: "list_all drive_cmd_ok ?cs" "length (s_path ?s) + sum_list (map path_growth ?cs) + 1 \<le> 512"
    by (simp_all add: clean_text_def sq_def)
  have w: "w_conn ?W = Some 7" "open_sock (w_sock ?W)"
    "stream (w_sock ?W) = concat (map (\<lambda>x. bytes_of_command (drive_packet x)) ?cs)"
    by (simp_all del: cmd_code.simps drive_packet.simps)
  show ?thesis
    using drive_among_others [OF ref_available [of id] ok polite cs w, of 5] by auto
qed

end
