(* ===== verification/Shared_Laws.thy ===== *)
theory Shared_Laws
  imports Session_Laws
begin

text \<open>
  The data access layer while other workers use the database. Each worker has a connection of its own,
  and between two statements of one worker the database may run any statements of the others. The
  locale \<open>sql_shared\<close> is what one worker can rely on then: when its statement runs, the tables are well
  formed and no id has disappeared, and nothing else is said about what has happened to them since
  its last statement. In return every statement it sends is \<open>admissible\<close>, and an admissible statement
  keeps exactly this promise to the others. \<open>sql_service\<close>, the database of a single user, is the
  special case in which nobody interferes.
\<close>

section \<open>What a statement may do to the others\<close>

definition evolves :: "tables \<Rightarrow> tables \<Rightarrow> bool" where
  "evolves t t' \<longleftrightarrow>
     u_id ` set (t_users t) \<subseteq> u_id ` set (t_users t') \<and> p_id ` set (t_paths t) \<subseteq> p_id ` set (t_paths t')"

fun tame :: "stmt \<Rightarrow> bool" where
  "tame (Ins_xfer p f n s) \<longleftrightarrow> False"
| "tame (Ins_file h n) \<longleftrightarrow> n \<le> 2147483647 * BLOCK_SIZE"
| "tame st \<longleftrightarrow> True"

definition admissible :: "stmt \<Rightarrow> bool" where
  "admissible st \<longleftrightarrow> clean_stmt st \<and> stmt_fits st \<and> tame st"

lemma evolves_refl [simp, intro]: "evolves t t"
  by (simp add: evolves_def)

lemma evolves_trans [trans]: "evolves t t' \<Longrightarrow> evolves t' t'' \<Longrightarrow> evolves t t''"
  unfolding evolves_def by (metis subset_trans)

lemma session_ok_evolves: "session_ok t s \<Longrightarrow> evolves t t' \<Longrightarrow> session_ok t' s"
  by (auto simp: session_ok_def evolves_def)

lemma store_ok_tables: "store_ok key t \<Longrightarrow> tables_ok key t"
  by (simp add: store_ok_def)

lemma apply_evolves: "evolves t (apply_stmt st i t)"
proof (cases st)
  case (Set_tomb p u)
  then have "apply_stmt st i t = t\<lparr>t_paths := map (tombed (\<lambda>r. p_id r = p \<and> p_user r = u)) (t_paths t)\<rparr>"
    by (simp add: tombed_def [abs_def])
  then show ?thesis by (auto simp: evolves_def image_image)
qed (auto simp: evolves_def set_xfer_def new_path_def)

lemma apply_store:
  "tame st \<Longrightarrow> store_ok key t \<Longrightarrow> tables_ok key (apply_stmt st i t) \<Longrightarrow> store_ok key (apply_stmt st i t)"
  by (cases st) (auto simp: store_ok_def set_xfer_def)

text \<open>An admissible statement is no interference to anyone.\<close>

lemma admissible_step:
  assumes "stmt_ok key st t rep t'" "admissible st" "store_ok key t"
  shows "store_ok key t' \<and> evolves t t'"
proof -
  have "tables_ok key t'" using stmt_ok_tables [OF assms(1)] assms(2,3) by (simp add: admissible_def store_ok_def)
  moreover have "t' = t \<or> (\<exists>i. t' = apply_stmt st i t)"
    using assms(1) by (auto simp: stmt_ok_def split: my_reply.splits if_splits)
  ultimately show ?thesis using assms(2,3) apply_store apply_evolves by (auto simp: admissible_def)
qed

section \<open>The contract\<close>

locale sql_shared =
  fixes env :: "'d dao_env" and tbl :: "'d \<Rightarrow> tables" and key digest :: "string \<Rightarrow> string" and good :: "'d \<Rightarrow> bool"
  assumes good_store: "good d \<Longrightarrow> store_ok key (tbl d)"
    and shared_reply: "good d \<Longrightarrow> admissible st \<Longrightarrow> my_query env c (render st) d = (rep, d') \<Longrightarrow>
      good d' \<and> (\<exists>t. store_ok key t \<and> evolves (tbl d) t \<and> stmt_ok key st t rep (tbl d'))"
    and shared_clock: "good d \<Longrightarrow> wall_clock env d = (n, d') \<Longrightarrow> good d' \<and> tbl d' = tbl d \<and> 0 \<le> n"
    and shared_sha: "good d \<Longrightarrow> sha_calls env d = (s, d') \<Longrightarrow> good d' \<and> tbl d' = tbl d"
    and shared_sound: "sha_calls env d = (s, d') \<Longrightarrow> sha256_hash s x = (r, Some h, fs) \<Longrightarrow> h = digest x"
    and shared_hex: "length (digest x) = 64 \<and> list_all hex_digit (digest x)"

sublocale sql_service < alone: sql_shared env tbl key digest "\<lambda>d. store_ok key (tbl d)"
proof unfold_locales
  fix d st c rep d'
  assume "store_ok key (tbl d)" "admissible st" "my_query env c (render st) d = (rep, d')"
  moreover from this have "stmt_ok key st (tbl d) rep (tbl d')" using reply by (simp add: admissible_def)
  ultimately show "store_ok key (tbl d') \<and> (\<exists>t. store_ok key t \<and> evolves (tbl d) t \<and> stmt_ok key st t rep (tbl d'))"
    using admissible_step by blast
qed (use clock_tbl sha_tbl sha_sound digest_hex in \<open>force+\<close>)

text \<open>From one state of the database to a later one.\<close>

definition onward :: "('d \<Rightarrow> bool) \<Rightarrow> ('d \<Rightarrow> tables) \<Rightarrow> 'd \<Rightarrow> 'd \<Rightarrow> bool" where
  "onward good tbl d d' \<longleftrightarrow> good d' \<and> evolves (tbl d) (tbl d')"

lemma onward_refl [simp]: "onward good tbl d d \<longleftrightarrow> good d"
  by (simp add: onward_def)

lemma onward_trans [trans]: "onward good tbl d d' \<Longrightarrow> onward good tbl d' d'' \<Longrightarrow> onward good tbl d d''"
  unfolding onward_def using evolves_trans by blast

lemma onward_good: "onward good tbl d d' \<Longrightarrow> good d'"
  by (simp add: onward_def)

lemma onward_ids:
  "onward good tbl d d' \<Longrightarrow> i \<in> p_id ` set (t_paths (tbl d)) \<Longrightarrow> i \<in> p_id ` set (t_paths (tbl d'))"
  "onward good tbl d d' \<Longrightarrow> i \<in> u_id ` set (t_users (tbl d)) \<Longrightarrow> i \<in> u_id ` set (t_users (tbl d'))"
  unfolding onward_def evolves_def by blast+

lemma onward_session: "onward good tbl d d' \<Longrightarrow> session_ok (tbl d) s \<Longrightarrow> session_ok (tbl d') s"
  unfolding onward_def using session_ok_evolves by blast

section \<open>Statements\<close>

context sql_shared begin

lemma exec_shared:
  assumes "good d" "goes n st" "tame st" "dao_execute_query env c (snprintf_str n (render st)) d = (rep, d')"
  shows "onward good tbl d d' \<and> (\<exists>t. store_ok key t \<and> stmt_ok key st t rep (tbl d'))"
proof -
  have a: "admissible st" using assms(2,3) by (simp add: goes_def admissible_def)
  have "my_query env c (render st) d = (rep, d')"
    using assms(2,4) by (simp add: goes_def dao_execute_query_def snprintf_str_fits)
  from shared_reply [OF assms(1) a this] obtain t where
    t: "good d'" "store_ok key t" "evolves (tbl d) t" "stmt_ok key st t rep (tbl d')" by blast
  moreover have "evolves t (tbl d')" using admissible_step [OF t(4) a t(2)] by blast
  ultimately show ?thesis unfolding onward_def using evolves_trans by blast
qed

lemma tame_select: "is_select st \<Longrightarrow> tame st"
  by (cases st) simp_all

lemma fetch_first_shared:
  assumes "good d" "goes n st" "is_select st"
  shows "\<exists>f d'. fetch_first env c (snprintf_str n (render st)) d = (f, d') \<and> onward good tbl d d' \<and>
    (\<forall>row. f = Row row \<longrightarrow> row \<in> set (select_rows key st (tbl d')))"
proof -
  obtain rep d' where q: "dao_execute_query env c (snprintf_str n (render st)) d = (rep, d')" by fastforce
  obtain t where t: "onward good tbl d d'" "stmt_ok key st t rep (tbl d')"
    using exec_shared [OF assms(1,2) tame_select [OF assms(3)] q] by blast
  show ?thesis
  proof (cases rep)
    case Query_error
    with t q show ?thesis by (auto simp: fetch_first_def)
  next
    case (Query_ok rows i)
    show ?thesis
    proof (cases rows)
      case None
      with Query_ok t q show ?thesis by (auto simp: fetch_first_def)
    next
      case (Some rs)
      with Query_ok t(2) assms(3) have "set rs = set (select_rows key st (tbl d'))"
        by (auto simp: stmt_ok_def dest: mset_eq_setD)
      with Query_ok Some t(1) q show ?thesis by (cases rs) (auto simp: fetch_first_def)
    qed
  qed
qed

lemma fetch_id_shared:
  assumes "good d" "goes n st" "is_select st"
    "\<And>t row. store_ok key t \<Longrightarrow> row \<in> set (select_rows key st t) \<Longrightarrow> \<exists>i. row = id_cell i \<and> c_range i"
  shows "\<exists>r d'. fetch_id env c (snprintf_str n (render st)) d = Some (r, d') \<and> onward good tbl d d' \<and>
    (r = - 1 \<or> id_cell r \<in> set (select_rows key st (tbl d')))"
proof -
  obtain f d' where f: "fetch_first env c (snprintf_str n (render st)) d = (f, d')" "onward good tbl d d'"
      "\<And>row. f = Row row \<Longrightarrow> row \<in> set (select_rows key st (tbl d'))"
    using fetch_first_shared [OF assms(1-3)] by blast
  show ?thesis
  proof (cases f)
    case (Row row)
    then obtain i where i: "row = id_cell i" "c_range i" "id_cell i \<in> set (select_rows key st (tbl d'))"
      using f(3) assms(4) good_store [OF onward_good [OF f(2)]] by blast
    with Row f(1,2) show ?thesis by (simp add: fetch_id_def cell_def id_cell_def)
  qed (use f in \<open>simp_all add: fetch_id_def\<close>)
qed

lemma run_stmt_shared:
  assumes "good d" "goes n st" "\<not> is_select st" "tame st"
  shows "\<exists>r d'. run_stmt env c (snprintf_str n (render st)) f d = (r, d') \<and> onward good tbl d d' \<and>
    (r = - 1 \<or> (\<exists>i t. r = f i \<and> tbl d' = apply_stmt st i t \<and>
       (\<forall>is. used_ids st t = Some is \<longrightarrow> 0 < i \<and> i \<le> 2147483647)))"
proof -
  obtain rep d' where q: "dao_execute_query env c (snprintf_str n (render st)) d = (rep, d')" by fastforce
  obtain t where t: "onward good tbl d d'" "stmt_ok key st t rep (tbl d')"
    using exec_shared [OF assms(1,2,4) q] by blast
  from t q assms(3) show ?thesis
    by (cases rep) (force simp: run_stmt_def stmt_ok_def split: option.splits)+
qed

section \<open>The functions of the data access layer\<close>

lemma login_shared:
  assumes "good d" "clean_text u" "length u \<le> 64"
  shows "\<exists>r d'. dao_login_user env (Some c) (Some u) (Some pw) d = Some (r, d') \<and> onward good tbl d d' \<and>
    (r = - 1 \<or> r \<in> u_id ` set (t_users (tbl d')))"
proof -
  have g: "goes 512 (Sel_login u)"
    using assms by (intro goes_small) (simp_all add: clean_stmt_def)
  obtain f d1 where f: "fetch_first env c (snprintf_str 512 (render (Sel_login u))) d = (f, d1)" "onward good tbl d d1"
      "\<And>row. f = Row row \<Longrightarrow> row \<in> set (select_rows key (Sel_login u) (tbl d1))"
    using fetch_first_shared [OF assms(1) g, of c] by auto
  show ?thesis
  proof (cases f)
    case (Row row)
    then obtain x where x: "x \<in> set (t_users (tbl d1))"
      "row = [Some (int_to_dec (u_id x)), Some (u_hash x), Some (u_salt x)]"
      using f(3) by auto
    have i: "atoi (int_to_dec (u_id x)) = u_id x"
      using tables_ok_id_range(1) [OF store_ok_tables [OF good_store [OF onward_good [OF f(2)]]] x(1)] by simp
    obtain s d2 where s: "sha_calls env d1 = (s, d2)" by fastforce
    obtain r h fs where h: "sha256_hash s (snprintf_str 512 (pw @ u_salt x)) = (r, h, fs)" using prod_cases3 by blast
    have d2: "onward good tbl d d2" "tbl d2 = tbl d1"
      using shared_sha [OF onward_good [OF f(2)] s] f(2) by (simp_all add: onward_def)
    have "h \<noteq> None \<longleftrightarrow> r = 0" using sha256_hash_code h by (metis fst_conv snd_conv)
    with h x f(1) Row i s d2 show ?thesis
      by (cases h) (auto simp: dao_login_user_def render_folds cell_def verify_password_def Let_def)
  qed (use f in \<open>simp_all add: dao_login_user_def render_folds\<close>)
qed

lemma get_root_shared:
  assumes "good d" "c_range uid"
  shows "\<exists>r d'. dao_get_root_dir_id env (Some c) uid d = Some (r, d') \<and> onward good tbl d d' \<and>
    (r = - 1 \<or> r \<in> p_id ` set (t_paths (tbl d')))"
proof -
  have g: "goes 256 (Sel_root uid)"
    using assms by (intro goes_small) (simp_all add: clean_stmt_def)
  have "\<exists>r d'. fetch_id env c (snprintf_str 256 (render (Sel_root uid))) d = Some (r, d') \<and> onward good tbl d d' \<and>
    (r = - 1 \<or> id_cell r \<in> set (select_rows key (Sel_root uid) (tbl d')))"
    using tables_ok_id_range(2) [OF store_ok_tables] by (intro fetch_id_shared [OF assms(1) g]) auto
  moreover have "r \<in> p_id ` set (t_paths t)" if "id_cell r \<in> set (select_rows key (Sel_root uid) t)" for r t using that by auto
  moreover have "c_format fmt_root [Fd uid] = render (Sel_root uid)" by (rule render_folds)
  ultimately show ?thesis using assms(1) unfolding dao_get_root_dir_id_def by (cases "uid \<le> 0") (simp_all; blast)+
qed

lemma get_parent_shared:
  assumes "good d" "c_range i"
  shows "\<exists>r d'. dao_get_parent_id env (Some c) i d = (r, d') \<and> onward good tbl d d' \<and>
    (r = - 1 \<or> r \<in> p_id ` set (t_paths (tbl d')))"
proof -
  have g: "goes 256 (Sel_parent i)"
    using assms by (intro goes_small) (simp_all add: clean_stmt_def)
  obtain f d1 where f: "fetch_first env c (snprintf_str 256 (render (Sel_parent i))) d = (f, d1)" "onward good tbl d d1"
      "\<And>row. f = Row row \<Longrightarrow> row \<in> set (select_rows key (Sel_parent i) (tbl d1))"
    using fetch_first_shared [OF assms(1) g, of c] by auto
  show ?thesis
  proof (cases f)
    case (Row row)
    then obtain x where x: "x \<in> set (t_paths (tbl d1))" "row = [map_option int_to_dec (p_parent x)]" using f(3) by auto
    note ok = store_ok_tables [OF good_store [OF onward_good [OF f(2)]]]
    have "j \<in> p_id ` set (t_paths (tbl d1)) \<and> c_range j" if "p_parent x = Some j" for j
    proof -
      have "j \<in> p_id ` set (t_paths (tbl d1))" using ok x(1) that by (fastforce simp: tables_ok_def)
      then show ?thesis using tables_ok_id_range(2) [OF ok] by auto
    qed
    with Row x f(1,2) assms(1) show ?thesis
      by (cases "p_parent x") (auto simp: dao_get_parent_id_def render_folds cell_def)
  qed (use f assms(1) in \<open>simp_all add: dao_get_parent_id_def render_folds\<close>)
qed

lemma find_child_shared:
  assumes "good d" "c_range par" "clean_text n" "length n \<le> 255"
  shows "\<exists>r d'. dao_find_child_id env (Some c) par (Some n) is_dir d = Some (r, d') \<and> onward good tbl d d' \<and>
    (r = - 1 \<or> r \<in> p_id ` set (t_paths (tbl d')))"
proof -
  let ?st = "(if is_dir = - 1 then Find_any par n else if is_dir = 1 then Find_dir par n else Find_file par n)"
  have g: "goes 512 ?st"
    using assms by (intro goes_small) (simp_all add: clean_stmt_def)
  have fmt: "c_format (if is_dir = - 1 then fmt_find_any else if is_dir = 1 then fmt_find_dir else fmt_find_file)
      [Fd par, Fs n] = render ?st"
    by (simp add: render_folds)
  have "\<exists>r d'. fetch_id env c (snprintf_str 512 (render ?st)) d = Some (r, d') \<and> onward good tbl d d' \<and>
    (r = - 1 \<or> id_cell r \<in> set (select_rows key ?st (tbl d')))"
    using tables_ok_id_range(2) [OF store_ok_tables] by (intro fetch_id_shared [OF assms(1) g]) (auto split: if_splits)
  moreover have "r \<in> p_id ` set (t_paths t)" if "id_cell r \<in> set (select_rows key ?st t)" for r t
    using that by (auto split: if_splits)
  ultimately show ?thesis using assms(1) by (fastforce simp: dao_find_child_id_def fmt Let_def)
qed

lemma init_root_shared:
  assumes "good d" "c_range uid"
  shows "\<exists>r d'. dao_init_root_dir env (Some c) uid d = Some (r, d') \<and> onward good tbl d d' \<and>
    (r = - 1 \<or> r \<in> p_id ` set (t_paths (tbl d')))"
proof (cases "uid \<le> 0")
  case False
  obtain r1 d1 where r1: "dao_get_root_dir_id env (Some c) uid d = Some (r1, d1)" "onward good tbl d d1"
    "r1 = - 1 \<or> r1 \<in> p_id ` set (t_paths (tbl d1))"
    using get_root_shared [OF assms] by blast
  have g: "goes 512 (Ins_root uid)"
    using assms by (intro goes_small) (simp_all add: clean_stmt_def)
  obtain r2 d2 where r2: "run_stmt env c (snprintf_str 512 (render (Ins_root uid))) c_int d1 = (r2, d2)" "onward good tbl d1 d2"
    "r2 = - 1 \<or> (\<exists>i t. r2 = c_int i \<and> tbl d2 = apply_stmt (Ins_root uid) i t \<and> 0 < i \<and> i \<le> 2147483647)"
    using run_stmt_shared [OF onward_good [OF r1(2)] g, of c c_int] by auto
  have "r2 = - 1 \<or> r2 \<in> p_id ` set (t_paths (tbl d2))" using r2(3) by (auto simp: new_path_def)
  with r1 r2(1,2) False onward_trans [OF r1(2) r2(2)] show ?thesis
    by (cases "r1 > 0") (simp_all add: dao_init_root_dir_def render_folds)
qed (use assms in \<open>simp add: dao_init_root_dir_def\<close>)

lemma create_dir_shared:
  assumes "good d" "c_range uid" "c_range par" "clean_text n" "length n \<le> 200"
  shows "\<exists>r d'. dao_create_dir env (Some c) uid par (Some n) d = Some (r, d') \<and> onward good tbl d d'"
proof (cases "uid \<le> 0 \<or> par \<le> 0")
  case False
  obtain r1 d1 where r1: "dao_find_child_id env (Some c) par (Some n) 1 d = Some (r1, d1)" "onward good tbl d d1"
    using find_child_shared [OF assms(1,3,4)] assms(5) by fastforce
  let ?st = "Ins_dir uid par n (''/'' @ n)"
  have p: "snprintf_str 512 (''/'' @ n) = ''/'' @ n" using assms(5) by (simp add: snprintf_str_def)
  have g: "goes 512 ?st"
    using assms clean_text_prefix [of n 512] p by (intro goesI) (simp_all add: clean_stmt_def lits_Ins_dir)
  obtain r2 d2 where r2: "run_stmt env c (snprintf_str 512 (render ?st)) c_int d1 = (r2, d2)" "onward good tbl d1 d2"
    using run_stmt_shared [OF onward_good [OF r1(2)] g, of c c_int] by auto
  from r1 r2 False p onward_trans [OF r1(2) r2(2)] show ?thesis
    by (cases "r1 > 0") (auto simp: dao_create_dir_def render_folds Let_def)
qed (use assms in \<open>auto simp: dao_create_dir_def\<close>)

lemma delete_shared:
  assumes "good d" "c_range uid" "c_range pid"
  shows "\<exists>r d'. dao_delete_entry env (Some c) uid pid d = (r, d') \<and> onward good tbl d d'"
proof (cases "uid \<le> 0 \<or> pid \<le> 0")
  case False
  have g: "goes 512 (Set_tomb pid uid)"
    using assms by (intro goes_small) (simp_all add: clean_stmt_def)
  from run_stmt_shared [OF assms(1) g, of c "\<lambda>i. 0"] False show ?thesis
    by (auto simp: dao_delete_entry_def render_folds)
qed (use assms in \<open>auto simp: dao_delete_entry_def\<close>)

lemma file_info_shared:
  assumes "good d" "c_range uid" "c_range pid"
  shows "\<exists>r info d'. dao_get_file_info env (Some c) uid pid d = Some (r, info, d') \<and> onward good tbl d d' \<and>
    (info = None \<or> (\<exists>sha sz. info = Some (sha, sz) \<and> length sha \<le> 64 \<and> unat sz \<le> 2147483647 * BLOCK_SIZE))"
proof (cases "uid \<le> 0 \<or> pid \<le> 0")
  case False
  have g: "goes 512 (File_info pid uid)"
    using assms by (intro goes_small) (simp_all add: clean_stmt_def)
  obtain f d1 where f: "fetch_first env c (snprintf_str 512 (render (File_info pid uid))) d = (f, d1)" "onward good tbl d d1"
      "\<And>row. f = Row row \<Longrightarrow> row \<in> set (select_rows key (File_info pid uid) (tbl d1))"
    using fetch_first_shared [OF assms(1) g, of c] by auto
  show ?thesis
  proof (cases f)
    case (Row row)
    then obtain x where x: "x \<in> set (t_files (tbl d1))" "row = [Some (f_sha x), Some (nat_to_dec (f_size x))]"
      using f(3) by auto
    have b: "length (f_sha x) \<le> 64" "f_size x < 2 ^ 63" "f_size x \<le> 2147483647 * BLOCK_SIZE"
      using good_store [OF onward_good [OF f(2)]] x(1) by (auto simp: store_ok_def tables_ok_def)
    then have "unat (strtoul (nat_to_dec (f_size x))) = f_size x" by (intro strtoul_nat) simp
    with b x Row f(1,2) False show ?thesis
      by (auto simp: dao_get_file_info_def render_folds cell_def)
  qed (use f False in \<open>simp_all add: dao_get_file_info_def render_folds\<close>)
qed (use assms in \<open>auto simp: dao_get_file_info_def\<close>)

lemma list_dir_shared:
  assumes "good d" "c_range uid" "c_range dir" "5 < len"
  shows "\<exists>r res d'. dao_list_dir env (Some c) uid dir len d = Some (r, res, d') \<and> onward good tbl d d'"
proof (cases "uid \<le> 0 \<or> dir \<le> 0")
  case False
  have g: "goes 512 (List_dir uid dir)"
    using assms by (intro goes_small) (simp_all add: clean_stmt_def)
  obtain rep d1 where q: "dao_execute_query env c (snprintf_str 512 (render (List_dir uid dir))) d = (rep, d1)" by fastforce
  then obtain t where t: "onward good tbl d d1" "stmt_ok key (List_dir uid dir) t rep (tbl d1)"
    using exec_shared [OF assms(1) g _ q] by auto
  show ?thesis
  proof (cases "rep = Query_error \<or> (\<exists>i. rep = Query_ok None i)")
    case True
    with q t(1) False assms(4) show ?thesis by (auto simp: dao_list_dir_def render_folds)
  next
    case no: False
    then obtain rows i where rows: "rep = Query_ok (Some rows) i" by (metis my_reply.exhaust not_None_eq)
    with t(2) have "mset rows = mset (map (\<lambda>n. [Some n]) (child_names t uid dir))"
      by (auto simp: stmt_ok_def list_rows simp del: select_rows.simps)
    then obtain ns where ns: "rows = map (\<lambda>n. [Some n]) ns" using mset_map_eq by blast
    obtain res u where lp: "list_entries (map (\<lambda>n. [Some n]) ns) len ''. .. '' 5 = Some (res, u)"
      using list_entries_safe [of 5 len "''. .. ''" ns] assms(4) by auto
    have "\<exists>r res. dao_list_dir env (Some c) uid dir len d = Some (r, res, d1)"
      using q rows ns lp [unfolded eval_nat_numeral] False assms(4)
      by (cases ns) (simp_all add: dao_list_dir_def render_folds eval_nat_numeral)
    with t(1) show ?thesis by blast
  qed
qed (use assms in \<open>auto simp: dao_list_dir_def\<close>)

text \<open>No transfer is ever recorded, so none is found.\<close>

lemma get_sequence_shared:
  assumes "good d" "c_range pid"
  shows "\<exists>d'. dao_get_transfer_sequence env (Some c) pid d = Some (- 1, None, d') \<and> onward good tbl d d'"
proof (cases "pid \<le> 0")
  case False
  have g: "goes 512 (Sel_seq pid)"
    using assms by (intro goes_small) (simp_all add: clean_stmt_def)
  obtain f d1 where f: "fetch_first env c (snprintf_str 512 (render (Sel_seq pid))) d = (f, d1)" "onward good tbl d d1"
      "\<And>row. f = Row row \<Longrightarrow> row \<in> set (select_rows key (Sel_seq pid) (tbl d1))"
    using fetch_first_shared [OF assms(1) g, of c] by auto
  have "t_xfers (tbl d1) = []" using good_store [OF onward_good [OF f(2)]] by (simp add: store_ok_def)
  then have "f \<noteq> Row row" for row using f(3) by auto
  with f(1,2) False show ?thesis by (cases f) (auto simp: dao_get_transfer_sequence_def render_folds)
qed (use assms in \<open>auto simp: dao_get_transfer_sequence_def\<close>)

lemma update_sequence_shared:
  assumes "good d" "c_range pid" "c_range n"
  shows "\<exists>r d'. dao_update_transfer_sequence env (Some c) pid n d = (r, d') \<and> onward good tbl d d'"
proof (cases "pid \<le> 0 \<or> n < 0")
  case False
  have g: "goes 512 (Upd_seq n pid)"
    using assms by (intro goes_small) (simp_all add: clean_stmt_def)
  from run_stmt_shared [OF assms(1) g, of c "\<lambda>i. 0"] False show ?thesis
    by (auto simp: dao_update_transfer_sequence_def render_folds)
qed (use assms in \<open>auto simp: dao_update_transfer_sequence_def\<close>)

end

end
