(* ===== verification/Shared_Session.thy ===== *)
theory Shared_Session
  imports Shared_Laws Session_Props
begin

text \<open>
  Sessions while other workers use the database. The handlers are followed once more, now inside
  \<open>sql_shared\<close>, where a table may have changed with every statement. The database of several workers
  is \<open>crowd\<close>: before each statement of the session it runs statements of the others.
\<close>

section \<open>Registration\<close>

context sql_shared begin

lemma generate_shared:
  assumes "good d"
  shows "\<exists>salt h d'. generate_password_hash env pw d = (salt, h, d') \<and> onward good tbl d d' \<and> clean_text salt \<and>
    length salt \<le> 11 \<and> clean_text h \<and> length h \<le> 64"
proof -
  obtain n d1 where n: "wall_clock env d = (n, d1)" by fastforce
  note d1 = shared_clock [OF assms n]
  obtain s d2 where s: "sha_calls env d1 = (s, d2)" by fastforce
  note d2 = shared_sha [OF conjunct1 [OF d1] s]
  let ?salt = "int_to_dec (n smod 1000000)"
  obtain r h fs where h: "sha256_hash s (snprintf_str 512 (pw @ ?salt)) = (r, h, fs)" using prod_cases3 by blast
  have "c_range (n smod 1000000)" using d1 time_mod_range [of n] by (simp add: c_range_def)
  then have l: "length ?salt \<le> 11" by (rule length_int_to_dec)
  have on: "onward good tbl d d2" using d1 d2 by (simp add: onward_def)
  have c: "clean_text (digest x) \<and> length (digest x) = 64" for x using shared_hex hex_clean by blast
  show ?thesis
  proof (cases h)
    case None
    with n s h on l salt_clean show ?thesis by (simp add: generate_password_hash_def Let_def clean_text_def)
  next
    case (Some x)
    with shared_sound [OF s] h have "x = digest (snprintf_str 512 (pw @ ?salt))" by blast
    with Some n s h on l c salt_clean show ?thesis by (simp add: generate_password_hash_def Let_def)
  qed
qed

lemma register_shared:
  assumes "good d" "clean_text u" "length u \<le> 64"
  shows "\<exists>r d'. dao_register_user env (Some c) (Some u) (Some pw) d = Some (r, d') \<and> onward good tbl d d' \<and>
    (r \<le> 0 \<or> r \<in> u_id ` set (t_users (tbl d')))"
proof -
  have g: "goes 512 (Sel_user u)"
    using assms by (intro goes_small) (simp_all add: clean_stmt_def)
  obtain rep d1 where q: "dao_execute_query env c (snprintf_str 512 (render (Sel_user u))) d = (rep, d1)" by fastforce
  have d1: "onward good tbl d d1" using exec_shared [OF assms(1) g _ q] by simp
  obtain salt h d2 where gp: "generate_password_hash env pw d1 = (salt, h, d2)" "onward good tbl d1 d2" "clean_text salt"
    "length salt \<le> 11" "clean_text h" "length h \<le> 64"
    using generate_shared [OF onward_good [OF d1]] by blast
  let ?st = "Ins_user u h salt"
  have g2: "goes 512 ?st"
    using assms gp by (intro goes_small) (simp_all add: clean_stmt_def)
  obtain rep2 d3 where q2: "dao_execute_query env c (snprintf_str 512 (render ?st)) d2 = (rep2, d3)" by fastforce
  obtain t where t: "onward good tbl d2 d3" "stmt_ok key ?st t rep2 (tbl d3)"
    using exec_shared [OF onward_good [OF gp(2)] g2 _ q2] by auto
  have d3: "onward good tbl d d3" using onward_trans [OF onward_trans [OF d1 gp(2)] t(1)] .
  show ?thesis
  proof (cases "\<exists>i. rep = Query_ok (Some []) i")
    case False
    then have "dao_register_user env (Some c) (Some u) (Some pw) d = Some (- 1, d1) \<or>
        dao_register_user env (Some c) (Some u) (Some pw) d = Some (0, d1)"
      using q by (auto simp: dao_register_user_def render_folds split: my_reply.splits option.splits)
    with d1 show ?thesis by auto
  next
    case True
    show ?thesis
    proof (cases rep2)
      case Query_error
      with True q gp(1) q2 d3 show ?thesis by (auto simp: dao_register_user_def render_folds)
    next
      case (Query_ok rs i)
      with t(2) have i: "0 < i" "i \<le> 2147483647" "i \<in> u_id ` set (t_users (tbl d3))"
        by (auto simp: stmt_ok_def)
      then obtain r d4 where r: "dao_init_root_dir env (Some c) i d3 = Some (r, d4)" "onward good tbl d3 d4"
        using init_root_shared [OF onward_good [OF d3], of i c] by (auto simp: c_range_def)
      have "dao_register_user env (Some c) (Some u) (Some pw) d = Some (i, d4)"
        using True q gp(1) q2 Query_ok r(1) i by (auto simp: dao_register_user_def render_folds Let_def)
      with onward_trans [OF d3 r(2)] onward_ids(2) [OF r(2) i(3)] show ?thesis by blast
    qed
  qed
qed

section \<open>The handlers\<close>

abbreviation later :: "'d world \<Rightarrow> 'd world \<Rightarrow> bool" where
  "later w w' \<equiv> onward good tbl (w_db w) (w_db w')"

lemma good_range: "good d \<Longrightarrow> session_ok (tbl d) s \<Longrightarrow> c_range (s_user s) \<and> c_range (s_dir s)"
  using session_ok_range store_ok_tables [OF good_store] by blast

lemma good_path_range: "good d \<Longrightarrow> i = - 1 \<or> i \<in> p_id ` set (t_paths (tbl d)) \<Longrightarrow> c_range i"
  using tables_ok_id_range(2) [OF store_ok_tables [OF good_store]] by (auto simp: c_range_def)

lemma handle_login_shared:
  assumes "good (w_db w)" "clean_text data"
  shows "\<exists>u' w'. handle_login env fd (Some data) u w = Some (u', w') \<and> later w w' \<and>
    (u' = u \<or> 0 < u' \<and> u' \<in> u_id ` set (t_users (tbl (w_db w'))))"
proof (cases "w_conn w")
  case (Some c)
  show ?thesis
  proof (cases "parse_auth_data (Some data)")
    case (Pair r up)
    show ?thesis
    proof (cases up)
      case (Some q)
      then obtain a b where ab: "parse_auth_data (Some data) = (r, Some (a, b))" using Pair by (cases q) auto
      obtain i d' where l: "dao_login_user env (Some c) (Some a) (Some b) (w_db w) = Some (i, d')"
        "onward good tbl (w_db w) d'" "i = - 1 \<or> i \<in> u_id ` set (t_users (tbl d'))"
        using login_shared [OF assms(1), of a c b] parse_auth_clean [OF ab assms(2)] by blast
      with assms(1) \<open>w_conn w = Some c\<close> ab show ?thesis
        by (auto simp: handle_login_def get_thread_db_conn_def say_fd_def db_call_Some [where f = "dao_login_user env (Some c) (Some a) (Some b)" and w = w, OF l(1)])
    qed (use Pair assms(1) \<open>w_conn w = Some c\<close> in \<open>auto simp: handle_login_def get_thread_db_conn_def say_fd_def\<close>)
  qed
qed (use assms(1) in \<open>auto simp: handle_login_def get_thread_db_conn_def say_fd_def\<close>)

lemma handle_register_shared:
  assumes "good (w_db w)" "clean_text data"
  shows "\<exists>u' w'. handle_register env fd (Some data) u w = Some (u', w') \<and> later w w' \<and>
    (u' = u \<or> 0 < u' \<and> u' \<in> u_id ` set (t_users (tbl (w_db w'))))"
proof (cases "w_conn w")
  case (Some c)
  show ?thesis
  proof (cases "parse_auth_data (Some data)")
    case (Pair r up)
    show ?thesis
    proof (cases up)
      case (Some q)
      then obtain a b where ab: "parse_auth_data (Some data) = (r, Some (a, b))" using Pair by (cases q) auto
      obtain i d' where l: "dao_register_user env (Some c) (Some a) (Some b) (w_db w) = Some (i, d')"
        "onward good tbl (w_db w) d'" "i \<le> 0 \<or> i \<in> u_id ` set (t_users (tbl d'))"
        using register_shared [OF assms(1), of a c b] parse_auth_clean [OF ab assms(2)] by blast
      with assms(1) \<open>w_conn w = Some c\<close> ab show ?thesis
        by (auto simp: handle_register_def get_thread_db_conn_def say_fd_def
          db_call_Some [where f = "dao_register_user env (Some c) (Some a) (Some b)" and w = w, OF l(1)])
    qed (use Pair \<open>w_conn w = Some c\<close> assms(1) in \<open>auto simp: handle_register_def get_thread_db_conn_def say_fd_def\<close>)
  qed
qed (use assms(1) in \<open>auto simp: handle_register_def get_thread_db_conn_def say_fd_def\<close>)

lemma enter_root_shared:
  assumes "good (w_db w)" "c_range uid" "dir = - 1 \<or> dir \<in> p_id ` set (t_paths (tbl (w_db w)))"
  shows "\<exists>dir' w'. enter_root env uid dir w = Some (dir', w') \<and> later w w' \<and>
    (dir' = - 1 \<or> dir' \<in> p_id ` set (t_paths (tbl (w_db w'))))"
proof (cases "w_conn w")
  case (Some c)
  obtain r d1 where r: "dao_get_root_dir_id env (Some c) uid (w_db w) = Some (r, d1)" "onward good tbl (w_db w) d1"
    "r = - 1 \<or> r \<in> p_id ` set (t_paths (tbl d1))"
    using get_root_shared [OF assms(1,2), of c] by blast
  obtain r2 d2 where r2: "dao_init_root_dir env (Some c) uid d1 = Some (r2, d2)" "onward good tbl d1 d2"
    "r2 = - 1 \<or> r2 \<in> p_id ` set (t_paths (tbl d2))"
    using init_root_shared [OF onward_good [OF r(2)] assms(2), of c] by blast
  with Some r onward_trans [OF r(2) r2(2)] show ?thesis
    by (cases "r \<le> 0") (simp_all add: enter_root_def get_thread_db_conn_def db_call_Some)
qed (use assms in \<open>auto simp: enter_root_def get_thread_db_conn_def\<close>)

text \<open>A session that has just learned its user enters that user's root.\<close>

lemma enter_session_shared:
  assumes "good (w_db w)" "session_ok (tbl (w_db w)) s" "u' = s_user s \<or> u' \<in> u_id ` set (t_users (tbl (w_db w)))"
  shows "\<exists>dir' w'. enter_root env u' (s_dir s) w = Some (dir', w') \<and> later w w' \<and>
    session_ok (tbl (w_db w')) (s\<lparr>s_user := u', s_dir := dir'\<rparr>)"
    "session_ok (tbl (w_db w)) (s\<lparr>s_user := u'\<rparr>)"
proof -
  show s1: "session_ok (tbl (w_db w)) (s\<lparr>s_user := u'\<rparr>)" using assms(2,3) by (auto simp: session_ok_def)
  have dir: "s_dir s = - 1 \<or> s_dir s \<in> p_id ` set (t_paths (tbl (w_db w)))" using assms(2) by (simp add: session_ok_def)
  have "c_range u'" using good_range [OF assms(1) s1] by simp
  then obtain dir' w' where e: "enter_root env u' (s_dir s) w = Some (dir', w')" "later w w'"
    "dir' = - 1 \<or> dir' \<in> p_id ` set (t_paths (tbl (w_db w')))"
    using enter_root_shared [OF assms(1) _ dir] by blast
  have "session_ok (tbl (w_db w')) (s\<lparr>s_user := u', s_dir := dir'\<rparr>)"
    using onward_session [OF e(2) s1] e(3) by (simp add: session_ok_def)
  with e(1,2) show "\<exists>dir' w'. enter_root env u' (s_dir s) w = Some (dir', w') \<and> later w w' \<and>
    session_ok (tbl (w_db w')) (s\<lparr>s_user := u', s_dir := dir'\<rparr>)" by blast
qed

lemma serve_login_shared:
  assumes "good (w_db w)" "session_ok (tbl (w_db w)) s" "clean_text data"
  shows "\<exists>s' w'. serve_login env fd data s w = Some (s', w') \<and> later w w' \<and> session_ok (tbl (w_db w')) s'"
proof -
  obtain u' w1 where l: "handle_login env fd (Some data) (s_user s) w = Some (u', w1)" "later w w1"
    "u' = s_user s \<or> u' \<in> u_id ` set (t_users (tbl (w_db w1)))"
    using handle_login_shared [OF assms(1,3), of fd "s_user s"] by blast
  note enter = enter_session_shared [OF onward_good [OF l(2)] onward_session [OF l(2) assms(2)] l(3)]
  then obtain dir' w2 where e: "enter_root env u' (s_dir s) w1 = Some (dir', w2)" "later w1 w2"
    "session_ok (tbl (w_db w2)) (s\<lparr>s_user := u', s_dir := dir'\<rparr>)" by blast
  show ?thesis
  proof (cases "u' > 0 \<and> s_dir s = - 1")
    case True
    with l(1) e onward_trans [OF l(2) e(2)] show ?thesis by (simp add: serve_login_def Let_def)
  next
    case False
    then have "serve_login env fd data s w = Some (s\<lparr>s_user := u'\<rparr>, w1)" using l(1) by (auto simp: serve_login_def Let_def)
    with l(2) enter(2) show ?thesis by blast
  qed
qed

lemma serve_register_shared:
  assumes "good (w_db w)" "session_ok (tbl (w_db w)) s" "clean_text data"
  shows "\<exists>s' w'. serve_register env fd data s w = Some (s', w') \<and> later w w' \<and> session_ok (tbl (w_db w')) s'"
proof -
  obtain u' w1 where l: "handle_register env fd (Some data) (s_user s) w = Some (u', w1)" "later w w1"
    "u' = s_user s \<or> u' \<in> u_id ` set (t_users (tbl (w_db w1)))"
    using handle_register_shared [OF assms(1,3), of fd "s_user s"] by blast
  note enter = enter_session_shared [OF onward_good [OF l(2)] onward_session [OF l(2) assms(2)] l(3)]
  then obtain dir' w2 where e: "enter_root env u' (s_dir s) w1 = Some (dir', w2)" "later w1 w2"
    "session_ok (tbl (w_db w2)) (s\<lparr>s_user := u', s_dir := dir'\<rparr>)" by blast
  show ?thesis
  proof (cases "u' > 0")
    case True
    with l(1) e onward_trans [OF l(2) e(2)] show ?thesis by (simp add: serve_register_def Let_def)
  next
    case False
    then have "serve_register env fd data s w = Some (s\<lparr>s_user := u'\<rparr>, w1)" using l(1) by (auto simp: serve_register_def Let_def)
    with l(2) enter(2) show ?thesis by blast
  qed
qed

text \<open>\<open>cd\<close>.\<close>

lemma handle_cd_shared:
  assumes "good (w_db w)" "session_ok (tbl (w_db w)) s" "clean_text n" "length n \<le> 255"
  shows "\<exists>s' w'. handle_cd env s (Some n) w = Some (s', w') \<and> later w w' \<and> session_ok (tbl (w_db w')) s'"
proof -
  note range = good_range [OF assms(1,2)]
  show ?thesis
  proof (cases "w_conn w")
    case (Some c)
    let ?d = "w_db w"
    obtain pr d1 where p: "dao_get_parent_id env (Some c) (s_dir s) ?d = (pr, d1)" "onward good tbl ?d d1"
      "pr = - 1 \<or> pr \<in> p_id ` set (t_paths (tbl d1))"
      using get_parent_shared [OF assms(1), of "s_dir s" c] range by blast
    note s1 = onward_session [OF p(2) assms(2)]
    have up: "pr \<noteq> - 1 \<Longrightarrow> session_ok (tbl d1) (s\<lparr>s_dir := pr, s_path := up_path (s_path s)\<rparr>)"
      using s1 p(3) up_path_ok [of "s_path s"] by (simp add: session_ok_def)
    obtain rr d2 where r: "dao_get_root_dir_id env (Some c) (s_user s) ?d = Some (rr, d2)" "onward good tbl ?d d2"
      "rr = - 1 \<or> rr \<in> p_id ` set (t_paths (tbl d2))"
      using get_root_shared [OF assms(1), of "s_user s" c] range by blast
    note s2 = onward_session [OF r(2) assms(2)]
    have root: "session_ok (tbl d2) (s\<lparr>s_dir := rr, s_path := ''/''\<rparr>)" using s2 r(3) by (simp add: session_ok_def)
    obtain cr d3 where ch: "dao_find_child_id env (Some c) (s_dir s) (Some n) 1 ?d = Some (cr, d3)" "onward good tbl ?d d3"
      "cr = - 1 \<or> cr \<in> p_id ` set (t_paths (tbl d3))"
      using find_child_shared [OF assms(1) _ assms(3,4), of "s_dir s" c 1] range by blast
    note s3 = onward_session [OF ch(2) assms(2)]
    show ?thesis
    proof (cases "n = [] \<or> n = ''.'' \<or> n = ''..'' \<or> n = ''/''")
      case True
      with Some p(1,2) r(1,2) up root assms(1,2) s1 s2 show ?thesis
        by (auto simp: handle_cd_def get_thread_db_conn_def db_run_eq db_call_Some)
    next
      case False
      show ?thesis
      proof (cases "cr \<le> 0 \<or> length (s_path s) + length n + 2 > 512")
        case True
        have "session_ok (tbl d3) (s\<lparr>s_dir := cr\<rparr>)" using s3 ch(3) by (auto simp: session_ok_def)
        with True False Some ch(1,2) s3 show ?thesis
          by (auto simp: handle_cd_def get_thread_db_conn_def db_call_Some Let_def)
      next
        case fits: False
        then obtain row where row: "row \<in> set (t_paths (tbl d3))" "p_id row = cr" using ch(3) by auto
        have le: "length (s_path s) + length n + 2 \<le> 512" using fits by simp
        obtain p1 p2 where
          "(if s_path s \<noteq> ''/'' then cat_path (s_path s) ''/'' else Some (s_path s)) = Some p1"
          "cat_path p1 n = Some p2" "session_ok (tbl d3) (s\<lparr>s_dir := cr, s_path := p2\<rparr>)"
          using cd_child_ok [OF s3 row le] by blast
        with fits False Some ch(1,2) show ?thesis
          by (auto simp: handle_cd_def get_thread_db_conn_def db_call_Some Let_def)
      qed
    qed
  qed (use assms(1,2) in \<open>auto simp: handle_cd_def get_thread_db_conn_def\<close>)
qed

lemma handle_ls_shared:
  assumes "good (w_db w)" "c_range (s_user s)" "c_range (s_dir s)"
  shows "\<exists>w'. handle_ls env s w = Some w' \<and> later w w'"
proof (cases "w_conn w")
  case (Some c)
  obtain r res d' where "dao_list_dir env (Some c) (s_user s) (s_dir s) 4096 (w_db w) = Some (r, res, d')" "onward good tbl (w_db w) d'"
    using list_dir_shared [OF assms, of 4096 c] by auto
  with Some show ?thesis by (auto simp: handle_ls_def get_thread_db_conn_def db_call_def)
qed (simp add: handle_ls_def get_thread_db_conn_def assms(1))

lemma handle_rm_shared:
  assumes "good (w_db w)" "c_range (s_user s)" "c_range (s_dir s)" "clean_text n" "length n \<le> 255"
  shows "\<exists>w'. handle_rm env s (Some n) w = Some w' \<and> later w w'"
proof (cases "w_conn w")
  case (Some c)
  obtain r d1 where f: "dao_find_child_id env (Some c) (s_dir s) (Some n) (- 1) (w_db w) = Some (r, d1)" "onward good tbl (w_db w) d1"
    "r = - 1 \<or> r \<in> p_id ` set (t_paths (tbl d1))"
    using find_child_shared [OF assms(1,3-5), of c "- 1"] by blast
  note r = good_path_range [OF onward_good [OF f(2)] f(3)]
  obtain r2 d2 where x: "dao_delete_entry env (Some c) (s_user s) r d1 = (r2, d2)" "onward good tbl d1 d2"
    using delete_shared [OF onward_good [OF f(2)] assms(2) r, of c] by blast
  from Some f(1,2) x assms(1) onward_trans [OF f(2) x(2)] show ?thesis
    by (auto simp: handle_rm_def get_thread_db_conn_def db_call_Some db_run_eq)
qed (use assms(1) in \<open>auto simp: handle_rm_def get_thread_db_conn_def\<close>)

lemma handle_mkdir_shared:
  assumes "good (w_db w)" "c_range (s_user s)" "c_range (s_dir s)" "clean_text n" "length n \<le> 200"
  shows "\<exists>w'. handle_mkdir env s (Some n) w = Some w' \<and> later w w'"
proof (cases "w_conn w")
  case (Some c)
  obtain r d1 where "dao_create_dir env (Some c) (s_user s) (s_dir s) (Some n) (w_db w) = Some (r, d1)" "onward good tbl (w_db w) d1"
    using create_dir_shared [OF assms, of c] by blast
  with Some assms(1) show ?thesis by (auto simp: handle_mkdir_def get_thread_db_conn_def db_call_Some)
qed (use assms(1) in \<open>auto simp: handle_mkdir_def get_thread_db_conn_def\<close>)

text \<open>Downloads.\<close>

lemma sequence_shared:
  assumes "good (w_db w)" "c_range pid"
  shows "\<exists>w'. get_sequence env (Some c) pid w = Some ((- 1, None), w') \<and> (\<exists>d. w' = w\<lparr>w_db := d\<rparr>) \<and> later w w'"
  using get_sequence_shared [OF assms, of c] by (auto simp: get_sequence_def db_call_def)

lemma gets_loop_shared:
  assumes "good (w_db w)" "c_range pid" "length sha \<le> 64" "unat sz \<le> 2147483647 * BLOCK_SIZE"
    "n = calculate_total_blocks sz" "0 \<le> i" "i \<le> n"
  shows "\<exists>w'. gets_loop env c pid fd sha sz n i w = Some w' \<and> later w w'"
  using assms(1,6,7)
proof (induction "nat (n - i)" arbitrary: i w)
  case 0
  then show ?case by (simp add: gets_loop.simps)
next
  case (Suc k)
  then have lt: "i < n" by simp
  have n: "n = int (block_count (unat sz))" "n \<le> 2147483647"
    using total_blocks_exact [OF assms(4)] block_count_le [OF assms(4)] assms(5) by simp_all
  with lt Suc(4) have pos: "0 < unat sz" by (cases "unat sz = 0") auto
  let ?bs = "if i = n - 1 then last_block_size sz (i * int BLOCK_SIZE) else int BLOCK_SIZE"
  have bs: "0 \<le> ?bs" "?bs \<le> int MAX_BLOCK_DATA"
    using last_block_range [OF pos assms(4)] n(1) by (simp_all add: BLOCK_SIZE_def MAX_BLOCK_DATA_def)
  obtain r w1 where snd: "send_block fd i (i * int BLOCK_SIZE) ?bs sha w = Some (r, w1)" "w_db w1 = w_db w"
    using send_block_safe [OF assms(3) bs] by blast
  have g1: "good (w_db w1)" using Suc(3) snd(2) by simp
  have "c_range (i + 1)" using lt Suc(4) n(2) by (simp add: c_range_def)
  then obtain q d2 where d2: "dao_update_transfer_sequence env (Some c) pid (i + 1) (w_db w1) = (q, d2)" "onward good tbl (w_db w) d2"
    using update_sequence_shared [OF g1 assms(2), of "i + 1" c] snd(2) by auto
  show ?case
  proof (cases "r = 0")
    case False
    with lt snd Suc(3) show ?thesis by (simp add: gets_loop.simps [of env c pid fd sha sz n i w] Let_def)
  next
    case True
    with lt snd d2(1) have step: "gets_loop env c pid fd sha sz n i w = gets_loop env c pid fd sha sz n (i + 1) (w1\<lparr>w_db := d2\<rparr>)"
      by (simp add: gets_loop.simps [of env c pid fd sha sz n i w] Let_def db_run_eq)
    have k: "k = nat (n - (i + 1))" using Suc(2) by simp
    obtain w' where "gets_loop env c pid fd sha sz n (i + 1) (w1\<lparr>w_db := d2\<rparr>) = Some w'" "onward good tbl d2 (w_db w')"
      using Suc(1) [of "i + 1" "w1\<lparr>w_db := d2\<rparr>"] k Suc(4) lt onward_good [OF d2(2)] by fastforce
    with step onward_trans [OF d2(2)] show ?thesis by auto
  qed
qed

lemma gets_send_shared:
  assumes "good (w_db w)" "c_range pid" "length sha \<le> 64" "unat sz \<le> 2147483647 * BLOCK_SIZE"
  shows "\<exists>w'. gets_send env c pid arg fd sha sz w = Some w' \<and> later w w'"
proof -
  let ?n = "calculate_total_blocks sz"
  have n: "0 \<le> ?n" using total_blocks_exact [OF assms(4)] by simp
  have cr: "snd (db_run (dao_create_transfer_record env (Some c) pid 0 ?n (Some ''downloading'')) w) = w"
    by (simp add: db_run_def dao_create_transfer_record_def)
  obtain w2 where w2: "get_sequence env (Some c) pid w = Some ((- 1, None), w2)" "later w w2"
    using sequence_shared [OF assms(1,2), of c] by auto
  let ?p = "(init_file_packet (cmd_code CMD_TYPE_GETS) arg sz 0)
     \<lparr>fp_hash := sha @ replicate (HASH_LEN - length sha) NUL, fp_offset := word_of_int ?n\<rparr>"
  obtain sr k where s: "send_file_packet (w_sock w2) ?p = (sr, k)" by fastforce
  let ?w3 = "w2\<lparr>w_sock := k\<rparr>"
  have g3: "good (w_db ?w3)" using onward_good [OF w2(2)] by simp
  obtain w4 where w4: "gets_loop env c pid fd sha sz ?n 0 ?w3 = Some w4" "later ?w3 w4"
    using gets_loop_shared [OF g3 assms(2-4) refl _ n, of c fd] by blast
  obtain w5 where w5: "get_sequence env (Some c) pid w4 = Some ((- 1, None), w5)" "later w4 w5"
    using sequence_shared [OF onward_good [OF w4(2)] assms(2), of c] by auto
  have h: "hash_field sha = Some (sha @ replicate (HASH_LEN - length sha) NUL)" using assms(3) by (simp add: hash_field_def)
  have "gets_send env c pid arg fd sha sz w = Some (if sr = - 1 then ?w3 else w5)"
    unfolding gets_send_def Let_def cr w2(1) by (simp add: h s w4(1) w5(1) del: HASH_LEN_def cmd_code.simps)
  moreover have "later w ?w3" using w2(2) by simp
  moreover have "later w w5" using onward_trans [OF onward_trans [OF _ w4(2)] w5(2)] w2(2) by simp
  ultimately show ?thesis by simp
qed

lemma handle_gets_shared:
  assumes "good (w_db w)" "c_range (s_user s)" "c_range (s_dir s)" "clean_text n" "length n \<le> 255"
  shows "\<exists>w'. handle_gets env s (Some n) w = Some w' \<and> later w w'"
proof (cases "w_conn w")
  case (Some c)
  obtain r d1 where f: "dao_find_child_id env (Some c) (s_dir s) (Some n) 0 (w_db w) = Some (r, d1)" "onward good tbl (w_db w) d1"
    "r = - 1 \<or> r \<in> p_id ` set (t_paths (tbl d1))"
    using find_child_shared [OF assms(1,3-5), of c 0] by blast
  note r = good_path_range [OF onward_good [OF f(2)] f(3)]
  obtain q info d2 where i: "dao_get_file_info env (Some c) (s_user s) r d1 = Some (q, info, d2)" "onward good tbl d1 d2"
    "info = None \<or> (\<exists>sha sz. info = Some (sha, sz) \<and> length sha \<le> 64 \<and> unat sz \<le> 2147483647 * BLOCK_SIZE)"
    using file_info_shared [OF onward_good [OF f(2)] assms(2) r, of c] by blast
  note d2 = onward_trans [OF f(2) i(2)]
  let ?w2 = "w\<lparr>w_db := d2\<rparr>"
  show ?thesis
  proof (cases "n = [] \<or> r \<le> 0 \<or> info = None")
    case True
    with Some f(1,2) i(1) d2 assms(1) show ?thesis
      by (auto simp: handle_gets_def get_thread_db_conn_def gets_error_def db_call_def)
  next
    case False
    then obtain sha sz where info: "info = Some (sha, sz)" "length sha \<le> 64" "unat sz \<le> 2147483647 * BLOCK_SIZE"
      using i(3) by auto
    obtain b w3 where b: "open_read (gen_physical_path 512 sha) ?w2 = (b, w3)" by fastforce
    then have w3: "w_db w3 = d2" using open_read_db by fastforce
    have g3: "good (w_db w3)" using w3 onward_good [OF d2] by simp
    obtain w4 where w4: "gets_send env c r (Some n) (gen_physical_path 512 sha) sha sz w3 = Some w4" "later w3 w4"
      using gets_send_shared [OF g3 r info(2,3)] by blast
    have "onward good tbl (w_db w) (w_db w4)" using onward_trans [OF d2] w4(2) w3 by simp
    with False Some f(1) i(1) info(1) b w4(1) w3 d2 show ?thesis
      by (cases b) (auto simp: handle_gets_def get_thread_db_conn_def gets_error_def db_call_def Let_def)
  qed
qed (simp add: handle_gets_def get_thread_db_conn_def gets_error_def assms(1))

section \<open>Sessions\<close>

lemma serve_command_shared:
  assumes "good (w_db w)" "session_ok (tbl (w_db w)) s"
    "clean_text (cstr (cp_data p))" "length (cstr (cp_data p)) \<le> 200" "cp_cmd_type p \<noteq> cmd_code CMD_TYPE_PUTS"
  shows "\<exists>s' w'. serve_command env fd p s w = Some (s', w') \<and> later w w' \<and> session_ok (tbl (w_db w')) s'"
proof -
  define data where "data = cstr (cp_data p)"
  define t where "t = cp_cmd_type p"
  note range = good_range [OF assms(1,2)]
  have l: "length data \<le> 255" "length data \<le> 200" "clean_text data" using assms(3,4) by (simp_all add: data_def)
  note unfolds = serve_command_def get_packet_cmd_type_def t_def [symmetric] data_def [symmetric] Let_def
  consider "s_user s = - 1 \<and> t \<noteq> cmd_code CMD_TYPE_LOGIN \<and> t \<noteq> cmd_code CMD_TYPE_REGISTER \<and> t \<noteq> cmd_code CMD_TYPE_LOGOUT"
    | (login) "t = cmd_code CMD_TYPE_LOGIN" | (reg) "t = cmd_code CMD_TYPE_REGISTER"
    | (out) "t = cmd_code CMD_TYPE_LOGOUT" | (user) "s_user s \<noteq> - 1" "t \<noteq> cmd_code CMD_TYPE_LOGIN" "t \<noteq> cmd_code CMD_TYPE_REGISTER" "t \<noteq> cmd_code CMD_TYPE_LOGOUT"
    by blast
  then show ?thesis
  proof cases
    case 1
    then show ?thesis using assms(1,2) by (simp add: unfolds del: cmd_code.simps)
  next
    case login
    then show ?thesis using serve_login_shared [OF assms(1,2) l(3), of fd] by (simp add: unfolds del: cmd_code.simps)
  next
    case reg
    then show ?thesis using serve_register_shared [OF assms(1,2) l(3), of fd] by (simp add: unfolds cmd_code_inj del: cmd_code.simps)
  next
    case out
    then show ?thesis using assms(1) session_ok_initial by (simp add: unfolds cmd_code_inj del: cmd_code.simps)
  next
    case user
    obtain s1 w1 where cd: "handle_cd env s (Some data) w = Some (s1, w1)" "later w w1" "session_ok (tbl (w_db w1)) s1"
      using handle_cd_shared [OF assms(1,2) l(3,1)] by blast
    obtain w2 where ls: "handle_ls env s w = Some w2" "later w w2" using handle_ls_shared [OF assms(1)] range by blast
    obtain w3 where rm: "handle_rm env s (Some data) w = Some w3" "later w w3" using handle_rm_shared [OF assms(1) _ _ l(3,1)] range by blast
    obtain w4 where mk: "handle_mkdir env s (Some data) w = Some w4" "later w w4" using handle_mkdir_shared [OF assms(1) _ _ l(3,2)] range by blast
    obtain w5 where ge: "handle_gets env s (Some data) w = Some w5" "later w w5" using handle_gets_shared [OF assms(1) _ _ l(3,1)] range by blast
    have "serve_command env fd p s w \<in> {Some (s, handle_pwd s w), Some (s1, w1), Some (s, w2), Some (s, w3), Some (s, w4), Some (s, w5), Some (s, say msg_bad_command w)}"
      using user assms(5) cd(1) ls(1) rm(1) mk(1) ge(1) by (simp add: unfolds with_session_def del: cmd_code.simps)
    moreover have "w_db (handle_pwd s w) = w_db w" by (simp add: handle_pwd_def)
    ultimately show ?thesis
      using cd(2,3) ls(2) rm(2) mk(2) ge(2) assms(1,2) onward_session by auto
  qed
qed

lemma session_shared:
  assumes "good (w_db w)" "session_ok (tbl (w_db w)) s" "stream (w_sock w) = concat (map bytes_of_command ps)"
    "\<forall>p\<in>set ps. packet_ok p \<and> cp_cmd_type p \<noteq> cmd_code CMD_TYPE_PUTS \<and> clean_text (argument p) \<and> length (argument p) \<le> 200"
  shows "\<exists>w'. session_loop env fd s w = Some w' \<and> later w w'"
  using assms
proof (induction ps arbitrary: s w)
  case Nil
  then show ?case using session_loop_end [of w env fd s] by auto
next
  case (Cons p ps)
  obtain segs where st: "concat segs = concat (map bytes_of_command ps)" "session_loop env fd s w =
    (case serve_command env fd (terminated p) s (w\<lparr>w_sock := (w_sock w)\<lparr>rx_segs := segs\<rparr>\<rparr>) of
       None \<Rightarrow> None | Some (s', w2) \<Rightarrow> session_loop env fd s' w2)"
    using session_loop_step [of w p "concat (map bytes_of_command ps)" env fd s] Cons.prems by auto
  let ?w1 = "w\<lparr>w_sock := (w_sock w)\<lparr>rx_segs := segs\<rparr>\<rparr>"
  have t: "cp_cmd_type (terminated p) \<noteq> cmd_code CMD_TYPE_PUTS" "clean_text (cstr (cp_data (terminated p)))"
    "length (cstr (cp_data (terminated p))) \<le> 200"
    using Cons.prems(4) by (simp_all add: argument_def terminated_def)
  obtain s' w2 where s': "serve_command env fd (terminated p) s ?w1 = Some (s', w2)" "later w w2" "session_ok (tbl (w_db w2)) s'"
    using serve_command_shared [of ?w1 s "terminated p" fd] Cons.prems(1,2) t by auto
  have "stream (w_sock w2) = concat (map bytes_of_command ps)"
    using keeps_serve_command [OF s'(1) t(1)] st(1) by (simp add: keeps_def stream_def)
  then obtain w' where "session_loop env fd s' w2 = Some w'" "later w2 w'"
    using Cons.IH [OF onward_good [OF s'(2)] s'(3)] Cons.prems(4) by auto
  with st(2) s'(1) onward_trans [OF s'(2)] show ?case by auto
qed

end

section \<open>Several workers on one database\<close>

text \<open>What the database does between two statements of the session is a list of statements of other
  connections; \<open>cw_others\<close> holds these lists, the next one first. \<open>cw_sent\<close> collects the texts the session
  sends itself.\<close>

record 'd crowd_db =
  cw_db :: 'd
  cw_others :: "(nat \<times> stmt) list list"
  cw_sent :: "string list"

fun run_others :: "'d dao_env \<Rightarrow> (nat \<times> stmt) list \<Rightarrow> 'd \<Rightarrow> 'd" where
  "run_others env [] d = d"
| "run_others env ((c, st) # sts) d = run_others env sts (snd (my_query env c (render st) d))"

definition crowd_query :: "'d dao_env \<Rightarrow> nat \<Rightarrow> string \<Rightarrow> 'd crowd_db \<Rightarrow> my_reply \<times> 'd crowd_db" where
  "crowd_query env c q x =
     (let sts = (case cw_others x of [] \<Rightarrow> [] | b # bs \<Rightarrow> b);
          (rep, d) = my_query env c q (run_others env sts (cw_db x))
      in (rep, \<lparr>cw_db = d, cw_others = tl (cw_others x), cw_sent = cw_sent x @ [q]\<rparr>))"

definition crowd :: "'d dao_env \<Rightarrow> 'd crowd_db dao_env" where
  "crowd env =
     \<lparr>my_query = crowd_query env,
      wall_clock = (\<lambda>x. case wall_clock env (cw_db x) of (n, d) \<Rightarrow> (n, x\<lparr>cw_db := d\<rparr>)),
      sha_calls = (\<lambda>x. case sha_calls env (cw_db x) of (s, d) \<Rightarrow> (s, x\<lparr>cw_db := d\<rparr>))\<rparr>"

text \<open>The tables are well formed, the others send admissible statements only, and so has the session.\<close>

definition crowd_good :: "(string \<Rightarrow> string) \<Rightarrow> ('d \<Rightarrow> tables) \<Rightarrow> 'd crowd_db \<Rightarrow> bool" where
  "crowd_good key tbl x \<longleftrightarrow>
     store_ok key (tbl (cw_db x)) \<and> (\<forall>b\<in>set (cw_others x). \<forall>(c, st)\<in>set b. admissible st) \<and>
     (\<forall>q\<in>set (cw_sent x). \<exists>st. admissible st \<and> q = render st)"

context sql_service begin

lemma run_others_ok:
  "store_ok key (tbl d) \<Longrightarrow> \<forall>(c, st)\<in>set sts. admissible st \<Longrightarrow>
    store_ok key (tbl (run_others env sts d)) \<and> evolves (tbl d) (tbl (run_others env sts d))"
proof (induction sts arbitrary: d)
  case (Cons a sts)
  obtain c st where a: "a = (c, st)" by fastforce
  obtain rep d' where q: "my_query env c (render st) d = (rep, d')" by fastforce
  have ad: "admissible st" using Cons.prems(2) a by simp
  then have "stmt_ok key st (tbl d) rep (tbl d')" using reply [OF _ _ q] by (simp add: admissible_def)
  from admissible_step [OF this ad Cons.prems(1)] have d': "store_ok key (tbl d')" "evolves (tbl d) (tbl d')" by simp_all
  have "store_ok key (tbl (run_others env sts d')) \<and> evolves (tbl d') (tbl (run_others env sts d'))"
    using Cons.IH [OF d'(1)] Cons.prems(2) by simp
  with evolves_trans [OF d'(2)] show ?case by (simp add: a q)
qed simp

lemma crowd_reply:
  assumes "crowd_good key tbl x" "admissible st" "crowd_query env c (render st) x = (rep, x')"
  shows "crowd_good key tbl x' \<and>
    (\<exists>t. store_ok key t \<and> evolves (tbl (cw_db x)) t \<and> stmt_ok key st t rep (tbl (cw_db x')))"
proof -
  define sts where "sts = (case cw_others x of [] \<Rightarrow> [] | b # bs \<Rightarrow> b)"
  have sts: "\<forall>(c, st)\<in>set sts. admissible st" "set (tl (cw_others x)) \<subseteq> set (cw_others x)"
    using assms(1) by (cases "cw_others x"; auto simp: crowd_good_def sts_def)+
  let ?d = "run_others env sts (cw_db x)"
  obtain d where q: "my_query env c (render st) ?d = (rep, d)"
    and x': "x' = \<lparr>cw_db = d, cw_others = tl (cw_others x), cw_sent = cw_sent x @ [render st]\<rparr>"
    using assms(3) by (auto simp: crowd_query_def sts_def [symmetric] split: prod.splits)
  note d = run_others_ok [OF _ sts(1), of "cw_db x"]
  have t: "store_ok key (tbl ?d)" "evolves (tbl (cw_db x)) (tbl ?d)" using d assms(1) by (simp_all add: crowd_good_def)
  have st: "stmt_ok key st (tbl ?d) rep (tbl d)" using reply [OF _ _ q] assms(2) by (simp add: admissible_def)
  have "store_ok key (tbl d)" using admissible_step [OF st assms(2) t(1)] by simp
  then have "crowd_good key tbl x'" using assms(1,2) sts(2) by (auto simp: crowd_good_def x')
  with t st show ?thesis by (auto simp: x')
qed

lemma crowd_shared: "sql_shared (crowd env) (tbl \<circ> cw_db) key digest (crowd_good key tbl)"
proof unfold_locales
  fix x st c rep x'
  assume "crowd_good key tbl x" "admissible st" "my_query (crowd env) c (render st) x = (rep, x')"
  then show "crowd_good key tbl x' \<and> (\<exists>t. store_ok key t \<and> evolves ((tbl \<circ> cw_db) x) t \<and> stmt_ok key st t rep ((tbl \<circ> cw_db) x'))"
    using crowd_reply by (simp add: crowd_def)
next
  fix x n x'
  assume "crowd_good key tbl x" "wall_clock (crowd env) x = (n, x')"
  then show "crowd_good key tbl x' \<and> (tbl \<circ> cw_db) x' = (tbl \<circ> cw_db) x \<and> 0 \<le> n"
    using clock_tbl by (auto simp: crowd_def crowd_good_def split: prod.splits)
next
  fix x s x'
  assume "crowd_good key tbl x" "sha_calls (crowd env) x = (s, x')"
  then show "crowd_good key tbl x' \<and> (tbl \<circ> cw_db) x' = (tbl \<circ> cw_db) x"
    using sha_tbl by (auto simp: crowd_def crowd_good_def split: prod.splits)
next
  fix x s x' y r h fs
  assume "sha_calls (crowd env) x = (s, x')" "sha256_hash s y = (r, Some h, fs)"
  then show "h = digest y" using sha_sound by (fastforce simp: crowd_def split: prod.splits)
qed (auto simp: crowd_good_def digest_hex)

end

interpretation crowd_ref: sql_shared "crowd (ref_env key)" "(\<lambda>t. t) \<circ> cw_db" key ref_digest "crowd_good key (\<lambda>t. t)" for key
  by (rule ref_service.crowd_shared)

text \<open>C13: many workers: on a database that keeps the SQL contract and between any two statements of the session
  runs any admissible statements of other connections, registrations, new and deleted entries,
  uploads, a session of commands other than uploads, with arguments of at most 200 bytes without
  quotes, runs to its end without undefined behaviour; the tables are well formed afterwards, no
  user and no entry has disappeared, and every statement the session has sent was admissible itself,
  so that the same holds for the others.\<close>

theorem session_among_others:
  assumes "sql_service env tbl key digest" "crowd_good key tbl (w_db w)" "stream (w_sock w) = concat (map bytes_of_command ps)"
    "\<forall>p\<in>set ps. packet_ok p \<and> cp_cmd_type p \<noteq> cmd_code CMD_TYPE_PUTS \<and> clean_text (argument p) \<and> length (argument p) \<le> 200"
  shows "\<exists>w'. handle_request (crowd env) fd w = Some w' \<and> crowd_good key tbl (w_db w') \<and>
    evolves (tbl (cw_db (w_db w))) (tbl (cw_db (w_db w')))"
  using sql_shared.session_shared [OF sql_service.crowd_shared [OF assms(1)] assms(2) session_ok_initial assms(3,4), of fd]
  by (auto simp: handle_request_def onward_def)

theorem session_among_others_witness:
  "\<exists>w'. handle_request (crowd (ref_env id)) 5 (world_of
       \<lparr>cw_db = one_user, cw_others = [[(8, Ins_dir 1 5 ''docs'' ''/docs'')], [(9, Set_tomb 5 1), (8, Ins_user ''bob'' [] [])]], cw_sent = []\<rparr>
       [bytes_of_command (init_command_packet (cmd_code CMD_TYPE_LOGIN) (Some ''ann:pw'')) @
        bytes_of_command (init_command_packet (cmd_code CMD_TYPE_MKDIR) (Some ''docs''))]) = Some w' \<and>
     tables_ok id (cw_db (w_db w')) \<and> 5 \<in> p_id ` set (t_paths (cw_db (w_db w')))"
proof -
  let ?x = "\<lparr>cw_db = one_user, cw_others = [[(8, Ins_dir 1 5 ''docs'' ''/docs'')], [(9, Set_tomb 5 1), (8, Ins_user ''bob'' [] [])]], cw_sent = []\<rparr>"
  let ?ps = "[init_command_packet (cmd_code CMD_TYPE_LOGIN) (Some ''ann:pw''), init_command_packet (cmd_code CMD_TYPE_MKDIR) (Some ''docs'')]"
  let ?W = "world_of ?x [bytes_of_command (?ps ! 0) @ bytes_of_command (?ps ! 1)]"
  have "store_ok id one_user" using one_user_ok [of id] by (simp add: store_ok_def one_user_def no_tables_def)
  then have good: "crowd_good id (\<lambda>t. t) (w_db ?W)"
    by (simp add: crowd_good_def admissible_def clean_stmt_def clean_text_def sq_def)
  have st: "stream (w_sock ?W) = concat (map bytes_of_command ?ps)" by simp
  have "clean_text ''ann:pw''" "clean_text ''docs''" by (simp_all add: clean_text_def sq_def)
  then have ps: "\<forall>p\<in>set ?ps. packet_ok p \<and> cp_cmd_type p \<noteq> cmd_code CMD_TYPE_PUTS \<and> clean_text (argument p) \<and> length (argument p) \<le> 200"
    using packet_ok_init [of "''ann:pw''" "cmd_code CMD_TYPE_LOGIN"] packet_ok_init [of "''docs''" "cmd_code CMD_TYPE_MKDIR"]
    by (auto simp: cmd_code_inj simp del: cmd_code.simps)
  obtain w' where w': "handle_request (crowd (ref_env id)) 5 ?W = Some w'" "crowd_good id (\<lambda>t. t) (w_db w')"
    "evolves one_user (cw_db (w_db w'))"
    using session_among_others [OF ref_service [of id] good st ps, of 5] by auto
  have "5 \<in> p_id ` set (t_paths one_user)" by (simp add: one_user_def new_path_def)
  with w' show ?thesis by (auto simp: crowd_good_def store_ok_def evolves_def)
qed

end
