(* ===== verification/Shared_Race.thy ===== *)
theory Shared_Race
  imports Shared_Session Drive_Refines
begin

text \<open>
  What goes wrong between two statements: \<open>dao_create_dir\<close> looks for the name with one statement and
  inserts the row with another, so two workers of the same user can both find the name free.
\<close>

lemma crowd_fields [simp]:
  "my_query (crowd env) = crowd_query env"
  by (simp add: crowd_def)

context sql_available begin

text \<open>A look-up with nobody else at work.\<close>

lemma crowd_find_free:
  assumes "tables_ok key (tbl (cw_db x))" "c_range par" "0 < par" "clean_text n" "length n \<le> 255" "cw_others x = [] # rest"
    "\<not> (\<exists>row\<in>set (t_paths (tbl (cw_db x))). child_of key par n row \<and> p_type row = CHR ''d'')"
  shows "\<exists>d q. dao_find_child_id (crowd env) (Some c) par (Some n) 1 x = Some (- 1, \<lparr>cw_db = d, cw_others = rest, cw_sent = q\<rparr>) \<and>
    tbl d = tbl (cw_db x)"
proof -
  obtain r d where r: "dao_find_child_id env (Some c) par (Some n) 1 (cw_db x) = Some (r, d)" "tbl d = tbl (cw_db x)" "r = - 1"
    using find_child_exact [OF assms(1-5), of c 1] assms(7) unfolding wanted_simps by (metis (no_types, lifting))
  then show ?thesis
    using assms(3,6)
    by (auto simp: dao_find_child_id_def fetch_id_def fetch_first_def dao_execute_query_def crowd_query_def Let_def
      split: prod.splits if_splits my_reply.splits option.splits list.splits)
qed

text \<open>Then the other worker inserts, and the statement of this one breaks the unique key.\<close>

lemma crowd_insert_loses:
  assumes "tables_ok key (tbl (cw_db x))" "clean_text n" "clean_text m" "length n \<le> 200" "length m \<le> 200" "key m = key n"
    "c_range uid" "c_range par" "\<not> path_violates key (tbl (cw_db x)) uid (Some par) m None"
    "cw_others x = [(c2, Ins_dir uid par m (''/'' @ m))] # rest"
  shows "\<exists>i x'. run_stmt (crowd env) c (snprintf_str 512 (render (Ins_dir uid par n (''/'' @ n)))) f x = (- 1, x') \<and>
    adds_path (tbl (cw_db x)) (tbl (cw_db x')) (new_path uid (Some par) m (''/'' @ m) CHR ''d'' None i)"
proof -
  let ?t = "tbl (cw_db x)"
  let ?mine = "Ins_dir uid par n (''/'' @ n)" and ?other = "Ins_dir uid par m (''/'' @ m)"
  have g: "goes 512 ?mine" "goes 512 ?other"
    using assms clean_text_prefix [of n 512] clean_text_prefix [of m 512]
    by (intro goesI; simp add: clean_stmt_def lits_Ins_dir snprintf_str_def)+
  have cf: "clean_stmt ?mine" "stmt_fits ?mine" "clean_stmt ?other" "stmt_fits ?other" using g by (simp_all add: goes_def)
  obtain rep1 d1 where q1: "my_query env c2 (render ?other) (cw_db x) = (rep1, d1)" by fastforce
  have v1: "\<not> violates key ?other ?t" using assms(9) by simp
  obtain rows j where "rep1 = Query_ok rows j" using answers [OF cf(3,4) v1 q1] by blast
  with reply [OF cf(3,4) q1] have ad: "adds_path ?t (tbl d1) (new_path uid (Some par) m (''/'' @ m) CHR ''d'' None j)"
    by (auto simp: stmt_ok_def adds_path_def new_path_def)
  then have "new_path uid (Some par) m (''/'' @ m) CHR ''d'' None j \<in> set (t_paths (tbl d1))" by (simp add: adds_path_def)
  then have v2: "violates key ?mine (tbl d1)"
    using assms(6) unfolding violates.simps path_violates_def by (intro disjI1 bexI) (auto simp: new_path_def)
  obtain rep2 d2 where q2: "my_query env c (render ?mine) d1 = (rep2, d2)" by fastforce
  have r2: "rep2 = Query_error" "tbl d2 = tbl d1"
    using reply [OF cf(1,2) q2] v2 by (auto simp: stmt_ok_def split: my_reply.splits)
  have "snprintf_str 512 (render ?mine) = render ?mine" using g(1) by (simp add: goes_def snprintf_str_fits)
  then have "run_stmt (crowd env) c (snprintf_str 512 (render ?mine)) f x =
      (- 1, \<lparr>cw_db = d2, cw_others = rest, cw_sent = cw_sent x @ [render ?mine]\<rparr>)"
    using assms(10) q1 q2 r2(1) by (simp add: run_stmt_def dao_execute_query_def crowd_query_def)
  with ad r2(2) show ?thesis by (intro exI [of _ j]) simp
qed

end

text \<open>C31: the race of two \<open>mkdir\<close>: when another worker makes the directory between the look-up and the insertion
  of this one, the unique key keeps the directory single, and this client is told that the command has failed,
  not that the directory exists, as it is told otherwise.\<close>

theorem mkdir_race:
  assumes "sql_available env tbl key digest" "drive_ok key (tbl (cw_db (w_db w))) s" "w_conn w = Some c"
    "clean_text n" "n \<noteq> []" "length n \<le> 200" "clean_text m" "length m \<le> 200" "key m = key n"
    "\<not> path_violates key (tbl (cw_db (w_db w))) (s_user s) (Some (s_dir s)) m None"
    "cw_others (w_db w) = [] # [(c2, Ins_dir (s_user s) (s_dir s) m (''/'' @ m))] # rest"
  shows "\<exists>i x'. handle_mkdir (crowd env) s (Some n) w = Some (say msg_mkdir_failed (w\<lparr>w_db := x'\<rparr>)) \<and>
    adds_path (tbl (cw_db (w_db w))) (tbl (cw_db x')) (new_path (s_user s) (Some (s_dir s)) m (''/'' @ m) CHR ''d'' None i)"
proof -
  let ?t = "tbl (cw_db (w_db w))"
  note ok = drive_ok_ids [OF assms(2)]
  have free: "\<not> (\<exists>row\<in>set (t_paths ?t). child_of key (s_dir s) n row \<and> p_type row = CHR ''d'')"
    using assms(9,10) child_user [OF assms(2)] by (auto simp: path_violates_def child_of_def)
  have l: "length n \<le> 255" using assms(6) by simp
  obtain d q where f: "dao_find_child_id (crowd env) (Some c) (s_dir s) (Some n) 1 (w_db w) =
      Some (- 1, \<lparr>cw_db = d, cw_others = [(c2, Ins_dir (s_user s) (s_dir s) m (''/'' @ m))] # rest, cw_sent = q\<rparr>)" "tbl d = ?t"
    using sql_available.crowd_find_free [OF assms(1) ok(1,7,8) assms(4) l assms(11) free] by blast
  let ?x = "\<lparr>cw_db = d, cw_others = [(c2, Ins_dir (s_user s) (s_dir s) m (''/'' @ m))] # rest, cw_sent = q\<rparr>"
  obtain i x' where r: "run_stmt (crowd env) c (snprintf_str 512 (render (Ins_dir (s_user s) (s_dir s) n (''/'' @ n)))) c_int ?x = (- 1, x')"
    "adds_path ?t (tbl (cw_db x')) (new_path (s_user s) (Some (s_dir s)) m (''/'' @ m) CHR ''d'' None i)"
    using sql_available.crowd_insert_loses [OF assms(1) _ assms(4,7,6,8,9) ok(5,7), of ?x c2 rest c c_int] ok(1) f(2) assms(10) by auto
  have p: "snprintf_str 512 (''/'' @ n) = ''/'' @ n" using assms(6) by (simp add: snprintf_str_def)
  have "dao_create_dir (crowd env) (Some c) (s_user s) (s_dir s) (Some n) (w_db w) = Some (- 1, x')"
    using f(1) r(1) p ok(6,8) by (simp add: dao_create_dir_def render_folds Let_def)
  then have "handle_mkdir (crowd env) s (Some n) w = Some (say msg_mkdir_failed (w\<lparr>w_db := x'\<rparr>))"
    using assms(3,5) by (simp add: handle_mkdir_def get_thread_db_conn_def db_call_Some)
  with r(2) show ?thesis by blast
qed

theorem mkdir_race_witness:
  "\<exists>x'. handle_mkdir (crowd (ref_env id)) \<lparr>s_path = ''/'', s_user = 1, s_dir = 5\<rparr> (Some ''docs'')
      (world_of \<lparr>cw_db = one_user, cw_others = [[], [(8, Ins_dir 1 5 ''docs'' ''/docs'')]], cw_sent = []\<rparr> []) =
    Some (say msg_mkdir_failed (world_of x' [])) \<and> length (t_paths (cw_db x')) = 2"
proof -
  let ?s = "\<lparr>s_path = ''/'', s_user = 1, s_dir = 5\<rparr>"
  let ?x = "\<lparr>cw_db = one_user, cw_others = [[], [(8, Ins_dir 1 5 ''docs'' ''/docs'')]], cw_sent = []\<rparr> :: tables crowd_db"
  let ?W = "world_of ?x []"
  have ok: "drive_ok id (cw_db (w_db ?W)) ?s"
    using one_user_ok [of id] by (simp add: drive_ok_def family_def one_user_def no_tables_def new_path_def)
  have n: "clean_text ''docs''" "''docs'' \<noteq> []" "length ''docs'' \<le> 200" by (simp_all add: clean_text_def sq_def)
  have free: "\<not> path_violates id (cw_db (w_db ?W)) (s_user ?s) (Some (s_dir ?s)) ''docs'' None"
    by (simp add: path_violates_def one_user_def no_tables_def new_path_def ids_left_def)
  have oth: "cw_others (w_db ?W) = [] # [(8, Ins_dir (s_user ?s) (s_dir ?s) ''docs'' (''/'' @ ''docs''))] # []" by simp
  have w: "w_conn ?W = Some 7" "w_db ?W = ?x" "?W\<lparr>w_db := y\<rparr> = world_of y []" for y by (simp_all add: world_of_def)
  obtain i x' where "handle_mkdir (crowd (ref_env id)) ?s (Some ''docs'') ?W = Some (say msg_mkdir_failed (?W\<lparr>w_db := x'\<rparr>))"
    "adds_path one_user (cw_db x') (new_path 1 (Some 5) ''docs'' ''/docs'' CHR ''d'' None i)"
    using mkdir_race [OF ref_available [of id] ok w(1) n n(1,3) refl free oth] by auto
  then have "handle_mkdir (crowd (ref_env id)) ?s (Some ''docs'') ?W = Some (say msg_mkdir_failed (world_of x' []))"
    "t_paths (cw_db x') = t_paths one_user @ [new_path 1 (Some 5) ''docs'' ''/docs'' CHR ''d'' None i]"
    unfolding w(3) adds_path_def by simp_all
  moreover have "length (t_paths one_user) = 1" by (simp add: one_user_def)
  ultimately show ?thesis by (intro exI [of _ x']) simp
qed

end
