(* ===== verification/Sql_Sent.thy ===== *)
theory Sql_Sent
  imports Auth
begin

text \<open>
  The texts the functions of \<open>src/server/dao_vfs.c\<close> send to the database, read back as SQL: what
  they mean when the names of the client contain nothing special, and what a client can make of
  them with a single quote, since nothing is escaped on the way.
\<close>

section \<open>The texts a function sends\<close>

text \<open>Any environment can be made to keep the texts it is sent, in order.\<close>

definition recording :: "'d dao_env \<Rightarrow> (string list \<times> 'd) dao_env" where
  "recording env =
     \<lparr>my_query = (\<lambda>c q (l, d). case my_query env c q d of (r, d') \<Rightarrow> (r, l @ [q], d')),
      wall_clock = (\<lambda>(l, d). case wall_clock env d of (n, d') \<Rightarrow> (n, l, d')),
      sha_calls = (\<lambda>(l, d). case sha_calls env d of (s, d') \<Rightarrow> (s, l, d'))\<rparr>"

definition sent :: "('a \<times> string list \<times> 'd) ub \<Rightarrow> string list ub" where
  "sent r = map_option (\<lambda>(x, l, d). l) r"

lemma recorded_query:
  "\<exists>rep d'. dao_execute_query (recording env) c q (l, d) = (rep, l @ [q], d')"
  by (simp add: dao_execute_query_def recording_def split: prod.splits)

lemma recorded_fetch:
  "\<exists>f d'. fetch_first (recording env) c q (l, d) = (f, l @ [q], d')"
  using recorded_query [of env c q l d] by (auto simp: fetch_first_def split: my_reply.splits option.splits list.splits)

lemma recorded_id: "sent (fetch_id (recording env) c q (l, d)) \<in> {None, Some (l @ [q])}"
  using recorded_fetch [of env c q l d] by (auto simp: fetch_id_def sent_def split: fetched.splits)

lemma recorded_stmt:
  "\<exists>r d'. run_stmt (recording env) c q f (l, d) = (r, l @ [q], d')"
  using recorded_query [of env c q l d] by (auto simp: run_stmt_def split: my_reply.splits)

text \<open>A hash is what the \<open>sha256sum\<close> program wrote, at most 64 bytes of it, or empty; a salt is a number.\<close>

definition clean_sha :: "'d dao_env \<Rightarrow> bool" where
  "clean_sha env \<longleftrightarrow> (\<forall>d x. pred_option clean_text (fst (snd (sha256_hash (fst (sha_calls env d)) x))))"

lemma recorded_hash:
  assumes "clean_sha env"
  shows "\<exists>z h d'. generate_password_hash (recording env) pw (l, d) = (int_to_dec z, h, l, d') \<and> c_range z \<and> clean_text h \<and> length h \<le> 64"
proof -
  obtain now d1 where now: "wall_clock env d = (now, d1)" by fastforce
  obtain sh d2 where sh: "sha_calls env d1 = (sh, d2)" by fastforce
  let ?z = "now smod 1000000"
  obtain r h fs where h: "sha256_hash sh (snprintf_str 512 (pw @ int_to_dec ?z)) = (r, h, fs)" by (metis prod_cases3)
  have "pred_option clean_text h" using assms sh h unfolding clean_sha_def by (metis fst_conv snd_conv)
  moreover have "pred_option (\<lambda>h. length h \<le> 64) h"
    using sha256_hash_clean [of sh "snprintf_str 512 (pw @ int_to_dec ?z)"] h by (cases h) auto
  moreover have "c_range ?z"
  proof -
    have "0 \<le> \<bar>now\<bar> mod 1000000" "\<bar>now\<bar> mod 1000000 < 1000000" by simp_all
    then have "- 2147483648 \<le> \<bar>now\<bar> mod 1000000" "\<bar>now\<bar> mod 1000000 \<le> 2147483647" "- (\<bar>now\<bar> mod 1000000) \<ge> - 2147483648" by linarith+
    then show ?thesis by (cases now "0 :: int" rule: linorder_cases) (simp_all add: c_range_def signed_modulo_int_def)
  qed
  ultimately show ?thesis using now sh h
    by (cases h) (auto simp: generate_password_hash_def recording_def Let_def clean_text_def)
qed

lemma recorded_verify: "\<exists>r d'. verify_password (recording env) i pw h s (l, d) = (r, l, d')"
  by (auto simp: verify_password_def recording_def Let_def split: prod.splits)

text \<open>What each function that is given a text sends. \<open>None\<close> is a cell of the answer that is NULL.\<close>

lemma sent_login:
  "sent (dao_login_user (recording env) (Some c) (Some u) (Some pw) (l, d)) \<in> {None, Some (l @ [snprintf_str 512 (render (Sel_login u))])}"
  using recorded_fetch [of env c "snprintf_str 512 (render (Sel_login u))" l d] recorded_verify [of env]
  by (auto simp: dao_login_user_def render_folds sent_def Let_def split: fetched.splits option.splits prod.splits) (metis prod.inject)+

lemma sent_child:
  "0 < p \<Longrightarrow> sent (dao_find_child_id (recording env) (Some c) p (Some n) k (l, d)) \<in>
    {None, Some (l @ [snprintf_str 512 (render (if k = - 1 then Find_any p n else if k = 1 then Find_dir p n else Find_file p n))])}"
  using recorded_id [of env c] by (auto simp: dao_find_child_id_def render_folds Let_def)

lemma sent_run: "sent (Some (run_stmt (recording env) c q f (l, d))) = Some (l @ [q])"
  using recorded_stmt [of env c q f l d] by (auto simp: sent_def)

lemma sent_dir:
  assumes "0 < i" "0 < p"
  shows "sent (dao_create_dir (recording env) (Some c) i p (Some n) (l, d)) \<in>
    {None, Some (l @ [snprintf_str 512 (render (Find_dir p n))]),
     Some (l @ [snprintf_str 512 (render (Find_dir p n)), snprintf_str 512 (render (Ins_dir i p n (snprintf_str 512 (''/'' @ n))))])}"
proof (cases "dao_find_child_id (recording env) (Some c) p (Some n) 1 (l, d)")
  case None
  then show ?thesis using assms by (simp add: dao_create_dir_def sent_def)
next
  case (Some r)
  obtain x l1 d1 where r: "r = (x, l1, d1)" by (cases r)
  have l1: "l1 = l @ [snprintf_str 512 (render (Find_dir p n))]"
    using sent_child [OF assms(2), of env c n 1 l d] Some r by (simp add: sent_def)
  have "sent (Some (run_stmt (recording env) c q c_int (l1, d1))) = Some (l1 @ [q])" for q by (rule sent_run)
  then show ?thesis using assms Some r by (auto simp: dao_create_dir_def render_folds l1) (simp_all add: sent_def)
qed

lemma sent_init_root:
  "\<exists>j. sent (dao_init_root_dir (recording env) (Some c) k (l, d)) \<in>
    {None, Some (l @ take j [snprintf_str 256 (render (Sel_root k)), snprintf_str 512 (render (Ins_root k))])}"
proof (cases "k \<le> 0")
  case True
  then show ?thesis by (intro exI [of _ 0]) (simp add: dao_init_root_dir_def sent_def)
next
  case pos: False
  show ?thesis
  proof (cases "dao_get_root_dir_id (recording env) (Some c) k (l, d)")
    case None
    then show ?thesis using pos by (simp add: dao_init_root_dir_def sent_def)
  next
    case (Some r)
    obtain x l1 d1 where r: "r = (x, l1, d1)" by (cases r)
    have l1: "l1 = l @ [snprintf_str 256 (render (Sel_root k))]"
      using recorded_id [of env c "snprintf_str 256 (render (Sel_root k))" l d] Some r pos
      by (simp add: dao_get_root_dir_id_def render_folds sent_def)
    have "sent (Some (run_stmt (recording env) c q c_int (l1, d1))) = Some (l1 @ [q])" for q by (rule sent_run)
    then show ?thesis using pos Some r
      by (intro exI [of _ "if x > 0 then 1 else 2"]) (simp add: dao_init_root_dir_def render_folds l1, simp add: sent_def)
  qed
qed

lemma sent_register:
  assumes "clean_sha env"
  shows "\<exists>z h k j. c_range z \<and> clean_text h \<and> length h \<le> 64 \<and> c_range k \<and>
    sent (dao_register_user (recording env) (Some c) (Some u) (Some pw) (l, d)) \<in>
      {None, Some (l @ take (Suc j) [snprintf_str 512 (render (Sel_user u)), snprintf_str 512 (render (Ins_user u h (int_to_dec z))),
         snprintf_str 256 (render (Sel_root k)), snprintf_str 512 (render (Ins_root k))])}"
proof -
  let ?q = "snprintf_str 512 (render (Sel_user u))"
  obtain rep d1 where q: "dao_execute_query (recording env) c ?q (l, d) = (rep, l @ [?q], d1)" using recorded_query [of env c ?q l d] by blast
  obtain z h d2 where g: "generate_password_hash (recording env) pw (l @ [?q], d1) = (int_to_dec z, h, l @ [?q], d2)"
    "c_range z" "clean_text h" "length h \<le> 64" using recorded_hash [OF assms] by blast
  let ?i = "snprintf_str 512 (render (Ins_user u h (int_to_dec z)))"
  obtain rep2 d3 where i: "dao_execute_query (recording env) c ?i (l @ [?q], d2) = (rep2, l @ [?q, ?i], d3)"
    using recorded_query [of env c ?i "l @ [?q]" d2] by auto
  show ?thesis
  proof (cases "(\<exists>n. rep = Query_ok (Some []) n) \<and> (\<exists>rs n. rep2 = Query_ok rs n)")
    case False
    then have "sent (dao_register_user (recording env) (Some c) (Some u) (Some pw) (l, d)) \<in> {Some (l @ [?q]), Some (l @ [?q, ?i])}"
      using q g(1) i
      by (cases rep; cases rep2) (auto simp: dao_register_user_def render_folds sent_def split: option.splits)
    then obtain j where "sent (dao_register_user (recording env) (Some c) (Some u) (Some pw) (l, d)) =
        Some (l @ take (Suc j) [?q, ?i, snprintf_str 256 (render (Sel_root 0)), snprintf_str 512 (render (Ins_root 0))])"
      by (elim insertE) (auto intro: that [of 0] that [of 1])
    then show ?thesis using g(2-4) by (intro exI [of _ z] exI [of _ h] exI [of _ 0] exI [of _ j]) (simp add: c_range_def)
  next
    case True
    then obtain n rs m where r: "rep = Query_ok (Some []) n" "rep2 = Query_ok rs m" by blast
    let ?k = "c_int m"
    have k: "c_range ?k" using c_int_range [of m] by (simp add: c_range_def)
    obtain j where j: "sent (dao_init_root_dir (recording env) (Some c) ?k (l @ [?q, ?i], d3)) \<in>
      {None, Some ((l @ [?q, ?i]) @ take j [snprintf_str 256 (render (Sel_root ?k)), snprintf_str 512 (render (Ins_root ?k))])}"
      using sent_init_root [of env c ?k "l @ [?q, ?i]" d3] by blast
    have "sent (dao_register_user (recording env) (Some c) (Some u) (Some pw) (l, d)) =
        sent (dao_init_root_dir (recording env) (Some c) ?k (l @ [?q, ?i], d3))"
      using q g(1) i r by (auto simp: dao_register_user_def render_folds sent_def Let_def split: option.splits)
    with j g(2-4) k show ?thesis by (intro exI [of _ z] exI [of _ h] exI [of _ ?k] exI [of _ "Suc j"]) simp
  qed
qed

text \<open>A text that fits its buffer is read back as the statement it was made from.\<close>

lemma decode_fits:
  "clean_stmt st \<Longrightarrow> list_all arg_in_range (stmt_args st) \<Longrightarrow> lits st + sum_list (map arg_len (stmt_args st)) < n \<Longrightarrow>
    decode (snprintf_str n (render st)) = Some st"
  using length_render [of st] by (simp add: snprintf_str_fits decode_render)

text \<open>C36: the text a function of the DAO layer sends, cut to its buffer of 512 bytes as it is, denotes the
  statement the function is meant to run and no other, whatever the client put into the name, as
  long as the name has no single quote, no backslash and no NUL and at most 190 bytes, and whatever the
  database answers: the log-in and the look-ups send one statement each, the creation of a directory
  looks for it first, the files and paths are inserted with the values given, and a registration looks
  for the name, inserts it with a hash and a number for a salt, and then looks for and makes the root
  of one user, or the first of these steps. The hash is what \<open>sha256sum\<close> writes, digits without quotes.\<close>

theorem dao_texts_faithful:
  assumes "clean_sha env" "clean_text n" "length n \<le> 190" "0 < i" "c_range i" "0 < p" "c_range p" "0 < f" "c_range f"
  shows "pred_option (\<lambda>l. map decode l = [Some (Sel_login n)]) (sent (dao_login_user (recording env) (Some c) (Some n) (Some pw) ([], d))) \<and>
    pred_option (\<lambda>l. map decode l = [Some (if k = - 1 then Find_any p n else if k = 1 then Find_dir p n else Find_file p n)])
      (sent (dao_find_child_id (recording env) (Some c) p (Some n) k ([], d))) \<and>
    pred_option (\<lambda>l. map decode l \<in> {[Some (Find_dir p n)], [Some (Find_dir p n), Some (Ins_dir i p n (''/'' @ n))]})
      (sent (dao_create_dir (recording env) (Some c) i p (Some n) ([], d))) \<and>
    pred_option (\<lambda>l. map decode l = [Some (Sel_file n)]) (sent (dao_find_file_by_hash (recording env) (Some c) (Some n) ([], d))) \<and>
    pred_option (\<lambda>l. map decode l = [Some (Ins_file n (unat z))])
      (sent (Some (dao_insert_file (recording env) (Some c) (Some n) z ([], d)))) \<and>
    pred_option (\<lambda>l. map decode l = [Some (Ins_path i p n (''/'' @ n) f)])
      (sent (Some (dao_insert_path (recording env) (Some c) i p (Some n) f (''/'' @ n) ([], d)))) \<and>
    (\<exists>h salt k j. pred_option (\<lambda>l. map decode l = take (Suc j) [Some (Sel_user n), Some (Ins_user n h salt), Some (Sel_root k), Some (Ins_root k)])
      (sent (dao_register_user (recording env) (Some c) (Some n) (Some pw) ([], d))))"
proof (intro conjI)
  note [simp] = clean_stmt_def
  have path: "clean_text (''/'' @ n)" "snprintf_str 512 (''/'' @ n) = ''/'' @ n"
    using assms(2,3) by (auto simp: clean_text_def sq_def snprintf_str_def)
  have z: "unat z < 10 ^ 20"
  proof -
    have "unat z < 2 ^ LENGTH(64)" by (rule unsigned_less)
    then show ?thesis by simp
  qed
  have one: "pred_option (\<lambda>l. map decode l = [Some st]) r"
    if "r \<in> {None, Some ([] @ [snprintf_str 512 (render st)])}" "decode (snprintf_str 512 (render st)) = Some st" for st r
    using that by auto
  have fits: "decode (snprintf_str 512 (render st)) = Some st"
    if "clean_stmt st" "list_all arg_in_range (stmt_args st)" "sum_list (map arg_len (stmt_args st)) \<le> 301" for st
    using decode_fits [OF that(1,2), of 512] lits_le [of st] that(3) by simp
  have dir: "decode (snprintf_str 512 (render (Ins_dir i p n (''/'' @ n)))) = Some (Ins_dir i p n (''/'' @ n))"
    using assms path(1) by (intro decode_fits) (simp_all add: lits_Ins_dir)
  have pth: "decode (snprintf_str 512 (render (Ins_path i p n (''/'' @ n) f))) = Some (Ins_path i p n (''/'' @ n) f)"
    using assms path(1) by (intro decode_fits) (simp_all add: lits_Ins_path)
  show "pred_option (\<lambda>l. map decode l = [Some (Sel_login n)]) (sent (dao_login_user (recording env) (Some c) (Some n) (Some pw) ([], d)))"
    using assms by (intro one [OF sent_login] fits) simp_all
  show "pred_option (\<lambda>l. map decode l = [Some (if k = - 1 then Find_any p n else if k = 1 then Find_dir p n else Find_file p n)])
      (sent (dao_find_child_id (recording env) (Some c) p (Some n) k ([], d)))"
    using assms by (intro one [OF sent_child [OF assms(6)]] fits) simp_all
  show "pred_option (\<lambda>l. map decode l = [Some (Sel_file n)]) (sent (dao_find_file_by_hash (recording env) (Some c) (Some n) ([], d)))"
    using assms recorded_id [of env c _ "[]" d] by (intro one fits) (simp_all add: dao_find_file_by_hash_def render_folds)
  show "pred_option (\<lambda>l. map decode l = [Some (Ins_file n (unat z))]) (sent (Some (dao_insert_file (recording env) (Some c) (Some n) z ([], d))))"
    using assms z by (intro one fits) (simp_all add: dao_insert_file_def render_folds sent_run)
  show "pred_option (\<lambda>l. map decode l = [Some (Ins_path i p n (''/'' @ n) f)])
      (sent (Some (dao_insert_path (recording env) (Some c) i p (Some n) f (''/'' @ n) ([], d))))"
    using assms(4,6,8) pth by (intro one) (simp_all add: dao_insert_path_def render_folds sent_run)
  have "decode (snprintf_str 512 (render (Find_dir p n))) = Some (Find_dir p n)" using assms by (intro fits) simp_all
  then show "pred_option (\<lambda>l. map decode l \<in> {[Some (Find_dir p n)], [Some (Find_dir p n), Some (Ins_dir i p n (''/'' @ n))]})
      (sent (dao_create_dir (recording env) (Some c) i p (Some n) ([], d)))"
    using sent_dir [OF assms(4,6), of env c n "[]" d] dir path(2) by auto
  obtain z h m j where reg: "c_range z" "clean_text h" "length h \<le> 64" "c_range m"
    "sent (dao_register_user (recording env) (Some c) (Some n) (Some pw) ([], d)) \<in>
      {None, Some ([] @ take (Suc j) [snprintf_str 512 (render (Sel_user n)), snprintf_str 512 (render (Ins_user n h (int_to_dec z))),
         snprintf_str 256 (render (Sel_root m)), snprintf_str 512 (render (Ins_root m))])}"
    using sent_register [OF assms(1), of c n pw "[]" d] by blast
  have "decode (snprintf_str 512 (render (Sel_user n))) = Some (Sel_user n)" "decode (snprintf_str 512 (render (Ins_root m))) = Some (Ins_root m)"
    "decode (snprintf_str 512 (render (Ins_user n h (int_to_dec z)))) = Some (Ins_user n h (int_to_dec z))"
    using assms(2,3) reg(1-4) length_int_to_dec [OF reg(1)] salt_clean by (auto intro!: fits)
  moreover have "decode (snprintf_str 256 (render (Sel_root m))) = Some (Sel_root m)"
    using reg(4) lits_le [of "Sel_root m"] by (intro decode_fits) simp_all
  ultimately have "pred_option (\<lambda>l. map decode l = take (Suc j) [Some (Sel_user n), Some (Ins_user n h (int_to_dec z)), Some (Sel_root m), Some (Ins_root m)])
      (sent (dao_register_user (recording env) (Some c) (Some n) (Some pw) ([], d)))"
    using reg(5) by (auto simp: take_map [symmetric])
  then show "\<exists>h salt k j. pred_option (\<lambda>l. map decode l = take (Suc j) [Some (Sel_user n), Some (Ins_user n h salt), Some (Sel_root k), Some (Ins_root k)])
      (sent (dao_register_user (recording env) (Some c) (Some n) (Some pw) ([], d)))" by blast
qed

text \<open>A database that answers every query with one row, and the tool of the reference digest.\<close>

definition one_row_env :: "cells \<Rightarrow> unit dao_env" where
  "one_row_env row =
     \<lparr>my_query = (\<lambda>c q d. (Query_ok (Some [row]) 0, d)), wall_clock = (\<lambda>d. (0, d)), sha_calls = (\<lambda>d. (ref_sha, d))\<rparr>"

theorem dao_texts_faithful_witness:
  "sent (dao_find_child_id (recording (one_row_env [Some ''5''])) (Some 0) 3 (Some ''a'') 1 ([], ())) =
     Some [render (Find_dir 3 ''a'')] \<and>
   decode (render (Find_dir 3 ''a'')) = Some (Find_dir 3 ''a'')"
proof -
  have fits: "snprintf_str 512 (render (Find_dir 3 ''a'')) = render (Find_dir 3 ''a'')"
    using length_render [of "Find_dir 3 ''a''"] lits_le [of "Find_dir 3 ''a''"] by (intro snprintf_str_fits) (simp add: c_range_def)
  have s: "sent (dao_find_child_id (recording (one_row_env [Some ''5''])) (Some 0) 3 (Some ''a'') 1 ([], ())) =
     Some [render (Find_dir 3 ''a'')]"
    by (simp add: dao_find_child_id_def render_folds fits fetch_id_def fetch_first_def dao_execute_query_def recording_def
        one_row_env_def cell_def sent_def)
  have "clean_sha (one_row_env [Some ''5''])" "clean_text ''a''"
    using sha256_hash_ok [OF ref_sha_ok] ref_digest_hex hex_digit_plain
    by (auto simp: clean_sha_def one_row_env_def clean_text_def sq_def)
  from dao_texts_faithful [OF this, of 1 3 1 0 _ "()" 1] s show ?thesis by (simp add: c_range_def)
qed

section \<open>Quotes\<close>

text \<open>What a client types for a user name to log in under the id \<open>v\<close> with a password of its own, and the
  text \<open>SELECT ... WHERE username='x' UNION SELECT v,SHA2('pw',256),''\<close> the code makes of it.\<close>

definition forged_name :: "int \<Rightarrow> string \<Rightarrow> string" where
  "forged_name v pw = ''x'' @ [sq] @ '' UNION SELECT '' @ int_to_dec v @ '',SHA2('' @ [sq] @ pw @ [sq] @ '',256),'' @ [sq]"

definition forged_query :: "int \<Rightarrow> string \<Rightarrow> string" where
  "forged_query v pw =
     ''SELECT id, password_hash, salt FROM users WHERE username='' @ [sq] @ ''x'' @ [sq] @
     '' UNION SELECT '' @ int_to_dec v @ '',SHA2('' @ [sq] @ pw @ [sq] @ '',256),'' @ [sq] @ [sq]"

lemma forged_sent: "c_format fmt_login [Fs (forged_name v pw)] = forged_query v pw"
  by (simp add: c_format_def fmt_login_def forged_name_def forged_query_def sq_def)

lemma int_to_dec_chars: "c \<in> set (int_to_dec i) \<Longrightarrow> is_digit c \<or> c = CHR ''-''"
  using int_to_dec_int_char by (auto simp: int_char_def)

lemma forged_name_fits:
  assumes "c_range v" "0 < v" "length pw \<le> 20" "CHR '':'' \<notin> set pw"
  shows "length (forged_name v pw) \<le> 63" "forged_name v pw \<noteq> []" "CHR '':'' \<notin> set (forged_name v pw)"
proof -
  have "nat v < 10 ^ 10" using assms(1,2) by (simp add: c_range_def)
  then have "length (nat_to_dec (nat v)) \<le> 10" by (intro length_nat_to_dec) simp_all
  then show "length (forged_name v pw) \<le> 63" using assms(2,3) by (simp add: forged_name_def int_to_dec_def)
  have "CHR '':'' \<notin> set (int_to_dec v)" using int_to_dec_chars [of "CHR '':''" v] by (auto simp: is_digit_def)
  then show "forged_name v pw \<noteq> []" "CHR '':'' \<notin> set (forged_name v pw)"
    using assms(4) by (simp_all add: forged_name_def sq_def)
qed

text \<open>C37: the code escapes nothing, so a client chooses the statement that is run. Where the database
  answers the text \<open>forged_query\<close> as SQL has it, with the row the UNION adds, the client
  that logs in under the name \<open>forged_name\<close> is logged in as the user with the id it has typed,
  whoever that is, with a password it has made up; and a look-up of whatever entry under the name
  \<open>n' AND type='d\<close> runs as the look-up of the directory \<open>n\<close>, in every database.\<close>

theorem sql_injection:
  assumes "0 \<le> fd" "w_conn w = Some c" "0 < v" "c_range v" "pw \<noteq> []" "length pw \<le> 20" "CHR '':'' \<notin> set pw"
    "my_query env c (forged_query v pw) (w_db w) = (Query_ok (Some [[Some (int_to_dec v), Some (digest pw), Some []]]) i, d1)"
    "sha_calls env d1 = (s, d2)" "sha_tool_ok s digest"
  shows "handle_login env fd (Some (forged_name v pw @ CHR '':'' # pw)) user_id w = Some (v, say msg_login_ok (w\<lparr>w_db := d2\<rparr>)) \<and>
    dao_find_child_id env (Some c) p (Some (n @ [sq] @ '' AND type='' @ [sq] @ ''d'')) (- 1) d = dao_find_child_id env (Some c) p (Some n) 1 d"
proof
  note name = forged_name_fits [OF assms(4,3,6,7)]
  have parse: "parse_auth_data (Some (forged_name v pw @ CHR '':'' # pw)) = (0, Some (forged_name v pw, pw))"
    using name assms(5,6) by (intro parse_auth_complete) auto
  have "length (forged_query v pw) < 512" using name(1) by (simp add: forged_query_def forged_name_def)
  then have fits: "snprintf_str 512 (forged_query v pw) = forged_query v pw" by (rule snprintf_str_fits)
  have pw: "snprintf_str 512 pw = pw" using assms(6) by (simp add: snprintf_str_def)
  have "dao_login_user env (Some c) (Some (forged_name v pw)) (Some pw) (w_db w) = Some (v, d2)"
    using assms(4,8,9) sha256_hash_ok [OF assms(10), of pw]
    by (simp add: dao_login_user_def forged_sent fits fetch_first_def dao_execute_query_def cell_def verify_password_def pw)
  then show "handle_login env fd (Some (forged_name v pw @ CHR '':'' # pw)) user_id w = Some (v, say msg_login_ok (w\<lparr>w_db := d2\<rparr>))"
    using assms(1-3) by (simp add: handle_login_def get_thread_db_conn_def parse db_call_def)
  have "c_format fmt_find_any [Fd p, Fs (n @ [sq] @ '' AND type='' @ [sq] @ ''d'')] = c_format fmt_find_dir [Fd p, Fs n]"
    by (simp add: c_format_def fmt_find_any_def fmt_find_dir_def sq_def)
  then show "dao_find_child_id env (Some c) p (Some (n @ [sq] @ '' AND type='' @ [sq] @ ''d'')) (- 1) d = dao_find_child_id env (Some c) p (Some n) 1 d"
    by (simp add: dao_find_child_id_def Let_def)
qed

theorem sql_injection_witness:
  "\<exists>w'. handle_login (one_row_env [Some ''7'', Some (ref_digest ''pw''), Some []]) 5 (Some (forged_name 7 ''pw'' @ '':pw'')) 0
     \<lparr>w_conn = Some 0, w_db = (), w_sock = \<lparr>rx_segs = [], rx_fail = False, tx_caps = [], tx_out = []\<rparr>, w_fs = Map.empty, w_faults = []\<rparr> =
   Some (7, w')"
proof -
  let ?env = "one_row_env [Some ''7'', Some (ref_digest ''pw''), Some []]"
  let ?w = "\<lparr>w_conn = Some 0, w_db = (), w_sock = \<lparr>rx_segs = [], rx_fail = False, tx_caps = [], tx_out = []\<rparr>, w_fs = Map.empty, w_faults = []\<rparr>"
  have 7: "int_to_dec 7 = ''7''" by (simp add: int_to_dec_def nat_to_dec.simps char_of_def bit_0)
  have "my_query ?env 0 (forged_query 7 ''pw'') (w_db ?w) = (Query_ok (Some [[Some (int_to_dec 7), Some (ref_digest ''pw''), Some []]]) 0, ())"
    "sha_calls ?env () = (ref_sha, ())" by (simp_all add: one_row_env_def 7)
  from sql_injection [OF _ _ _ _ _ _ _ this ref_sha_ok, of 5] show ?thesis by (simp add: c_range_def)
qed

end
