(* ===== verification/Spec2Isabelle.thy ===== *)
theory Spec2Isabelle
  imports Path_Utils Thread_Pool_Props Server_Main Client_Main Instant_Upload Drive_Screen Drive_Among_Others Shared_Race Sql_Sent
begin

text \<open>
  WindCloud V5, a network drive in C: a verification library.

  \<^bold>\<open>The program.\<close> A client program (\<open>src/client\<close>) sends commands typed by its user as packets of
  fixed layout over TCP (\<open>include/protocol.h\<close>, \<open>src/common/protocol.c\<close>). The server
  (\<open>src/server/server.c\<close>) is two processes; the parent turns SIGINT into a byte on a pipe, the child
  accepts clients with epoll and puts their descriptors into a queue (\<open>queue.c\<close>), from which the
  workers of a thread pool (\<open>thread_pool.c\<close>, \<open>worker.c\<close>) take them. A worker holds a connection to a
  MySQL database from a pool of connections (\<open>db_pool.c\<close>) and serves one client at a time
  (\<open>session.c\<close>): log-in and registration (\<open>auth.c\<close>), directory commands on a virtual file system
  kept in tables (\<open>file_cmds.c\<close>), uploads and downloads (\<open>file_transfer.c\<close>), all through the data
  access layer (\<open>dao_vfs.c\<close>, schema in \<open>docs/database_init.sql\<close>). File contents lie in a storage
  directory under their SHA-256 digests.

  \<^bold>\<open>Conventions\<close> (\<open>C_Prelude\<close>). A call with undefined behaviour, an access outside an array, a
  dereference of NULL, is \<open>None\<close> in the type \<open>'a ub\<close>; that a function returns is proved as its value
  being \<open>Some\<close>. C strings are lists of bytes without the NUL, arrays lists of their full length;
  \<open>int\<close> is HOL's \<open>int\<close> where the code cannot leave the range and a reduction modulo \<open>2 ^ 32\<close>
  (\<open>c_int\<close>) where it can; fields of packets are words of their width. Loops are recursive functions with a
  measure, none needs fuel; input from a socket is a finite list of segments, cut as the kernel likes,
  after which the connection ends or fails. Code outside the repository is a parameter: the MySQL library
  and server, \<open>sha256sum\<close>, the operating system where its answers are not determined.

  \<^bold>\<open>Theories\<close>, in the order of their imports.
  \<^item> \<open>Protocol\<close>: packets as records and as bytes, \<open>send_full\<close>, \<open>recv_full\<close> and the packet calls over a
    socket (\<open>sock\<close>). Its lemmas say that only the byte stream matters, that packets arrive as they were
    sent, and what an accepted packet guarantees.
  \<^item> \<open>Fd_Queue\<close>: the linked list over an explicit heap. The locale \<open>fifo\<close> is what its clients
    rely on; \<open>lq\<close> interprets it on \<open>enQueue\<close> and \<open>deQueue\<close>.
  \<^item> \<open>Path_Utils\<close>, \<open>Config_Ini\<close>, \<open>Logging\<close>, \<open>Sha256_Utils\<close>: the helpers of the same names.
  \<^item> \<open>Db_Pool\<close>: the pool of connections, one function per critical section. The locale \<open>mysql_client\<close>
    holds what the pool needs of the client library. \<open>Db_Pool_Steps\<close> lets any number of threads
    interleave these sections and proves the invariants of all reachable states.
  \<^item> \<open>Dao_Conn\<close>: the connection management of \<open>dao_vfs.c\<close> on the pool, and the settings and sizes \<open>main\<close>
    gives it.
  \<^item> \<open>C_Format\<close>, \<open>Sql_Text\<close>: the texts of the queries with their exact formats, and when such a text
    denotes the statement that is meant. \<open>Sql_Tables\<close>: the tables, the meaning of the statements, and the
    database as two locales, \<open>sql_service\<close> (a statement fails or has its effect) and \<open>sql_available\<close> (a
    statement fails only when it violates a constraint), both interpreted on an executable reference
    database.
  \<^item> \<open>Dao_Vfs\<close>: every query function of \<open>dao_vfs.c\<close>, buffers and return codes included.
    \<open>Dao_Laws\<close> says inside the locales what each does to the tables, \<open>Dao_Props\<close> states the properties.
    \<open>Sql_Sent\<close> looks at the texts these functions send: that they are read back as meant, and what a
    client can do with a quote.
  \<^item> \<open>Messages\<close>, \<open>Server_World\<close>, \<open>Auth\<close>, \<open>File_Cmds\<close>, \<open>File_Transfer\<close>, \<open>Session\<close>: the replies byte by
    byte, the state a worker works on, and the handlers; \<open>Session\<close> ends with \<open>handle_request\<close>.
    \<open>Blocks\<close> is the arithmetic of downloads. \<open>Session_Laws\<close> proves of each handler, on any database, that
    it has no undefined behaviour and keeps the tables well formed; \<open>Session_Props\<close> lifts this to sessions.
  \<^item> \<open>Location\<close> relates the path text of a session to the tree of the tables. \<open>Scenario\<close> follows one
    session packet by packet.
  \<^item> \<open>Drive\<close>: the abstract specification of the directory commands, a drive with folders, names and the
    traces of removed entries, and how it is read off the tables. \<open>Drive_Refines\<close>: sessions of any
    directory commands implement it. \<open>Drive_Screen\<close>: with the client in front of the session, the drive's
    answers are what the user reads. \<open>Drive_Isolation\<close>: it leaves the drives of the other users alone. \<open>Drive_Busy\<close>,
    \<open>Drive_Among_Others\<close>: the drive of one user while the others change their rows between any two
    statements of the session.
  \<^item> \<open>Shared_Laws\<close>, \<open>Shared_Session\<close>: sessions while other workers use the database. The locale
    \<open>sql_shared\<close> is what one worker can rely on between its statements and what it owes the others;
    \<open>sql_service\<close> is its special case, and \<open>crowd\<close>, a database that runs statements of others in between,
    its instance. \<open>Shared_Race\<close>: what two statements in a row do not protect.
  \<^item> \<open>Transfer_Laws\<close>, \<open>Transfer_Props\<close>: uploads and downloads. \<open>Instant_Upload\<close>: uploads of
    contents that are there already, by server and client.
  \<^item> \<open>Client_Texts\<close>, \<open>Client\<close>: the client's commands, its local files and its loop; \<open>Client_Laws\<close> and
    \<open>Client_Transfer\<close> are their lemmas. \<open>Client_Props\<close> closes the loop: client and server, each receiving
    what the other sends.
  \<^item> \<open>Thread_Pool\<close>: workers, queue, exit handler as a step relation with the lemmas that keep its
    invariants; \<open>Thread_Pool_Props\<close>: where clients are, wake-ups, how the server ends, who is served. A
    step may be a spurious wake-up or a client that hangs up, so the statements on progress do not lean on
    these: \<open>forced_step\<close> is what the threads do by themselves, and a \<open>fair_run\<close> need not contain a wake-up
    that the code does not send.
  \<^item> \<open>Sockets\<close>: socket set-up of both programs and the epoll helpers as system calls and outcomes.
    \<open>Server_Main\<close>: \<open>main\<close> from its start to the event loop, and the loop as a run of the system of
    \<open>Thread_Pool\<close>. \<open>Client_Main\<close>: \<open>main\<close> of the client.

  \<^bold>\<open>What the properties say.\<close> Transport is faithful; sessions on a well-behaved database do what
  the abstract drive says and keep the tables well formed; strangers can do nothing; an upload is stored
  and sent back; registration and log-in fit together. The sessions of two users do not disturb each
  other, not even when their statements interleave, and sessions are safe whatever statements run
  between theirs; two workers of one user can get in each other's way. No connection is used by two
  threads, no client by two workers, no wake-up is lost, and the exit ends. The properties of kind error record where
  the code goes wrong: the two programs disagree on downloads and instant uploads, digests are trusted, arguments
  of queries are not escaped, the pool of the server is configured to overrun its array.

  \<^bold>\<open>Bounds.\<close> Names are at most 190 or 200 bytes long where a query has to fit its buffer of 512 bytes, paths
  at most 511; sizes are below \<open>2 ^ 63\<close>, the range of the column; the number of blocks is below \<open>2 ^ 31\<close>,
  beyond which the conversion to \<open>int\<close> is not the number of blocks any more. A pool is looked at from a
  \<open>db_pool_init\<close> that has returned. A port is an \<open>int\<close>.

  \<^bold>\<open>Not modelled.\<close> What lines are logged inside the handlers (the logging functions themselves are
  modelled); \<open>errno\<close>; time stamps of the tables; the order of the rows of a result,
  which is left open even where the query asks for one; the time a thread waits; what the database
  does during a statement, of which only the documented outcome is used; two uploads that write the
  same file at once (uploads are verified one after the other); the size of a thread's stack, which the
  block packet of a download, a local variable of 10 MB, has to fit; the character set of the columns:
  \<open>sql_available\<close> takes texts to be valid in it. \<open>handle_request\<close> is one step of the
  thread pool: it works on the client and the database only. The client's terminal is the text read
  and the text written. An older version of \<open>dao_list_dir\<close> in a comment of \<open>dao_vfs.c\<close> is left out.
  The lines of the sources that no definition translates are comments, prototypes and \<open>#include\<close> lines.
\<close>

end
